(* ===== verification/Prelude.thy ===== *)
theory Prelude
  imports Complex_Main "HOL-Library.AList" "HOL-Library.List_Lexorder" "HOL-Library.Char_ord"
    "HOL-Library.Product_Lexorder" "HOL-Library.Multiset" "HOL-Library.Sublist"
begin

text \<open>
  What every component of the model shares: exceptions as values, programs over an explicit
  state with Python's \<open>try ... finally\<close>, insertion-ordered dictionaries, and two interfaces
  (an encoding with its decoding; an order on states that every step climbs).
\<close>

section \<open>Errors as values\<close>

text \<open>
  The exceptions the sources raise or catch, by class. \<open>OutOfFuel\<close> is no exception of the
  program: it is what a fuelled loop of the model returns when it stops following the program.
\<close>

datatype os_error = FileNotFound | NotADirectory | PermissionDenied | OtherOSError

datatype exn =
    KeyError string
  | IndexError
  | ValueError
  | TypeError
  | StatisticsError
  | RuntimeError string
  | OSErr os_error
  | CalledProcessError
  | HTTPException
  | ZMQError
  | SystemExit string
  | OutOfFuel

type_synonym 'a res = "exn + 'a"

named_theorems res_simps \<open>unfolding of the result and program combinators\<close>

definition rbind :: "'a res \<Rightarrow> ('a \<Rightarrow> 'b res) \<Rightarrow> 'b res" where
  "rbind r f = (case r of Inl e \<Rightarrow> Inl e | Inr x \<Rightarrow> f x)"

lemma rbind_simps [simp, res_simps]:
  "rbind (Inl e) f = Inl e"
  "rbind (Inr x) f = f x"
  by (simp_all add: rbind_def)

lemma rbind_Inr_iff: "rbind r f = Inr y \<longleftrightarrow> (\<exists>x. r = Inr x \<and> f x = Inr y)"
  by (cases r) auto

lemma rbind_split:
  "P (rbind r f) \<longleftrightarrow> (\<forall>e. r = Inl e \<longrightarrow> P (Inl e)) \<and> (\<forall>x. r = Inr x \<longrightarrow> P (f x))"
  by (cases r) auto

text \<open>A comprehension whose element expression can raise: the first exception wins.\<close>

fun rmap :: "('a \<Rightarrow> 'b res) \<Rightarrow> 'a list \<Rightarrow> 'b list res" where
  "rmap f [] = Inr []"
| "rmap f (x # xs) = rbind (f x) (\<lambda>y. rbind (rmap f xs) (\<lambda>ys. Inr (y # ys)))"

lemma rmap_Inr: "(\<And>x. x \<in> set xs \<Longrightarrow> f x = Inr (g x)) \<Longrightarrow> rmap f xs = Inr (map g xs)"
  by (induction xs) auto

lemma rmap_map: "rmap f (map g xs) = rmap (f \<circ> g) xs"
  by (induction xs) auto

lemma rmap_length: "rmap f xs = Inr ys \<Longrightarrow> length ys = length xs"
  by (induction xs arbitrary: ys) (auto simp: rbind_Inr_iff)

section \<open>Programs over a state\<close>

type_synonym ('s, 'a) prog = "'s \<Rightarrow> 'a res \<times> 's"

definition pret :: "'a \<Rightarrow> ('s, 'a) prog" where
  "pret x s = (Inr x, s)"

definition praise :: "exn \<Rightarrow> ('s, 'a) prog" where
  "praise e s = (Inl e, s)"

definition plift :: "'a res \<Rightarrow> ('s, 'a) prog" where
  "plift r s = (r, s)"

definition pbind :: "('s, 'a) prog \<Rightarrow> ('a \<Rightarrow> ('s, 'b) prog) \<Rightarrow> ('s, 'b) prog" where
  "pbind m f s = (case m s of (Inl e, t) \<Rightarrow> (Inl e, t) | (Inr x, t) \<Rightarrow> f x t)"

text \<open>
  \<open>try: body finally: fin\<close>: the second part runs whatever the first did, and an exception of
  its own replaces the first one's. A body the model stopped following runs no second part.
\<close>

definition pfinally :: "('s, 'a) prog \<Rightarrow> ('s, unit) prog \<Rightarrow> ('s, 'a) prog" where
  "pfinally body fin s = (case body s of (r, t) \<Rightarrow>
     if r = Inl OutOfFuel then (r, t)
     else (case fin t of (Inl e, u) \<Rightarrow> (Inl e, u) | (Inr _, u) \<Rightarrow> (r, u)))"

text \<open>\<open>try: ... except Exception\<close>: the exception becomes a value.\<close>

definition ptry :: "('s, 'a) prog \<Rightarrow> ('s, 'a res) prog" where
  "ptry m s = (case m s of (Inl OutOfFuel, t) \<Rightarrow> (Inl OutOfFuel, t) | (r, t) \<Rightarrow> (Inr r, t))"

fun pfor :: "'a list \<Rightarrow> ('a \<Rightarrow> ('s, unit) prog) \<Rightarrow> ('s, unit) prog" where
  "pfor [] f = pret ()"
| "pfor (x # xs) f = pbind (f x) (\<lambda>_. pfor xs f)"

lemmas prog_defs = pret_def praise_def plift_def pbind_def pfinally_def

lemma pret_run [simp, res_simps]: "pret x s = (Inr x, s)"
  by (simp add: pret_def)

lemma praise_run [simp, res_simps]: "praise e s = (Inl e, s)"
  by (simp add: praise_def)

lemma plift_run [simp, res_simps]: "plift r s = (r, s)"
  by (simp add: plift_def)

lemma pbind_Pair [simp, res_simps]:
  "pbind (Pair (Inr x)) f = f x"
  "pbind (Pair (Inl e)) f = Pair (Inl e)"
  by (simp_all add: pbind_def fun_eq_iff)

lemma pbind_ret: "pbind (pret x) f = f x"
  by (simp add: pbind_def fun_eq_iff)

lemma pbind_assoc: "pbind (pbind m f) g = pbind m (\<lambda>x. pbind (f x) g)"
  by (auto simp: pbind_def fun_eq_iff split: prod.splits sum.splits)

lemma pfor_append: "pfor (xs @ ys) f = pbind (pfor xs f) (\<lambda>_. pfor ys f)"
  by (induction xs) (auto simp: pbind_assoc)

text \<open>
  An order on states that every step of a program climbs: the log only grows, the output file
  only grows, the clock's reading number only goes up. The combinators preserve it, so each
  such fact about a composed handler needs only its primitive steps.
\<close>

locale effect_order =
  fixes leq :: "'s \<Rightarrow> 's \<Rightarrow> bool"
  assumes leq_refl: "leq s s"
    and leq_trans: "leq s t \<Longrightarrow> leq t u \<Longrightarrow> leq s u"
begin

definition climbs :: "('s, 'a) prog \<Rightarrow> bool" where
  "climbs m \<longleftrightarrow> (\<forall>s. leq s (snd (m s)))"

lemma climbsD: "climbs m \<Longrightarrow> leq s (snd (m s))"
  by (simp add: climbs_def)

lemma climbs_result: "climbs m \<Longrightarrow> m s = (r, t) \<Longrightarrow> leq s t"
  by (metis climbsD snd_conv)

lemma climbs_ret: "climbs (pret x)"
  by (simp add: climbs_def leq_refl)

lemma climbs_raise: "climbs (praise e)"
  by (simp add: climbs_def leq_refl)

lemma climbs_lift: "climbs (plift r)"
  by (simp add: climbs_def leq_refl)

lemma climbs_bind: "climbs m \<Longrightarrow> (\<And>x. climbs (f x)) \<Longrightarrow> climbs (pbind m f)"
  unfolding climbs_def pbind_def
  by (auto split: prod.splits sum.splits) (metis leq_trans snd_conv)+

lemma climbs_finally: "climbs m \<Longrightarrow> climbs fin \<Longrightarrow> climbs (pfinally m fin)"
  unfolding climbs_def pfinally_def
  by (auto split: prod.splits sum.splits) (metis leq_trans snd_conv)+

lemma climbs_try: "climbs m \<Longrightarrow> climbs (ptry m)"
  unfolding climbs_def ptry_def
  by (auto split: prod.splits sum.splits exn.splits) (metis snd_conv)+

lemma climbs_for: "(\<And>x. x \<in> set xs \<Longrightarrow> climbs (f x)) \<Longrightarrow> climbs (pfor xs f)"
  by (induction xs) (simp_all add: climbs_ret climbs_bind)

lemma climbs_if: "(b \<Longrightarrow> climbs m) \<Longrightarrow> (\<not> b \<Longrightarrow> climbs n) \<Longrightarrow> climbs (if b then m else n)"
  by simp

lemmas climbs_intros =
  climbs_ret climbs_raise climbs_lift climbs_bind climbs_finally climbs_try climbs_for climbs_if

end

section \<open>Dictionaries\<close>

text \<open>
  A Python dictionary keeps its insertion order, and the order shows in the outputs: it is the
  association list of \<open>HOL-Library.AList\<close>, whose \<open>update\<close> replaces a value in place and appends
  a new key, as assignment to a subscript does.
\<close>

type_synonym ('k, 'v) dict = "('k \<times> 'v) list"

abbreviation dict_set :: "('k, 'v) dict \<Rightarrow> 'k \<Rightarrow> 'v \<Rightarrow> ('k, 'v) dict" where
  "dict_set d k v \<equiv> AList.update k v d"

abbreviation dict_del :: "('k, 'v) dict \<Rightarrow> 'k \<Rightarrow> ('k, 'v) dict" where
  "dict_del d k \<equiv> AList.delete k d"

abbreviation dict_keys :: "('k, 'v) dict \<Rightarrow> 'k list" where
  "dict_keys d \<equiv> map fst d"

text \<open>Subscripting a missing key raises.\<close>

definition dict_get :: "(string, 'v) dict \<Rightarrow> string \<Rightarrow> 'v res" where
  "dict_get d k = (case map_of d k of None \<Rightarrow> Inl (KeyError k) | Some v \<Rightarrow> Inr v)"

lemma dict_get_Inr_iff: "dict_get d k = Inr v \<longleftrightarrow> map_of d k = Some v"
  by (simp add: dict_get_def split: option.splits)

lemma map_of_dict_set [simp]: "map_of (dict_set d k v) = (map_of d)(k \<mapsto> v)"
  by (rule AList.update_conv')

lemma map_of_dict_del [simp]: "map_of (dict_del d k) = (map_of d)(k := None)"
  by (rule AList.delete_conv')

lemma distinct_dict_set [intro, simp]: "distinct (dict_keys d) \<Longrightarrow> distinct (dict_keys (dict_set d k v))"
  by (rule AList.distinct_update)

lemma distinct_dict_del [intro, simp]: "distinct (dict_keys d) \<Longrightarrow> distinct (dict_keys (dict_del d k))"
  by (rule AList.distinct_delete)

lemma fst_set_dict_set [simp]: "fst ` set (dict_set d k v) = insert k (fst ` set d)"
  by (simp add: AList.dom_update)

lemma fst_set_dict_del [simp]: "fst ` set (dict_del d k) = fst ` set d - {k}"
  by (auto simp: AList.delete_eq)

lemma in_dict_setD: "x \<in> set (dict_set d k v) \<Longrightarrow> x = (k, v) \<or> x \<in> set d"
  by (induction d) (auto split: if_splits)

text \<open>A dictionary built from pairs with distinct keys is the list of the pairs.\<close>

lemma fold_dict_set_distinct:
  "distinct (map fst (d @ kvs)) \<Longrightarrow> fold (\<lambda>(k, v) d. dict_set d k v) kvs d = d @ kvs"
proof (induction kvs arbitrary: d)
  case (Cons kv kvs)
  obtain k v where kv: "kv = (k, v)" by (cases kv)
  have "k \<notin> set (map fst d)" using Cons.prems kv by auto
  then have "dict_set d k v = d @ [(k, v)]"
    by (induction d) auto
  then show ?case
    using Cons.IH [of "d @ [(k, v)]"] Cons.prems kv by simp
qed simp

lemma set_dict_del: "set (dict_del d k) = {(k', v) \<in> set d. k' \<noteq> k}"
  by (auto simp: AList.delete_eq)

section \<open>Encodings\<close>

text \<open>
  The contract of a printed or framed form: what is written in it, for the values it is meant
  for, is read back. Injectivity follows, and with it that two writers who print the same text
  meant the same value.
\<close>

locale codec =
  fixes enc :: "'a \<Rightarrow> 'b" and dec :: "'b \<Rightarrow> 'a option" and valid :: "'a \<Rightarrow> bool"
  assumes dec_enc: "valid x \<Longrightarrow> dec (enc x) = Some x"
begin

lemma enc_inj: "valid x \<Longrightarrow> valid y \<Longrightarrow> enc x = enc y \<longleftrightarrow> x = y"
  by (metis dec_enc option.inject)

lemma enc_inj_on: "inj_on enc {x. valid x}"
  by (rule inj_onI) (simp add: enc_inj)

lemma those_map_dec: "(\<And>x. x \<in> set xs \<Longrightarrow> valid x) \<Longrightarrow> those (map dec (map enc xs)) = Some xs"
  by (induction xs) (simp_all add: dec_enc)

end

section \<open>Lists\<close>

lemma takeWhile_all: "(\<And>x. x \<in> set xs \<Longrightarrow> P x) \<Longrightarrow> takeWhile P xs = xs"
  by (induction xs) auto

lemma dropWhile_all: "(\<And>x. x \<in> set xs \<Longrightarrow> P x) \<Longrightarrow> dropWhile P xs = []"
  by (induction xs) auto

lemma span_append:
  assumes "\<And>x. x \<in> set xs \<Longrightarrow> P x" and "ys = [] \<or> \<not> P (hd ys)"
  shows "takeWhile P (xs @ ys) = xs" and "dropWhile P (xs @ ys) = ys"
  using assms by (induction xs) (cases ys; auto)+

lemma map_of_keyed:
  assumes "i \<in> set is" "\<And>i j. f i = f j \<longleftrightarrow> i = j"
  shows "map_of (map (\<lambda>i. (f i, g i)) is) (f i) = Some (g i)"
  using assms by (induction "is") auto

lemma sum_list_int: "int (sum_list xs) = sum_list (map int xs)"
  by (induction xs) auto

end
