(* ===== verification/PyText.thy ===== *)
theory PyText
  imports Prelude
begin

text \<open>
  The string operations of the Python library that the sources use, on strings as lists of
  characters: joining, the three ways of splitting, padding, and the decimal form of integers
  with its reader. Characters are bytes; the generated texts are ASCII.
\<close>

section \<open>Joining and splitting\<close>

fun str_join :: "string \<Rightarrow> string list \<Rightarrow> string" where
  "str_join sep [] = []"
| "str_join sep [x] = x"
| "str_join sep (x # y # ys) = x @ sep @ str_join sep (y # ys)"

lemma str_join_Cons: "xs \<noteq> [] \<Longrightarrow> str_join sep (x # xs) = x @ sep @ str_join sep xs"
  by (cases xs) auto

text \<open>\<open>s.split(c)\<close> for a one-character separator: never empty, also for the empty string.\<close>

fun split_char :: "char \<Rightarrow> string \<Rightarrow> string list" where
  "split_char c [] = [[]]"
| "split_char c (x # xs) =
     (if x = c then [] # split_char c xs
      else (case split_char c xs of [] \<Rightarrow> [[x]] | w # ws \<Rightarrow> (x # w) # ws))"

lemma split_char_not_Nil [simp]: "split_char c s \<noteq> []"
  by (induction s) (auto split: list.splits)

lemma split_char_free: "c \<notin> set w \<Longrightarrow> split_char c w = [w]"
  by (induction w) auto

lemma split_char_append: "c \<notin> set w \<Longrightarrow> split_char c (w @ c # s) = w # split_char c s"
  by (induction w) auto

lemma split_char_join:
  "ws \<noteq> [] \<Longrightarrow> (\<And>w. w \<in> set ws \<Longrightarrow> c \<notin> set w) \<Longrightarrow> split_char c (str_join [c] ws) = ws"
  by (induction "[c]" ws rule: str_join.induct) (auto simp: split_char_free split_char_append)

lemma split_char_both: "split_char c (x @ c # y) = split_char c x @ split_char c y"
  by (induction x) (auto split: list.splits)

text \<open>\<open>s.split(c, n)\<close>: at most \<open>n\<close> cuts, the rest of the string in the last piece.\<close>

fun splitn_char :: "char \<Rightarrow> nat \<Rightarrow> string \<Rightarrow> string list" where
  "splitn_char c 0 s = [s]"
| "splitn_char c (Suc n) [] = [[]]"
| "splitn_char c (Suc n) (x # xs) =
     (if x = c then [] # splitn_char c n xs
      else (case splitn_char c (Suc n) xs of [] \<Rightarrow> [[x]] | w # ws \<Rightarrow> (x # w) # ws))"

lemma splitn_char_append: "c \<notin> set w \<Longrightarrow> splitn_char c (Suc n) (w @ c # s) = w # splitn_char c n s"
  by (induction w) auto

lemma splitn_char_free: "c \<notin> set w \<Longrightarrow> splitn_char c n w = [w]"
  by (induction w; cases n) auto

text \<open>The first occurrence of a substring: what stands before it and after it.\<close>

fun find_sub :: "string \<Rightarrow> string \<Rightarrow> (string \<times> string) option" where
  "find_sub sep [] = (if sep = [] then Some ([], []) else None)"
| "find_sub sep (x # xs) =
     (if prefix sep (x # xs) then Some ([], drop (length sep) (x # xs))
      else map_option (\<lambda>(b, a). (x # b, a)) (find_sub sep xs))"

lemma find_sub_Some: "find_sub sep s = Some (b, a) \<Longrightarrow> s = b @ sep @ a"
proof (induction s arbitrary: b)
  case (Cons x xs)
  then show ?case
    by (auto split: if_splits elim!: prefixE)
qed (auto split: if_splits)

lemma find_sub_None_append: "find_sub [c] w = None \<longleftrightarrow> c \<notin> set w"
  by (induction w) auto

lemma find_sub_char: "c \<notin> set w \<Longrightarrow> find_sub [c] (w @ c # s) = Some (w, s)"
  by (induction w) auto

lemma find_sub_None_iff: "find_sub sep s = None \<longleftrightarrow> \<not> sublist sep s"
  by (induction s) (auto simp: sublist_Cons_right)

text \<open>The first occurrence stands after a text without one whose last character is not of the substring.\<close>

lemma find_sub_after:
  assumes "sep \<noteq> []" "\<not> sublist sep w" "w \<noteq> [] \<Longrightarrow> last w \<notin> set sep"
  shows "find_sub sep (w @ sep @ rest) = Some (w, rest)"
  using assms(2,3)
proof (induction w)
  case Nil
  then show ?case
    using assms(1) by (cases sep) simp_all
next
  case (Cons x w)
  have "\<not> prefix sep ((x # w) @ sep @ rest)"
  proof
    assume "prefix sep ((x # w) @ sep @ rest)"
    then have "prefix sep (x # w) \<or> prefix (x # w) sep"
      by (meson prefix_same_cases prefixI)
    then show False
    proof
      assume "prefix sep (x # w)"
      then show False
        using Cons.prems(1) by auto
    next
      assume "prefix (x # w) sep"
      then have "last (x # w) \<in> set sep"
        by (auto elim!: prefixE)
      then show False
        using Cons.prems(2) by simp
    qed
  qed
  moreover have "find_sub sep (w @ sep @ rest) = Some (w, rest)"
  proof (rule Cons.IH)
    show "\<not> sublist sep w"
      using Cons.prems(1) by (simp add: sublist_Cons_right)
    show "w \<noteq> [] \<Longrightarrow> last w \<notin> set sep"
      using Cons.prems(2) by simp
  qed
  ultimately show ?case
    by simp
qed

lemma prefix_before: "c \<notin> set sep \<Longrightarrow> prefix sep (a @ c # b) \<longleftrightarrow> prefix sep a"
proof (induction sep arbitrary: a)
  case (Cons x sep)
  then show ?case
    by (cases a) auto
qed simp

lemma sublist_across:
  "c \<notin> set sep \<Longrightarrow> sublist sep (a @ c # b) \<longleftrightarrow> sublist sep a \<or> sublist sep b"
proof (induction a)
  case Nil
  then show ?case
    by (cases sep) (auto simp: sublist_Cons_right)
next
  case (Cons x a)
  then show ?case
    using prefix_before [of c sep "x # a" b] by (simp add: sublist_Cons_right)
qed

text \<open>\<open>s.partition(sep)\<close>.\<close>

definition str_partition :: "string \<Rightarrow> string \<Rightarrow> string \<times> string \<times> string" where
  "str_partition sep s =
     (case find_sub sep s of None \<Rightarrow> (s, [], []) | Some (b, a) \<Rightarrow> (b, sep, a))"

lemma str_partition_char: "c \<notin> set w \<Longrightarrow> str_partition [c] (w @ c # s) = (w, [c], s)"
  by (simp add: str_partition_def find_sub_char)

text \<open>\<open>s.split(sep)\<close> for a separator of several characters.\<close>

function split_sub :: "string \<Rightarrow> string \<Rightarrow> string list" where
  "split_sub sep s =
     (if sep = [] then [s]
      else (case find_sub sep s of None \<Rightarrow> [s] | Some (b, a) \<Rightarrow> b # split_sub sep a))"
  by pat_completeness auto
termination
proof (relation "measure (\<lambda>(sep, s). length s)", simp)
  fix sep s p b a
  assume "sep \<noteq> []" "find_sub sep s = Some p" "(b, a) = p"
  then show "((sep, a), (sep, s)) \<in> measure (\<lambda>(sep, s). length s)"
    using find_sub_Some [of sep s b a] by (simp add: length_greater_0_conv [symmetric] del: length_greater_0_conv)
qed

declare split_sub.simps [simp del]

lemma split_sub_after:
  assumes "sep \<noteq> []" "\<not> sublist sep w" "w \<noteq> [] \<Longrightarrow> last w \<notin> set sep"
  shows "split_sub sep (w @ sep @ rest) = w # split_sub sep rest"
  using find_sub_after [OF assms] assms(1) by (subst split_sub.simps) simp

lemma split_sub_free: "\<not> sublist sep w \<Longrightarrow> split_sub sep w = [w]"
  by (subst split_sub.simps) (simp add: find_sub_None_iff [THEN iffD2])

lemma split_sub_not_Nil [simp]: "split_sub sep s \<noteq> []"
  by (subst split_sub.simps) (auto split: option.splits prod.splits)

text \<open>
  \<open>s.splitlines()\<close>: the line ends of ASCII text are newline, carriage return (the pair counts
  once), vertical tab, form feed and the three separators from 28 to 30. No last empty line.
\<close>

definition is_linebreak :: "char \<Rightarrow> bool" where
  "is_linebreak c \<longleftrightarrow> (of_char c :: nat) \<in> {10, 11, 12, 13, 28, 29, 30}"

lemma is_linebreak_chars [simp]: "is_linebreak CHR 0x0A" "is_linebreak CHR 0x0D" "\<not> is_linebreak CHR 0x09"
  by (simp_all add: is_linebreak_def)

fun splitlines_aux :: "string \<Rightarrow> string \<Rightarrow> string list" where
  "splitlines_aux acc [] = (if acc = [] then [] else [rev acc])"
| "splitlines_aux acc (x # xs) =
     (if is_linebreak x
      then rev acc # splitlines_aux []
             (if x = CHR 0x0D \<and> xs \<noteq> [] \<and> hd xs = CHR 0x0A then tl xs else xs)
      else splitlines_aux (x # acc) xs)"

definition splitlines :: "string \<Rightarrow> string list" where
  "splitlines s = splitlines_aux [] s"

lemma splitlines_aux_line:
  "(\<And>c. c \<in> set w \<Longrightarrow> \<not> is_linebreak c) \<Longrightarrow>
   splitlines_aux acc (w @ CHR 0x0A # s) = (rev acc @ w) # splitlines_aux [] s"
  by (induction w arbitrary: acc) (simp_all add: is_linebreak_def)

lemma splitlines_aux_last:
  "(\<And>c. c \<in> set w \<Longrightarrow> \<not> is_linebreak c) \<Longrightarrow>
   splitlines_aux acc w = (if acc = [] \<and> w = [] then [] else [rev acc @ w])"
  by (induction w arbitrary: acc) simp_all

lemma splitlines_Cons_line:
  "(\<And>c. c \<in> set w \<Longrightarrow> \<not> is_linebreak c) \<Longrightarrow>
   splitlines (w @ CHR 0x0A # s) = w # splitlines s"
  by (simp add: splitlines_def splitlines_aux_line)

text \<open>Cutting a text at a newline cuts its lines, but for an empty one after a carriage return.\<close>

lemma splitlines_newline:
  "filter ((\<noteq>) []) (splitlines (a @ CHR 0x0A # b)) = filter ((\<noteq>) []) (splitlines a @ splitlines b)"
proof -
  have "filter ((\<noteq>) []) (splitlines_aux acc (a @ CHR 0x0A # b)) =
      filter ((\<noteq>) []) (splitlines_aux acc a @ splitlines_aux [] b)" for acc
  proof (induction acc a rule: splitlines_aux.induct)
    case (1 acc)
    show ?case
      by simp
  next
    case (2 acc x xs)
    show ?case
    proof (cases "is_linebreak x")
      case True
      show ?thesis
      proof (cases "x = CHR 0x0D")
        case cr: True
        show ?thesis
        proof (cases xs)
          case Nil
          then show ?thesis
            using cr by simp
        next
          case (Cons y ys)
          have step: "splitlines_aux acc (x # y # zs) =
              rev acc # splitlines_aux [] (if y = CHR 0x0A then zs else y # zs)" for zs
            using cr by simp
          show ?thesis
            using 2(1) [OF True] cr unfolding Cons append_Cons step
            by (cases "y = CHR 0x0A") (simp_all del: splitlines_aux.simps)
        qed
      next
        case False
        then show ?thesis
          using 2(1) [OF True] True by simp
      qed
    next
      case False
      then show ?thesis
        using 2(2) [OF False] by simp
    qed
  qed
  then show ?thesis
    by (simp add: splitlines_def)
qed

lemma splitlines_chars: "l \<in> set (splitlines s) \<Longrightarrow> set l \<subseteq> set s"
proof -
  have "l \<in> set (splitlines_aux acc s) \<Longrightarrow> set l \<subseteq> set acc \<union> set s" for acc
    by (induction acc s rule: splitlines_aux.induct) (auto split: if_splits dest: list.set_sel(2))
  from this [of "[]"] show "l \<in> set (splitlines s) \<Longrightarrow> set l \<subseteq> set s"
    by (simp add: splitlines_def)
qed

section \<open>Padding and trimming\<close>

definition ljust :: "nat \<Rightarrow> string \<Rightarrow> string" where
  "ljust n s = s @ replicate (n - length s) CHR '' ''"

definition rjust :: "nat \<Rightarrow> string \<Rightarrow> string" where
  "rjust n s = replicate (n - length s) CHR '' '' @ s"

definition zfill_left :: "nat \<Rightarrow> string \<Rightarrow> string" where
  "zfill_left n s = replicate (n - length s) CHR ''0'' @ s"

lemma length_zfill_left: "length (zfill_left n s) = max n (length s)"
  by (simp add: zfill_left_def)

definition is_space :: "char \<Rightarrow> bool" where
  "is_space c \<longleftrightarrow> (let k = (of_char c :: nat) in 9 \<le> k \<and> k \<le> 13 \<or> 28 \<le> k \<and> k \<le> 32)"

definition str_strip :: "string \<Rightarrow> string" where
  "str_strip s = rev (dropWhile is_space (rev (dropWhile is_space s)))"

lemma str_strip_id:
  assumes "s \<noteq> []" "\<not> is_space (hd s)" "\<not> is_space (last s)"
  shows "str_strip s = s"
proof -
  have "dropWhile is_space s = s"
    using assms(1,2) by (cases s) auto
  moreover have "dropWhile is_space (rev s) = rev s"
    using assms(1,3) by (cases s rule: rev_cases) auto
  ultimately show ?thesis
    by (simp add: str_strip_def)
qed

section \<open>Decimal integers\<close>

definition digit_char :: "nat \<Rightarrow> char" where
  "digit_char n = ''0123456789'' ! n"

definition digit_val :: "char \<Rightarrow> nat option" where
  "digit_val c = (let k = (of_char c :: nat) in if 48 \<le> k \<and> k \<le> 57 then Some (k - 48) else None)"

definition is_digit :: "char \<Rightarrow> bool" where
  "is_digit c \<longleftrightarrow> digit_val c \<noteq> None"

lemma less_10_cases: "(n::nat) < 10 \<Longrightarrow> n \<in> {0, 1, 2, 3, 4, 5, 6, 7, 8, 9}"
  by auto

lemma digit_val_char [simp]: "n < 10 \<Longrightarrow> digit_val (digit_char n) = Some n"
  by (drule less_10_cases) (elim insertE emptyE; simp add: digit_char_def digit_val_def)

lemma is_digit_char [simp]: "n < 10 \<Longrightarrow> is_digit (digit_char n)"
  by (simp add: is_digit_def)

lemma digit_val_bound: "digit_val c = Some n \<Longrightarrow> n < 10"
  by (auto simp: digit_val_def Let_def split: if_splits)

fun str_of_nat :: "nat \<Rightarrow> string" where
  "str_of_nat n = (if n < 10 then [digit_char n] else str_of_nat (n div 10) @ [digit_char (n mod 10)])"

declare str_of_nat.simps [simp del]

lemma str_of_nat_small: "n < 10 \<Longrightarrow> str_of_nat n = [digit_char n]"
  by (simp add: str_of_nat.simps)

lemma str_of_nat_step: "10 \<le> n \<Longrightarrow> str_of_nat n = str_of_nat (n div 10) @ [digit_char (n mod 10)]"
  by (subst str_of_nat.simps) simp

text \<open>Reading digits from the left; \<open>None\<close> at the first character that is none.\<close>

fun nat_of_digits :: "nat \<Rightarrow> string \<Rightarrow> nat option" where
  "nat_of_digits acc [] = Some acc"
| "nat_of_digits acc (c # cs) =
     (case digit_val c of None \<Rightarrow> None | Some d \<Rightarrow> nat_of_digits (10 * acc + d) cs)"

lemma nat_of_digits_append:
  "nat_of_digits acc (xs @ ys) = Option.bind (nat_of_digits acc xs) (\<lambda>a. nat_of_digits a ys)"
  by (induction xs arbitrary: acc) (auto split: option.splits)

lemma nat_of_digits_str [simp]: "nat_of_digits 0 (str_of_nat n) = Some n"
proof (induction n rule: str_of_nat.induct)
  case (1 n)
  show ?case
  proof (cases "n < 10")
    case True
    then show ?thesis by (simp add: str_of_nat_small)
  next
    case False
    with 1 show ?thesis by (simp add: str_of_nat_step nat_of_digits_append)
  qed
qed

lemma str_of_nat_digits: "c \<in> set (str_of_nat n) \<Longrightarrow> is_digit c"
  by (induction n rule: str_of_nat.induct) (subst (asm) (2) str_of_nat.simps, auto split: if_splits)

lemma str_of_nat_not_Nil [simp]: "str_of_nat n \<noteq> []"
  by (subst str_of_nat.simps) simp

lemma str_of_nat_inj [simp]: "str_of_nat m = str_of_nat n \<longleftrightarrow> m = n"
  by (metis nat_of_digits_str option.inject)

lemma length_str_of_nat_bound: "n < 10 ^ k \<Longrightarrow> 0 < k \<Longrightarrow> length (str_of_nat n) \<le> k"
proof (induction k arbitrary: n)
  case (Suc k)
  show ?case
  proof (cases "n < 10")
    case True
    then show ?thesis by (simp add: str_of_nat_small)
  next
    case False
    with Suc.prems have "n div 10 < 10 ^ k" by (simp add: div_less_iff_less_mult mult.commute)
    moreover from this False have "0 < k" by (cases k) auto
    ultimately show ?thesis
      using Suc.IH [of "n div 10"] False by (simp add: str_of_nat_step)
  qed
qed simp

definition str_of_int :: "int \<Rightarrow> string" where
  "str_of_int i = (if i < 0 then CHR ''-'' # str_of_nat (nat (- i)) else str_of_nat (nat i))"

lemma is_digit_props [simp]:
  "\<not> is_digit CHR ''-''" "\<not> is_digit CHR ''+''" "\<not> is_digit CHR '' ''" "\<not> is_digit CHR '':''"
  "\<not> is_digit CHR ''/''" "\<not> is_digit CHR ''.''" "\<not> is_digit CHR '',''" "\<not> is_digit CHR 0x22"
  "\<not> is_digit CHR 0x0A" "\<not> is_digit CHR 0x0D" "\<not> is_digit CHR 0x09" "\<not> is_digit CHR 0x00"
  "\<not> is_digit CHR ''_''" "\<not> is_digit CHR ''e''" "\<not> is_digit CHR ''E''" "\<not> is_digit CHR ''}''"
  by (simp_all add: is_digit_def digit_val_def)

lemma is_digit_not_space: "is_digit c \<Longrightarrow> \<not> is_space c"
  by (auto simp: is_digit_def digit_val_def is_space_def Let_def split: if_splits)

lemma str_of_nat_free: "\<not> is_digit c \<Longrightarrow> c \<notin> set (str_of_nat n)"
  using str_of_nat_digits by blast

lemma str_of_int_not_Nil [simp]: "str_of_int i \<noteq> []"
  by (simp add: str_of_int_def)

lemma str_of_int_free: "\<not> is_digit c \<Longrightarrow> c \<noteq> CHR ''-'' \<Longrightarrow> c \<notin> set (str_of_int i)"
  by (auto simp: str_of_int_def str_of_nat_free)

lemma str_of_int_of_nat [simp]: "str_of_int (int n) = str_of_nat n"
  by (simp add: str_of_int_def)

text \<open>
  \<open>int(s)\<close>: surrounding white space, a sign, then digits with single underscores between them.
  Anything else is a \<open>ValueError\<close>.
\<close>

fun drop_underscores :: "string \<Rightarrow> string option" where
  "drop_underscores [] = Some []"
| "drop_underscores [c] = (if c = CHR ''_'' then None else Some [c])"
| "drop_underscores (c # d # cs) =
     (if c = CHR ''_'' then None
      else if d = CHR ''_''
      then (if cs = [] then None else map_option ((#) c) (drop_underscores cs))
      else map_option ((#) c) (drop_underscores (d # cs)))"

definition unsigned_of_str :: "string \<Rightarrow> nat option" where
  "unsigned_of_str s = (if s = [] then None
     else Option.bind (drop_underscores s) (nat_of_digits 0))"

definition int_of_str :: "string \<Rightarrow> int res" where
  "int_of_str s0 =
     (let s = str_strip s0;
          r = (case s of
                 [] \<Rightarrow> None
               | c # cs \<Rightarrow>
                   if c = CHR ''-'' then map_option (\<lambda>n. - int n) (unsigned_of_str cs)
                   else if c = CHR ''+'' then map_option int (unsigned_of_str cs)
                   else map_option int (unsigned_of_str s))
      in case r of None \<Rightarrow> Inl ValueError | Some i \<Rightarrow> Inr i)"

lemma drop_underscores_free: "CHR ''_'' \<notin> set s \<Longrightarrow> drop_underscores s = Some s"
  by (induction s rule: drop_underscores.induct) auto

lemma unsigned_of_str_nat [simp]: "unsigned_of_str (str_of_nat n) = Some n"
  by (simp add: unsigned_of_str_def drop_underscores_free str_of_nat_free)

lemma str_strip_str_of_int [simp]: "str_strip (str_of_int i) = str_of_int i"
proof (rule str_strip_id)
  have *: "c \<in> set (str_of_int i) \<Longrightarrow> \<not> is_space c" for c
    by (auto simp: str_of_int_def is_digit_not_space str_of_nat_digits split: if_splits)
      (simp add: is_space_def)
  show "\<not> is_space (hd (str_of_int i))" "\<not> is_space (last (str_of_int i))"
    by (simp_all add: *)
qed simp

lemma int_of_str_of_int [simp]: "int_of_str (str_of_int i) = Inr i"
proof (cases "i < 0")
  case True
  then have "str_of_int i = CHR ''-'' # str_of_nat (nat (- i))"
    by (simp add: str_of_int_def)
  moreover have "str_strip (str_of_int i) = str_of_int i"
    by simp
  ultimately show ?thesis
    using True by (simp add: int_of_str_def)
next
  case False
  then have s: "str_of_int i = str_of_nat (nat i)"
    by (simp add: str_of_int_def)
  obtain c cs where cs: "str_of_nat (nat i) = c # cs"
    by (cases "str_of_nat (nat i)") auto
  have "is_digit c"
    using str_of_nat_digits [of c "nat i"] cs by simp
  then have "c \<noteq> CHR ''-''" "c \<noteq> CHR ''+''"
    by auto
  moreover have "str_strip (str_of_nat (nat i)) = str_of_nat (nat i)"
    using str_strip_str_of_int [of i] s by simp
  moreover have "unsigned_of_str (c # cs) = Some (nat i)"
    using unsigned_of_str_nat [of "nat i"] cs by simp
  ultimately show ?thesis
    using s cs False by (simp add: int_of_str_def)
qed

lemma int_of_str_of_nat [simp]: "int_of_str (str_of_nat n) = Inr (int n)"
  using int_of_str_of_int [of "int n"] by simp

text \<open>The decimal form of integers is an encoding in the sense of the prelude's contract.\<close>

definition read_int :: "string \<Rightarrow> int option" where
  "read_int s = (case int_of_str s of Inl _ \<Rightarrow> None | Inr i \<Rightarrow> Some i)"

interpretation decimal: codec str_of_int read_int "\<lambda>_. True"
  by unfold_locales (simp add: read_int_def)

lemma str_of_int_inj [simp]: "str_of_int i = str_of_int j \<longleftrightarrow> i = j"
  using decimal.enc_inj by blast

text \<open>\<open>f"{n:,}"\<close>: the digits in groups of three from the right.\<close>

fun group3 :: "string \<Rightarrow> string" where
  "group3 (a # b # c # d # xs) = a # b # c # CHR '','' # group3 (d # xs)"
| "group3 xs = xs"

definition thousands :: "int \<Rightarrow> string" where
  "thousands i = (if i < 0 then ''-'' else []) @ rev (group3 (rev (str_of_nat (nat \<bar>i\<bar>))))"

text \<open>\<open>s.replace(c, t)\<close> for one character.\<close>

definition replace_char :: "char \<Rightarrow> string \<Rightarrow> string \<Rightarrow> string" where
  "replace_char c t s = concat (map (\<lambda>x. if x = c then t else [x]) s)"

end
