(* ===== verification/PyNum.thy ===== *)
theory PyNum
  imports PyText
begin

text \<open>
  Times and other floats of the sources are rationals here, standing for the decimal their
  \<open>repr\<close> prints; arithmetic on them is exact. This theory holds \<open>round\<close>, the formats \<open>.nf\<close>,
  \<open>g\<close> and \<open>repr\<close>, the reader \<open>float(s)\<close>, and \<open>statistics.median\<close>. Infinities and NaN, which
  no source computes, are left out, and \<open>repr\<close>'s exponent form is too: the values written are
  zero or between \<open>1e-4\<close> and \<open>1e16\<close> in size.
\<close>

section \<open>Rounding half to even\<close>

definition rhe :: "rat \<Rightarrow> int" where
  "rhe x = (let f = \<lfloor>x\<rfloor>; d = x - of_int f
            in if d < 1 / 2 then f else if d > 1 / 2 then f + 1
               else if even f then f else f + 1)"

definition py_round :: "rat \<Rightarrow> nat \<Rightarrow> rat" where
  "py_round x p = of_int (rhe (x * 10 ^ p)) / 10 ^ p"

lemma rhe_of_int [simp]: "rhe (of_int i) = i"
  by (simp add: rhe_def)

lemma rhe_lower: "of_int (rhe x) \<le> x + 1 / 2"
  by (simp add: rhe_def Let_def) linarith

lemma rhe_upper: "x - 1 / 2 \<le> of_int (rhe x)"
  by (simp add: rhe_def Let_def) linarith

lemma rhe_mono: assumes "x \<le> y" shows "rhe x \<le> rhe y"
proof (cases "\<lfloor>x\<rfloor> = \<lfloor>y\<rfloor>")
  case True
  with assms show ?thesis by (auto simp: rhe_def Let_def)
next
  case False
  with floor_mono [OF assms] have "\<lfloor>x\<rfloor> + 1 \<le> \<lfloor>y\<rfloor>" by simp
  moreover have "rhe x \<le> \<lfloor>x\<rfloor> + 1" and "\<lfloor>y\<rfloor> \<le> rhe y"
    by (simp_all add: rhe_def Let_def)
  ultimately show ?thesis by simp
qed

lemma rhe_nonneg: "0 \<le> x \<Longrightarrow> 0 \<le> rhe x"
  using rhe_mono [of 0 x] rhe_of_int [of 0] by simp

lemma py_round_mono: "x \<le> y \<Longrightarrow> py_round x p \<le> py_round y p"
  by (simp add: py_round_def divide_right_mono rhe_mono mult_right_mono)

lemma py_round_nonneg: "0 \<le> x \<Longrightarrow> 0 \<le> py_round x p"
  using py_round_mono [of 0 x p] by (simp add: py_round_def rhe_def)

lemma py_round_error: "\<bar>py_round x p - x\<bar> \<le> 1 / (2 * 10 ^ p)"
proof -
  have "\<bar>of_int (rhe (x * 10 ^ p)) - x * 10 ^ p\<bar> \<le> 1 / 2"
    using rhe_lower [of "x * 10 ^ p"] rhe_upper [of "x * 10 ^ p"] unfolding abs_le_iff by linarith
  then have "\<bar>of_int (rhe (x * 10 ^ p)) - x * 10 ^ p\<bar> / 10 ^ p \<le> (1 / 2) / 10 ^ p"
    by (rule divide_right_mono) simp
  moreover have "\<bar>of_int (rhe (x * 10 ^ p)) - x * 10 ^ p\<bar> / 10 ^ p = \<bar>py_round x p - x\<bar>"
  proof -
    have "\<bar>of_int (rhe (x * 10 ^ p)) - x * 10 ^ p\<bar> / 10 ^ p
        = \<bar>(of_int (rhe (x * 10 ^ p)) - x * 10 ^ p) / 10 ^ p\<bar>"
      by (simp add: abs_divide)
    also have "(of_int (rhe (x * 10 ^ p)) - x * 10 ^ p) / 10 ^ p = py_round x p - x"
      by (simp add: py_round_def diff_divide_distrib)
    finally show ?thesis .
  qed
  ultimately show ?thesis by simp
qed

lemma py_round_idem: "py_round (py_round x p) p = py_round x p"
  by (simp add: py_round_def)

section \<open>Formats\<close>

text \<open>\<open>f"{x:.nf}"\<close>: the scaled value rounded, its digits cut before the last \<open>n\<close>.\<close>

definition fixed_of_nat :: "nat \<Rightarrow> nat \<Rightarrow> string" where
  "fixed_of_nat p n =
     (if p = 0 then str_of_nat n
      else str_of_nat (n div 10 ^ p) @ ''.'' @ zfill_left p (str_of_nat (n mod 10 ^ p)))"

definition fixed :: "nat \<Rightarrow> rat \<Rightarrow> string" where
  "fixed p x = (if x < 0 then ''-'' else []) @ fixed_of_nat p (nat (rhe (\<bar>x\<bar> * 10 ^ p)))"

definition strip_zeros :: "string \<Rightarrow> string" where
  "strip_zeros s = rev (dropWhile (\<lambda>c. c = CHR ''0'') (rev s))"

definition strip_point :: "string \<Rightarrow> string" where
  "strip_point s = (let t = strip_zeros s
                    in if t \<noteq> [] \<and> last t = CHR ''.'' then butlast t else t)"

text \<open>
  \<open>f"{x:g}"\<close> for \<open>x \<ge> 0\<close>: six significant digits, exponent form from \<open>1e+06\<close> up and below
  \<open>1e-04\<close>. The decimal exponent is the one of the value after rounding to six digits.
\<close>

fun dec_exp_up :: "nat \<Rightarrow> rat \<Rightarrow> nat" where
  "dec_exp_up 0 x = 0"
| "dec_exp_up (Suc n) x = (if x < 10 then 0 else Suc (dec_exp_up n (x / 10)))"

fun dec_exp_down :: "nat \<Rightarrow> rat \<Rightarrow> nat" where
  "dec_exp_down 0 x = 0"
| "dec_exp_down (Suc n) x = (if 1 \<le> x then 0 else Suc (dec_exp_down n (x * 10)))"

definition dec_exp :: "rat \<Rightarrow> int" where
  "dec_exp x = (if 1 \<le> x then int (dec_exp_up 400 x) else - int (dec_exp_down 400 x))"

definition scale10 :: "rat \<Rightarrow> int \<Rightarrow> rat" where
  "scale10 x k = (if 0 \<le> k then x * 10 ^ nat k else x / 10 ^ nat (- k))"

definition two_digits :: "nat \<Rightarrow> string" where
  "two_digits n = zfill_left 2 (str_of_nat n)"

definition general_pos :: "rat \<Rightarrow> string" where
  "general_pos x =
     (if x = 0 then ''0''
      else let e0 = dec_exp x;
               m = rhe (scale10 x (5 - e0));
               e = (if 10 ^ 6 \<le> m then e0 + 1 else e0)
           in if - 4 \<le> e \<and> e < 6
              then (let p = nat (5 - e) in if p = 0 then fixed 0 x else strip_point (fixed p x))
              else (let d = fixed 5 (scale10 x (- e)) in strip_point d @ ''e'' @
                     (if e < 0 then ''-'' else ''+'') @ two_digits (nat \<bar>e\<bar>)))"

definition general :: "rat \<Rightarrow> string" where
  "general x = (if x < 0 then ''-'' else []) @ general_pos \<bar>x\<bar>"

text \<open>
  \<open>repr(x)\<close>: the shortest decimal, with at least one digit after the point. Seventeen decimal
  places bound the search, which is exact for every decimal the doubles print in this range.
\<close>

fun dec_places :: "nat \<Rightarrow> rat \<Rightarrow> nat" where
  "dec_places 0 x = 0"
| "dec_places (Suc n) x = (if x = of_int \<lfloor>x\<rfloor> then 0 else Suc (dec_places n (x * 10)))"

definition float_repr :: "rat \<Rightarrow> string" where
  "float_repr x = fixed (max 1 (dec_places 17 \<bar>x\<bar>)) x"

section \<open>Reading a float back\<close>

text \<open>\<open>float(s)\<close>: sign, digits with an optional fraction, an optional exponent.\<close>

definition read_exponent :: "string \<Rightarrow> int option" where
  "read_exponent s =
     (case s of [] \<Rightarrow> None
      | c # cs \<Rightarrow> if c = CHR ''-'' then map_option (\<lambda>n. - int n) (unsigned_of_str cs)
                 else if c = CHR ''+'' then map_option int (unsigned_of_str cs)
                 else map_option int (unsigned_of_str s))"

definition read_mantissa :: "string \<Rightarrow> rat option" where
  "read_mantissa s =
     (case str_partition ''.'' s of (a, dot, b) \<Rightarrow>
        if dot = [] then map_option of_nat (unsigned_of_str a)
        else if a = [] \<and> b = [] then None
        else (case (if a = [] then Some 0 else unsigned_of_str a,
                    if b = [] then Some 0 else unsigned_of_str b) of
                (Some i, Some f) \<Rightarrow>
                  Some (of_nat i + of_nat f / 10 ^ length (filter is_digit b))
              | _ \<Rightarrow> None))"

definition read_unsigned_float :: "string \<Rightarrow> rat option" where
  "read_unsigned_float s =
     (case find_sub ''e'' (map (\<lambda>c. if c = CHR ''E'' then CHR ''e'' else c) s) of
        None \<Rightarrow> read_mantissa s
      | Some (m, e) \<Rightarrow>
          (case (read_mantissa m, read_exponent e) of
             (Some x, Some k) \<Rightarrow> Some (scale10 x k) | _ \<Rightarrow> None))"

definition float_of_str :: "string \<Rightarrow> rat res" where
  "float_of_str s0 =
     (let s = str_strip s0;
          r = (case s of [] \<Rightarrow> None
               | c # cs \<Rightarrow> if c = CHR ''-'' then map_option uminus (read_unsigned_float cs)
                          else if c = CHR ''+'' then read_unsigned_float cs
                          else read_unsigned_float s)
      in case r of None \<Rightarrow> Inl ValueError | Some x \<Rightarrow> Inr x)"

lemma nat_of_digits_zeros: "nat_of_digits 0 (replicate n CHR ''0'' @ s) = nat_of_digits 0 s"
  by (induction n) (simp_all add: digit_val_def)

lemma zfill_left_free: "\<not> is_digit c \<Longrightarrow> c \<notin> set (zfill_left p (str_of_nat n))"
  by (auto simp: zfill_left_def str_of_nat_free is_digit_def digit_val_def)

lemma unsigned_of_str_zfill [simp]: "unsigned_of_str (zfill_left p (str_of_nat n)) = Some n"
  using zfill_left_free [of "CHR ''_''" p n]
  by (simp add: unsigned_of_str_def drop_underscores_free zfill_left_def nat_of_digits_zeros)

lemma length_zfill_str:
  assumes "n < 10 ^ p" "0 < p"
  shows "length (zfill_left p (str_of_nat n)) = p"
  using length_str_of_nat_bound [OF assms] by (simp add: length_zfill_left)

lemma filter_digits_zfill: "filter is_digit (zfill_left p (str_of_nat n)) = zfill_left p (str_of_nat n)"
  using zfill_left_free by (intro filter_True) blast

lemma fixed_of_nat_free:
  "\<not> is_digit c \<Longrightarrow> c \<noteq> CHR ''.'' \<Longrightarrow> c \<notin> set (fixed_of_nat p n)"
  by (simp add: fixed_of_nat_def str_of_nat_free zfill_left_free)

lemma fixed_of_nat_not_Nil [simp]: "fixed_of_nat p n \<noteq> []"
  by (simp add: fixed_of_nat_def)

lemma fixed_free:
  "\<not> is_digit c \<Longrightarrow> c \<noteq> CHR ''.'' \<Longrightarrow> c \<noteq> CHR ''-'' \<Longrightarrow> c \<notin> set (fixed p x)"
  by (simp add: fixed_def fixed_of_nat_free)

lemma read_mantissa_fixed:
  assumes "0 < p"
  shows "read_mantissa (fixed_of_nat p n) = Some (of_nat n / 10 ^ p)"
proof -
  let ?q = "n div 10 ^ p" and ?r = "n mod 10 ^ p"
  have "str_partition ''.'' (fixed_of_nat p n) = (str_of_nat ?q, ''.'', zfill_left p (str_of_nat ?r))"
    using assms by (simp add: fixed_of_nat_def str_partition_char str_of_nat_free)
  moreover have "length (filter is_digit (zfill_left p (str_of_nat ?r))) = p"
    using assms by (simp add: filter_digits_zfill length_zfill_str)
  moreover have "zfill_left p (str_of_nat ?r) \<noteq> []"
    by (simp add: zfill_left_def)
  ultimately have "read_mantissa (fixed_of_nat p n) = Some (of_nat ?q + of_nat ?r / 10 ^ p)"
    by (simp add: read_mantissa_def)
  also have "(of_nat ?q + of_nat ?r / 10 ^ p :: rat) = of_nat (?q * 10 ^ p + ?r) / 10 ^ p"
    by (simp add: add_divide_distrib del: div_mult_mod_eq mult_div_mod_eq mod_mult_div_eq mod_div_mult_eq)
  finally show ?thesis
    by (simp only: div_mult_mod_eq)
qed

lemma read_unsigned_float_fixed:
  assumes "0 < p"
  shows "read_unsigned_float (fixed_of_nat p n) = Some (of_nat n / 10 ^ p)"
proof -
  have E: "CHR ''E'' \<notin> set (fixed_of_nat p n)" and e: "CHR ''e'' \<notin> set (fixed_of_nat p n)"
    by (simp_all add: fixed_of_nat_free)
  have "map (\<lambda>c. if c = CHR ''E'' then CHR ''e'' else c) (fixed_of_nat p n) = fixed_of_nat p n"
    using E by (intro map_idI) auto
  with e have "find_sub ''e'' (map (\<lambda>c. if c = CHR ''E'' then CHR ''e'' else c) (fixed_of_nat p n)) = None"
    by (simp add: find_sub_None_append)
  then show ?thesis
    by (simp add: read_unsigned_float_def read_mantissa_fixed assms)
qed

lemma fixed_of_nat_not_space: "c \<in> set (fixed_of_nat p n) \<Longrightarrow> \<not> is_space c"
proof -
  assume "c \<in> set (fixed_of_nat p n)"
  then have "is_digit c \<or> c = CHR ''.''"
    using fixed_of_nat_free by blast
  then show ?thesis
    by (auto dest: is_digit_not_space simp: is_space_def)
qed

lemma str_strip_fixed_of_nat [simp]: "str_strip (fixed_of_nat p n) = fixed_of_nat p n"
  by (rule str_strip_id)
    (simp_all add: fixed_of_nat_not_space [OF hd_in_set] fixed_of_nat_not_space [OF last_in_set])

lemma float_of_str_fixed_of_nat:
  assumes "0 < p"
  shows "float_of_str (fixed_of_nat p n) = Inr (of_nat n / 10 ^ p)"
proof -
  obtain c cs where cs: "fixed_of_nat p n = c # cs"
    by (cases "fixed_of_nat p n") auto
  have "c \<noteq> CHR ''-''" "c \<noteq> CHR ''+''"
    using fixed_of_nat_free [of "CHR ''-''" p n] fixed_of_nat_free [of "CHR ''+''" p n] cs by auto
  moreover have "read_unsigned_float (c # cs) = Some (of_nat n / 10 ^ p)"
    using read_unsigned_float_fixed [OF assms, of n] cs by simp
  moreover have "str_strip (c # cs) = c # cs"
    using str_strip_fixed_of_nat [of p n] cs by simp
  ultimately show ?thesis
    using cs by (simp add: float_of_str_def)
qed

text \<open>What \<open>.nf\<close> prints, \<open>float\<close> reads back as the value rounded to \<open>n\<close> places.\<close>

lemma float_of_str_fixed:
  assumes "0 < p" "0 \<le> x"
  shows "float_of_str (fixed p x) = Inr (py_round x p)"
proof -
  have "0 \<le> rhe (x * 10 ^ p)"
    using assms by (simp add: rhe_nonneg)
  then show ?thesis
    using assms by (simp add: fixed_def float_of_str_fixed_of_nat py_round_def)
qed

lemma dec_places_exact:
  "x * 10 ^ k \<in> \<int> \<Longrightarrow> k \<le> n \<Longrightarrow> x * 10 ^ dec_places n x \<in> \<int> \<and> dec_places n x \<le> k"
proof (induction n arbitrary: x k)
  case (Suc n)
  show ?case
  proof (cases "x = of_int \<lfloor>x\<rfloor>")
    case True
    then have "x \<in> \<int>" by (metis Ints_of_int)
    with True show ?thesis by simp
  next
    case False
    then have "x \<notin> \<int>" by (metis Ints_cases floor_of_int)
    with Suc.prems obtain k' where k: "k = Suc k'" by (cases k) auto
    have "x * 10 * 10 ^ k' \<in> \<int>" "k' \<le> n"
      using Suc.prems k by (simp_all add: mult.assoc)
    from Suc.IH [OF this] False k show ?thesis by (simp add: mult.assoc)
  qed
qed simp

lemma py_round_exact:
  assumes "x * 10 ^ p \<in> \<int>"
  shows "py_round x p = x"
proof -
  from assms obtain i where "x * 10 ^ p = of_int i" by (auto elim: Ints_cases)
  then have "py_round x p = x * 10 ^ p / 10 ^ p" by (simp add: py_round_def)
  then show ?thesis by simp
qed

text \<open>The decimals of at most seventeen places are read back as printed.\<close>

lemma float_of_str_repr:
  assumes "0 \<le> x" "x * 10 ^ k \<in> \<int>" "k \<le> 17"
  shows "float_of_str (float_repr x) = Inr x"
proof -
  let ?d = "dec_places 17 x"
  have d: "x * 10 ^ ?d \<in> \<int>"
    using dec_places_exact [OF assms(2,3)] by simp
  have "(10 :: rat) ^ max 1 ?d = 10 ^ ?d * 10 ^ (max 1 ?d - ?d)"
    by (simp flip: power_add)
  then have "x * 10 ^ max 1 ?d = (x * 10 ^ ?d) * 10 ^ (max 1 ?d - ?d)"
    by (simp only: mult.assoc)
  moreover have "(x * 10 ^ ?d) * 10 ^ (max 1 ?d - ?d) \<in> \<int>"
    by (rule Ints_mult [OF d]) simp
  ultimately have "x * 10 ^ max 1 ?d \<in> \<int>"
    by (simp only:)
  then show ?thesis
    using assms(1) by (simp add: float_repr_def float_of_str_fixed py_round_exact)
qed

lemma float_of_str_repr_round:
  assumes "0 \<le> x" "p \<le> 17"
  shows "float_of_str (float_repr (py_round x p)) = Inr (py_round x p)"
proof (rule float_of_str_repr [where k = p])
  show "0 \<le> py_round x p" using assms(1) by (rule py_round_nonneg)
  show "py_round x p * 10 ^ p \<in> \<int>" by (simp add: py_round_def)
qed (rule assms(2))

lemma float_repr_free:
  "\<not> is_digit c \<Longrightarrow> c \<noteq> CHR ''.'' \<Longrightarrow> c \<noteq> CHR ''-'' \<Longrightarrow> c \<notin> set (float_repr x)"
  by (simp add: float_repr_def fixed_free)

lemma float_repr_not_Nil [simp]: "float_repr x \<noteq> []"
  by (simp add: float_repr_def fixed_def)

section \<open>The median\<close>

text \<open>\<open>statistics.median\<close>: the middle value in order, or the mean of the two middle ones.\<close>

definition median :: "rat list \<Rightarrow> rat res" where
  "median data =
     (let d = sort data; n = length d
      in if n = 0 then Inl StatisticsError
         else if odd n then Inr (d ! (n div 2))
         else Inr ((d ! (n div 2 - 1) + d ! (n div 2)) / 2))"

lemma sorted_nth_Min:
  assumes "sorted d" "i < length d"
  shows "Min (set d) \<le> d ! i" and "d ! i \<le> Max (set d)"
  using assms by simp_all

lemma median_bounds:
  assumes "median xs = Inr m"
  shows "Min (set xs) \<le> m \<and> m \<le> Max (set xs)"
proof -
  let ?d = "sort xs"
  have n: "0 < length xs"
    using assms by (auto simp: median_def Let_def split: if_splits)
  have bound: "Min (set xs) \<le> ?d ! i \<and> ?d ! i \<le> Max (set xs)" if "i < length xs" for i
    using sorted_nth_Min [of ?d i] that by simp
  have i: "length xs div 2 < length xs"
    using n by simp
  then have j: "length xs div 2 - 1 < length xs"
    by linarith
  from assms n have "m = ?d ! (length xs div 2)
      \<or> m = (?d ! (length xs div 2 - 1) + ?d ! (length xs div 2)) / 2"
    by (auto simp: median_def Let_def split: if_splits)
  then show ?thesis
    using bound [OF i] bound [OF j] by auto
qed

lemma median_total: "xs \<noteq> [] \<Longrightarrow> \<exists>m. median xs = Inr m"
  by (cases "median xs")
    (auto simp: median_def Let_def dest: arg_cong [where f = length] split: if_splits)

lemma median_permute:
  assumes "mset xs = mset ys"
  shows "median xs = median ys"
proof -
  have "sort xs = sort ys"
    using assms by (intro properties_for_sort) simp_all
  then show ?thesis
    using mset_eq_length [OF assms] by (simp add: median_def)
qed

end
