(* ===== verification/World.thy ===== *)
theory World
  imports PyNum
begin

text \<open>
  The environment of the measurement programs and the loop they share. Everything a program
  reads from outside (the clock, a file's status, a listing, a file's bytes) is an observation;
  observations are numbered, and a world says what each one answers. A theorem for every world
  therefore holds however the disks and the clock move while the program runs.

  The polling loop \<open>while pending and time.time() < end: ...; if pending: time.sleep(...)\<close>
  stands in four of the programs. It is fuelled: \<open>polling.enough_fuel\<close> says how much fuel is
  enough once the clock passes the deadline.
\<close>

section \<open>Paths and file status\<close>

text \<open>
  A path is the list of its components; an absolute one starts with an empty component (with
  two when it starts with exactly two slashes, which \<open>pathlib\<close> keeps), so joining the components
  with slashes is \<open>str(path)\<close>. \<open>Path(s)\<close> drops empty and dot components.
\<close>

type_synonym path = "string list"

definition path_str :: "path \<Rightarrow> string" where
  "path_str p = (if p = [] then ''.'' else if p = [[]] then ''/'' else if p = [[], []] then ''//''
                 else str_join ''/'' p)"

definition path_root :: "string \<Rightarrow> path" where
  "path_root s = (if take 2 s = ''//'' \<and> take 3 s \<noteq> ''///'' then [[], []]
                  else if take 1 s = ''/'' then [[]] else [])"

definition path_of_str :: "string \<Rightarrow> path" where
  "path_of_str s = path_root s @ filter (\<lambda>c. c \<noteq> [] \<and> c \<noteq> ''.'') (split_char CHR ''/'' s)"

text \<open>\<open>path.parent\<close> and \<open>path.name\<close>.\<close>

definition path_parent :: "path \<Rightarrow> path" where
  "path_parent p = (if p = [] \<or> last p = [] then p else butlast p)"

definition path_name :: "path \<Rightarrow> string" where
  "path_name p = (if p = [] then [] else last p)"

definition component_ok :: "string \<Rightarrow> bool" where
  "component_ok c \<longleftrightarrow> c \<noteq> [] \<and> c \<noteq> ''.'' \<and> CHR ''/'' \<notin> set c"

definition path_ok :: "path \<Rightarrow> bool" where
  "path_ok p \<longleftrightarrow> list_all component_ok (if take 2 p = [[], []] then drop 2 p
                                         else if take 1 p = [[]] then drop 1 p else p)"

lemma split_join_path:
  "list_all component_ok cs \<Longrightarrow> cs \<noteq> [] \<Longrightarrow> split_char CHR ''/'' (str_join ''/'' cs) = cs"
  by (rule split_char_join) (auto simp: component_ok_def list_all_iff)

lemma filter_components: "list_all component_ok cs \<Longrightarrow> filter (\<lambda>c. c \<noteq> [] \<and> c \<noteq> ''.'') cs = cs"
  by (rule filter_True) (auto simp: component_ok_def list_all_iff)

lemma str_join_head:
  assumes "list_all component_ok cs" "cs \<noteq> []"
  obtains c r where "str_join ''/'' cs = c # r" "c \<noteq> CHR ''/''"
proof -
  obtain x xs where x: "cs = x # xs" "component_ok x"
    using assms by (cases cs) auto
  then obtain c y where "x = c # y" "c \<noteq> CHR ''/''"
    by (cases x) (auto simp: component_ok_def)
  then show ?thesis
    using that x by (cases xs) (auto simp: str_join_Cons)
qed

lemma path_of_str_join:
  assumes "list_all component_ok cs" "cs \<noteq> []"
  shows "path_of_str (str_join ''/'' cs) = cs"
    and "path_of_str (CHR ''/'' # str_join ''/'' cs) = [] # cs"
    and "path_of_str (CHR ''/'' # CHR ''/'' # str_join ''/'' cs) = [] # [] # cs"
proof -
  obtain c r where j: "str_join ''/'' cs = c # r" "c \<noteq> CHR ''/''"
    using str_join_head [OF assms] .
  have roots: "path_root (str_join ''/'' cs) = []" "path_root (CHR ''/'' # str_join ''/'' cs) = [[]]"
    "path_root (CHR ''/'' # CHR ''/'' # str_join ''/'' cs) = [[], []]"
    using j by (simp_all add: path_root_def numeral_2_eq_2 numeral_3_eq_3)
  show "path_of_str (str_join ''/'' cs) = cs"
    "path_of_str (CHR ''/'' # str_join ''/'' cs) = [] # cs"
    "path_of_str (CHR ''/'' # CHR ''/'' # str_join ''/'' cs) = [] # [] # cs"
    using assms by (simp_all add: path_of_str_def roots split_join_path filter_components
        split_char_append [of "CHR ''/''" "[]", simplified])
qed

lemma path_of_path_str:
  assumes "path_ok p"
  shows "path_of_str (path_str p) = p"
proof (cases "p = [] \<or> p = [[]] \<or> p = [[], []]")
  case True
  then show ?thesis
    by (auto simp: path_str_def path_of_str_def path_root_def)
next
  case False
  show ?thesis
  proof (cases "take 2 p = [[], []]")
    case True
    then obtain cs where cs: "p = [] # [] # cs"
      by (cases p; cases "tl p") auto
    then show ?thesis
      using assms False path_of_str_join(3) [of cs]
      by (auto simp: path_ok_def path_str_def str_join_Cons)
  next
    case two: False
    show ?thesis
    proof (cases "take 1 p = [[]]")
      case True
      then obtain cs where cs: "p = [] # cs"
        by (cases p) auto
      then show ?thesis
        using assms False two path_of_str_join(2) [of cs]
        by (auto simp: path_ok_def path_str_def str_join_Cons)
    next
      case one: False
      then show ?thesis
        using assms False two path_of_str_join(1) [of p]
        by (auto simp: path_ok_def path_str_def)
    qed
  qed
qed

lemma path_ok_append:
  assumes "path_ok p" "p \<noteq> []" "list_all component_ok cs"
  shows "path_ok (p @ cs)"
proof (cases cs)
  case (Cons c rest)
  have c: "c \<noteq> []"
    using assms(3) Cons by (auto simp: component_ok_def)
  have "take 2 (p @ cs) = [[], []] \<longleftrightarrow> take 2 p = [[], []]" "take 1 (p @ cs) = [[]] \<longleftrightarrow> take 1 p = [[]]"
    using assms(2) c Cons by (cases p; cases "tl p"; auto)+
  moreover have "take 2 p = [[], []] \<Longrightarrow> drop 2 (p @ cs) = drop 2 p @ cs"
    by (cases p; cases "tl p") auto
  moreover have "drop 1 (p @ cs) = drop 1 p @ cs"
    using assms(2) by (cases p) auto
  ultimately show ?thesis
    using assms(1,3) by (auto simp: path_ok_def)
qed (simp add: assms)

interpretation paths: codec path_str "\<lambda>s. Some (path_of_str s)" path_ok
  by unfold_locales (simp add: path_of_path_str)

record stat_result =
  st_reg :: bool
  st_size :: int
  st_blocks :: int

record world =
  clock :: "nat \<Rightarrow> rat"
  stat_at :: "nat \<Rightarrow> path \<Rightarrow> os_error + stat_result"
  lstat_at :: "nat \<Rightarrow> path \<Rightarrow> os_error + stat_result"
  walk_at :: "nat \<Rightarrow> path \<Rightarrow> (path \<times> string list) list"
  rglob_at :: "nat \<Rightarrow> path \<Rightarrow> path list"
  bytes_at :: "nat \<Rightarrow> path \<Rightarrow> os_error + string"

text \<open>A world that stands still while its clock counts the readings; the examples use it.\<close>

definition still_world ::
  "(path \<Rightarrow> os_error + stat_result) \<Rightarrow> (path \<Rightarrow> (path \<times> string list) list) \<Rightarrow> (path \<Rightarrow> path list) \<Rightarrow>
   (path \<Rightarrow> os_error + string) \<Rightarrow> world" where
  "still_world st walk glob content =
     \<lparr>clock = of_nat, stat_at = (\<lambda>_. st), lstat_at = (\<lambda>_. st), walk_at = (\<lambda>_. walk),
      rglob_at = (\<lambda>_. glob), bytes_at = (\<lambda>_. content)\<rparr>"

section \<open>The polling loop\<close>

record 'p poll =
  tick :: nat
  pending :: "'p list"

fun poll_until ::
  "(nat \<Rightarrow> rat) \<Rightarrow> rat \<Rightarrow> rat \<Rightarrow> (('p, 'm) poll_scheme \<Rightarrow> ('p, 'm) poll_scheme res) \<Rightarrow>
   nat \<Rightarrow> ('p, 'm) poll_scheme \<Rightarrow> ('p, 'm) poll_scheme res" where
  "poll_until clk stop nap pass 0 s = Inl OutOfFuel"
| "poll_until clk stop nap pass (Suc fuel) s =
     (if pending s = [] then Inr s
      else if clk (tick s) < stop
      then rbind (pass (s\<lparr>tick := Suc (tick s)\<rparr>)) (\<lambda>s'.
             if pending s' \<noteq> [] \<and> nap < 0 then Inl ValueError
             else poll_until clk stop nap pass fuel s')
      else Inr (s\<lparr>tick := Suc (tick s)\<rparr>))"

text \<open>
  What a round of polling owes the loop: it never winds the observations back, takes nodes off
  the pending list but never puts one on, and stops.
\<close>

locale polling =
  fixes pass :: "('p, 'm) poll_scheme \<Rightarrow> ('p, 'm) poll_scheme res"
  assumes pass_tick: "pass s = Inr s' \<Longrightarrow> tick s \<le> tick s'"
    and pass_pending: "pass s = Inr s' \<Longrightarrow> set (pending s') \<subseteq> set (pending s)"
    and pass_stops: "pass s \<noteq> Inl OutOfFuel"
begin

text \<open>
  Once the clock stays past the deadline from reading \<open>N\<close> on, \<open>N + 1\<close> rounds are enough.
\<close>

lemma enough_fuel:
  assumes "\<And>k. N \<le> k \<Longrightarrow> stop \<le> clk k" and "N < tick s + fuel" and "0 < fuel"
  shows "poll_until clk stop nap pass fuel s \<noteq> Inl OutOfFuel"
  using assms(2,3)
proof (induction fuel arbitrary: s)
  case (Suc fuel)
  show ?case
  proof (cases "pending s = [] \<or> \<not> clk (tick s) < stop")
    case True
    then show ?thesis by auto
  next
    case False
    then have "tick s < N"
      using assms(1) [of "tick s"] by (meson leD le_less_linear)
    with Suc.prems have "0 < fuel" by simp
    have "poll_until clk stop nap pass fuel s' \<noteq> Inl OutOfFuel"
      if "pass (s\<lparr>tick := Suc (tick s)\<rparr>) = Inr s'" for s'
      using Suc.IH [of s'] Suc.prems \<open>0 < fuel\<close> pass_tick [OF that] by simp
    then show ?thesis
      using False pass_stops by (auto simp: rbind_def split: sum.splits)
  qed
qed simp

lemma loop_invariant:
  assumes "I s" and "poll_until clk stop nap pass fuel s = Inr t"
    and "\<And>s. I s \<Longrightarrow> I (s\<lparr>tick := Suc (tick s)\<rparr>)"
    and "\<And>s s'. I s \<Longrightarrow> pass s = Inr s' \<Longrightarrow> I s'"
  shows "I t"
  using assms(1,2)
proof (induction fuel arbitrary: s)
  case (Suc fuel)
  then show ?case
    by (auto simp: rbind_Inr_iff assms(3) split: if_splits intro: assms(4) [OF assms(3)])
qed simp

lemma loop_exit:
  assumes "poll_until clk stop nap pass fuel s = Inr t"
  shows "pending t = [] \<or> (\<exists>k. stop \<le> clk k)"
  using assms
proof (induction fuel arbitrary: s)
  case (Suc fuel)
  then show ?case
    by (auto simp: rbind_Inr_iff not_less split: if_splits)
qed simp

lemma loop_pending:
  assumes "poll_until clk stop nap pass fuel s = Inr t"
  shows "set (pending t) \<subseteq> set (pending s)"
  by (rule loop_invariant [where I = "\<lambda>u. set (pending u) \<subseteq> set (pending s)", OF _ assms])
    (auto dest: pass_pending)

lemma loop_tick:
  assumes "poll_until clk stop nap pass fuel s = Inr t"
  shows "tick s \<le> tick t"
  by (rule loop_invariant [where I = "\<lambda>u. tick s \<le> tick u", OF _ assms])
    (auto dest: pass_tick)

lemma loop_error:
  assumes "poll_until clk stop nap pass fuel s = Inl e"
  shows "e = OutOfFuel \<or> e = ValueError \<and> nap < 0 \<or> (\<exists>s. pass s = Inl e)"
  using assms
proof (induction fuel arbitrary: s)
  case (Suc fuel)
  then show ?case
    by (auto simp: rbind_def split: if_splits sum.splits)
qed simp

text \<open>The first round runs whenever the loop is entered before the deadline.\<close>

lemma loop_first_pass:
  assumes "poll_until clk stop nap pass fuel s = Inr t"
    and "pending s \<noteq> []" and "clk (tick s) < stop"
  obtains s' fuel' where "pass (s\<lparr>tick := Suc (tick s)\<rparr>) = Inr s'"
    and "poll_until clk stop nap pass fuel' s' = Inr t"
  using assms by (cases fuel) (auto simp: rbind_Inr_iff split: if_splits)

end

end
