(* ===== verification/Effects.thy ===== *)
theory Effects
  imports World
begin

text \<open>
  What the cluster scripts and the matrix driver do to the outside: the environment answers each
  numbered observation (\<open>kept_at\<close> says how many characters a failing write leaves behind), and a run's state keeps the number of the next one, the trace of what was
  done and the results file. Queries (the clock, a container's status, a log, a listing) are
  observations only; the trace holds what changes something or is printed.
\<close>

section \<open>Environment, events and state\<close>

record proc =
  returncode :: int
  stdout :: string
  stderr :: string

record env = world +
  run_at :: "nat \<Rightarrow> string list \<Rightarrow> os_error + proc"
  exists_at :: "nat \<Rightarrow> path \<Rightarrow> bool"
  io_at :: "nat \<Rightarrow> os_error option"
  load_at :: "nat \<Rightarrow> rat"
  http_at :: "nat \<Rightarrow> exn + int"
  kept_at :: "nat \<Rightarrow> nat"
  random_at :: "nat \<Rightarrow> nat \<Rightarrow> string"
  uid :: int

datatype event =
    Ran "string list"
  | MadeDir path
  | Wrote path string
  | Copied path path
  | Removed path
  | RemovedTree path
  | Synced path
  | Appended path string
  | Sent string int string string "(string \<times> string) list" "path option"
  | Closed
  | ClosedFile path
  | Spawned "string list" path "path option" int
  | Terminated int
  | Killed int
  | Subscribed string
  | Connected string
  | Bound string
  | Published "string list"
  | ClosedSockets
  | Printed string

record sys =
  obs :: nat
  trace :: "event list"
  out_file :: "string option"

section \<open>Primitive steps\<close>

text \<open>An observation, an act whose outcome the environment decides, and its two uses.\<close>

definition ask :: "(nat \<Rightarrow> 'a) \<Rightarrow> (sys, 'a) prog" where
  "ask f s = (Inr (f (obs s)), s\<lparr>obs := Suc (obs s)\<rparr>)"

definition act :: "event \<Rightarrow> (nat \<Rightarrow> 'a res) \<Rightarrow> (sys, 'a) prog" where
  "act ev f s = (f (obs s), s\<lparr>obs := Suc (obs s), trace := trace s @ [ev]\<rparr>)"

definition io :: "env \<Rightarrow> event \<Rightarrow> (sys, unit) prog" where
  "io env ev = act ev (\<lambda>k. case io_at env k of None \<Rightarrow> Inr () | Some e \<Rightarrow> Inl (OSErr e))"

text \<open>\<open>unlink(missing_ok=True)\<close>.\<close>

definition unlink :: "env \<Rightarrow> path \<Rightarrow> (sys, unit) prog" where
  "unlink env p = act (Removed p) (\<lambda>k. case io_at env k of
     None \<Rightarrow> Inr () | Some e \<Rightarrow> if e = FileNotFound then Inr () else Inl (OSErr e))"

definition say :: "string \<Rightarrow> (sys, unit) prog" where
  "say line = act (Printed line) (\<lambda>_. Inr ())"

text \<open>
  \<open>subprocess.run\<close> with captured output: for its effect, or (when the command only asks) as a
  query; with \<open>check=True\<close> a status other than zero raises.
\<close>

definition proc_res :: "os_error + proc \<Rightarrow> proc res" where
  "proc_res r = (case r of Inl e \<Rightarrow> Inl (OSErr e) | Inr p \<Rightarrow> Inr p)"

definition query :: "env \<Rightarrow> nat \<Rightarrow> string list \<Rightarrow> proc res" where
  "query env k args = proc_res (run_at env k args)"

definition shell :: "env \<Rightarrow> string list \<Rightarrow> (sys, proc) prog" where
  "shell env args = act (Ran args) (\<lambda>k. query env k args)"

definition run_checked :: "env \<Rightarrow> string list \<Rightarrow> (sys, proc) prog" where
  "run_checked env args =
     pbind (shell env args) (\<lambda>p. if returncode p = 0 then pret p else praise CalledProcessError)"

text \<open>A part of the program that only observes, run with its own observation counter.\<close>

definition watching_part :: "(nat \<Rightarrow> ('a \<times> nat) res) \<Rightarrow> (sys, 'a) prog" where
  "watching_part f s =
     (case f (obs s) of Inl e \<Rightarrow> (Inl e, s) | Inr (x, k) \<Rightarrow> (Inr x, s\<lparr>obs := k\<rparr>))"

lemma ask_Inr_iff: "ask f s = (r, t) \<longleftrightarrow> r = Inr (f (obs s)) \<and> t = s\<lparr>obs := Suc (obs s)\<rparr>"
  by (auto simp: ask_def)

section \<open>Runs only add\<close>

text \<open>
  The trace is only appended to, and the results file, once there, only grows.
\<close>

definition grows :: "sys \<Rightarrow> sys \<Rightarrow> bool" where
  "grows s t \<longleftrightarrow> prefix (trace s) (trace t) \<and>
     (\<forall>a. out_file s = Some a \<longrightarrow> (\<exists>b. out_file t = Some b \<and> prefix a b))"

interpretation growth: effect_order grows
  by unfold_locales (fastforce simp: grows_def)+

text \<open>A step that leaves the results file alone.\<close>

definition same_file :: "sys \<Rightarrow> sys \<Rightarrow> bool" where
  "same_file s t \<longleftrightarrow> out_file t = out_file s"

interpretation filing: effect_order same_file
  by unfold_locales (simp_all add: same_file_def)

named_theorems step_climbs \<open>primitive steps in the two orders\<close>

lemma ask_climbs [step_climbs]: "growth.climbs (ask f)" "filing.climbs (ask f)"
  by (simp_all add: growth.climbs_def filing.climbs_def grows_def same_file_def ask_def)

lemma act_climbs [step_climbs]: "growth.climbs (act ev g)" "filing.climbs (act ev g)"
  by (simp_all add: growth.climbs_def filing.climbs_def grows_def same_file_def act_def)

lemma io_climbs [step_climbs]: "growth.climbs (io env ev)" "filing.climbs (io env ev)"
  by (simp_all add: io_def step_climbs)

lemma unlink_climbs [step_climbs]: "growth.climbs (unlink env p)" "filing.climbs (unlink env p)"
  by (simp_all add: unlink_def step_climbs)

lemma say_climbs [step_climbs]: "growth.climbs (say l)" "filing.climbs (say l)"
  by (simp_all add: say_def step_climbs)

lemma shell_climbs [step_climbs]: "growth.climbs (shell env args)" "filing.climbs (shell env args)"
  by (simp_all add: shell_def step_climbs)

lemma run_checked_climbs [step_climbs]:
  "growth.climbs (run_checked env args)" "filing.climbs (run_checked env args)"
  unfolding run_checked_def
  by (intro growth.climbs_intros filing.climbs_intros step_climbs)+

lemma watching_climbs [step_climbs]: "growth.climbs (watching_part g)" "filing.climbs (watching_part g)"
  by (simp_all add: growth.climbs_def filing.climbs_def grows_def same_file_def watching_part_def
      split: sum.splits prod.splits)

lemmas climbing = growth.climbs_intros filing.climbs_intros step_climbs

section \<open>What a successful run did\<close>

text \<open>
  \<open>does m evs\<close>: whenever \<open>m\<close> returns, exactly the events \<open>evs\<close> (a function of what it returned)
  were added to the trace.
\<close>

definition does :: "(sys, 'a) prog \<Rightarrow> ('a \<Rightarrow> event list) \<Rightarrow> bool" where
  "does m evs \<longleftrightarrow> (\<forall>s x t. m s = (Inr x, t) \<longrightarrow> trace t = trace s @ evs x)"

lemma doesD: "does m evs \<Longrightarrow> m s = (Inr x, t) \<Longrightarrow> trace t = trace s @ evs x"
  by (simp add: does_def)

lemma does_ret: "does (pret x) (\<lambda>_. [])"
  by (simp add: does_def)

lemma does_ask: "does (ask f) (\<lambda>_. [])"
  by (auto simp: does_def ask_def)

lemma does_act: "does (act ev g) (\<lambda>_. [ev])"
  by (auto simp: does_def act_def)

lemma does_io: "does (io env ev) (\<lambda>_. [ev])"
  by (simp add: io_def does_act)

lemma does_unlink: "does (unlink env p) (\<lambda>_. [Removed p])"
  by (simp add: unlink_def does_act)

lemma does_say: "does (say l) (\<lambda>_. [Printed l])"
  by (simp add: say_def does_act)

lemma does_shell: "does (shell env args) (\<lambda>_. [Ran args])"
  by (simp add: shell_def does_act)

lemma does_watching: "does (watching_part g) (\<lambda>_. [])"
  by (auto simp: does_def watching_part_def split: sum.splits prod.splits)

lemma does_bind:
  "does m (\<lambda>_. e1) \<Longrightarrow> (\<And>x. does (f x) (\<lambda>_. e2)) \<Longrightarrow> does (pbind m f) (\<lambda>_. e1 @ e2)"
  unfolding does_def pbind_def by (fastforce split: prod.splits sum.splits)

lemma does_then_skip: "does m (\<lambda>_. e) \<Longrightarrow> does (pbind m (\<lambda>_. pret ())) (\<lambda>_. e)"
  using does_bind [of m e "\<lambda>_. pret ()" "[]"] does_ret by (simp add: does_def)

lemma does_run_checked: "does (run_checked env args) (\<lambda>_. [Ran args])"
  by (auto simp: does_def run_checked_def pbind_def shell_def act_def
      split: prod.splits sum.splits if_splits)

lemma does_for:
  assumes "\<And>x. does (f x) (\<lambda>_. ev x)"
  shows "does (pfor xs f) (\<lambda>_. concat (map ev xs))"
proof (induction xs)
  case (Cons x xs)
  show ?case
    using does_bind [OF assms Cons.IH] by simp
qed (simp add: does_def)

section \<open>Reading a run backwards\<close>

lemma pbind_Inr_iff: "pbind m f s = (Inr y, u) \<longleftrightarrow> (\<exists>x t. m s = (Inr x, t) \<and> f x t = (Inr y, u))"
  by (auto simp: pbind_def split: prod.splits sum.splits)

lemma pbindE:
  assumes "pbind m f s = (Inr y, u)"
  obtains x t where "m s = (Inr x, t)" "f x t = (Inr y, u)"
  using assms by (auto simp: pbind_def split: prod.splits sum.splits)

lemma watching_part_Inr:
  "watching_part f s = (Inr x, t) \<longleftrightarrow> (\<exists>k. f (obs s) = Inr (x, k) \<and> t = s\<lparr>obs := k\<rparr>)"
  by (auto simp: watching_part_def split: sum.splits)

lemma act_Inr: "act ev f s = (Inr x, t) \<Longrightarrow> f (obs s) = Inr x \<and> obs t = Suc (obs s)"
  by (auto simp: act_def)

section \<open>Evaluating a program\<close>

text \<open>Programs are evaluated from the outside in: a continuation is left alone until it is reached.\<close>

lemma pbind_outer: "m = m' \<Longrightarrow> s = s' \<Longrightarrow> pbind m f s = pbind m' f s'"
  by simp

lemma pfinally_outer: "s = s' \<Longrightarrow> pfinally m f s = pfinally m f s'"
  by simp

lemma pfor_outer: "xs = xs' \<Longrightarrow> pfor xs f = pfor xs' f"
  by simp

lemma watching_outer: "s = s' \<Longrightarrow> watching_part f s = watching_part f s'"
  by simp

lemma rbind_outer: "r = r' \<Longrightarrow> rbind r f = rbind r' f"
  by simp

lemmas outer_congs = rbind_outer pbind_outer pfinally_outer pfor_outer watching_outer

lemmas step_defs = pbind_def pfinally_def ask_def act_def io_def say_def unlink_def watching_part_def
  shell_def query_def proc_res_def 

section \<open>An environment where all is well\<close>

text \<open>
  Everything is in place when it is asked for: files of the given size, containers that run, requests
  that are answered. The examples use it.
\<close>

definition ready_env :: "int \<Rightarrow> env" where
  "ready_env sz =
     \<lparr>clock = of_nat, stat_at = (\<lambda>_ _. Inr \<lparr>st_reg = True, st_size = sz, st_blocks = sz\<rparr>),
      lstat_at = (\<lambda>_ _. Inr \<lparr>st_reg = True, st_size = sz, st_blocks = sz\<rparr>),
      walk_at = (\<lambda>_ p. [(p, [''f''])]), rglob_at = (\<lambda>_ p. [p @ [''f'']]), bytes_at = (\<lambda>_ _. Inr ''data''),
      run_at = (\<lambda>_ _. Inr \<lparr>returncode = 0, stdout = ''Started libtorrent session'', stderr = []\<rparr>),
      exists_at = (\<lambda>_ _. False), io_at = (\<lambda>_. None), load_at = (\<lambda>_. 0), http_at = (\<lambda>_. Inr 200), kept_at = (\<lambda>_. 0),
      random_at = (\<lambda>_ n. replicate n CHR ''x''), uid = 1000\<rparr>"

definition fresh :: sys where
  "fresh = \<lparr>obs = 0, trace = [], out_file = None\<rparr>"

end
