(* ===== verification/Json.thy ===== *)
theory Json
  imports World
begin

text \<open>
  The part of Python's \<open>json\<close> module the programs use: \<open>dumps\<close> of an object whose values are
  null, numbers or strings, and \<open>loads\<close> of such a text. Characters outside the printable ASCII
  range are written as four hexadecimal digits, as \<open>ensure_ascii\<close> has it. A value that is
  itself an object or an array, which no reader here meets, is refused as malformed.
\<close>

datatype jval = JNull | JInt int | JFloat rat | JStr string

type_synonym jobj = "(string \<times> jval) list"

section \<open>Writing\<close>

definition hex_char :: "nat \<Rightarrow> char" where
  "hex_char n = ''0123456789abcdef'' ! n"

definition json_escape :: "char \<Rightarrow> string" where
  "json_escape c =
     (let k = (of_char c :: nat) in
      if k = 34 then [CHR 0x5C, CHR 0x22]
      else if k = 92 then [CHR 0x5C, CHR 0x5C]
      else if k = 10 then [CHR 0x5C, CHR ''n'']
      else if k = 13 then [CHR 0x5C, CHR ''r'']
      else if k = 9 then [CHR 0x5C, CHR ''t'']
      else if k = 12 then [CHR 0x5C, CHR ''f'']
      else if k = 8 then [CHR 0x5C, CHR ''b'']
      else if 32 \<le> k \<and> k \<le> 126 then [c]
      else [CHR 0x5C, CHR ''u'', CHR ''0'', CHR ''0'', hex_char (k div 16), hex_char (k mod 16)])"

definition json_str :: "string \<Rightarrow> string" where
  "json_str s = CHR 0x22 # concat (map json_escape s) @ [CHR 0x22]"

fun json_val :: "jval \<Rightarrow> string" where
  "json_val JNull = ''null''"
| "json_val (JInt i) = str_of_int i"
| "json_val (JFloat x) = float_repr x"
| "json_val (JStr s) = json_str s"

definition json_member :: "string \<times> jval \<Rightarrow> string" where
  "json_member kv = json_str (fst kv) @ '': '' @ json_val (snd kv)"

definition json_dumps :: "jobj \<Rightarrow> string" where
  "json_dumps kvs = ''{'' @ str_join '', '' (map json_member kvs) @ ''}''"

section \<open>Reading\<close>

definition hex_val :: "char \<Rightarrow> nat option" where
  "hex_val c =
     (let k = (of_char c :: nat) in
      if 48 \<le> k \<and> k \<le> 57 then Some (k - 48)
      else if 97 \<le> k \<and> k \<le> 102 then Some (k - 87)
      else if 65 \<le> k \<and> k \<le> 70 then Some (k - 55) else None)"

definition simple_escape :: "char \<Rightarrow> char option" where
  "simple_escape c =
     (if c = CHR 0x22 then Some CHR 0x22 else if c = CHR 0x5C then Some CHR 0x5C
      else if c = CHR ''/'' then Some CHR ''/'' else if c = CHR ''b'' then Some CHR 0x08
      else if c = CHR ''f'' then Some CHR 0x0C else if c = CHR ''n'' then Some CHR 0x0A
      else if c = CHR ''r'' then Some CHR 0x0D else if c = CHR ''t'' then Some CHR 0x09 else None)"

text \<open>The rest of a string literal, after its opening quote: the string and what follows it.\<close>

fun scan_string :: "string \<Rightarrow> (string \<times> string) option" where
  "scan_string [] = None"
| "scan_string (c # cs) =
     (if c = CHR 0x22 then Some ([], cs)
      else if c = CHR 0x5C then
        (case cs of
           [] \<Rightarrow> None
         | e # r \<Rightarrow>
             (case simple_escape e of
                Some d \<Rightarrow> map_option (apfst ((#) d)) (scan_string r)
              | None \<Rightarrow>
                  (case (e, r) of
                     (e', h1 # h2 # h3 # h4 # r') \<Rightarrow>
                       (if e' = CHR ''u'' then
                          (case (hex_val h1, hex_val h2, hex_val h3, hex_val h4) of
                             (Some 0, Some 0, Some a, Some b) \<Rightarrow>
                               map_option (apfst ((#) (char_of (16 * a + b)))) (scan_string r')
                           | _ \<Rightarrow> None)
                        else None)
                   | _ \<Rightarrow> None)))
      else if (of_char c :: nat) < 32 then None
      else map_option (apfst ((#) c)) (scan_string cs))"

fun skip_ws :: "string \<Rightarrow> string" where
  "skip_ws [] = []"
| "skip_ws (c # cs) =
     (if c \<in> {CHR '' '', CHR 0x09, CHR 0x0A, CHR 0x0D} then skip_ws cs else c # cs)"

definition scan_fraction :: "string \<Rightarrow> string \<times> string" where
  "scan_fraction s =
     (case s of
        c # d # cs \<Rightarrow> if c = CHR ''.'' \<and> is_digit d
                     then (c # takeWhile is_digit (d # cs), dropWhile is_digit (d # cs)) else ([], s)
      | _ \<Rightarrow> ([], s))"

definition scan_exponent :: "string \<Rightarrow> string \<times> string" where
  "scan_exponent s =
     (case s of
        e # r \<Rightarrow>
          if e = CHR ''e'' \<or> e = CHR ''E'' then
            (let sg = takeWhile (\<lambda>c. c = CHR ''-'' \<or> c = CHR ''+'') (take 1 r);
                 t = drop (length sg) r; ds = takeWhile is_digit t
             in if ds = [] then ([], s) else (e # sg @ ds, dropWhile is_digit t))
          else ([], s)
      | [] \<Rightarrow> ([], s))"

definition split_minus :: "string \<Rightarrow> string \<times> string" where
  "split_minus s = (if s \<noteq> [] \<and> hd s = CHR ''-'' then ([CHR ''-''], tl s) else ([], s))"

definition scan_number :: "string \<Rightarrow> (jval \<times> string) option" where
  "scan_number s =
     (let (sg, s1) = split_minus s;
          ds = takeWhile is_digit s1;
          ip = (if ds \<noteq> [] \<and> hd ds = CHR ''0'' then [CHR ''0''] else ds);
          s2 = drop (length ip) s1;
          (fr, s3) = scan_fraction s2; (ex, s4) = scan_exponent s3
      in if ip = [] then None
         else if fr = [] \<and> ex = []
         then (case int_of_str (sg @ ip) of Inl _ \<Rightarrow> None | Inr i \<Rightarrow> Some (JInt i, s4))
         else (case float_of_str (sg @ ip @ fr @ ex) of
                 Inl _ \<Rightarrow> None | Inr x \<Rightarrow> Some (JFloat x, s4)))"

definition scan_value :: "string \<Rightarrow> (jval \<times> string) option" where
  "scan_value s =
     (if prefix ''null'' s then Some (JNull, drop 4 s)
      else case s of
        c # cs \<Rightarrow> if c = CHR 0x22 then map_option (apfst JStr) (scan_string cs) else scan_number s
      | [] \<Rightarrow> None)"

text \<open>The members after the opening brace; the fuel is the number of members allowed.\<close>

fun scan_members :: "nat \<Rightarrow> string \<Rightarrow> (jobj \<times> string) option" where
  "scan_members 0 s = None"
| "scan_members (Suc n) s =
     (case skip_ws s of
        c # cs \<Rightarrow>
          if c \<noteq> CHR 0x22 then None
          else (case scan_string cs of
            None \<Rightarrow> None
          | Some (k, r) \<Rightarrow>
              (case skip_ws r of
                 d # r1 \<Rightarrow>
                   if d \<noteq> CHR '':'' then None
                   else (case scan_value (skip_ws r1) of
                     None \<Rightarrow> None
                   | Some (v, r2) \<Rightarrow>
                       (case skip_ws r2 of
                          e # r3 \<Rightarrow>
                            if e = CHR ''}'' then Some ([(k, v)], r3)
                            else if e = CHR '','' then map_option (apfst ((#) (k, v))) (scan_members n r3)
                            else None
                        | [] \<Rightarrow> None))
               | [] \<Rightarrow> None))
      | [] \<Rightarrow> None)"

text \<open>A key that is written twice keeps its last value, as in the dictionary \<open>loads\<close> builds.\<close>

definition json_loads :: "string \<Rightarrow> jobj res" where
  "json_loads s =
     (case skip_ws s of
        c # cs \<Rightarrow>
          if c \<noteq> CHR ''{'' then Inl ValueError
          else (case (case skip_ws cs of
                   d # r \<Rightarrow> if d = CHR ''}'' then Some ([], r) else scan_members (length cs) cs
                 | [] \<Rightarrow> None) of
                  None \<Rightarrow> Inl ValueError
                | Some (kvs, r) \<Rightarrow>
                    if skip_ws r = [] then Inr (fold (\<lambda>(k, v) d. dict_set d k v) kvs [])
                    else Inl ValueError)
      | [] \<Rightarrow> Inl ValueError)"

section \<open>What is written is read back\<close>

lemma less_16_cases:
  "(n::nat) < 16 \<Longrightarrow> n \<in> {0, 1, 2, 3, 4, 5, 6, 7, 8, 9, 10, 11, 12, 13, 14, 15}"
  unfolding insert_iff empty_iff by presburger

lemma hex_val_char [simp]: "n < 16 \<Longrightarrow> hex_val (hex_char n) = Some n"
  by (drule less_16_cases) (elim insertE emptyE; simp add: hex_char_def hex_val_def)

lemma of_char_eq_simps:
  "(of_char c :: nat) = 34 \<longleftrightarrow> c = CHR 0x22"
  "(of_char c :: nat) = 92 \<longleftrightarrow> c = CHR 0x5C"
  "(of_char c :: nat) = 10 \<longleftrightarrow> c = CHR 0x0A"
  "(of_char c :: nat) = 13 \<longleftrightarrow> c = CHR 0x0D"
  "(of_char c :: nat) = 9 \<longleftrightarrow> c = CHR 0x09"
  "(of_char c :: nat) = 12 \<longleftrightarrow> c = CHR 0x0C"
  "(of_char c :: nat) = 8 \<longleftrightarrow> c = CHR 0x08"
  by (simp_all flip: of_char_eq_iff [where 'a = nat])

lemma json_escape_special:
  "json_escape CHR 0x22 = [CHR 0x5C, CHR 0x22]"
  "json_escape CHR 0x5C = [CHR 0x5C, CHR 0x5C]"
  "json_escape CHR 0x0A = [CHR 0x5C, CHR ''n'']"
  "json_escape CHR 0x0D = [CHR 0x5C, CHR ''r'']"
  "json_escape CHR 0x09 = [CHR 0x5C, CHR ''t'']"
  "json_escape CHR 0x0C = [CHR 0x5C, CHR ''f'']"
  "json_escape CHR 0x08 = [CHR 0x5C, CHR ''b'']"
  by (simp_all add: json_escape_def)

lemma scan_string_escape:
  "scan_string (json_escape c @ s) = map_option (apfst ((#) c)) (scan_string s)"
proof (cases "c \<in> {CHR 0x22, CHR 0x5C, CHR 0x0A, CHR 0x0D, CHR 0x09, CHR 0x0C, CHR 0x08}")
  case True
  then show ?thesis
    by (elim insertE emptyE; simp add: json_escape_special simple_escape_def)
next
  case False
  let ?k = "of_char c :: nat"
  have e: "json_escape c = (if 32 \<le> ?k \<and> ?k \<le> 126 then [c]
      else [CHR 0x5C, CHR ''u'', CHR ''0'', CHR ''0'', hex_char (?k div 16), hex_char (?k mod 16)])"
    using False by (simp add: json_escape_def of_char_eq_simps Let_def)
  have "hex_val CHR ''0'' = Some 0"
    by (simp add: hex_val_def)
  moreover have "?k div 16 < 16"
    by (rule less_mult_imp_div_less) (use nat_of_char_less_256 [of c] in simp)
  ultimately show ?thesis
    using False e by (auto simp: simple_escape_def not_less)
qed

lemma scan_string_str: "scan_string (concat (map json_escape s) @ CHR 0x22 # r) = Some (s, r)"
  by (induction s) (simp_all add: scan_string_escape)

lemma scan_string_json_str: "scan_string (tl (json_str s) @ r) = Some (s, r)"
  by (simp add: json_str_def scan_string_str)

text \<open>The values whose printed form is exact: every float a decimal, and not negative.\<close>

definition decimal_float :: "rat \<Rightarrow> bool" where
  "decimal_float x \<longleftrightarrow> 0 \<le> x \<and> x * 10 ^ 17 \<in> \<int>"

fun jval_ok :: "jval \<Rightarrow> bool" where
  "jval_ok (JFloat x) = decimal_float x"
| "jval_ok (JInt i) = (0 \<le> i)"
| "jval_ok _ = True"

lemma str_of_nat_hd_zero: "hd (str_of_nat n) = CHR ''0'' \<longleftrightarrow> n = 0"
proof (induction n rule: str_of_nat.induct)
  case (1 n)
  show ?case
  proof (cases "n < 10")
    case True
    then have "hd (str_of_nat n) = digit_char n" by (simp add: str_of_nat_small)
    moreover have "digit_char n = CHR ''0'' \<longleftrightarrow> n = 0"
      using True by (metis digit_val_char option.inject zero_less_numeral digit_char_def nth_Cons_0)
    ultimately show ?thesis by simp
  next
    case False
    then show ?thesis using 1 by (simp add: str_of_nat_step)
  qed
qed

lemma str_of_nat_zero_single: "hd (str_of_nat n) = CHR ''0'' \<Longrightarrow> str_of_nat n = [CHR ''0'']"
  by (simp add: str_of_nat_hd_zero str_of_nat_small digit_char_def)

definition ends_value :: "string \<Rightarrow> bool" where
  "ends_value r \<longleftrightarrow> (\<exists>c cs. r = c # cs \<and> (c = CHR '','' \<or> c = CHR ''}''))"

lemma take_span:
  assumes "\<And>c. c \<in> set w \<Longrightarrow> is_digit c" and "r = [] \<or> \<not> is_digit (hd r)"
  shows "takeWhile is_digit (w @ r) = w" and "dropWhile is_digit (w @ r) = r"
  using span_append [of w is_digit r] assms by blast+

lemma scan_number_int:
  assumes "ends_value r"
  shows "scan_number (str_of_nat n @ r) = Some (JInt (int n), r)"
proof -
  obtain c cs where r: "r = c # cs" "c = CHR '','' \<or> c = CHR ''}''"
    using assms by (auto simp: ends_value_def)
  obtain d ds where d: "str_of_nat n = d # ds" by (cases "str_of_nat n") auto
  have "is_digit d" using str_of_nat_digits [of d n] d by simp
  then have sg: "split_minus (str_of_nat n @ r) = ([], str_of_nat n @ r)"
    using d by (auto simp: split_minus_def)
  have span: "takeWhile is_digit (str_of_nat n @ r) = str_of_nat n"
      "dropWhile is_digit (str_of_nat n @ r) = r"
    using r by (auto intro!: take_span str_of_nat_digits)
  have ip: "(if str_of_nat n \<noteq> [] \<and> hd (str_of_nat n) = CHR ''0'' then [CHR ''0''] else str_of_nat n)
      = str_of_nat n"
    by (simp add: str_of_nat_zero_single)
  have "scan_fraction r = ([], r)" "scan_exponent r = ([], r)"
    using r by (auto simp: scan_fraction_def scan_exponent_def split: list.splits)
  then show ?thesis
    using ip unfolding scan_number_def sg Let_def by (simp only: span prod.case) simp
qed

lemma scan_number_fixed:
  assumes "ends_value r" "0 < p"
  shows "scan_number (fixed_of_nat p n @ r) = Some (JFloat (of_nat n / 10 ^ p), r)"
proof -
  let ?q = "str_of_nat (n div 10 ^ p)" and ?f = "zfill_left p (str_of_nat (n mod 10 ^ p))"
  obtain c cs where r: "r = c # cs" "c = CHR '','' \<or> c = CHR ''}''"
    using assms by (auto simp: ends_value_def)
  have fx: "fixed_of_nat p n = ?q @ CHR ''.'' # ?f"
    using assms(2) by (simp add: fixed_of_nat_def)
  obtain d ds where d: "?q = d # ds" by (cases ?q) auto
  have "is_digit d" using str_of_nat_digits [of d "n div 10 ^ p"] d by simp
  then have sg: "split_minus (fixed_of_nat p n @ r) = ([], fixed_of_nat p n @ r)"
    using d fx by (auto simp: split_minus_def)
  have span: "takeWhile is_digit (fixed_of_nat p n @ r) = ?q"
    unfolding fx append.assoc append_Cons
    by (rule take_span(1)) (auto intro: str_of_nat_digits)
  have ip: "(if ?q \<noteq> [] \<and> hd ?q = CHR ''0'' then [CHR ''0''] else ?q) = ?q"
    by (simp add: str_of_nat_zero_single)
  have fd: "\<And>c. c \<in> set ?f \<Longrightarrow> is_digit c"
    using zfill_left_free by blast
  have fspan: "takeWhile is_digit (?f @ r) = ?f" "dropWhile is_digit (?f @ r) = r"
    using r fd by (auto intro!: take_span)
  obtain g gs where g: "?f = g # gs" by (cases ?f) (auto simp: zfill_left_def)
  have "scan_fraction (CHR ''.'' # ?f @ r) = (CHR ''.'' # ?f, r)"
    using fspan fd [of g] by (simp add: scan_fraction_def g)
  moreover have "scan_exponent r = ([], r)"
    using r by (auto simp: scan_exponent_def)
  moreover have "drop (length ?q) (fixed_of_nat p n @ r) = CHR ''.'' # ?f @ r"
    by (simp add: fx)
  moreover have "float_of_str (?q @ CHR ''.'' # ?f) = Inr (of_nat n / 10 ^ p)"
    using float_of_str_fixed_of_nat [OF assms(2), of n] fx by simp
  ultimately show ?thesis
    using ip unfolding scan_number_def sg Let_def by (simp only: span prod.case) simp
qed

lemma scan_number_repr:
  assumes "ends_value r" "decimal_float x"
  shows "scan_number (float_repr x @ r) = Some (JFloat x, r)"
proof -
  let ?p = "max 1 (dec_places 17 x)"
  let ?n = "nat (rhe (x * 10 ^ ?p))"
  have x: "0 \<le> x" "x * 10 ^ 17 \<in> \<int>"
    using assms(2) by (simp_all add: decimal_float_def)
  have f: "float_repr x = fixed_of_nat ?p ?n"
    using x by (simp add: float_repr_def fixed_def)
  have "float_of_str (float_repr x) = Inr x"
    using x by (intro float_of_str_repr [where k = 17]) simp_all
  then have "of_nat ?n / 10 ^ ?p = x"
    using f by (simp add: float_of_str_fixed_of_nat del: of_nat_nat)
  then show ?thesis
    using scan_number_fixed [OF assms(1), of ?p ?n] f by simp
qed

lemma scan_value_val:
  assumes "ends_value r" "jval_ok v"
  shows "scan_value (json_val v @ r) = Some (v, r)"
proof (cases v)
  case JNull
  then show ?thesis by (simp add: scan_value_def)
next
  case (JStr s)
  then show ?thesis
    by (simp add: scan_value_def json_str_def scan_string_str)
next
  case (JInt i)
  obtain d ds where d: "str_of_nat (nat i) = d # ds" by (cases "str_of_nat (nat i)") auto
  then have "is_digit d" using str_of_nat_digits [of d "nat i"] by simp
  then have "d \<noteq> CHR ''n''" "d \<noteq> CHR 0x22"
    by (auto simp: is_digit_def digit_val_def)
  then show ?thesis
    using scan_number_int [OF assms(1), of "nat i"] JInt assms(2) d
    by (simp add: scan_value_def str_of_int_def)
next
  case (JFloat x)
  obtain d ds where d: "float_repr x = d # ds" by (cases "float_repr x") auto
  have "CHR ''n'' \<notin> set (float_repr x)" "CHR 0x22 \<notin> set (float_repr x)"
    by (simp_all add: float_repr_free is_digit_def digit_val_def)
  then have "d \<noteq> CHR ''n''" "d \<noteq> CHR 0x22"
    using d by auto
  then show ?thesis
    using scan_number_repr [OF assms(1), of x] JFloat assms(2) d
    by (simp add: scan_value_def)
qed

lemma json_str_Cons: "json_str s @ r = CHR 0x22 # concat (map json_escape s) @ CHR 0x22 # r"
  by (simp add: json_str_def)

lemma json_val_head:
  assumes "jval_ok v"
  obtains c cs where "json_val v = c # cs" "c \<notin> {CHR '' '', CHR 0x09, CHR 0x0A, CHR 0x0D}"
proof (cases v)
  case (JInt i)
  obtain d ds where d: "str_of_nat (nat i) = d # ds" by (cases "str_of_nat (nat i)") auto
  then have "is_digit d" using str_of_nat_digits [of d "nat i"] by simp
  then have "d \<notin> {CHR '' '', CHR 0x09, CHR 0x0A, CHR 0x0D}"
    by auto
  then show ?thesis
    using that [of d ds] JInt assms d by (simp add: str_of_int_def)
next
  case (JFloat x)
  obtain d ds where d: "float_repr x = d # ds" by (cases "float_repr x") auto
  have "c \<notin> set (float_repr x)" if "c \<in> {CHR '' '', CHR 0x09, CHR 0x0A, CHR 0x0D}" for c
    using that by (elim insertE emptyE) (simp_all add: float_repr_free)
  then have "d \<notin> {CHR '' '', CHR 0x09, CHR 0x0A, CHR 0x0D}"
    using d by (metis list.set_intros(1))
  then show ?thesis
    using that [of d ds] JFloat d by simp
qed (use that in \<open>auto simp: json_str_def\<close>)

lemma skip_ws_val:
  assumes "jval_ok v"
  shows "skip_ws (json_val v @ r) = json_val v @ r"
  using json_val_head [OF assms] by (metis append_Cons skip_ws.simps(2))

lemma scan_members_last:
  assumes "jval_ok v"
  shows "scan_members (Suc m) (json_member (k, v) @ CHR ''}'' # r) = Some ([(k, v)], r)"
  using assms scan_value_val [of "CHR ''}'' # r" v]
  by (simp add: json_member_def json_str_Cons scan_string_str skip_ws_val ends_value_def)

lemma scan_members_more:
  assumes "jval_ok v"
  shows "scan_members (Suc m) (json_member (k, v) @ CHR '','' # CHR '' '' # t)
    = map_option (apfst ((#) (k, v))) (scan_members m t)"
proof -
  have "scan_members m (CHR '' '' # t) = scan_members m t"
    by (cases m) simp_all
  then show ?thesis
    using assms scan_value_val [of "CHR '','' # CHR '' '' # t" v]
    by (simp add: json_member_def json_str_Cons scan_string_str skip_ws_val ends_value_def)
qed

lemma scan_members_print:
  assumes "kvs \<noteq> []" and "list_all (\<lambda>kv. jval_ok (snd kv)) kvs" and "length kvs \<le> n"
  shows "scan_members n (str_join '', '' (map json_member kvs) @ ''}'' @ r) = Some (kvs, r)"
  using assms
proof (induction kvs arbitrary: n)
  case (Cons kv kvs)
  obtain k v where kv: "kv = (k, v)" by (cases kv)
  obtain m where m: "n = Suc m" using Cons.prems(3) by (cases n) auto
  have v: "jval_ok v" using Cons.prems(2) kv by simp
  show ?case
  proof (cases "kvs = []")
    case True
    then show ?thesis
      using scan_members_last [OF v] by (simp add: m kv del: scan_members.simps)
  next
    case False
    then have "scan_members m (str_join '', '' (map json_member kvs) @ ''}'' @ r) = Some (kvs, r)"
      using Cons.IH Cons.prems m by simp
    then show ?thesis
      using scan_members_more [OF v] False
      by (simp add: m kv str_join_Cons del: scan_members.simps)
  qed
qed simp

definition jobj_ok :: "jobj \<Rightarrow> bool" where
  "jobj_ok kvs \<longleftrightarrow> distinct (map fst kvs) \<and> list_all (\<lambda>kv. jval_ok (snd kv)) kvs"

lemma json_loads_dumps:
  assumes "jobj_ok kvs"
  shows "json_loads (json_dumps kvs) = Inr kvs"
proof (cases kvs)
  case Nil
  then show ?thesis by (simp add: json_dumps_def json_loads_def)
next
  case (Cons kv kvs')
  let ?body = "str_join '', '' (map json_member kvs)"
  have *: "length (str_join '', '' ws) \<ge> length ws" if "\<And>w. w \<in> set ws \<Longrightarrow> w \<noteq> []" for ws
    using that by (induction "'', ''" ws rule: str_join.induct) (auto simp: Suc_le_eq)
  have "length kvs \<le> length ?body"
    using * [of "map json_member kvs"] by (auto simp: json_member_def json_str_def)
  then have "scan_members (length (?body @ ''}'')) (?body @ ''}'' @ []) = Some (kvs, [])"
    using assms Cons by (intro scan_members_print) (auto simp: jobj_ok_def list_all_iff)
  moreover obtain t where "?body = CHR 0x22 # t"
    using Cons by (cases kvs') (auto simp: json_member_def json_str_def)
  ultimately show ?thesis
    using assms fold_dict_set_distinct [of "[]" kvs]
    by (simp add: json_dumps_def json_loads_def jobj_ok_def del: scan_members.simps)
qed

definition read_json :: "string \<Rightarrow> jobj option" where
  "read_json s = (case json_loads s of Inl _ \<Rightarrow> None | Inr d \<Rightarrow> Some d)"

interpretation json: codec json_dumps read_json jobj_ok
  by unfold_locales (simp add: read_json_def json_loads_dumps)

text \<open>A printed object stays on one line.\<close>

lemma json_escape_line: "CHR 0x0A \<notin> set (json_escape c)"
proof -
  have "n < 16 \<Longrightarrow> hex_char n \<noteq> CHR 0x0A" for n
    by (drule less_16_cases) (elim insertE emptyE; simp add: hex_char_def)
  moreover have "of_char c div 16 < (16::nat)"
    using nat_of_char_less_256 [of c] by (simp add: less_mult_imp_div_less)
  ultimately have "hex_char (of_char c div 16) \<noteq> CHR 0x0A" "hex_char (of_char c mod 16) \<noteq> CHR 0x0A"
    by simp_all
  then show ?thesis
    by (auto simp: json_escape_def Let_def)
qed

lemma json_str_line: "CHR 0x0A \<notin> set (json_str s)"
  using json_escape_line by (auto simp: json_str_def)

lemma json_val_line: "CHR 0x0A \<notin> set (json_val v)"
  by (cases v) (auto simp: json_str_line str_of_int_free fixed_free float_repr_def)

lemma str_join_free: "c \<notin> set sep \<Longrightarrow> (\<And>x. x \<in> set xs \<Longrightarrow> c \<notin> set x) \<Longrightarrow> c \<notin> set (str_join sep xs)"
  by (induction sep xs rule: str_join.induct) auto

lemma json_dumps_line: "CHR 0x0A \<notin> set (json_dumps kvs)"
proof -
  have "CHR 0x0A \<notin> set (str_join '', '' (map json_member kvs))"
    by (rule str_join_free) (auto simp: json_member_def json_str_line json_val_line)
  then show ?thesis
    by (simp add: json_dumps_def)
qed

end
