(* ===== verification/Cluster.thy ===== *)
theory Cluster
  imports Effects Json
begin

text \<open>
  What \<open>syncfs_cluster.py\<close> and \<open>exasol_cluster.py\<close> share, line for line: the podman network, the loop
  that waits until every node is ready, the removal of the containers, and the description of a
  running cluster they hand to the matrix driver.
\<close>

section \<open>The description of a cluster\<close>

text \<open>A node's entry differs between the two systems, so it is a dictionary of strings.\<close>

record cluster_info =
  ci_system :: string
  ci_nodes :: int
  ci_nofile :: "int option"
  ci_node :: "(string, (string, string) dict) dict"
  ci_writer :: "string option"
  ci_sync_period :: "int option"
  ci_read_passwd :: "string option"
  ci_write_passwd :: "string option"

text \<open>\<open>json.dumps(info, indent=2)\<close>, which the cluster programs print.\<close>

datatype jtree = Leaf jval | Branch "(string \<times> jtree) list"

fun json_indented :: "nat \<Rightarrow> jtree \<Rightarrow> string" where
  "json_indented d (Leaf v) = json_val v"
| "json_indented d (Branch []) = ''{}''"
| "json_indented d (Branch (m # ms)) =
     ''{'' @ [CHR 0x0A] @
     str_join ('','' @ [CHR 0x0A])
       (map (\<lambda>(k, v). replicate (2 * Suc d) CHR '' '' @ json_str k @ '': '' @ json_indented (Suc d) v) (m # ms))
     @ [CHR 0x0A] @ replicate (2 * d) CHR '' '' @ ''}''"

definition node_tree :: "(string, (string, string) dict) dict \<Rightarrow> jtree" where
  "node_tree nodes = Branch (map (\<lambda>(n, entry). (n, Branch (map (\<lambda>(k, v). (k, Leaf (JStr v))) entry))) nodes)"

section \<open>Commands\<close>

definition ensure_network :: "env \<Rightarrow> string \<Rightarrow> string \<Rightarrow> (sys, unit) prog" where
  "ensure_network env network subnet =
     pbind (ask (\<lambda>k. query env k [''podman'', ''network'', ''exists'', network])) (\<lambda>r.
     pbind (plift r) (\<lambda>p.
       if returncode p = 0 then pret ()
       else pbind (run_checked env [''podman'', ''network'', ''create'', ''--subnet'', subnet, network])
              (\<lambda>_. pret ())))"

definition rm_args :: "string \<Rightarrow> string list" where
  "rm_args name = [''podman'', ''rm'', ''-f'', name]"

definition remove_containers :: "env \<Rightarrow> (int \<Rightarrow> string) \<Rightarrow> int list \<Rightarrow> (sys, unit) prog" where
  "remove_containers env name ids =
     pfor ids (\<lambda>i. pbind (shell env (rm_args (name i))) (\<lambda>_. pret ()))"

text \<open>The printed form of a list of integers.\<close>

definition int_list_str :: "int list \<Rightarrow> string" where
  "int_list_str xs = ''['' @ str_join '', '' (map str_of_int xs) @ '']''"

section \<open>Waiting until the nodes are ready\<close>

text \<open>
  \<open>probe k i\<close> asks, from observation \<open>k\<close> on, whether node \<open>i\<close> is ready; it raises for a container
  that has exited. The set of pending nodes is kept as a list and visited in order.
\<close>

fun ready_pass :: "(nat \<Rightarrow> int \<Rightarrow> (bool \<times> nat) res) \<Rightarrow> int list \<Rightarrow> int poll \<Rightarrow> int poll res" where
  "ready_pass probe [] s = Inr s"
| "ready_pass probe (i # rest) s =
     rbind (probe (tick s) i) (\<lambda>(ready, k).
       ready_pass probe rest
         (if ready then s\<lparr>tick := k, pending := removeAll i (pending s)\<rparr> else s\<lparr>tick := k\<rparr>))"

definition wait_ready ::
  "nat \<Rightarrow> env \<Rightarrow> (nat \<Rightarrow> int \<Rightarrow> (bool \<times> nat) res) \<Rightarrow> rat \<Rightarrow> int list \<Rightarrow> rat \<Rightarrow> nat \<Rightarrow> (unit \<times> nat) res" where
  "wait_ready fuel env probe nap ids deadline k =
     rbind (poll_until (clock env) (clock env k + deadline) nap
              (\<lambda>s. ready_pass probe (sort (pending s)) s) fuel
              \<lparr>tick = Suc k, pending = remdups ids\<rparr>) (\<lambda>s.
       if pending s \<noteq> []
       then Inl (RuntimeError (''nodes not ready within '' @ float_repr deadline @ ''s: '' @
              int_list_str (sort (pending s))))
       else Inr ((), tick s))"

text \<open>What a probe owes the loop.\<close>

locale ready_probe =
  fixes probe :: "nat \<Rightarrow> int \<Rightarrow> (bool \<times> nat) res"
  assumes probe_tick: "probe k i = Inr (b, k') \<Longrightarrow> k \<le> k'"
    and probe_stops: "probe k i \<noteq> Inl OutOfFuel"
begin

lemma pass_ticks: "ready_pass probe is s = Inr s' \<Longrightarrow> tick s \<le> tick s'"
proof (induction "is" arbitrary: s)
  case (Cons i "is")
  then obtain b k where b: "probe (tick s) i = Inr (b, k)"
    by (auto simp: rbind_Inr_iff)
  show ?case
    using Cons.IH Cons.prems b probe_tick [OF b] by (cases b) force+
qed simp

lemma pass_shrinks: "ready_pass probe is s = Inr s' \<Longrightarrow> set (pending s') \<subseteq> set (pending s)"
proof (induction "is" arbitrary: s)
  case (Cons i "is")
  then obtain b k where b: "probe (tick s) i = Inr (b, k)"
    by (auto simp: rbind_Inr_iff)
  show ?case
    using Cons.IH Cons.prems b by (cases b) force+
qed simp

lemma pass_returns: "ready_pass probe is s \<noteq> Inl OutOfFuel"
  by (induction "is" arbitrary: s) (auto simp: rbind_def probe_stops split: sum.splits)

text \<open>A node leaves the list only when it was seen ready.\<close>

lemma pass_seen:
  "ready_pass probe is s = Inr s' \<Longrightarrow> i \<in> set (pending s) \<Longrightarrow> i \<notin> set (pending s') \<Longrightarrow>
   \<exists>k k'. tick s \<le> k \<and> probe k i = Inr (True, k')"
proof (induction "is" arbitrary: s)
  case (Cons j "is")
  then obtain b k where b: "probe (tick s) j = Inr (b, k)"
    by (auto simp: rbind_Inr_iff)
  show ?case
  proof (cases "b \<and> i = j")
    case True
    then show ?thesis using b by auto
  next
    case False
    define u where "u = (if b then s\<lparr>tick := k, pending := removeAll j (pending s)\<rparr> else s\<lparr>tick := k\<rparr>)"
    have "ready_pass probe is u = Inr s'" "i \<in> set (pending u)" "tick s \<le> tick u"
      using Cons.prems b False probe_tick [OF b] by (auto simp: u_def)
    then show ?thesis
      using Cons.IH [of u] Cons.prems(3) le_trans by blast
  qed
qed simp

end

sublocale ready_probe \<subseteq> polling "\<lambda>s. ready_pass probe (sort (pending s)) s"
  by unfold_locales (auto dest: pass_ticks pass_shrinks simp: pass_returns)

context ready_probe
begin

lemma ready_sound:
  assumes "wait_ready fuel env probe nap ids deadline k = Inr ((), k')" and "i \<in> set ids"
  shows "\<exists>j j'. k < j \<and> probe j i = Inr (True, j')"
proof -
  obtain s where s: "poll_until (clock env) (clock env k + deadline) nap
      (\<lambda>s. ready_pass probe (sort (pending s)) s) fuel \<lparr>tick = Suc k, pending = remdups ids\<rparr> = Inr s"
      "pending s = []"
    using assms(1) by (auto simp: wait_ready_def rbind_Inr_iff split: if_splits)
  have "k < tick s \<and> (i \<in> set (pending s) \<or> (\<exists>j j'. k < j \<and> probe j i = Inr (True, j')))"
  proof (rule loop_invariant [OF _ s(1)])
    show "k < tick \<lparr>tick = Suc k, pending = remdups ids\<rparr> \<and>
        (i \<in> set (pending \<lparr>tick = Suc k, pending = remdups ids\<rparr>) \<or> (\<exists>j j'. k < j \<and> probe j i = Inr (True, j')))"
      using assms(2) by simp
  next
    fix u u'
    assume "k < tick u \<and> (i \<in> set (pending u) \<or> (\<exists>j j'. k < j \<and> probe j i = Inr (True, j')))"
      and pass: "ready_pass probe (sort (pending u)) u = Inr u'"
    then show "k < tick u' \<and> (i \<in> set (pending u') \<or> (\<exists>j j'. k < j \<and> probe j i = Inr (True, j')))"
      using pass_seen [OF pass, of i] pass_ticks [OF pass] by fastforce
  qed auto
  then show ?thesis
    using s(2) by simp
qed

lemma ready_returns:
  assumes "\<And>j. N \<le> j \<Longrightarrow> clock env k + deadline \<le> clock env j" and "N \<le> k + fuel" and "0 < fuel"
  shows "wait_ready fuel env probe nap ids deadline k \<noteq> Inl OutOfFuel"
proof -
  have "poll_until (clock env) (clock env k + deadline) nap
      (\<lambda>s. ready_pass probe (sort (pending s)) s) fuel \<lparr>tick = Suc k, pending = remdups ids\<rparr> \<noteq> Inl OutOfFuel"
    by (rule enough_fuel [OF assms(1)]) (use assms(2,3) in auto)
  then show ?thesis
    by (auto simp: wait_ready_def rbind_def split: sum.splits if_splits)
qed

text \<open>Not ready in time is an error that names the nodes, and then the clock did pass the deadline.\<close>

lemma ready_late:
  assumes "\<And>k i m. probe k i \<noteq> Inl (RuntimeError m)" and "0 \<le> nap"
    and "wait_ready fuel env probe nap ids deadline k = Inl (RuntimeError m)"
  shows "\<exists>j. clock env k + deadline \<le> clock env j"
proof -
  let ?loop = "poll_until (clock env) (clock env k + deadline) nap
      (\<lambda>s. ready_pass probe (sort (pending s)) s) fuel \<lparr>tick = Suc k, pending = remdups ids\<rparr>"
  have no: "ready_pass probe is s \<noteq> Inl (RuntimeError m)" for "is" s
    using assms(1) by (induction "is" arbitrary: s) (auto simp: rbind_def split: sum.splits)
  have "?loop \<noteq> Inl (RuntimeError m)"
    using loop_error [of _ _ _ fuel _ "RuntimeError m"] no assms(2) by fastforce
  then obtain s where "?loop = Inr s" "pending s \<noteq> []"
    using assms(3) by (auto simp: wait_ready_def rbind_def split: sum.splits if_splits)
  then show ?thesis
    using loop_exit by blast
qed

end

section \<open>Lemmas on the commands\<close>

lemma ensure_network_climbs [step_climbs]:
  "growth.climbs (ensure_network env n sn)" "filing.climbs (ensure_network env n sn)"
  unfolding ensure_network_def by (intro climbing step_climbs)+

lemma remove_containers_climbs [step_climbs]:
  "growth.climbs (remove_containers env name ids)" "filing.climbs (remove_containers env name ids)"
  unfolding remove_containers_def by (intro climbing step_climbs)+

lemma does_remove: "does (remove_containers env name ids) (\<lambda>_. map (\<lambda>i. Ran (rm_args (name i))) ids)"
proof -
  have "does (pbind (shell env (rm_args (name i))) (\<lambda>_. pret ())) (\<lambda>_. [Ran (rm_args (name i))])" for i
    by (rule does_then_skip [OF does_shell])
  from does_for [OF this] show ?thesis
    unfolding remove_containers_def by (simp add: concat_map_singleton)
qed

end
