(* ===== verification/SyncfsCluster.thy ===== *)
theory SyncfsCluster
  imports Cluster
begin

text \<open>
  \<open>tools/measure/bucketfs/syncfs_cluster.py\<close>: an N-node syncfs mesh under podman. The probe
  behind \<open>wait_ready\<close>, the commands that start a node, the description \<open>up\<close> returns.
\<close>

section \<open>Names\<close>

definition syncfs_image :: string where
  "syncfs_image = ''localhost/syncfs''"

definition debug_image :: string where
  "debug_image = ''localhost/syncfs-env''"

definition debug_binary :: string where
  "debug_binary = ''/syncfs/.build/unixlike-clang-debug/src/syncfs''"

definition syncfs_network :: string where
  "syncfs_network = ''syncfsnet''"

definition zmq_port :: int where
  "zmq_port = 5555"

definition nofile_limit :: int where
  "nofile_limit = 1048576"

definition syncfs_node_ids :: "int \<Rightarrow> int list" where
  "syncfs_node_ids n = map (\<lambda>i. 1 + int i) [0..<nat n]"

definition syncfs_node_name :: "int \<Rightarrow> string" where
  "syncfs_node_name i = ''sfs'' @ str_of_int i"

definition syncfs_container :: "path \<Rightarrow> int \<Rightarrow> string" where
  "syncfs_container base i = ''syncfs-'' @ path_name base @ ''-'' @ syncfs_node_name i"

section \<open>Starting a node\<close>

definition peers_text :: "int list \<Rightarrow> int \<Rightarrow> string" where
  "peers_text ids i = concat (map (\<lambda>other.
     ''tcp://'' @ syncfs_node_name other @ '':'' @ str_of_int zmq_port @ [CHR 0x0A])
     (filter (\<lambda>other. other \<noteq> i) ids))"

definition node_root :: "path \<Rightarrow> int \<Rightarrow> path" where
  "node_root base i = base @ [syncfs_node_name i]"

definition data_dir :: "path \<Rightarrow> int \<Rightarrow> path" where
  "data_dir base i = node_root base i @ [''data'']"

definition peers_file :: "path \<Rightarrow> int \<Rightarrow> path" where
  "peers_file base i = node_root base i @ [''peers'']"

definition option_path_str :: "path option \<Rightarrow> string" where
  "option_path_str p = (case p of None \<Rightarrow> ''None'' | Some q \<Rightarrow> path_str q)"

definition syncfs_run_args :: "env \<Rightarrow> path \<Rightarrow> bool \<Rightarrow> path option \<Rightarrow> int \<Rightarrow> string list" where
  "syncfs_run_args env base debug source i =
     [''podman'', ''run'', ''-d'',
      ''--name'', syncfs_container base i,
      ''--hostname'', syncfs_node_name i,
      ''--network'', syncfs_network @ '':alias='' @ syncfs_node_name i,
      ''--ulimit'', ''nofile='' @ str_of_int nofile_limit @ '':'' @ str_of_int nofile_limit,
      ''--userns'', ''keep-id:uid='' @ str_of_int (uid env),
      ''-v'', path_str (data_dir base i) @ '':/data:rw,Z'',
      ''-v'', path_str (peers_file base i) @ '':/peers:ro,Z'']
     @ (if debug
        then [''-v'', option_path_str source @ '':/syncfs:ro,Z'',
              ''--user'', str_of_int (uid env),
              ''--workdir'', ''/data'',
              ''--entrypoint'', debug_binary,
              debug_image]
        else [syncfs_image])
     @ [''/peers'', syncfs_node_name i @ '':'' @ str_of_int zmq_port]"

definition syncfs_start_node ::
  "env \<Rightarrow> path \<Rightarrow> int list \<Rightarrow> bool \<Rightarrow> path option \<Rightarrow> int \<Rightarrow> (sys, unit) prog" where
  "syncfs_start_node env base ids debug source i =
     pbind (io env (MadeDir (data_dir base i))) (\<lambda>_.
     pbind (io env (Wrote (peers_file base i) (peers_text ids i))) (\<lambda>_.
     pbind (shell env (rm_args (syncfs_container base i))) (\<lambda>_.
     pbind (run_checked env (syncfs_run_args env base debug source i)) (\<lambda>_. pret ()))))"

section \<open>Waiting\<close>

definition inspect_args :: "string \<Rightarrow> string \<Rightarrow> string list" where
  "inspect_args what name = [''podman'', ''inspect'', ''--format'', ''{{.State.'' @ what @ ''}}'', name]"

definition contains :: "string \<Rightarrow> string \<Rightarrow> bool" where
  "contains pat s \<longleftrightarrow> find_sub pat s \<noteq> None"

definition exited_error :: "env \<Rightarrow> nat \<Rightarrow> string \<Rightarrow> 'a res" where
  "exited_error env k name =
     rbind (query env k [''podman'', ''logs'', ''--tail'', ''20'', name]) (\<lambda>p.
       Inl (RuntimeError (name @ '' exited during startup:'' @ [CHR 0x0A] @ stdout p @ stderr p)))"

definition syncfs_probe :: "env \<Rightarrow> path \<Rightarrow> nat \<Rightarrow> int \<Rightarrow> (bool \<times> nat) res" where
  "syncfs_probe env base k i =
     (let name = syncfs_container base i in
      rbind (query env k (inspect_args ''Status'' name)) (\<lambda>p.
        if str_strip (stdout p) = ''exited'' then exited_error env (Suc k) name
        else rbind (query env (Suc k) [''podman'', ''logs'', name]) (\<lambda>logs.
          Inr (contains ''Started libtorrent session'' (stdout logs @ stderr logs), k + 2))))"

text \<open>The wait ends with the grace period for the subscriptions, which changes nothing here.\<close>

definition syncfs_wait_ready :: "nat \<Rightarrow> env \<Rightarrow> path \<Rightarrow> int list \<Rightarrow> rat \<Rightarrow> (sys, unit) prog" where
  "syncfs_wait_ready fuel env base ids deadline =
     watching_part (wait_ready fuel env (syncfs_probe env base) (1 / 2) ids deadline)"

section \<open>The limit the process got\<close>

text \<open>\<open>line.split()\<close>: the runs of characters that are not white space.\<close>

function split_ws :: "string \<Rightarrow> string list" where
  "split_ws s =
     (let t = dropWhile is_space s in
      if t = [] then []
      else takeWhile (\<lambda>c. \<not> is_space c) t # split_ws (dropWhile (\<lambda>c. \<not> is_space c) t))"
  by pat_completeness auto

termination
proof (relation "measure length")
  fix s t :: string
  assume t: "t = dropWhile is_space s" and ne: "t \<noteq> []"
  have "\<not> is_space (hd t)"
    using hd_dropWhile t ne by metis
  then have "length (dropWhile (\<lambda>c. \<not> is_space c) t) < length t"
    using ne by (cases t) (simp_all add: length_dropWhile_le less_Suc_eq_le)
  moreover have "length t \<le> length s"
    by (simp add: t length_dropWhile_le)
  ultimately show "(dropWhile (\<lambda>c. \<not> is_space c) t, s) \<in> measure length"
    by simp
qed simp

declare split_ws.simps [simp del]

definition max_open_files :: "string \<Rightarrow> int option" where
  "max_open_files limits =
     (case filter (prefix ''Max open files'') (splitlines limits) of
        [] \<Rightarrow> None
      | line # _ \<Rightarrow>
          let words = split_ws line in
          if length words \<le> 3 then None
          else (case int_of_str (words ! 3) of Inl _ \<Rightarrow> None | Inr n \<Rightarrow> Some n))"

definition observed_nofile :: "env \<Rightarrow> path \<Rightarrow> int \<Rightarrow> nat \<Rightarrow> (int option \<times> nat) res" where
  "observed_nofile env base i k =
     rbind (query env k (inspect_args ''Pid'' (syncfs_container base i))) (\<lambda>p.
       Inr (case bytes_at env (Suc k) (path_of_str (''/proc/'' @ str_strip (stdout p) @ ''/limits'')) of
              Inl _ \<Rightarrow> None
            | Inr limits \<Rightarrow> max_open_files limits, k + 2))"

section \<open>Up and down\<close>

definition syncfs_node_entry :: "path \<Rightarrow> int \<Rightarrow> (string, string) dict" where
  "syncfs_node_entry base i =
     [(''container'', syncfs_container base i), (''data_dir'', path_str (data_dir base i))]"

definition syncfs_info :: "path \<Rightarrow> int \<Rightarrow> int option \<Rightarrow> cluster_info" where
  "syncfs_info base n nofile =
     \<lparr>ci_system = ''syncfs'', ci_nodes = n, ci_nofile = nofile,
      ci_node = map (\<lambda>i. (syncfs_node_name i, syncfs_node_entry base i)) (syncfs_node_ids n),
      ci_writer = Some (syncfs_node_name (hd (syncfs_node_ids n))),
      ci_sync_period = None, ci_read_passwd = None, ci_write_passwd = None\<rparr>"

definition syncfs_up ::
  "nat \<Rightarrow> env \<Rightarrow> path \<Rightarrow> int \<Rightarrow> rat \<Rightarrow> bool \<Rightarrow> path option \<Rightarrow> (sys, cluster_info) prog" where
  "syncfs_up fuel env base n deadline debug source =
     (if n < 2
      then praise (SystemExit ''a syncfs mesh needs at least 2 nodes: an empty peer list is fatal'')
      else
        let ids = syncfs_node_ids n in
        pbind (ensure_network env syncfs_network ''10.10.20.0/24'') (\<lambda>_.
        pbind (io env (MadeDir base)) (\<lambda>_.
        pbind (pfor ids (syncfs_start_node env base ids debug source)) (\<lambda>_.
        pbind (syncfs_wait_ready fuel env base ids deadline) (\<lambda>_.
        pbind (watching_part (observed_nofile env base (hd ids))) (\<lambda>nofile.
        pret (syncfs_info base n nofile)))))))"

definition syncfs_down :: "env \<Rightarrow> path \<Rightarrow> int \<Rightarrow> (sys, unit) prog" where
  "syncfs_down env base n = remove_containers env (syncfs_container base) (syncfs_node_ids n)"

text \<open>The program: \<open>up\<close> prints the description, \<open>down\<close> removes the containers.\<close>

datatype syncfs_command =
    SyncfsUp int path rat bool "path option"
  | SyncfsDown int path

definition syncfs_tree :: "cluster_info \<Rightarrow> jtree" where
  "syncfs_tree info = Branch
     [(''system'', Leaf (JStr (ci_system info))), (''nodes'', Leaf (JInt (ci_nodes info))),
      (''nofile'', Leaf (case ci_nofile info of None \<Rightarrow> JNull | Some n \<Rightarrow> JInt n)),
      (''node'', node_tree (ci_node info)),
      (''writer'', Leaf (case ci_writer info of None \<Rightarrow> JNull | Some n \<Rightarrow> JStr n))]"

fun syncfs_main :: "nat \<Rightarrow> env \<Rightarrow> syncfs_command \<Rightarrow> (sys, int) prog" where
  "syncfs_main fuel env (SyncfsUp n base deadline debug source) =
     pbind (syncfs_up fuel env base n deadline debug source) (\<lambda>info.
     pbind (say (json_indented 0 (syncfs_tree info))) (\<lambda>_. pret 0))"
| "syncfs_main fuel env (SyncfsDown n base) = pbind (syncfs_down env base n) (\<lambda>_. pret 0)"

section \<open>The probe meets the loop's contract\<close>

lemma query_no_fuel [simp]: "query env k args \<noteq> Inl OutOfFuel"
  by (simp add: query_def proc_res_def split: sum.splits)

lemma query_no_runtime [simp]: "query env k args \<noteq> Inl (RuntimeError m)"
  by (simp add: query_def proc_res_def split: sum.splits)

lemma exited_error_no [simp]:
  "exited_error env k name \<noteq> Inl OutOfFuel" "exited_error env k name \<noteq> Inr x"
  by (auto simp: exited_error_def rbind_def split: sum.splits)

interpretation syncfs_ready: ready_probe "syncfs_probe env base" for env base
proof
  fix k i b k'
  assume "syncfs_probe env base k i = Inr (b, k')"
  then show "k \<le> k'"
    by (auto simp: syncfs_probe_def rbind_Inr_iff Let_def split: if_splits)
next
  fix k i
  show "syncfs_probe env base k i \<noteq> Inl OutOfFuel"
    by (auto simp: syncfs_probe_def rbind_def Let_def split: sum.splits)
qed

section \<open>Names are distinct\<close>

lemma syncfs_node_name_inj [simp]: "syncfs_node_name i = syncfs_node_name j \<longleftrightarrow> i = j"
  by (simp add: syncfs_node_name_def)

lemma syncfs_container_inj [simp]: "syncfs_container base i = syncfs_container base j \<longleftrightarrow> i = j"
  by (simp add: syncfs_container_def)

lemma syncfs_node_ids_distinct: "distinct (syncfs_node_ids n)"
  by (simp add: syncfs_node_ids_def distinct_map inj_on_def)

lemma set_syncfs_node_ids: "set (syncfs_node_ids n) = {1..n}"
proof -
  have "i \<in> set (syncfs_node_ids n)" if "1 \<le> i" "i \<le> n" for i
    using that by (auto simp: syncfs_node_ids_def image_iff intro!: bexI [of _ "nat (i - 1)"])
  then show ?thesis
    by (auto simp: syncfs_node_ids_def)
qed

lemma syncfs_node_ids_upto: "syncfs_node_ids n = [1..n]"
  by (rule nth_equalityI) (simp_all add: syncfs_node_ids_def nth_upto)

lemma length_syncfs_node_ids [simp]: "length (syncfs_node_ids n) = nat n"
  by (simp add: syncfs_node_ids_def)

section \<open>What starting a mesh does\<close>

definition syncfs_start_events :: "env \<Rightarrow> path \<Rightarrow> int list \<Rightarrow> bool \<Rightarrow> path option \<Rightarrow> int \<Rightarrow> event list" where
  "syncfs_start_events env base ids debug source i =
     [MadeDir (data_dir base i), Wrote (peers_file base i) (peers_text ids i),
      Ran (rm_args (syncfs_container base i)), Ran (syncfs_run_args env base debug source i)]"

lemma does_syncfs_start: "does (syncfs_start_node env base ids debug source i)
    (\<lambda>_. syncfs_start_events env base ids debug source i)"
proof -
  have "does (syncfs_start_node env base ids debug source i)
    (\<lambda>_. [MadeDir (data_dir base i)] @ [Wrote (peers_file base i) (peers_text ids i)] @
      [Ran (rm_args (syncfs_container base i))] @ [Ran (syncfs_run_args env base debug source i)])"
    unfolding syncfs_start_node_def
    by (intro does_bind does_io does_shell does_then_skip does_run_checked)
  then show ?thesis
    by (simp add: syncfs_start_events_def)
qed

lemma syncfs_up_climbs [step_climbs]:
  "growth.climbs (syncfs_up fuel env base n dl debug source)"
  "filing.climbs (syncfs_up fuel env base n dl debug source)"
  unfolding syncfs_up_def syncfs_start_node_def syncfs_wait_ready_def Let_def
  by (intro climbing step_climbs)+

lemma syncfs_down_climbs [step_climbs]:
  "growth.climbs (syncfs_down env base n)" "filing.climbs (syncfs_down env base n)"
  unfolding syncfs_down_def by (intro climbing step_climbs)+

lemma ensure_network_events:
  assumes "ensure_network env net sn s = (Inr (), t)"
  shows "trace t = trace s \<or>
    trace t = trace s @ [Ran [''podman'', ''network'', ''create'', ''--subnet'', sn, net]]"
  using assms
  by (auto simp: ensure_network_def pbind_Inr_iff ask_def split: if_splits
      dest!: doesD [OF does_run_checked])

text \<open>The part of \<open>up\<close> before it waits.\<close>

definition starts_mesh :: "env \<Rightarrow> path \<Rightarrow> int list \<Rightarrow> bool \<Rightarrow> path option \<Rightarrow> (sys, unit) prog" where
  "starts_mesh env base ids debug source =
     pbind (ensure_network env syncfs_network ''10.10.20.0/24'') (\<lambda>_.
     pbind (io env (MadeDir base)) (\<lambda>_. pfor ids (syncfs_start_node env base ids debug source)))"

text \<open>A mesh that came up: what was run for it, that every node was seen ready after that, what is returned.\<close>

lemma syncfs_up_result:
  assumes "syncfs_up fuel env base n deadline debug source s = (Inr info, t)"
  shows "2 \<le> n"
    and "\<exists>nofile. info = syncfs_info base n nofile"
    and "\<exists>net u. trace t = trace s @ net @ [MadeDir base] @
      concat (map (syncfs_start_events env base (syncfs_node_ids n) debug source) (syncfs_node_ids n)) \<and>
      net \<in> {[], [Ran [''podman'', ''network'', ''create'', ''--subnet'', ''10.10.20.0/24'', syncfs_network]]} \<and>
      starts_mesh env base (syncfs_node_ids n) debug source s = (Inr (), u) \<and> trace u = trace t \<and>
      (\<forall>i \<in> set (syncfs_node_ids n). \<exists>k k'. obs u < k \<and> syncfs_probe env base k i = Inr (True, k'))"
proof -
  let ?ids = "syncfs_node_ids n"
  show "2 \<le> n"
    using assms by (auto simp: syncfs_up_def split: if_splits)
  then obtain s1 s2 s3 s4 nofile where st:
    "ensure_network env syncfs_network ''10.10.20.0/24'' s = (Inr (), s1)"
    "io env (MadeDir base) s1 = (Inr (), s2)"
    "pfor ?ids (syncfs_start_node env base ?ids debug source) s2 = (Inr (), s3)"
    "syncfs_wait_ready fuel env base ?ids deadline s3 = (Inr (), s4)"
    "watching_part (observed_nofile env base (hd ?ids)) s4 = (Inr nofile, t)"
    "info = syncfs_info base n nofile"
    using assms by (auto simp: syncfs_up_def Let_def pbind_Inr_iff)
  then show "\<exists>nofile. info = syncfs_info base n nofile"
    by blast
  have waited: "trace t = trace s3"
    using doesD [OF does_watching st(4) [unfolded syncfs_wait_ready_def]] doesD [OF does_watching st(5)] by simp
  have "trace s3 = trace s1 @ [MadeDir base] @
      concat (map (syncfs_start_events env base ?ids debug source) ?ids)"
    using doesD [OF does_io st(2)] doesD [OF does_for [OF does_syncfs_start] st(3)] by simp
  then obtain net where net: "trace t = trace s @ net @ [MadeDir base] @
      concat (map (syncfs_start_events env base ?ids debug source) ?ids)"
    "net \<in> {[], [Ran [''podman'', ''network'', ''create'', ''--subnet'', ''10.10.20.0/24'', syncfs_network]]}"
    using ensure_network_events [OF st(1)] waited by fastforce
  have "starts_mesh env base ?ids debug source s = (Inr (), s3)"
    using st(1-3) by (simp add: starts_mesh_def pbind_def)
  moreover obtain k' where "wait_ready fuel env (syncfs_probe env base) (1 / 2) ?ids deadline (obs s3) = Inr ((), k')"
    using st(4) by (auto simp: syncfs_wait_ready_def watching_part_def split: sum.splits prod.splits)
  then have "\<forall>i \<in> set ?ids. \<exists>k k'. obs s3 < k \<and> syncfs_probe env base k i = Inr (True, k')"
    using syncfs_ready.ready_sound by blast
  ultimately show "\<exists>net u. trace t = trace s @ net @ [MadeDir base] @
      concat (map (syncfs_start_events env base ?ids debug source) ?ids) \<and>
      net \<in> {[], [Ran [''podman'', ''network'', ''create'', ''--subnet'', ''10.10.20.0/24'', syncfs_network]]} \<and>
      starts_mesh env base ?ids debug source s = (Inr (), u) \<and> trace u = trace t \<and>
      (\<forall>i \<in> set ?ids. \<exists>k k'. obs u < k \<and> syncfs_probe env base k i = Inr (True, k'))"
    using net waited by (intro exI [of _ net] exI [of _ s3]) simp
qed

section \<open>Properties\<close>

lemma sublist_middle: "xs = a @ b @ c \<Longrightarrow> sublist b xs"
  by (auto simp: sublist_def)

lemma run_args_parts:
  "take 3 (syncfs_run_args env base debug source i) = [''podman'', ''run'', ''-d'']"
  "sublist [''--name'', syncfs_container base i] (syncfs_run_args env base debug source i)"
  "sublist [''-v'', path_str (data_dir base i) @ '':/data:rw,Z''] (syncfs_run_args env base debug source i)"
proof -
  show "take 3 (syncfs_run_args env base debug source i) = [''podman'', ''run'', ''-d'']"
    by (simp add: syncfs_run_args_def eval_nat_numeral)
  show "sublist [''--name'', syncfs_container base i] (syncfs_run_args env base debug source i)"
    by (rule sublist_middle [where a = "take 3 (syncfs_run_args env base debug source i)" and
          c = "drop 5 (syncfs_run_args env base debug source i)"])
      (simp add: syncfs_run_args_def eval_nat_numeral)
  show "sublist [''-v'', path_str (data_dir base i) @ '':/data:rw,Z''] (syncfs_run_args env base debug source i)"
    by (rule sublist_middle [where a = "take 13 (syncfs_run_args env base debug source i)" and
          c = "drop 15 (syncfs_run_args env base debug source i)"])
      (simp add: syncfs_run_args_def eval_nat_numeral)
qed

text \<open>
  C37. What \<open>up\<close> reports is what it started. When a mesh comes up, its commands were, in this order and no
  others, the network's if it was not there, and for each node once: its directory made, its peers file
  written with every other node, an old container removed, and a container of the node's name run detached
  with exactly that directory mounted as its data. Only after the last of them was each node seen ready. The
  description has for each node that container and that directory, and nothing else.
\<close>

theorem syncfs_up_mounts_what_it_reports:
  assumes "syncfs_up fuel env base n deadline debug source s = (Inr info, t)"
  shows "\<exists>net u. trace t = trace s @ net @ [MadeDir base] @
      concat (map (\<lambda>i. [MadeDir (data_dir base i), Wrote (peers_file base i) (peers_text (syncfs_node_ids n) i),
        Ran (rm_args (syncfs_container base i)), Ran (syncfs_run_args env base debug source i)]) (syncfs_node_ids n)) \<and>
    net \<in> {[], [Ran [''podman'', ''network'', ''create'', ''--subnet'', ''10.10.20.0/24'', syncfs_network]]} \<and>
    starts_mesh env base (syncfs_node_ids n) debug source s = (Inr (), u) \<and> trace u = trace t \<and>
    syncfs_node_ids n = [1..n] \<and>
    ci_node info = map (\<lambda>i. (syncfs_node_name i, [(''container'', syncfs_container base i), (''data_dir'', path_str (data_dir base i))])) [1..n] \<and>
    (\<forall>i \<in> {1..n}. take 3 (syncfs_run_args env base debug source i) = [''podman'', ''run'', ''-d''] \<and>
      sublist [''--name'', syncfs_container base i] (syncfs_run_args env base debug source i) \<and>
      sublist [''-v'', path_str (data_dir base i) @ '':/data:rw,Z''] (syncfs_run_args env base debug source i) \<and>
      (\<exists>k k'. obs u < k \<and> syncfs_probe env base k i = Inr (True, k')))"
proof -
  note up = syncfs_up_result [OF assms]
  obtain net u where u: "trace t = trace s @ net @ [MadeDir base] @
      concat (map (syncfs_start_events env base (syncfs_node_ids n) debug source) (syncfs_node_ids n))"
    "net \<in> {[], [Ran [''podman'', ''network'', ''create'', ''--subnet'', ''10.10.20.0/24'', syncfs_network]]}"
    "starts_mesh env base (syncfs_node_ids n) debug source s = (Inr (), u)" "trace u = trace t"
    "\<forall>i \<in> set (syncfs_node_ids n). \<exists>k k'. obs u < k \<and> syncfs_probe env base k i = Inr (True, k')"
    using up(3) by blast
  have ids: "syncfs_node_ids n = [1..n]"
    by (rule syncfs_node_ids_upto)
  moreover have "ci_node info = map (\<lambda>i. (syncfs_node_name i, [(''container'', syncfs_container base i), (''data_dir'', path_str (data_dir base i))])) [1..n]"
    using up(2) ids by (auto simp: syncfs_info_def syncfs_node_entry_def)
  moreover have "\<forall>i \<in> {1..n}. \<exists>k k'. obs u < k \<and> syncfs_probe env base k i = Inr (True, k')"
    using u(5) by (simp only: set_syncfs_node_ids)
  ultimately show ?thesis
    using u(1-4) run_args_parts unfolding syncfs_start_events_def by blast
qed

lemma sample_syncfs_up:
  obtains info s1 where "syncfs_up 2 (ready_env 3) [[], ''r''] 2 600 False None fresh = (Inr info, s1)"
proof -
  have ids: "syncfs_node_ids 2 = [1, 2]"
    by code_simp
  have "contains ''Started libtorrent session'' ''Started libtorrent session''" "str_strip ''Started libtorrent session'' \<noteq> ''exited''"
    by code_simp+
  then have "\<not> isl (fst (syncfs_up 2 (ready_env 3) [[], ''r''] 2 600 False None fresh))"
    by (simp add: syncfs_up_def Let_def ids step_defs ensure_network_def syncfs_start_node_def
        run_checked_def syncfs_wait_ready_def wait_ready_def syncfs_probe_def eval_nat_numeral observed_nofile_def
        ready_env_def fresh_def cong: outer_congs)
  then show ?thesis
    using that by (metis isl_def prod.collapse sum.collapse(2))
qed

theorem syncfs_up_mounts_what_it_reports_witness:
  "\<exists>info t u net. syncfs_up 2 (ready_env 3) [[], ''r''] 2 600 False None fresh = (Inr info, t) \<and>
    starts_mesh (ready_env 3) [[], ''r''] (syncfs_node_ids 2) False None fresh = (Inr (), u) \<and>
    trace t = net @ [MadeDir [[], ''r'']] @
      concat (map (\<lambda>i. [MadeDir (data_dir [[], ''r''] i), Wrote (peers_file [[], ''r''] i) (peers_text (syncfs_node_ids 2) i),
        Ran (rm_args (syncfs_container [[], ''r''] i)), Ran (syncfs_run_args (ready_env 3) [[], ''r''] False None i)]) (syncfs_node_ids 2)) \<and>
    (\<exists>k k'. obs u < k \<and> syncfs_probe (ready_env 3) [[], ''r''] k 2 = Inr (True, k'))"
proof -
  obtain info t where run: "syncfs_up 2 (ready_env 3) [[], ''r''] 2 600 False None fresh = (Inr info, t)"
    by (rule sample_syncfs_up)
  have "trace fresh = []" "(2 :: int) \<in> {1..2}"
    by (simp_all add: fresh_def)
  then show ?thesis
    using run syncfs_up_mounts_what_it_reports [OF run] by fastforce
qed

end
