(* ===== verification/Base64.thy ===== *)
theory Base64
  imports PyText
begin

text \<open>
  \<open>base64.b64encode\<close> and the decoder of \<open>binascii\<close> behind \<open>base64.b64decode\<close>, as the programs use
  them: text in, text out. Characters outside the alphabet are skipped by the decoder, and a run of
  padding that completes a group ends the data. Text is ASCII, so \<open>encode()\<close> and \<open>decode()\<close>
  are the identity on it, and a decoded byte above 127 raises.
\<close>

section \<open>The alphabet\<close>

definition b64_char :: "nat \<Rightarrow> char" where
  "b64_char n = char_of
     (if n < 26 then 65 + n else if n < 52 then 71 + n else if n < 62 then n - 4
      else if n = 62 then 43 else 47)"

definition b64_val :: "char \<Rightarrow> nat option" where
  "b64_val c =
     (let k = (of_char c :: nat) in
      if 65 \<le> k \<and> k \<le> 90 then Some (k - 65)
      else if 97 \<le> k \<and> k \<le> 122 then Some (k - 71)
      else if 48 \<le> k \<and> k \<le> 57 then Some (k + 4)
      else if k = 43 then Some 62 else if k = 47 then Some 63 else None)"

lemma of_b64_char:
  "n < 64 \<Longrightarrow> (of_char (b64_char n) :: nat) =
    (if n < 26 then 65 + n else if n < 52 then 71 + n else if n < 62 then n - 4
     else if n = 62 then 43 else 47)"
  by (simp add: b64_char_def of_char_of)

lemma b64_val_char: "n < 64 \<Longrightarrow> b64_val (b64_char n) = Some n"
  by (simp add: b64_val_def of_b64_char Let_def) linarith

lemma b64_val_pad: "b64_val CHR ''='' = None"
  by (simp add: b64_val_def)

lemma b64_char_not_pad: "n < 64 \<Longrightarrow> b64_char n \<noteq> CHR ''=''"
  using b64_val_char [of n] by (auto simp: b64_val_pad)

lemma b64_char_not_space: "n < 64 \<Longrightarrow> \<not> is_space (b64_char n)"
  by (simp add: is_space_def of_b64_char Let_def) linarith

section \<open>Encoding\<close>

fun b64_bytes :: "nat list \<Rightarrow> string" where
  "b64_bytes (a # b # c # xs) =
     [b64_char (a div 4), b64_char (a mod 4 * 16 + b div 16), b64_char (b mod 16 * 4 + c div 64),
      b64_char (c mod 64)] @ b64_bytes xs"
| "b64_bytes [a, b] =
     [b64_char (a div 4), b64_char (a mod 4 * 16 + b div 16), b64_char (b mod 16 * 4), CHR ''='']"
| "b64_bytes [a] = [b64_char (a div 4), b64_char (a mod 4 * 16), CHR ''='', CHR ''='']"
| "b64_bytes [] = []"

definition b64encode :: "string \<Rightarrow> string" where
  "b64encode s = b64_bytes (map of_char s)"

section \<open>Decoding\<close>

text \<open>The position in the group of four, the bits left over, the padding seen, and the text.\<close>

fun b64_scan :: "nat \<Rightarrow> nat \<Rightarrow> nat \<Rightarrow> string \<Rightarrow> nat list option" where
  "b64_scan q left pads [] = (if q = 0 then Some [] else None)"
| "b64_scan q left pads (c # cs) =
     (if c = CHR ''='' then
        (if 2 \<le> q \<and> 4 \<le> q + Suc pads then Some []
         else b64_scan q left (if 2 \<le> q then Suc pads else pads) cs)
      else case b64_val c of
        None \<Rightarrow> b64_scan q left pads cs
      | Some v \<Rightarrow>
          if q = 0 then b64_scan 1 v 0 cs
          else if q = 1 then map_option ((#) (left * 4 + v div 16)) (b64_scan 2 (v mod 16) 0 cs)
          else if q = 2 then map_option ((#) (left * 16 + v div 4)) (b64_scan 3 (v mod 4) 0 cs)
          else map_option ((#) (left * 64 + v)) (b64_scan 0 0 0 cs))"

definition b64decode :: "string \<Rightarrow> string res" where
  "b64decode s =
     (case b64_scan 0 0 0 s of
        None \<Rightarrow> Inl ValueError
      | Some bs \<Rightarrow> if list_all (\<lambda>b. b < 128) bs then Inr (map char_of bs) else Inl ValueError)"

lemma b64_scan_step:
  assumes "v < 64"
  shows "b64_scan q left pads (b64_char v # cs) =
    (if q = 0 then b64_scan 1 v 0 cs
     else if q = 1 then map_option ((#) (left * 4 + v div 16)) (b64_scan 2 (v mod 16) 0 cs)
     else if q = 2 then map_option ((#) (left * 16 + v div 4)) (b64_scan 3 (v mod 4) 0 cs)
     else map_option ((#) (left * 64 + v)) (b64_scan 0 0 0 cs))"
  using assms by (simp add: b64_val_char b64_char_not_pad)

lemma join_split:
  assumes "y < (d::nat)"
  shows "(x * d + y) div d = x" "(x * d + y) mod d = y"
  using assms by simp_all

lemma group_bounds:
  assumes "a < 256" "b < 256" "(c::nat) < 256"
  shows "a div 4 < 64" "a mod 4 * 16 + b div 16 < 64" "b mod 16 * 4 + c div 64 < 64" "c mod 64 < 64"
    "a mod 4 * 16 < 64" "b mod 16 * 4 < 64"
proof -
  have "a div 4 < 64" "b div 16 < 16" "c div 64 < 4"
    using assms by (auto intro!: less_mult_imp_div_less)
  moreover have "a mod 4 < 4" "b mod 16 < 16" "c mod 64 < 64"
    by simp_all
  ultimately show "a div 4 < 64" "a mod 4 * 16 + b div 16 < 64" "b mod 16 * 4 + c div 64 < 64"
    "c mod 64 < 64" "a mod 4 * 16 < 64" "b mod 16 * 4 < 64"
    by linarith+
qed

lemma group_bits:
  assumes "a < 256" "b < 256" "(c::nat) < 256"
  shows "a div 4 * 4 + (a mod 4 * 16 + b div 16) div 16 = a"
    "(a mod 4 * 16 + b div 16) mod 16 * 16 + (b mod 16 * 4 + c div 64) div 4 = b"
    "(b mod 16 * 4 + c div 64) mod 4 * 64 + c mod 64 = c"
    "a div 4 * 4 + (a mod 4 * 16) div 16 = a"
    "(a mod 4 * 16 + b div 16) mod 16 * 16 + (b mod 16 * 4) div 4 = b"
proof -
  have b: "b div 16 < 16" and c: "c div 64 < 4"
    using assms by (auto intro!: less_mult_imp_div_less)
  show "a div 4 * 4 + (a mod 4 * 16 + b div 16) div 16 = a"
    "(a mod 4 * 16 + b div 16) mod 16 * 16 + (b mod 16 * 4 + c div 64) div 4 = b"
    "(b mod 16 * 4 + c div 64) mod 4 * 64 + c mod 64 = c"
    "a div 4 * 4 + (a mod 4 * 16) div 16 = a"
    "(a mod 4 * 16 + b div 16) mod 16 * 16 + (b mod 16 * 4) div 4 = b"
    by (simp_all only: join_split [OF b] join_split [OF c] nonzero_mult_div_cancel_right
        div_mult_mod_eq)
qed

lemma b64_scan_bytes: "list_all (\<lambda>b. b < 256) bs \<Longrightarrow> b64_scan 0 0 0 (b64_bytes bs) = Some bs"
proof (induction bs rule: b64_bytes.induct)
  case (1 a b c xs)
  then have "a < 256" "b < 256" "c < 256" by simp_all
  then show ?case
    using 1 by (simp add: b64_scan_step group_bounds group_bits del: b64_scan.simps(2))
next
  case (2 a b)
  then have "a < 256" "b < 256" "(0::nat) < 256" by simp_all
  note b = group_bounds [OF this] group_bits [OF this]
  have "b64_scan 3 x 0 [CHR ''=''] = Some []" for x by simp
  then show ?case
    using b by (simp add: b64_scan_step del: b64_scan.simps(2))
next
  case (3 a)
  then have "a < 256" "(0::nat) < 256" by simp_all
  note b = group_bounds [OF this this(2)] group_bits [OF this this(2)]
  have "b64_scan 2 x 0 [CHR ''='', CHR ''=''] = Some []" for x by simp
  then show ?case
    using b by (simp add: b64_scan_step del: b64_scan.simps(2))
qed simp

definition ascii :: "string \<Rightarrow> bool" where
  "ascii s \<longleftrightarrow> list_all (\<lambda>c. (of_char c :: nat) < 128) s"

lemma b64decode_encode:
  assumes "ascii s"
  shows "b64decode (b64encode s) = Inr s"
proof -
  have "list_all (\<lambda>b. b < 256) (map of_char s :: nat list)"
    using nat_of_char_less_256 by (auto simp: list_all_iff)
  then show ?thesis
    using assms by (simp add: b64decode_def b64encode_def b64_scan_bytes ascii_def list_all_iff comp_def)
qed

definition read_b64 :: "string \<Rightarrow> string option" where
  "read_b64 s = (case b64decode s of Inl _ \<Rightarrow> None | Inr t \<Rightarrow> Some t)"

interpretation base64: codec b64encode read_b64 ascii
  by unfold_locales (simp add: read_b64_def b64decode_encode)

text \<open>What is printed holds no white space, so it stands in a line of a configuration file.\<close>

lemma b64_bytes_not_space: "list_all (\<lambda>b. b < 256) bs \<Longrightarrow> list_all (\<lambda>c. \<not> is_space c) (b64_bytes bs)"
proof (induction bs rule: b64_bytes.induct)
  case (1 a b c xs)
  then have "a < 256" "b < 256" "c < 256" by simp_all
  then show ?case
    using 1 by (simp add: group_bounds b64_char_not_space)
next
  case (2 a b)
  then show ?case
    using group_bounds [of a b 0] by (simp add: b64_char_not_space) (simp add: is_space_def)
next
  case (3 a)
  then show ?case
    using group_bounds [of a 0 0] by (simp add: b64_char_not_space) (simp add: is_space_def)
qed simp

lemma of_char_bytes: "list_all (\<lambda>b. b < 256) (map of_char s :: nat list)"
  using nat_of_char_less_256 by (auto simp: list_all_iff)

lemma b64encode_not_space: "list_all (\<lambda>c. \<not> is_space c) (b64encode s)"
  unfolding b64encode_def by (rule b64_bytes_not_space [OF of_char_bytes])

lemma b64encode_not_Nil: "s \<noteq> [] \<Longrightarrow> b64encode s \<noteq> []"
  by (cases "map of_char s :: nat list" rule: b64_bytes.cases) (auto simp: b64encode_def)

end
