(* ===== verification/ExasolCluster.thy ===== *)
theory ExasolCluster
  imports SyncfsCluster Base64
begin

text \<open>
  \<open>tools/measure/bucketfs/exasol_cluster.py\<close>: an N-node BucketFS under podman, from one generated
  configuration every node gets a copy of. What the container image does with its arguments is the
  environment's business.
\<close>

section \<open>Names, addresses and ports\<close>

definition exasol_image :: string where
  "exasol_image = ''docker.io/exasol/docker-db:2026.1.1''"

definition exasol_network :: string where
  "exasol_network = ''exanet''"

definition bucketfs_name :: string where
  "bucketfs_name = ''bfsdefault''"

definition bucket_name :: string where
  "bucket_name = ''default''"

definition container_http_port :: int where
  "container_http_port = 2580"

definition exasol_node_ids :: "int \<Rightarrow> int list" where
  "exasol_node_ids n = map (\<lambda>i. 11 + int i) [0..<nat n]"

definition node_ip :: "int \<Rightarrow> string" where
  "node_ip i = ''10.10.10.'' @ str_of_int i"

definition host_port :: "int \<Rightarrow> int" where
  "host_port i = 2600 + (i - 11)"

definition exasol_container :: "path \<Rightarrow> int \<Rightarrow> string" where
  "exasol_container base i = ''exa-'' @ path_name base @ ''-n'' @ str_of_int i"

definition exasol_node_name :: "int \<Rightarrow> string" where
  "exasol_node_name i = ''n'' @ str_of_int i"

definition exasol_node_root :: "path \<Rightarrow> int \<Rightarrow> path" where
  "exasol_node_root base i = base @ [exasol_node_name i]"

section \<open>The configuration\<close>

definition template_dir :: "path \<Rightarrow> path" where
  "template_dir base = base @ [''_template'']"

definition exaconf_file :: "path \<Rightarrow> path" where
  "exaconf_file base = template_dir base @ [''etc'', ''EXAConf'']"

definition init_template_args :: "path \<Rightarrow> int \<Rightarrow> string list" where
  "init_template_args base n =
     [''podman'', ''run'', ''--rm'', ''--privileged'',
      ''--network'', exasol_network, ''--ip'', node_ip 11,
      ''-v'', path_str (template_dir base) @ '':/exa:Z'',
      exasol_image,
      ''init-sc'', ''--template'',
      ''--num-nodes'', str_of_int n,
      ''--node-id'', str_of_int 11,
      ''--no-db'', ''--no-odirect'']"

definition exaconf_args :: "path \<Rightarrow> int \<Rightarrow> string list" where
  "exaconf_args base sync_period =
     [''podman'', ''run'', ''--rm'', ''--privileged'',
      ''-v'', path_str (template_dir base) @ '':/exa:Z'',
      ''--entrypoint'', ''/opt/exasol/cos-8.66.7/bin/exaconf'',
      exasol_image,
      ''modify-bucketfs'',
      ''--name'', bucketfs_name,
      ''--http-port'', str_of_int container_http_port,
      ''--sync-period'', str_of_int sync_period,
      ''/exa/etc/EXAConf'']"

definition write_template :: "env \<Rightarrow> path \<Rightarrow> int \<Rightarrow> int \<Rightarrow> (sys, path) prog" where
  "write_template env base n sync_period =
     pbind (ask (\<lambda>k. exists_at env k (template_dir base))) (\<lambda>there.
     pbind (if there then io env (RemovedTree (template_dir base)) else pret ()) (\<lambda>_.
     pbind (io env (MadeDir (template_dir base @ [''etc'']))) (\<lambda>_.
     pbind (run_checked env (init_template_args base n)) (\<lambda>_.
     pbind (run_checked env (exaconf_args base sync_period)) (\<lambda>_.
     pret (exaconf_file base))))))"

text \<open>
  The search for \<open>^\s*FIELD\s*=\s*(\S+)\s*$\<close> in multi-line mode. White space in the pattern may
  span lines; the value is a whole run of other characters, followed by white space up to some line
  end, or to the end of the text.
\<close>

definition match_field :: "string \<Rightarrow> string \<Rightarrow> string option" where
  "match_field name s =
     (let s1 = dropWhile is_space s in
      if \<not> prefix name s1 then None
      else
        let s2 = dropWhile is_space (drop (length name) s1) in
        if take 1 s2 \<noteq> ''='' then None
        else
          let s3 = dropWhile is_space (tl s2);
              v = takeWhile (\<lambda>c. \<not> is_space c) s3;
              after = dropWhile (\<lambda>c. \<not> is_space c) s3
          in if v \<noteq> [] \<and> (dropWhile is_space after = [] \<or> CHR 0x0A \<in> set (takeWhile is_space after))
             then Some v else None)"

fun search_lines :: "string \<Rightarrow> string \<Rightarrow> string option" where
  "search_lines name [] = None"
| "search_lines name (c # cs) =
     (if c = CHR 0x0A
      then (case match_field name cs of Some v \<Rightarrow> Some v | None \<Rightarrow> search_lines name cs)
      else search_lines name cs)"

definition search_field :: "string \<Rightarrow> string \<Rightarrow> string option" where
  "search_field name s = (case match_field name s of Some v \<Rightarrow> Some v | None \<Rightarrow> search_lines name s)"

definition password_of :: "string \<Rightarrow> string \<Rightarrow> path \<Rightarrow> string res" where
  "password_of name conf exaconf =
     (case search_field name conf of
        None \<Rightarrow> Inl (RuntimeError (''no '' @ name @ '' in '' @ path_str exaconf))
      | Some v \<Rightarrow> b64decode v)"

definition read_passwords :: "env \<Rightarrow> path \<Rightarrow> nat \<Rightarrow> ((string \<times> string) \<times> nat) res" where
  "read_passwords env exaconf k =
     (case bytes_at env k exaconf of
        Inl e \<Rightarrow> Inl (OSErr e)
      | Inr conf \<Rightarrow>
          rbind (password_of ''ReadPasswd'' conf exaconf) (\<lambda>r.
          rbind (password_of ''WritePasswd'' conf exaconf) (\<lambda>w. Inr ((r, w), Suc k))))"

section \<open>Starting and waiting\<close>

definition exasol_run_args :: "path \<Rightarrow> int \<Rightarrow> string list" where
  "exasol_run_args base i =
     [''podman'', ''run'', ''-d'',
      ''--name'', exasol_container base i,
      ''--privileged'',
      ''--hostname'', exasol_node_name i,
      ''--network'', exasol_network, ''--ip'', node_ip i,
      ''-v'', path_str (exasol_node_root base i) @ '':/exa:Z'',
      ''-p'', str_of_int (host_port i) @ '':'' @ str_of_int container_http_port,
      exasol_image,
      ''init-sc'',
      ''--num-nodes'', ''0'',
      ''--node-id'', str_of_int i,
      ''--no-db'', ''--no-odirect'']"

definition exasol_start_node :: "env \<Rightarrow> path \<Rightarrow> path \<Rightarrow> int \<Rightarrow> (sys, unit) prog" where
  "exasol_start_node env base exaconf i =
     pbind (io env (MadeDir (exasol_node_root base i @ [''etc'']))) (\<lambda>_.
     pbind (io env (Copied exaconf (exasol_node_root base i @ [''etc'', ''EXAConf'']))) (\<lambda>_.
     pbind (shell env (rm_args (exasol_container base i))) (\<lambda>_.
     pbind (run_checked env (exasol_run_args base i)) (\<lambda>_. pret ()))))"

definition bucket_url :: "int \<Rightarrow> string" where
  "bucket_url i = ''http://localhost:'' @ str_of_int (host_port i) @ ''/'' @ bucket_name"

definition exasol_probe :: "env \<Rightarrow> path \<Rightarrow> nat \<Rightarrow> int \<Rightarrow> (bool \<times> nat) res" where
  "exasol_probe env base k i =
     (let name = exasol_container base i in
      rbind (query env k (inspect_args ''Status'' name)) (\<lambda>p.
        if str_strip (stdout p) = ''exited'' then exited_error env (Suc k) name
        else rbind (query env (Suc k)
               [''curl'', ''-s'', ''-o'', ''/dev/null'', ''-w'', ''%{http_code}'', ''--max-time'', ''3'',
                bucket_url i @ ''/'']) (\<lambda>probe.
          Inr (str_strip (stdout probe) \<in> {''200'', ''401'', ''403'', ''404''}, k + 2))))"

definition exasol_wait_ready :: "nat \<Rightarrow> env \<Rightarrow> path \<Rightarrow> int list \<Rightarrow> rat \<Rightarrow> (sys, unit) prog" where
  "exasol_wait_ready fuel env base ids deadline =
     watching_part (wait_ready fuel env (exasol_probe env base) 2 ids deadline)"

section \<open>Up and down\<close>

definition bucket_dir :: "path \<Rightarrow> int \<Rightarrow> path" where
  "bucket_dir base i =
     exasol_node_root base i @ [''data'', ''bucketfs'', bucketfs_name, ''.dest'', bucket_name]"

definition exasol_node_entry :: "path \<Rightarrow> int \<Rightarrow> (string, string) dict" where
  "exasol_node_entry base i =
     [(''container'', exasol_container base i), (''url'', bucket_url i),
      (''bucket_dir'', path_str (bucket_dir base i)),
      (''own_dir'', path_str (exasol_node_root base i @ [''data'', ''bucketfs'', bucketfs_name, bucket_name]))]"

definition exasol_info :: "path \<Rightarrow> int \<Rightarrow> int \<Rightarrow> string \<times> string \<Rightarrow> cluster_info" where
  "exasol_info base n sync_period passwords =
     \<lparr>ci_system = ''bucketfs'', ci_nodes = n, ci_nofile = None,
      ci_node = map (\<lambda>i. (exasol_node_name i, exasol_node_entry base i)) (exasol_node_ids n),
      ci_writer = None, ci_sync_period = Some sync_period,
      ci_read_passwd = Some (fst passwords), ci_write_passwd = Some (snd passwords)\<rparr>"

definition exasol_up :: "nat \<Rightarrow> env \<Rightarrow> path \<Rightarrow> int \<Rightarrow> int \<Rightarrow> rat \<Rightarrow> (sys, cluster_info) prog" where
  "exasol_up fuel env base n sync_period deadline =
     pbind (ensure_network env exasol_network ''10.10.10.0/24'') (\<lambda>_.
     pbind (io env (MadeDir base)) (\<lambda>_.
     pbind (write_template env base n sync_period) (\<lambda>exaconf.
     let ids = exasol_node_ids n in
     pbind (pfor ids (exasol_start_node env base exaconf)) (\<lambda>_.
     pbind (exasol_wait_ready fuel env base ids deadline) (\<lambda>_.
     pbind (watching_part (read_passwords env exaconf)) (\<lambda>passwords.
     pret (exasol_info base n sync_period passwords)))))))"

definition exasol_down :: "env \<Rightarrow> path \<Rightarrow> int \<Rightarrow> (sys, unit) prog" where
  "exasol_down env base n = remove_containers env (exasol_container base) (exasol_node_ids n)"

datatype exasol_command =
    ExasolUp int path int rat
  | ExasolDown int path

definition exasol_tree :: "cluster_info \<Rightarrow> jtree" where
  "exasol_tree info = Branch
     [(''system'', Leaf (JStr (ci_system info))), (''nodes'', Leaf (JInt (ci_nodes info))),
      (''sync_period_ms'', Leaf (case ci_sync_period info of None \<Rightarrow> JNull | Some n \<Rightarrow> JInt n)),
      (''read_passwd'', Leaf (case ci_read_passwd info of None \<Rightarrow> JNull | Some p \<Rightarrow> JStr p)),
      (''write_passwd'', Leaf (case ci_write_passwd info of None \<Rightarrow> JNull | Some p \<Rightarrow> JStr p)),
      (''node'', node_tree (ci_node info))]"

fun exasol_main :: "nat \<Rightarrow> env \<Rightarrow> exasol_command \<Rightarrow> (sys, int) prog" where
  "exasol_main fuel env (ExasolUp n base sync_period deadline) =
     pbind (exasol_up fuel env base n sync_period deadline) (\<lambda>info.
     pbind (say (json_indented 0 (exasol_tree info))) (\<lambda>_. pret 0))"
| "exasol_main fuel env (ExasolDown n base) = pbind (exasol_down env base n) (\<lambda>_. pret 0)"

section \<open>Contracts\<close>

interpretation exasol_ready: ready_probe "exasol_probe env base" for env base
proof
  fix k i b k'
  assume "exasol_probe env base k i = Inr (b, k')"
  then show "k \<le> k'"
    by (auto simp: exasol_probe_def rbind_Inr_iff Let_def split: if_splits)
next
  fix k i
  show "exasol_probe env base k i \<noteq> Inl OutOfFuel"
    by (auto simp: exasol_probe_def rbind_def Let_def split: sum.splits)
qed

lemma exasol_up_climbs [step_climbs]:
  "growth.climbs (exasol_up fuel env base n period dl)"
  "filing.climbs (exasol_up fuel env base n period dl)"
  unfolding exasol_up_def write_template_def exasol_start_node_def exasol_wait_ready_def Let_def
  by (intro climbing step_climbs)+

lemma exasol_down_climbs [step_climbs]:
  "growth.climbs (exasol_down env base n)" "filing.climbs (exasol_down env base n)"
  unfolding exasol_down_def by (intro climbing step_climbs)+

lemma exasol_node_name_inj [simp]: "exasol_node_name i = exasol_node_name j \<longleftrightarrow> i = j"
  by (simp add: exasol_node_name_def)

lemma exasol_container_inj [simp]: "exasol_container base i = exasol_container base j \<longleftrightarrow> i = j"
  by (simp add: exasol_container_def)

lemma set_exasol_node_ids: "set (exasol_node_ids n) = {11..n + 10}"
proof -
  have "i \<in> set (exasol_node_ids n)" if "11 \<le> i" "i \<le> n + 10" for i
    using that by (auto simp: exasol_node_ids_def image_iff intro!: bexI [of _ "nat (i - 11)"])
  then show ?thesis
    by (auto simp: exasol_node_ids_def)
qed

section \<open>Passwords read from the configuration\<close>

definition config_line :: "string \<Rightarrow> string \<Rightarrow> string" where
  "config_line name v = ''    '' @ name @ '' = '' @ v @ [CHR 0x0A]"

text \<open>A line whose first word is not the wanted name is no match, whatever follows it.\<close>

definition other_line :: "string \<Rightarrow> string \<Rightarrow> bool" where
  "other_line name line \<longleftrightarrow> CHR 0x0A \<notin> set line \<and>
     (let t = dropWhile is_space line in t \<noteq> [] \<and> \<not> prefix name t \<and> \<not> prefix t name)"

lemma other_line_no_match:
  assumes "other_line name line"
  shows "match_field name (line @ CHR 0x0A # rest) = None"
proof -
  let ?t = "dropWhile is_space line"
  have t: "?t \<noteq> []" "\<not> prefix name ?t" "\<not> prefix ?t name"
    using assms by (simp_all add: other_line_def Let_def)
  then have "dropWhile is_space (line @ CHR 0x0A # rest) = ?t @ CHR 0x0A # rest"
    by (auto simp: dropWhile_append dropWhile_eq_Nil_conv)
  moreover have "\<not> prefix name (?t @ CHR 0x0A # rest)"
    using t by (metis prefix_append prefix_def prefix_same_cases)
  ultimately show ?thesis
    by (simp add: match_field_def Let_def)
qed

lemma search_lines_skip:
  "CHR 0x0A \<notin> set line \<Longrightarrow> search_lines name (line @ CHR 0x0A # rest) = search_field name rest"
  by (induction line) (auto simp: search_field_def)

lemma search_field_skip:
  assumes "list_all (other_line name) ls"
  shows "search_field name (concat (map (\<lambda>l. l @ [CHR 0x0A]) ls) @ rest) = search_field name rest"
  using assms
proof (induction ls)
  case (Cons l ls)
  then have l: "other_line name l" by simp
  have "search_field name (l @ CHR 0x0A # r) = search_field name r" for r
    using other_line_no_match [OF l] search_lines_skip [of l name r] l
    by (simp add: search_field_def [of name "l @ _"] other_line_def)
  then show ?case
    using Cons by simp
qed simp

lemma match_config_line:
  assumes "name \<noteq> []" "list_all (\<lambda>c. \<not> is_space c) name" "CHR ''='' \<notin> set name"
    and "v \<noteq> []" "list_all (\<lambda>c. \<not> is_space c) v"
  shows "match_field name (config_line name v @ rest) = Some v"
proof -
  have sp: "is_space CHR '' ''" "is_space CHR 0x0A" "\<not> is_space CHR ''=''"
    by (simp_all add: is_space_def)
  have "\<not> is_space (hd name)" "\<not> is_space (hd v)"
    using assms by (simp_all add: list_all_iff)
  then have "dropWhile is_space (name @ x) = name @ x" "dropWhile is_space (v @ x) = v @ x" for x
    using assms(1,4) by (cases name; cases v; simp)+
  moreover have "takeWhile (\<lambda>c. \<not> is_space c) (v @ CHR 0x0A # rest) = v"
    "dropWhile (\<lambda>c. \<not> is_space c) (v @ CHR 0x0A # rest) = CHR 0x0A # rest"
    using span_append [of v "\<lambda>c. \<not> is_space c" "CHR 0x0A # rest"] assms(5) sp
    by (simp_all add: list_all_iff)
  ultimately show ?thesis
    using assms(4) sp by (simp add: match_field_def config_line_def Let_def)
qed

section \<open>Properties\<close>

text \<open>
  Waiting for either system's nodes ends: once the clock stays past the deadline from reading \<open>N\<close>
  on, fuel beyond \<open>N - k\<close> is enough for the loop to return or to raise.
\<close>

theorem wait_ready_returns:
  assumes "\<And>j. N \<le> j \<Longrightarrow> clock env k + deadline \<le> clock env j" and "N \<le> k + fuel" and "0 < fuel"
  shows "wait_ready fuel env (syncfs_probe env base) (1 / 2) ids deadline k \<noteq> Inl OutOfFuel \<and>
    wait_ready fuel env (exasol_probe env base) 2 ids deadline k \<noteq> Inl OutOfFuel"
  using syncfs_ready.ready_returns [OF assms] exasol_ready.ready_returns [OF assms] by blast

theorem wait_ready_returns_witness:
  "wait_ready 9 (ready_env 3) (syncfs_probe (ready_env 3) [''r'']) (1 / 2) [1, 2] 4 0 \<noteq> Inl OutOfFuel \<and>
    wait_ready 9 (ready_env 3) (exasol_probe (ready_env 3) [''r'']) 2 [1, 2] 4 0 \<noteq> Inl OutOfFuel"
  by (rule wait_ready_returns [where N = 4]) (simp_all add: ready_env_def)

text \<open>
  The bucket passwords come back decoded: from a configuration with a read and a write password
  line, whatever other non-blank lines stand before and between them, \<open>read_passwords\<close> returns the two
  passwords that were encoded there.
\<close>

theorem passwords_read_back:
  assumes "bytes_at env k exaconf = Inr
      (concat (map (\<lambda>l. l @ [CHR 0x0A]) before) @ config_line ''ReadPasswd'' (b64encode r) @
       concat (map (\<lambda>l. l @ [CHR 0x0A]) between) @ config_line ''WritePasswd'' (b64encode w) @ rest)"
    and "list_all (other_line ''ReadPasswd'') before"
    and "list_all (other_line ''WritePasswd'') (before @ between)"
    and "ascii r" and "ascii w" and "r \<noteq> []" and "w \<noteq> []"
  shows "read_passwords env exaconf k = Inr ((r, w), Suc k)"
proof -
  have v: "b64encode x \<noteq> []" "list_all (\<lambda>c. \<not> is_space c) (b64encode x)" if "x \<noteq> []" for x
    using that by (simp_all add: b64encode_not_Nil b64encode_not_space)
  have names: "list_all (\<lambda>c. \<not> is_space c) ''ReadPasswd''" "list_all (\<lambda>c. \<not> is_space c) ''WritePasswd''"
    by code_simp+
  have r: "search_field ''ReadPasswd'' (concat (map (\<lambda>l. l @ [CHR 0x0A]) before) @
      config_line ''ReadPasswd'' (b64encode r) @ x) = Some (b64encode r)" for x
    unfolding search_field_skip [OF assms(2)]
    using match_config_line [OF _ names(1) _ v [OF assms(6)]] by (simp add: search_field_def)
  let ?rl = "''    ReadPasswd = '' @ b64encode r"
  have "CHR 0x0A \<notin> set (b64encode r)"
    using b64encode_not_space [of r] by (auto simp: list_all_iff is_space_def)
  then have "other_line ''WritePasswd'' ?rl"
    by (simp add: other_line_def is_space_def)
  then have o: "list_all (other_line ''WritePasswd'') (before @ [?rl] @ between)"
    using assms(3) by simp
  have w: "search_field ''WritePasswd'' (concat (map (\<lambda>l. l @ [CHR 0x0A]) (before @ [?rl] @ between)) @
      config_line ''WritePasswd'' (b64encode w) @ x) = Some (b64encode w)" for x
    unfolding search_field_skip [OF o]
    using match_config_line [OF _ names(2) _ v [OF assms(7)]] by (simp add: search_field_def)
  show ?thesis
    using assms(1) r w assms(4,5)
    by (simp add: read_passwords_def password_of_def b64decode_encode config_line_def)
qed

theorem passwords_read_back_witness:
  "let conf = concat (map (\<lambda>l. l @ [CHR 0x0A]) [''[[Bucket : default]]'']) @
      config_line ''ReadPasswd'' (b64encode ''rpw'') @ concat (map (\<lambda>l. l @ [CHR 0x0A]) []) @
      config_line ''WritePasswd'' (b64encode ''wpw'') @ ''[end]''
   in read_passwords ((ready_env 3)\<lparr>bytes_at := (\<lambda>_ _. Inr conf)\<rparr>) [''EXAConf''] 0 = Inr ((''rpw'', ''wpw''), Suc 0)"
  unfolding Let_def
  by (rule passwords_read_back [where before = "[''[[Bucket : default]]'']" and between = "[]" and
        r = "''rpw''" and w = "''wpw''" and rest = "''[end]''"]; (code_simp | simp add: ready_env_def))

end
