(* ===== verification/Framing.thy ===== *)
theory Framing
  imports PyText
begin

text \<open>
  The NUL framing that the daemon's canonical form and the harness's tree hash share: a list of
  pairs, each field closed by the one byte no file name holds. \<open>unframe\<close> reads it back, dropping
  a tail that does not close both of its fields.
\<close>

abbreviation nul :: char where
  "nul \<equiv> CHR 0x00"

definition frame1 :: "string \<times> string \<Rightarrow> string" where
  "frame1 e = fst e @ [nul] @ snd e @ [nul]"

definition frame :: "(string \<times> string) list \<Rightarrow> string" where
  "frame es = concat (map frame1 es)"

lemma frame_simps [simp]:
  "frame [] = []"
  "frame (e # es) = frame1 e @ frame es"
  "frame (es @ fs) = frame es @ frame fs"
  by (simp_all add: frame_def)

function unframe :: "string \<Rightarrow> (string \<times> string) list" where
  "unframe s =
     (case find_sub [nul] s of
        None \<Rightarrow> []
      | Some (p, r) \<Rightarrow>
          (case find_sub [nul] r of None \<Rightarrow> [] | Some (t, r') \<Rightarrow> (p, t) # unframe r'))"
  by pat_completeness auto
termination
proof (relation "measure length", simp)
  fix s pr p r pr' t r'
  assume "find_sub [nul] s = Some pr" "(p, r) = pr" "find_sub [nul] r = Some pr'" "(t, r') = pr'"
  then have "s = p @ [nul] @ r" "r = t @ [nul] @ r'"
    by (metis find_sub_Some)+
  then show "(r', s) \<in> measure length"
    by simp
qed

declare unframe.simps [simp del]

lemma unframe_Nil [simp]: "unframe [] = []"
  by (simp add: unframe.simps)

definition nul_free :: "string \<times> string \<Rightarrow> bool" where
  "nul_free e \<longleftrightarrow> nul \<notin> set (fst e) \<and> nul \<notin> set (snd e)"

lemma unframe_frame1: "nul_free e \<Longrightarrow> unframe (frame1 e @ s) = e # unframe s"
  by (subst unframe.simps) (simp add: frame1_def nul_free_def find_sub_char)

lemma unframe_frame_append: "list_all nul_free es \<Longrightarrow> unframe (frame es @ s) = es @ unframe s"
  by (induction es) (simp_all add: unframe_frame1)

lemma unframe_frame: "list_all nul_free es \<Longrightarrow> unframe (frame es) = es"
  using unframe_frame_append [of es "[]"] by simp

interpretation framing: codec frame "\<lambda>s. Some (unframe s)" "list_all nul_free"
  by unfold_locales (simp add: unframe_frame)

text \<open>Cutting a framed text anywhere loses entries from its end and invents none.\<close>

lemma unframe_open:
  assumes "nul \<notin> set u" "nul \<notin> set v"
  shows "unframe u = []" and "unframe (u @ nul # v) = []"
proof -
  have "find_sub [nul] u = None" "find_sub [nul] v = None"
    using assms by (simp_all add: find_sub_None_append)
  then show "unframe u = []" and "unframe (u @ nul # v) = []"
    using assms(1) by (simp_all add: unframe.simps find_sub_char)
qed

lemma unframe_cut:
  assumes "list_all nul_free es"
  shows "prefix (unframe (take n (frame es))) es"
  using assms
proof (induction es arbitrary: n)
  case (Cons e es)
  then have e: "nul_free e" and es: "list_all nul_free es" by simp_all
  show ?case
  proof (cases "length (frame1 e) \<le> n")
    case True
    then have "take n (frame (e # es)) = frame1 e @ take (n - length (frame1 e)) (frame es)"
      by simp
    then show ?thesis
      using Cons.IH [OF es] e by (simp add: unframe_frame1)
  next
    case False
    let ?p = "fst e" and ?t = "snd e"
    have tk: "take n (frame (e # es)) = take n (?p @ nul # ?t)"
    proof -
      have "frame (e # es) = (?p @ nul # ?t) @ nul # frame es"
        by (simp add: frame1_def)
      moreover have "n \<le> length (?p @ nul # ?t)"
        using False by (simp add: frame1_def)
      ultimately show ?thesis
        by (simp only: take_append) simp
    qed
    have "unframe (take n (?p @ nul # ?t)) = []"
    proof (cases "n \<le> length ?p")
      case True
      then show ?thesis
        using e by (auto simp: nul_free_def intro!: unframe_open(1) dest: in_set_takeD)
    next
      case False
      then obtain m where "n = length ?p + Suc m"
        by (metis add_Suc_right less_imp_Suc_add linorder_not_le)
      then have "take n (?p @ nul # ?t) = ?p @ nul # take m ?t"
        by simp
      then show ?thesis
        using e by (auto simp: nul_free_def intro!: unframe_open(2) dest: in_set_takeD)
    qed
    then show ?thesis
      using tk by simp
  qed
qed simp

end
