(* ===== verification/Poller.thy ===== *)
theory Poller
  imports Json Framing
begin

text \<open>
  \<open>tools/measure/bucketfs/poller.py\<close>: when did a file reach each node. The probes, the polling
  loop \<open>watch\<close> with its record per node, \<open>watch_absent\<close>, the tree hash and the program's own
  exit code. SHA-256 is a parameter (\<open>hashlib\<close> computes it in OpenSSL): the function from bytes to
  the printed digest.
\<close>

section \<open>Probes\<close>

definition file_size :: "world \<Rightarrow> nat \<Rightarrow> path \<Rightarrow> int res" where
  "file_size w k p =
     (case stat_at w k p of
        Inr st \<Rightarrow> Inr (st_size st)
      | Inl e \<Rightarrow> if e \<in> {FileNotFound, NotADirectory, PermissionDenied} then Inr (- 1)
                 else Inl (OSErr e))"

definition complete :: "world \<Rightarrow> nat \<Rightarrow> path \<Rightarrow> int \<Rightarrow> bool res" where
  "complete w k p sz =
     (case stat_at w k p of
        Inl e \<Rightarrow> if e \<in> {FileNotFound, NotADirectory, PermissionDenied} then Inr False
                 else Inl (OSErr e)
      | Inr st \<Rightarrow> Inr (st_size st = sz \<and> st_blocks st * 512 \<ge> sz))"

text \<open>
  The walk over a tree: the listing is one observation, the status of each entry another. An
  entry that cannot be read, is not regular or has blocks missing is passed over.
\<close>

fun tree_scan :: "world \<Rightarrow> path list \<Rightarrow> nat \<Rightarrow> int \<Rightarrow> int \<Rightarrow> int \<times> int \<times> nat" where
  "tree_scan w [] k cnt tot = (cnt, tot, k)"
| "tree_scan w (e # es) k cnt tot =
     (case lstat_at w k e of
        Inl _ \<Rightarrow> tree_scan w es (Suc k) cnt tot
      | Inr st \<Rightarrow>
          if \<not> st_reg st then tree_scan w es (Suc k) cnt tot
          else if st_blocks st * 512 < st_size st then tree_scan w es (Suc k) cnt tot
          else tree_scan w es (Suc k) (cnt + 1) (tot + st_size st))"

definition tree_size :: "world \<Rightarrow> nat \<Rightarrow> path \<Rightarrow> int \<times> int \<times> nat" where
  "tree_size w k p =
     tree_scan w (concat (map (\<lambda>(dir, names). map (\<lambda>n. dir @ [n]) names) (walk_at w k p))) (Suc k) 0 0"

definition sha256 :: "world \<Rightarrow> (string \<Rightarrow> string) \<Rightarrow> nat \<Rightarrow> path \<Rightarrow> string res" where
  "sha256 w sha k p = (case bytes_at w k p of Inl e \<Rightarrow> Inl (OSErr e) | Inr b \<Rightarrow> Inr (sha b))"

text \<open>The pairs the tree hash is taken over: relative path and content hash, in path order.\<close>

fun tree_listing ::
  "world \<Rightarrow> (string \<Rightarrow> string) \<Rightarrow> path \<Rightarrow> path list \<Rightarrow> nat \<Rightarrow> ((string \<times> string) list \<times> nat) res" where
  "tree_listing w sha base [] k = Inr ([], k)"
| "tree_listing w sha base (e # es) k =
     rbind (sha256 w sha k e) (\<lambda>h.
     rbind (tree_listing w sha base es (Suc k)) (\<lambda>(l, k').
       Inr ((path_str (drop (length base) e), h) # l, k')))"

definition tree_sha256 ::
  "world \<Rightarrow> (string \<Rightarrow> string) \<Rightarrow> nat \<Rightarrow> path \<Rightarrow> (string \<times> nat) res" where
  "tree_sha256 w sha k base =
     rbind (tree_listing w sha base (sort (rglob_at w k base)) (Suc k)) (\<lambda>(l, k').
       Inr (sha (frame l), k'))"

section \<open>Watching a file or a tree arrive\<close>

record node_record =
  nr_node :: string
  arrived_at :: "rat option"
  nr_sha256 :: "string option"
  verified_at :: "rat option"
  nr_t0 :: "rat option"
  elapsed :: "rat option"

definition new_record :: "string \<Rightarrow> rat option \<Rightarrow> node_record" where
  "new_record name a = \<lparr>nr_node = name, arrived_at = a, nr_sha256 = None, verified_at = None,
     nr_t0 = None, elapsed = None\<rparr>"

type_synonym nodes = "(string, path) dict"
type_synonym records = "(string, node_record) dict"

record watch_state = "(string \<times> path) poll" +
  records :: records

text \<open>Has the payload arrived, and the number of the next observation.\<close>

definition probe :: "world \<Rightarrow> bool \<Rightarrow> int \<Rightarrow> int \<Rightarrow> path \<Rightarrow> nat \<Rightarrow> (bool \<times> nat) res" where
  "probe w tree sz cnt p k =
     (if tree then (case tree_size w k p of (found, tot, k') \<Rightarrow> Inr (found = cnt \<and> tot = sz, k'))
      else rbind (complete w k p sz) (\<lambda>b. Inr (b, Suc k)))"

fun watch_pass ::
  "world \<Rightarrow> bool \<Rightarrow> int \<Rightarrow> int \<Rightarrow> (string \<times> path) list \<Rightarrow> watch_state \<Rightarrow> watch_state res" where
  "watch_pass w tree sz cnt [] s = Inr s"
| "watch_pass w tree sz cnt ((name, p) # rest) s =
     rbind (probe w tree sz cnt p (tick s)) (\<lambda>(arrived, k).
       watch_pass w tree sz cnt rest
         (if arrived
          then s\<lparr>records := dict_set (records s) name (new_record name (Some (clock w k))),
                 pending := dict_del (pending s) name, tick := Suc k\<rparr>
          else s\<lparr>tick := k\<rparr>))"

text \<open>The hashing after the loop, in the order of the nodes.\<close>

fun watch_hash ::
  "world \<Rightarrow> (string \<Rightarrow> string) \<Rightarrow> bool \<Rightarrow> nodes \<Rightarrow> nat \<Rightarrow> records \<Rightarrow> (records \<times> nat) res" where
  "watch_hash w sha tree [] k recs = Inr (recs, k)"
| "watch_hash w sha tree ((name, p) # rest) k recs =
     rbind (dict_get recs name) (\<lambda>r.
       if arrived_at r = None
       then watch_hash w sha tree rest k (dict_set recs name (r\<lparr>nr_sha256 := None\<rparr>))
       else rbind (if tree then tree_sha256 w sha k p
                   else rbind (sha256 w sha k p) (\<lambda>h. Inr (h, Suc k))) (\<lambda>(h, k').
              watch_hash w sha tree rest (Suc k')
                (dict_set recs name (r\<lparr>nr_sha256 := Some h, verified_at := Some (clock w k')\<rparr>))))"

definition json_opt :: "rat option \<Rightarrow> jval" where
  "json_opt x = (case x of None \<Rightarrow> JNull | Some v \<Rightarrow> JFloat v)"

definition record_obj :: "node_record \<Rightarrow> jobj" where
  "record_obj r =
     [(''node'', JStr (nr_node r)), (''arrived_at'', json_opt (arrived_at r)),
      (''sha256'', case nr_sha256 r of None \<Rightarrow> JNull | Some h \<Rightarrow> JStr h)]
     @ (if verified_at r = None then [] else [(''verified_at'', json_opt (verified_at r))])
     @ [(''t0'', json_opt (nr_t0 r))]
     @ (if elapsed r = None then [] else [(''elapsed'', json_opt (elapsed r))])"

definition record_json :: "node_record \<Rightarrow> string" where
  "record_json r = json_dumps (record_obj r)"

text \<open>The lines of the output file; \<open>t0\<close> and \<open>elapsed\<close> are filed in the records on the way.\<close>

fun watch_write :: "rat \<Rightarrow> string list \<Rightarrow> records \<Rightarrow> (records \<times> string) res" where
  "watch_write t0 [] recs = Inr (recs, [])"
| "watch_write t0 (name # rest) recs =
     rbind (dict_get recs name) (\<lambda>r.
       let r' = r\<lparr>nr_t0 := Some t0,
                  elapsed := (case arrived_at r of None \<Rightarrow> elapsed r | Some a \<Rightarrow> Some (a - t0))\<rparr>
       in rbind (watch_write t0 rest (dict_set recs name r')) (\<lambda>(recs', text).
            Inr (recs', record_json r' @ [CHR 0x0A] @ text)))"

definition missing_records :: "(string \<times> path) list \<Rightarrow> records \<Rightarrow> records" where
  "missing_records pend recs =
     fold (\<lambda>(name, _) d. dict_set d name (new_record name None)) pend recs"

definition watch ::
  "nat \<Rightarrow> world \<Rightarrow> (string \<Rightarrow> string) \<Rightarrow> nodes \<Rightarrow> bool \<Rightarrow> int \<Rightarrow> int \<Rightarrow> rat \<Rightarrow> rat \<Rightarrow> rat \<Rightarrow> nat \<Rightarrow>
   (records \<times> string \<times> nat) res" where
  "watch fuel w sha nodes tree sz cnt interval deadline t0 k =
     rbind (poll_until (clock w) (t0 + deadline) interval
              (\<lambda>s. watch_pass w tree sz cnt (pending s) s) fuel
              \<lparr>tick = k, pending = nodes, records = []\<rparr>) (\<lambda>s.
     rbind (watch_hash w sha tree nodes (tick s) (missing_records (pending s) (records s))) (\<lambda>(recs, k').
     rbind (watch_write t0 (dict_keys nodes) recs) (\<lambda>(recs', text).
       Inr (recs', text, k'))))"

section \<open>Watching a file go\<close>

type_synonym absent_state = "(string \<times> path) poll"

fun absent_pass :: "world \<Rightarrow> (string \<times> path) list \<Rightarrow> absent_state \<Rightarrow> absent_state res" where
  "absent_pass w [] s = Inr s"
| "absent_pass w ((name, p) # rest) s =
     rbind (file_size w (tick s) p) (\<lambda>n.
       absent_pass w rest
         (if n = - 1 then s\<lparr>pending := dict_del (pending s) name, tick := Suc (tick s)\<rparr>
          else s\<lparr>tick := Suc (tick s)\<rparr>))"

definition watch_absent :: "nat \<Rightarrow> world \<Rightarrow> nodes \<Rightarrow> rat \<Rightarrow> rat \<Rightarrow> nat \<Rightarrow> (bool \<times> nat) res" where
  "watch_absent fuel w nodes interval deadline k =
     rbind (poll_until (clock w) (clock w k + deadline) interval
              (\<lambda>s. absent_pass w (pending s) s) fuel \<lparr>tick = Suc k, pending = nodes\<rparr>) (\<lambda>s.
       Inr (pending s = [], tick s))"

section \<open>The program\<close>

record poller_args =
  pa_interval_ms :: int
  pa_deadline :: rat
  pa_size :: int
  pa_count :: int
  pa_tree :: bool
  pa_t0 :: "rat option"
  pa_targets :: "string list"

text \<open>\<open>parser.error\<close> leaves the program with status 2.\<close>

fun parse_targets :: "string list \<Rightarrow> nodes \<Rightarrow> nodes res" where
  "parse_targets [] nodes = Inr nodes"
| "parse_targets (target # rest) nodes =
     (case str_partition ''='' target of (name, _, p) \<Rightarrow>
        if p = [] then Inl (SystemExit ''2'')
        else parse_targets rest (dict_set nodes name (path_of_str p)))"

definition record_hash :: "node_record \<Rightarrow> string list" where
  "record_hash r = (case nr_sha256 r of None \<Rightarrow> [] | Some h \<Rightarrow> if h = [] then [] else [h])"

text \<open>The elements of the set \<open>{r["sha256"] for r in records.values() if r["sha256"]}\<close>.\<close>

definition distinct_hashes :: "records \<Rightarrow> string list" where
  "distinct_hashes recs = remdups (concat (map (\<lambda>(_, r). record_hash r) recs))"

definition missing_nodes :: "records \<Rightarrow> string list" where
  "missing_nodes recs = map fst (filter (\<lambda>(_, r). arrived_at r = None) recs)"

definition poller_line :: "string \<Rightarrow> node_record \<Rightarrow> string" where
  "poller_line name r = ljust 10 name @ '' '' @
     (case elapsed r of None \<Rightarrow> ''-- did not arrive'' | Some e \<Rightarrow> rjust 8 (fixed 3 e) @ '' s'')"

text \<open>The result is the exit status, the printed lines and the output file.\<close>

definition poller_main ::
  "nat \<Rightarrow> world \<Rightarrow> (string \<Rightarrow> string) \<Rightarrow> poller_args \<Rightarrow> nat \<Rightarrow> (int \<times> string list \<times> string) res" where
  "poller_main fuel w sha args k =
     rbind (parse_targets (pa_targets args) []) (\<lambda>nodes.
     case (case pa_t0 args of Some t \<Rightarrow> (t, k) | None \<Rightarrow> (clock w k, Suc k)) of (t0, k1) \<Rightarrow>
     rbind (watch fuel w sha nodes (pa_tree args) (pa_size args) (pa_count args)
              (of_int (pa_interval_ms args) / 1000) (pa_deadline args) t0 k1) (\<lambda>(recs, out, _).
     rbind (rmap (\<lambda>name. rbind (dict_get recs name) (\<lambda>r. Inr (poller_line name r))) (dict_keys nodes))
       (\<lambda>rows.
       let missing = missing_nodes recs; hashes = distinct_hashes recs in
       if missing \<noteq> []
       then Inr (1, rows @ [''did not arrive on '' @ str_of_nat (length missing) @ ''/'' @
              str_of_nat (length nodes) @ '': '' @ str_join '', '' (sort missing)], out)
       else if length hashes \<noteq> 1
       then Inr (1, rows @ [''contents differ across nodes: '' @ str_of_nat (length hashes) @
              '' distinct hashes''], out)
       else Inr (0, rows, out))))"

section \<open>The probes' contracts\<close>

lemma tree_scan_tick: "tree_scan w es k c t = (c', t', k') \<Longrightarrow> k' = k + length es"
  by (induction w es k c t rule: tree_scan.induct) (auto split: sum.splits if_splits)

lemma probe_tick: "probe w tree sz cnt p k = Inr (b, k') \<Longrightarrow> k < k'"
  by (auto simp: probe_def tree_size_def rbind_Inr_iff split: if_splits prod.splits
      dest: tree_scan_tick)

lemma complete_no_fuel [simp]: "complete w k p sz \<noteq> Inl OutOfFuel"
  by (simp add: complete_def split: sum.splits)

lemma file_size_no_fuel [simp]: "file_size w k p \<noteq> Inl OutOfFuel"
  by (simp add: file_size_def split: sum.splits)

lemma probe_no_fuel [simp]: "probe w tree sz cnt p k \<noteq> Inl OutOfFuel"
  using complete_no_fuel [of w k p sz] by (auto simp: probe_def rbind_def split: sum.splits prod.splits)

lemma watch_pass_tick: "watch_pass w tree sz cnt xs s = Inr s' \<Longrightarrow> tick s \<le> tick s'"
proof (induction w tree sz cnt xs s rule: watch_pass.induct)
  case (2 w tree sz cnt name p rest s)
  then obtain b k where b: "probe w tree sz cnt p (tick s) = Inr (b, k)"
    by (auto simp: rbind_Inr_iff)
  from probe_tick [OF b] 2(1) [of b k] 2(2) b show ?case
    by (auto split: if_splits)
qed simp

lemma watch_pass_pending:
  "watch_pass w tree sz cnt xs s = Inr s' \<Longrightarrow> set (pending s') \<subseteq> set (pending s)"
proof (induction w tree sz cnt xs s rule: watch_pass.induct)
  case (2 w tree sz cnt name p rest s)
  then obtain b k where b: "probe w tree sz cnt p (tick s) = Inr (b, k)"
    by (auto simp: rbind_Inr_iff)
  from 2(1) [of b k] 2(2) b show ?case
    by (auto simp: set_dict_del split: if_splits)
qed simp

lemma watch_pass_no_fuel: "watch_pass w tree sz cnt xs s \<noteq> Inl OutOfFuel"
  by (induction w tree sz cnt xs s rule: watch_pass.induct)
    (auto simp: rbind_def split: sum.splits)

interpretation watching: polling "\<lambda>s. watch_pass w tree sz cnt (pending s) s" for w tree sz cnt
  by unfold_locales (auto dest: watch_pass_tick watch_pass_pending simp: watch_pass_no_fuel)

lemma absent_pass_tick: "absent_pass w xs s = Inr s' \<Longrightarrow> tick s \<le> tick s'"
proof (induction w xs s rule: absent_pass.induct)
  case (2 w name p rest s)
  then obtain n where n: "file_size w (tick s) p = Inr n"
    by (auto simp: rbind_Inr_iff)
  with 2(1) [of n] 2(2) show ?case
    by (auto split: if_splits)
qed simp

lemma absent_pass_pending:
  "absent_pass w xs s = Inr s' \<Longrightarrow> set (pending s') \<subseteq> set (pending s)"
proof (induction w xs s rule: absent_pass.induct)
  case (2 w name p rest s)
  then obtain n where n: "file_size w (tick s) p = Inr n"
    by (auto simp: rbind_Inr_iff)
  with 2(1) [of n] 2(2) show ?case
    by (auto simp: set_dict_del split: if_splits)
qed simp

lemma absent_pass_no_fuel: "absent_pass w xs s \<noteq> Inl OutOfFuel"
  by (induction w xs s rule: absent_pass.induct) (auto simp: rbind_def split: sum.splits)

interpretation absence: polling "\<lambda>s. absent_pass w (pending s) s" for w
  by unfold_locales (auto dest: absent_pass_tick absent_pass_pending simp: absent_pass_no_fuel)

section \<open>The records of a watch\<close>

text \<open>A clock reading taken right after a probe that found the payload.\<close>

definition arrived_when :: "world \<Rightarrow> bool \<Rightarrow> int \<Rightarrow> int \<Rightarrow> path \<Rightarrow> rat \<Rightarrow> bool" where
  "arrived_when w tree sz cnt p a \<longleftrightarrow>
     (\<exists>k k'. probe w tree sz cnt p k = Inr (True, k') \<and> a = clock w k')"

definition watch_inv :: "world \<Rightarrow> bool \<Rightarrow> int \<Rightarrow> int \<Rightarrow> nodes \<Rightarrow> watch_state \<Rightarrow> bool" where
  "watch_inv w tree sz cnt nodes s \<longleftrightarrow>
     distinct (dict_keys (pending s)) \<and> set (pending s) \<subseteq> set nodes \<and>
     distinct (dict_keys (records s)) \<and>
     set (dict_keys (records s)) = set (dict_keys nodes) - set (dict_keys (pending s)) \<and>
     (\<forall>(name, r) \<in> set (records s). \<exists>p a. (name, p) \<in> set nodes \<and>
        r = new_record name (Some a) \<and> arrived_when w tree sz cnt p a)"

lemma watch_inv_tick: "watch_inv w tree sz cnt nodes s \<Longrightarrow> watch_inv w tree sz cnt nodes (s\<lparr>tick := k\<rparr>)"
  by (simp add: watch_inv_def)

lemma watch_inv_arrive:
  assumes "watch_inv w tree sz cnt nodes s" and "(name, p) \<in> set (pending s)"
    and "probe w tree sz cnt p k = Inr (True, k')"
  shows "watch_inv w tree sz cnt nodes
    (s\<lparr>records := dict_set (records s) name (new_record name (Some (clock w k'))),
       pending := dict_del (pending s) name, tick := Suc k'\<rparr>)"
proof -
  have "arrived_when w tree sz cnt p (clock w k')"
    using assms(3) by (auto simp: arrived_when_def)
  moreover have "(name, p) \<in> set nodes"
    using assms(1,2) by (auto simp: watch_inv_def)
  moreover from this have "name \<in> fst ` set nodes"
    by force
  moreover have "fst ` set (pending s) \<subseteq> fst ` set nodes" "name \<in> fst ` set (pending s)"
    using assms(1,2) by (auto simp: watch_inv_def) force
  ultimately show ?thesis
    using assms(1) unfolding watch_inv_def
    by (auto simp: set_dict_del dest!: in_dict_setD)
qed

lemma watch_pass_inv:
  assumes "watch_inv w tree sz cnt nodes s" "set xs \<subseteq> set (pending s)" "distinct (dict_keys xs)"
    and "watch_pass w tree sz cnt xs s = Inr s'"
  shows "watch_inv w tree sz cnt nodes s'"
  using assms
proof (induction xs arbitrary: s)
  case (Cons x xs)
  obtain name p where x: "x = (name, p)" by (cases x)
  with Cons.prems(4) obtain b k where b: "probe w tree sz cnt p (tick s) = Inr (b, k)"
    by (auto simp: rbind_Inr_iff)
  have others: "\<And>n q. (n, q) \<in> set xs \<Longrightarrow> n \<noteq> name"
    using Cons.prems(3) x by (auto simp: image_iff)
  show ?case
  proof (cases b)
    case True
    have "watch_inv w tree sz cnt nodes
       (s\<lparr>records := dict_set (records s) name (new_record name (Some (clock w k))),
          pending := dict_del (pending s) name, tick := Suc k\<rparr>)"
      using Cons.prems b x True by (intro watch_inv_arrive) auto
    then show ?thesis
      using True Cons.prems b x others by (elim Cons.IH) (auto simp: set_dict_del)
  next
    case False
    then show ?thesis
      using Cons.prems b x by (intro Cons.IH [OF watch_inv_tick]) auto
  qed
qed simp

lemma watch_loop_inv:
  assumes "distinct (dict_keys nodes)"
    and "poll_until (clock w) stop nap (\<lambda>s. watch_pass w tree sz cnt (pending s) s) fuel
           \<lparr>tick = k, pending = nodes, records = []\<rparr> = Inr s"
  shows "watch_inv w tree sz cnt nodes s"
proof (rule watching.loop_invariant [OF _ assms(2)])
  show "watch_inv w tree sz cnt nodes \<lparr>tick = k, pending = nodes, records = []\<rparr>"
    using assms(1) by (simp add: watch_inv_def)
next
  fix s s'
  assume "watch_inv w tree sz cnt nodes s" "watch_pass w tree sz cnt (pending s) s = Inr s'"
  then show "watch_inv w tree sz cnt nodes s'"
    using watch_pass_inv [OF _ subset_refl] watch_inv_def by blast
qed (rule watch_inv_tick)

text \<open>The nodes still pending at the end are filed behind the others, with no arrival.\<close>

lemma missing_records_eq:
  assumes "distinct (dict_keys recs @ dict_keys pend)"
  shows "missing_records pend recs = recs @ map (\<lambda>(n, p). (n, new_record n None)) pend"
proof -
  let ?kvs = "map (\<lambda>(n, p). (n, new_record n None)) pend"
  have "missing_records pend recs = fold (\<lambda>(k, v) d. dict_set d k v) ?kvs recs"
    by (simp add: missing_records_def fold_map comp_def split_def)
  moreover have "dict_keys ?kvs = dict_keys pend"
    by (induction pend) auto
  then have "distinct (map fst (recs @ ?kvs))"
    using assms by (simp del: map_map)
  ultimately show ?thesis
    by (simp add: fold_dict_set_distinct del: map_map)
qed

text \<open>
  The two loops after the polling rewrite each record once and keep the keys as they are.
\<close>

definition rewritten :: "(node_record \<Rightarrow> node_record \<Rightarrow> bool) \<Rightarrow> string list \<Rightarrow> records \<Rightarrow> records \<Rightarrow> bool" where
  "rewritten P names recs recs' \<longleftrightarrow>
     dict_keys recs' = dict_keys recs \<and>
     (\<forall>n. case map_of recs n of
            None \<Rightarrow> map_of recs' n = None
          | Some r \<Rightarrow> \<exists>r'. map_of recs' n = Some r' \<and> (if n \<in> set names then P r r' else r' = r))"

lemma rewritten_refl: "rewritten P [] recs recs"
  by (simp add: rewritten_def split: option.splits)

lemma rewritten_step:
  assumes "map_of recs n = Some r" "P r r1" "n \<notin> set names"
    and "rewritten P names (dict_set recs n r1) recs'"
  shows "rewritten P (n # names) recs recs'"
proof -
  have "n \<in> set (dict_keys recs)"
    using map_of_SomeD [OF assms(1)] by force
  then have "dict_keys (dict_set recs n r1) = dict_keys recs"
    by (simp add: AList.update_keys)
  moreover have "case map_of recs m of None \<Rightarrow> map_of recs' m = None
     | Some q \<Rightarrow> \<exists>r'. map_of recs' m = Some r' \<and> (if m \<in> set (n # names) then P q r' else r' = q)" for m
    using assms spec [OF conjunct2 [OF assms(4) [unfolded rewritten_def]], of m]
    by (cases "m = n") (auto split: option.splits if_splits)
  ultimately show ?thesis
    using assms(4) by (simp add: rewritten_def)
qed

lemma rewrittenD:
  assumes "rewritten P names recs recs'" "map_of recs' n = Some r'" "n \<in> set names"
  obtains r where "map_of recs n = Some r" "P r r'"
  using assms spec [OF conjunct2 [OF assms(1) [unfolded rewritten_def]], of n]
  by (auto split: option.splits)

definition hashed :: "world \<Rightarrow> (string \<Rightarrow> string) \<Rightarrow> node_record \<Rightarrow> node_record \<Rightarrow> bool" where
  "hashed w sha r r' \<longleftrightarrow> nr_node r' = nr_node r \<and> arrived_at r' = arrived_at r \<and> elapsed r' = elapsed r \<and>
     (nr_sha256 r' = None \<longleftrightarrow> arrived_at r = None) \<and>
     (\<forall>h. nr_sha256 r' = Some h \<longrightarrow> h \<in> range sha) \<and>
     (\<forall>v. verified_at r' = Some v \<longrightarrow> verified_at r = Some v \<or> v \<in> range (clock w))"

lemma hash_range:
  "(if tree then tree_sha256 w sha k p else rbind (sha256 w sha k p) (\<lambda>h. Inr (h, Suc k))) = Inr (h, k') \<Longrightarrow>
   h \<in> range sha"
  by (auto simp: tree_sha256_def sha256_def rbind_Inr_iff split: sum.splits if_splits)

lemma watch_hash_rewritten:
  "watch_hash w sha tree nodes k recs = Inr (recs', k') \<Longrightarrow> distinct (dict_keys nodes) \<Longrightarrow>
   rewritten (hashed w sha) (dict_keys nodes) recs recs'"
proof (induction w sha tree nodes k recs rule: watch_hash.induct)
  case (1 w sha tree k recs)
  then show ?case by (simp add: rewritten_refl)
next
  case (2 w sha tree name p rest k recs)
  then obtain r where r: "map_of recs name = Some r"
    by (auto simp: rbind_Inr_iff dict_get_Inr_iff)
  show ?case
  proof (cases "arrived_at r = None")
    case True
    then have "rewritten (hashed w sha) (dict_keys rest) (dict_set recs name (r\<lparr>nr_sha256 := None\<rparr>)) recs'"
      using 2 r by (auto simp: rbind_Inr_iff dict_get_Inr_iff)
    then show ?thesis
      using 2(4) True by (auto intro!: rewritten_step [OF r] simp: hashed_def [of _ _ r])
  next
    case False
    let ?h = "if tree then tree_sha256 w sha k p else rbind (sha256 w sha k p) (\<lambda>h. Inr (h, Suc k))"
    obtain h k1 where h: "?h = Inr (h, k1)"
      using 2(3) r False by (auto simp: rbind_Inr_iff dict_get_Inr_iff)
    have "rewritten (hashed w sha) (dict_keys rest)
       (dict_set recs name (r\<lparr>nr_sha256 := Some h, verified_at := Some (clock w k1)\<rparr>)) recs'"
      using 2(2) [of r k1 h] 2(3,4) r False h by (simp add: dict_get_def)
    then show ?thesis
      using 2(4) False hash_range [OF h] by (auto intro!: rewritten_step [OF r] simp: hashed_def [of _ _ r])
  qed
qed

definition timed :: "rat \<Rightarrow> node_record \<Rightarrow> node_record \<Rightarrow> bool" where
  "timed t0 r r' \<longleftrightarrow> nr_node r' = nr_node r \<and> arrived_at r' = arrived_at r \<and> nr_sha256 r' = nr_sha256 r \<and>
     verified_at r' = verified_at r \<and> nr_t0 r' = Some t0 \<and>
     elapsed r' = (case arrived_at r of None \<Rightarrow> elapsed r | Some a \<Rightarrow> Some (a - t0))"

lemma watch_write_rewritten:
  "watch_write t0 names recs = Inr (recs', lines) \<Longrightarrow> distinct names \<Longrightarrow>
   rewritten (timed t0) names recs recs'"
proof (induction t0 names recs arbitrary: lines rule: watch_write.induct)
  case (1 t0 recs)
  then show ?case by (simp add: rewritten_refl)
next
  case (2 t0 name rest recs)
  then obtain r where r: "map_of recs name = Some r"
    by (auto simp: rbind_Inr_iff dict_get_Inr_iff)
  let ?r = "r\<lparr>nr_t0 := Some t0, elapsed := (case arrived_at r of None \<Rightarrow> elapsed r | Some a \<Rightarrow> Some (a - t0))\<rparr>"
  obtain lines' where "watch_write t0 rest (dict_set recs name ?r) = Inr (recs', lines')"
    using 2(2) r by (auto simp: rbind_Inr_iff dict_get_Inr_iff Let_def)
  then have "rewritten (timed t0) rest (dict_set recs name ?r) recs'"
    using 2(1) [OF refl] 2(3) by auto
  then show ?case
    using 2(3) by (auto intro!: rewritten_step [OF r] simp: timed_def [of _ r])
qed

text \<open>
  The stages of a watch put together: its records come from the polling loop's by the two
  rewritings, over exactly the nodes asked for.
\<close>

lemma watch_stages:
  assumes "watch fuel w sha nodes tree sz cnt interval deadline t0 k = Inr (recs, lines, k')"
    and "distinct (dict_keys nodes)"
  obtains s recs1 where
    "poll_until (clock w) (t0 + deadline) interval (\<lambda>s. watch_pass w tree sz cnt (pending s) s) fuel
       \<lparr>tick = k, pending = nodes, records = []\<rparr> = Inr s"
    "watch_inv w tree sz cnt nodes s"
    "rewritten (hashed w sha) (dict_keys nodes)
       (records s @ map (\<lambda>(n, p). (n, new_record n None)) (pending s)) recs1"
    "rewritten (timed t0) (dict_keys nodes) recs1 recs"
proof -
  obtain s recs1 k1 where s:
    "poll_until (clock w) (t0 + deadline) interval (\<lambda>s. watch_pass w tree sz cnt (pending s) s) fuel
       \<lparr>tick = k, pending = nodes, records = []\<rparr> = Inr s"
    "watch_hash w sha tree nodes (tick s) (missing_records (pending s) (records s)) = Inr (recs1, k1)"
    "watch_write t0 (dict_keys nodes) recs1 = Inr (recs, lines)"
    using assms(1) unfolding watch_def by (auto simp: rbind_Inr_iff)
  have inv: "watch_inv w tree sz cnt nodes s"
    using watch_loop_inv [OF assms(2) s(1)] .
  then have "distinct (dict_keys (records s) @ dict_keys (pending s))"
    by (auto simp: watch_inv_def)
  then show ?thesis
    using that [OF s(1) inv] watch_hash_rewritten [OF s(2) assms(2)]
      watch_write_rewritten [OF s(3) assms(2)] by (simp add: missing_records_eq)
qed

text \<open>What stands in a watch's records, name by name.\<close>

definition record_ok :: "world \<Rightarrow> (string \<Rightarrow> string) \<Rightarrow> rat \<Rightarrow> string \<Rightarrow> node_record \<Rightarrow> bool" where
  "record_ok w sha t0 name r \<longleftrightarrow>
     nr_node r = name \<and> nr_t0 r = Some t0 \<and> (nr_sha256 r = None \<longleftrightarrow> arrived_at r = None) \<and>
     elapsed r = map_option (\<lambda>a. a - t0) (arrived_at r) \<and>
     (\<forall>h. nr_sha256 r = Some h \<longrightarrow> h \<in> range sha) \<and>
     (\<forall>v. verified_at r = Some v \<longrightarrow> v \<in> range (clock w))"

lemma watch_record:
  assumes "watch fuel w sha nodes tree sz cnt interval deadline t0 k = Inr (recs, lines, k')"
    and "distinct (dict_keys nodes)" and "map_of recs name = Some r"
  shows "record_ok w sha t0 name r \<and> name \<in> set (dict_keys nodes) \<and>
    (case arrived_at r of
       None \<Rightarrow> \<exists>j. t0 + deadline \<le> clock w j
     | Some a \<Rightarrow> \<exists>p. (name, p) \<in> set nodes \<and> arrived_when w tree sz cnt p a)"
proof -
  obtain s recs1 where st:
    "poll_until (clock w) (t0 + deadline) interval (\<lambda>s. watch_pass w tree sz cnt (pending s) s) fuel
       \<lparr>tick = k, pending = nodes, records = []\<rparr> = Inr s"
    "watch_inv w tree sz cnt nodes s"
    "rewritten (hashed w sha) (dict_keys nodes)
       (records s @ map (\<lambda>(n, p). (n, new_record n None)) (pending s)) recs1"
    "rewritten (timed t0) (dict_keys nodes) recs1 recs"
    using watch_stages [OF assms(1,2)] .
  have "dict_keys recs = dict_keys (records s) @ dict_keys (pending s)"
    using st(3,4) by (auto simp: rewritten_def comp_def split_def)
  moreover have "name \<in> set (dict_keys recs)"
    using map_of_SomeD [OF assms(3)] by force
  ultimately have name: "name \<in> set (dict_keys nodes)"
    using st(2) by (auto simp: watch_inv_def)
  obtain r1 where r1: "map_of recs1 name = Some r1" "timed t0 r1 r"
    using rewrittenD [OF st(4) assms(3) name] .
  obtain r0 where r0: "map_of (records s @ map (\<lambda>(n, p). (n, new_record n None)) (pending s)) name = Some r0"
      "hashed w sha r0 r1"
    using rewrittenD [OF st(3) r1(1) name] .
  have "(name, r0) \<in> set (records s) \<or> (name, r0) \<in> set (map (\<lambda>(n, p). (n, new_record n None)) (pending s))"
    using map_of_SomeD [OF r0(1)] by simp
  then show ?thesis
  proof
    assume "(name, r0) \<in> set (records s)"
    then obtain p a where "(name, p) \<in> set nodes" "r0 = new_record name (Some a)"
        "arrived_when w tree sz cnt p a"
      using st(2) by (auto simp: watch_inv_def)
    then show ?thesis
      using r0(2) r1(2) name by (auto simp: record_ok_def hashed_def timed_def new_record_def)
  next
    assume "(name, r0) \<in> set (map (\<lambda>(n, p). (n, new_record n None)) (pending s))"
    then have "r0 = new_record name None" "pending s \<noteq> []" by auto
    moreover from this have "\<exists>j. t0 + deadline \<le> clock w j"
      using watching.loop_exit [OF st(1)] by simp
    ultimately show ?thesis
      using r0(2) r1(2) name by (auto simp: record_ok_def hashed_def timed_def new_record_def)
  qed
qed

lemma watch_keys:
  assumes "watch fuel w sha nodes tree sz cnt interval deadline t0 k = Inr (recs, lines, k')"
    and "distinct (dict_keys nodes)"
  shows "distinct (dict_keys recs) \<and> set (dict_keys recs) = set (dict_keys nodes)"
proof -
  obtain s recs1 where st: "watch_inv w tree sz cnt nodes s"
    "rewritten (hashed w sha) (dict_keys nodes)
       (records s @ map (\<lambda>(n, p). (n, new_record n None)) (pending s)) recs1"
    "rewritten (timed t0) (dict_keys nodes) recs1 recs"
    using watch_stages [OF assms] .
  then have "dict_keys recs = dict_keys (records s) @ dict_keys (pending s)"
    by (auto simp: rewritten_def comp_def split_def)
  then show ?thesis
    using st(1) by (auto simp: watch_inv_def)
qed

section \<open>How the watch ends\<close>

lemma sha256_error: "sha256 w sha k p = Inl e \<Longrightarrow> \<exists>x. e = OSErr x"
  by (auto simp: sha256_def split: sum.splits)

lemma tree_listing_error: "tree_listing w sha base es k = Inl e \<Longrightarrow> \<exists>x. e = OSErr x"
  by (induction es arbitrary: k)
    (auto simp: rbind_def split: sum.splits dest: sha256_error)

lemma hash_error:
  "(if tree then tree_sha256 w sha k p else rbind (sha256 w sha k p) (\<lambda>h. Inr (h, Suc k))) = Inl e \<Longrightarrow>
   \<exists>x. e = OSErr x"
  by (auto simp: tree_sha256_def rbind_def split: sum.splits if_splits dest: sha256_error tree_listing_error)

lemma watch_hash_error:
  "watch_hash w sha tree nodes k recs = Inl e \<Longrightarrow> fst ` set nodes \<subseteq> fst ` set recs \<Longrightarrow>
   \<exists>x. e = OSErr x"
proof (induction w sha tree nodes k recs rule: watch_hash.induct)
  case (2 w sha tree name p rest k recs)
  obtain r where r: "map_of recs name = Some r"
    using 2(4) by (cases "map_of recs name") (auto simp: map_of_eq_None_iff)
  show ?case
  proof (cases "arrived_at r = None")
    case True
    then show ?thesis
      using 2(1) [of r] 2(3,4) r by (auto simp: dict_get_def)
  next
    case False
    let ?h = "if tree then tree_sha256 w sha k p else rbind (sha256 w sha k p) (\<lambda>h. Inr (h, Suc k))"
    show ?thesis
    proof (cases ?h)
      case (Inl x)
      then show ?thesis
        using 2(3) r False by (auto simp: dict_get_def dest: hash_error)
    next
      case (Inr hk)
      obtain h k1 where "hk = (h, k1)" by (cases hk)
      then show ?thesis
        using 2(2) [of r k1 h] 2(3,4) r False Inr by (simp add: dict_get_def) blast
    qed
  qed
qed simp

lemma watch_write_total:
  "fst ` set recs \<supseteq> set names \<Longrightarrow> \<exists>recs' out. watch_write t0 names recs = Inr (recs', out)"
proof (induction t0 names recs rule: watch_write.induct)
  case (2 t0 name rest recs)
  obtain r where r: "map_of recs name = Some r"
    using 2(2) by (cases "map_of recs name") (auto simp: map_of_eq_None_iff)
  have "set rest \<subseteq> fst ` set (dict_set recs name q)" for q
    using 2(2) by auto
  then show ?case
    using 2(1) [OF refl] r
    by (simp add: dict_get_def Let_def del: fst_set_dict_set) (metis rbind_simps(2) case_prod_conv)
qed simp

lemma probe_error: "probe w tree sz cnt p k = Inl e \<Longrightarrow> \<exists>x. e = OSErr x"
  by (auto simp: probe_def complete_def rbind_def split: sum.splits if_splits prod.splits)

lemma watch_pass_error: "watch_pass w tree sz cnt xs s = Inl e \<Longrightarrow> \<exists>x. e = OSErr x"
  by (induction w tree sz cnt xs s rule: watch_pass.induct)
    (auto simp: rbind_def split: sum.splits prod.splits dest: probe_error)

text \<open>Once the clock stays past the deadline, the watch ends; a disk error is all that stops it.\<close>

lemma watch_ends:
  assumes "\<And>j. N \<le> j \<Longrightarrow> t0 + deadline \<le> clock w j" and "N < k + fuel" "0 < fuel"
    and "distinct (dict_keys nodes)" and "0 \<le> interval"
  shows "(\<exists>x. watch fuel w sha nodes tree sz cnt interval deadline t0 k = Inl (OSErr x)) \<or>
    (\<exists>r. watch fuel w sha nodes tree sz cnt interval deadline t0 k = Inr r)"
proof -
  let ?loop = "poll_until (clock w) (t0 + deadline) interval (\<lambda>s. watch_pass w tree sz cnt (pending s) s)
    fuel \<lparr>tick = k, pending = nodes, records = []\<rparr>"
  have fuel: "?loop \<noteq> Inl OutOfFuel"
    by (rule watching.enough_fuel [OF assms(1)]) (use assms in simp_all)
  show ?thesis
  proof (cases ?loop)
    case (Inl e)
    then have "\<exists>x. e = OSErr x"
      using watching.loop_error [OF Inl] fuel assms(5) by (auto dest: watch_pass_error)
    then show ?thesis
      using Inl by (auto simp: watch_def)
  next
    case (Inr s)
    have inv: "watch_inv w tree sz cnt nodes s"
      by (rule watch_loop_inv [OF assms(4) Inr])
    let ?recs = "missing_records (pending s) (records s)"
    have "distinct (dict_keys (records s) @ dict_keys (pending s))"
      using inv by (auto simp: watch_inv_def)
    then have keys: "fst ` set ?recs = fst ` set nodes"
      using inv by (auto simp: watch_inv_def missing_records_eq image_Un image_image split_def)
    show ?thesis
    proof (cases "watch_hash w sha tree nodes (tick s) ?recs")
      case (Inl e)
      then show ?thesis
        using watch_hash_error [OF Inl] keys Inr by (auto simp: watch_def)
    next
      case hash: (Inr rk)
      obtain recs1 k1 where rk: "rk = (recs1, k1)" by (cases rk)
      have "dict_keys recs1 = dict_keys ?recs"
        using watch_hash_rewritten [OF hash [unfolded rk] assms(4)] by (simp add: rewritten_def)
      then have "fst ` set recs1 = fst ` set nodes"
        using keys by (metis set_map)
      then obtain recs2 out where "watch_write t0 (dict_keys nodes) recs1 = Inr (recs2, out)"
        using watch_write_total [of "dict_keys nodes" recs1 t0] by auto
      then show ?thesis
        using Inr hash rk by (simp add: watch_def)
    qed
  qed
qed

section \<open>Arrival\<close>

text \<open>A node whose payload is there for good is off the list after one round.\<close>

lemma watch_pass_takes:
  assumes "watch_pass w tree sz cnt xs s = Inr s'" and "(name, p) \<in> set xs"
    and "\<And>j. \<exists>j'. probe w tree sz cnt p j = Inr (True, j')"
  shows "name \<notin> fst ` set (pending s')"
  using assms(1,2)
proof (induction xs arbitrary: s)
  case (Cons x xs)
  obtain n q where x: "x = (n, q)" by (cases x)
  then obtain b k where b: "probe w tree sz cnt q (tick s) = Inr (b, k)"
    using Cons.prems(1) by (auto simp: rbind_Inr_iff)
  let ?s = "if b then s\<lparr>records := dict_set (records s) n (new_record n (Some (clock w k))),
                 pending := dict_del (pending s) n, tick := Suc k\<rparr> else s\<lparr>tick := k\<rparr>"
  have rest: "watch_pass w tree sz cnt xs ?s = Inr s'"
    using Cons.prems(1) x b by simp
  show ?case
  proof (cases "x = (name, p)")
    case True
    then have "b" using assms(3) [of "tick s"] b x by auto
    moreover have "set (pending s') \<subseteq> set (pending ?s)"
      by (rule watch_pass_pending [OF rest])
    ultimately show ?thesis
      using True x by (auto simp: set_dict_del)
  next
    case False
    then show ?thesis
      using Cons.IH [OF rest] Cons.prems(2) by auto
  qed
qed simp

lemma watch_arrives:
  assumes "watch fuel w sha nodes tree sz cnt interval deadline t0 k = Inr (recs, out, k')"
    and "distinct (dict_keys nodes)" and "(name, p) \<in> set nodes" and "clock w k < t0 + deadline"
    and stays: "\<And>j. \<exists>j'. probe w tree sz cnt p j = Inr (True, j')"
  shows "\<exists>r. map_of recs name = Some r \<and> arrived_at r \<noteq> None"
proof -
  obtain s recs1 where st:
    "poll_until (clock w) (t0 + deadline) interval (\<lambda>s. watch_pass w tree sz cnt (pending s) s) fuel
       \<lparr>tick = k, pending = nodes, records = []\<rparr> = Inr s"
    "watch_inv w tree sz cnt nodes s"
    "rewritten (hashed w sha) (dict_keys nodes)
       (records s @ map (\<lambda>(n, p). (n, new_record n None)) (pending s)) recs1"
    "rewritten (timed t0) (dict_keys nodes) recs1 recs"
    using watch_stages [OF assms(1,2)] .
  have "nodes \<noteq> []" using assms(3) by auto
  then obtain s' fuel' where s': "watch_pass w tree sz cnt nodes \<lparr>tick = Suc k, pending = nodes, records = []\<rparr> = Inr s'"
    "poll_until (clock w) (t0 + deadline) interval (\<lambda>s. watch_pass w tree sz cnt (pending s) s) fuel' s' = Inr s"
    using watching.loop_first_pass [OF st(1)] assms(4) by auto
  have "name \<notin> fst ` set (pending s')"
    by (rule watch_pass_takes [OF s'(1) assms(3) stays])
  then have gone: "name \<notin> fst ` set (pending s)"
    using watching.loop_pending [OF s'(2)] by auto
  have name: "name \<in> fst ` set nodes"
    using assms(3) by force
  then have "name \<in> set (dict_keys (records s))"
    using st(2) gone by (auto simp: watch_inv_def)
  then obtain r0 where r0: "map_of (records s) name = Some r0" "(name, r0) \<in> set (records s)"
    by (metis map_of_eq_None_iff map_of_SomeD not_None_eq set_map)
  then obtain a where a: "arrived_at r0 = Some a"
    using st(2) by (fastforce simp: watch_inv_def new_record_def)
  obtain r1 where r1: "map_of recs1 name = Some r1" "arrived_at r1 = Some a"
    using spec [OF conjunct2 [OF st(3) [unfolded rewritten_def]], of name] r0(1) a name
    by (auto simp: map_add_def hashed_def)
  then show ?thesis
    using spec [OF conjunct2 [OF st(4) [unfolded rewritten_def]], of name] name
    by (auto simp: timed_def)
qed

section \<open>The tree probes\<close>

definition tree_entries :: "(path \<times> string list) list \<Rightarrow> path list" where
  "tree_entries walked = concat (map (\<lambda>(dir, names). map (\<lambda>n. dir @ [n]) names) walked)"

definition present :: "(path \<Rightarrow> os_error + stat_result) \<Rightarrow> path \<Rightarrow> bool" where
  "present st e \<longleftrightarrow>
     (case st e of Inl _ \<Rightarrow> False | Inr s \<Rightarrow> st_reg s \<and> st_size s \<le> st_blocks s * 512)"

definition size_of :: "(path \<Rightarrow> os_error + stat_result) \<Rightarrow> path \<Rightarrow> int" where
  "size_of st e = (case st e of Inl _ \<Rightarrow> 0 | Inr s \<Rightarrow> st_size s)"

lemma tree_scan_quiet:
  assumes "\<And>j e. lstat_at w j e = st e"
  shows "tree_scan w es k c t =
    (c + int (length (filter (present st) es)),
     t + sum_list (map (size_of st) (filter (present st) es)), k + length es)"
  by (induction es arbitrary: k c t)
    (auto simp: assms present_def size_of_def split: sum.splits)

lemma tree_size_quiet:
  assumes "\<And>j e. lstat_at w j e = st e"
  shows "tree_size w k p =
    (let files = filter (present st) (tree_entries (walk_at w k p)) in
     (int (length files), sum_list (map (size_of st) files),
      Suc k + length (tree_entries (walk_at w k p))))"
  by (simp add: tree_size_def tree_entries_def [symmetric] tree_scan_quiet [OF assms] Let_def)

lemma watch_absent_inv:
  assumes "absent_pass w xs s = Inr s'"
    and "\<forall>(n, p) \<in> set nodes. (n, p) \<in> set (pending s) \<or> (\<exists>j. file_size w j p = Inr (- 1))"
    and "set xs \<subseteq> set nodes" "distinct (dict_keys nodes)"
  shows "\<forall>(n, p) \<in> set nodes. (n, p) \<in> set (pending s') \<or> (\<exists>j. file_size w j p = Inr (- 1))"
  using assms(1-3)
proof (induction xs arbitrary: s)
  case (Cons x xs)
  obtain n p where x: "x = (n, p)" by (cases x)
  then obtain i where i: "file_size w (tick s) p = Inr i"
    using Cons.prems(1) by (auto simp: rbind_Inr_iff)
  define s1 where "s1 = (if i = - 1 then s\<lparr>pending := dict_del (pending s) n, tick := Suc (tick s)\<rparr>
          else s\<lparr>tick := Suc (tick s)\<rparr>)"
  have rest: "absent_pass w xs s1 = Inr s'"
    using Cons.prems(1) x i by (simp add: s1_def)
  have "(m, q) \<in> set (pending s1) \<or> (\<exists>j. file_size w j q = Inr (- 1))" if "(m, q) \<in> set nodes" for m q
  proof (cases "m = n \<and> i = - 1")
    case True
    moreover have "q = p"
      using that Cons.prems(3) x True assms(4) by (auto intro: eq_key_imp_eq_value)
    ultimately show ?thesis
      using i by blast
  next
    case False
    have "(m, q) \<in> set (pending s) \<or> (\<exists>j. file_size w j q = Inr (- 1))"
      using Cons.prems(2) that by blast
    then show ?thesis
      using False by (auto simp: s1_def set_dict_del)
  qed
  then show ?case
    using Cons.IH [OF rest] Cons.prems(3) by auto
qed simp

lemma absent_pending_subset:
  "absent_pass w (pending s) s = Inr s' \<Longrightarrow> set (pending s) \<subseteq> set nodes \<Longrightarrow> set (pending s') \<subseteq> set nodes"
  using absent_pass_pending by blast

lemma watch_absent_loop:
  assumes "poll_until clk stop nap (\<lambda>s. absent_pass w (pending s) s) fuel \<lparr>tick = k, pending = nodes\<rparr> = Inr s"
    and "distinct (dict_keys nodes)"
  shows "\<forall>(n, p) \<in> set nodes. (n, p) \<in> set (pending s) \<or> (\<exists>j. file_size w j p = Inr (- 1))"
proof -
  let ?I = "\<lambda>s. set (pending s) \<subseteq> set nodes \<and>
    (\<forall>(n, p) \<in> set nodes. (n, p) \<in> set (pending s) \<or> (\<exists>j. file_size w j p = Inr (- 1)))"
  have "?I s"
  proof (rule absence.loop_invariant [OF _ assms(1)])
    fix s s'
    assume I: "?I s" and pass: "absent_pass w (pending s) s = Inr s'"
    then show "?I s'"
      using absent_pending_subset [OF pass] watch_absent_inv [OF pass _ _ assms(2)] by blast
  qed auto
  then show ?thesis by blast
qed

lemma absent_pass_error: "absent_pass w xs s = Inl e \<Longrightarrow> \<exists>x. e = OSErr x"
  by (induction w xs s rule: absent_pass.induct)
    (auto simp: rbind_def file_size_def split: sum.splits if_splits)

section \<open>The output file\<close>

lemma record_obj_ok:
  assumes "\<And>a. arrived_at r = Some a \<Longrightarrow> decimal_float a"
    "\<And>a. verified_at r = Some a \<Longrightarrow> decimal_float a"
    "\<And>a. nr_t0 r = Some a \<Longrightarrow> decimal_float a" "\<And>a. elapsed r = Some a \<Longrightarrow> decimal_float a"
  shows "jobj_ok (record_obj r)"
  using assms
  by (auto simp: jobj_ok_def record_obj_def json_opt_def split: option.splits)

lemma watch_write_lines:
  "watch_write t0 names recs = Inr (recs', out) \<Longrightarrow> distinct names \<Longrightarrow>
   out = concat (map (\<lambda>n. record_json (the (map_of recs' n)) @ [CHR 0x0A]) names)"
proof (induction t0 names recs arbitrary: out rule: watch_write.induct)
  case (2 t0 name rest recs)
  then obtain r where r: "map_of recs name = Some r"
    by (auto simp: rbind_Inr_iff dict_get_Inr_iff)
  let ?r = "r\<lparr>nr_t0 := Some t0, elapsed := (case arrived_at r of None \<Rightarrow> elapsed r | Some a \<Rightarrow> Some (a - t0))\<rparr>"
  obtain out' where w: "watch_write t0 rest (dict_set recs name ?r) = Inr (recs', out')"
      "out = record_json ?r @ [CHR 0x0A] @ out'"
    using 2(2) r by (auto simp: rbind_Inr_iff dict_get_Inr_iff Let_def)
  have "map_of recs' name = Some ?r"
    using spec [OF conjunct2 [OF watch_write_rewritten [OF w(1), unfolded rewritten_def]], of name] 2(3)
    by auto
  then show ?case
    using 2(1) [OF refl w(1)] w(2) 2(3) by simp
qed simp

lemma split_lines:
  "(\<And>x. x \<in> set ls \<Longrightarrow> c \<notin> set x) \<Longrightarrow> split_char c (concat (map (\<lambda>x. x @ [c]) ls)) = ls @ [[]]"
  by (induction ls) (auto simp: split_char_append)

lemma watch_output_lines:
  assumes "watch fuel w sha nodes tree sz cnt interval deadline t0 k = Inr (recs, out, k')"
    and "distinct (dict_keys nodes)"
  shows "butlast (split_char (CHR 0x0A) out) =
    map (\<lambda>n. record_json (the (map_of recs n))) (dict_keys nodes)"
proof -
  let ?lines = "map (\<lambda>n. record_json (the (map_of recs n))) (dict_keys nodes)"
  have "out = concat (map (\<lambda>n. record_json (the (map_of recs n)) @ [CHR 0x0A]) (dict_keys nodes))"
    using assms by (auto simp: watch_def rbind_Inr_iff dest!: watch_write_lines)
  then have "out = concat (map (\<lambda>x. x @ [CHR 0x0A]) ?lines)"
    by (simp add: comp_def)
  moreover have "split_char (CHR 0x0A) (concat (map (\<lambda>x. x @ [CHR 0x0A]) ?lines)) = ?lines @ [[]]"
    by (rule split_lines) (auto simp: record_json_def json_dumps_line)
  ultimately show ?thesis
    by simp
qed

section \<open>The program's answer\<close>

lemma record_hash_iff: "h \<in> set (record_hash r) \<longleftrightarrow> nr_sha256 r = Some h \<and> h \<noteq> []"
  by (cases "nr_sha256 r") (auto simp: record_hash_def)

lemma distinct_hashes_set:
  "h \<in> set (distinct_hashes recs) \<longleftrightarrow> h \<noteq> [] \<and> (\<exists>n r. (n, r) \<in> set recs \<and> nr_sha256 r = Some h)"
proof -
  have "h \<in> set (distinct_hashes recs) \<longleftrightarrow> (\<exists>x \<in> set recs. h \<in> set (record_hash (snd x)))"
    by (simp add: distinct_hashes_def split_def)
  also have "\<dots> \<longleftrightarrow> h \<noteq> [] \<and> (\<exists>x \<in> set recs. nr_sha256 (snd x) = Some h)"
    by (simp add: record_hash_iff) blast
  finally show ?thesis
    by (simp add: Bex_def split_paired_Ex)
qed

lemma distinct_hashes_length: "length (distinct_hashes recs) = card (set (distinct_hashes recs))"
  using distinct_card [of "distinct_hashes recs"] by (simp add: distinct_hashes_def del: set_remdups)

lemma distinct_hashes_single:
  assumes "\<And>n r. (n, r) \<in> set recs \<Longrightarrow> \<exists>h. nr_sha256 r = Some h \<and> h \<noteq> []" and "recs \<noteq> []"
  shows "length (distinct_hashes recs) = 1 \<longleftrightarrow> (\<exists>h. \<forall>(n, r) \<in> set recs. nr_sha256 r = Some h)"
proof
  assume "length (distinct_hashes recs) = 1"
  then obtain h where h: "set (distinct_hashes recs) = {h}"
    by (auto simp: distinct_hashes_length card_1_singleton_iff)
  have "nr_sha256 r = Some h" if nr: "(n, r) \<in> set recs" for n r
  proof -
    obtain h' where h': "nr_sha256 r = Some h'" "h' \<noteq> []"
      using assms(1) [OF nr] by blast
    then have "h' \<in> set (distinct_hashes recs)"
      using nr by (auto simp: distinct_hashes_set)
    then show ?thesis
      using h h' by simp
  qed
  then show "\<exists>h. \<forall>(n, r) \<in> set recs. nr_sha256 r = Some h"
    by blast
next
  assume "\<exists>h. \<forall>(n, r) \<in> set recs. nr_sha256 r = Some h"
  then obtain h where h: "\<And>n r. (n, r) \<in> set recs \<Longrightarrow> nr_sha256 r = Some h"
    by blast
  obtain n r where nr: "(n, r) \<in> set recs"
    using assms(2) by (cases recs) auto
  have "set (distinct_hashes recs) = {h}"
    using h nr assms(1) [OF nr] h [OF nr] by (fastforce simp: distinct_hashes_set)
  then show "length (distinct_hashes recs) = 1"
    by (simp add: distinct_hashes_length)
qed

lemma missing_nodes_Nil: "missing_nodes recs = [] \<longleftrightarrow> (\<forall>(n, r) \<in> set recs. arrived_at r \<noteq> None)"
  by (auto simp: missing_nodes_def filter_empty_conv)

lemma parse_targets_distinct:
  "parse_targets ts nodes = Inr nodes' \<Longrightarrow> distinct (dict_keys nodes) \<Longrightarrow> distinct (dict_keys nodes')"
  by (induction ts nodes rule: parse_targets.induct) (auto split: prod.splits if_splits)

lemma parse_targets_keys:
  "parse_targets ts nodes = Inr nodes' \<Longrightarrow> fst ` set nodes \<subseteq> fst ` set nodes'"
  by (induction ts nodes rule: parse_targets.induct) (auto split: prod.splits if_splits)

lemma parse_targets_nonempty:
  "parse_targets ts nodes = Inr nodes' \<Longrightarrow> ts \<noteq> [] \<Longrightarrow> nodes' \<noteq> []"
  by (cases ts) (auto split: prod.splits if_splits dest: parse_targets_keys)

section \<open>Properties\<close>

lemma complete_True:
  "complete w k p sz = Inr True \<longleftrightarrow>
    (\<exists>st. stat_at w k p = Inr st \<and> st_size st = sz \<and> st_blocks st * 512 \<ge> sz)"
  by (cases "stat_at w k p") (auto simp: complete_def)

text \<open>A world with a complete file at \<open>/a\<close>, a sparse one at \<open>/b\<close> and nothing else.\<close>

definition sample_stat :: "path \<Rightarrow> os_error + stat_result" where
  "sample_stat p =
     (if p = [[], ''a''] then Inr \<lparr>st_reg = True, st_size = 3, st_blocks = 8\<rparr>
      else if p = [[], ''b''] then Inr \<lparr>st_reg = True, st_size = 3, st_blocks = 0\<rparr>
      else Inl FileNotFound)"

definition sample_world :: world where
  "sample_world = still_world sample_stat (\<lambda>p. [(p, [''a'', ''b''])]) (\<lambda>p. [p @ [''b''], p @ [''a'']])
     (\<lambda>p. Inr (if last p = ''a'' then ''xyz'' else ''xy''))"

definition sample_nodes :: nodes where
  "sample_nodes = [(''n1'', [[], ''a'']), (''n2'', [[], ''b''])]"

definition sample_sha :: "string \<Rightarrow> string" where
  "sample_sha c = ''h'' @ c"

definition sample_records :: records where
  "sample_records =
     [(''n1'', \<lparr>nr_node = ''n1'', arrived_at = Some 2, nr_sha256 = Some ''hxyz'',
         verified_at = Some 6, nr_t0 = Some 0, elapsed = Some 2\<rparr>),
      (''n2'', \<lparr>nr_node = ''n2'', arrived_at = None, nr_sha256 = None,
         verified_at = None, nr_t0 = Some 0, elapsed = None\<rparr>)]"

definition sample_output :: string where
  "sample_output = concat (map (\<lambda>(_, r). record_json r @ [CHR 0x0A]) sample_records)"

text \<open>Of the two nodes of the sample, the first is reported and the sparse one is not.\<close>

lemma sample_watch_run:
  "watch 5 sample_world sample_sha sample_nodes False 3 1 1 4 0 0 = Inr (sample_records, sample_output, 7)"
  by code_simp

lemma sample_clock: "clock sample_world j = of_nat j"
  by (simp add: sample_world_def still_world_def)

text \<open>
  C8. A watch returns one record per node asked for, and only those: the node's name, the start
  time, a hash exactly when the node's copy arrived, and an elapsed time that is the arrival less
  the start. A node without an arrival is there too, and then the clock did pass the deadline.
\<close>

theorem watch_accounts:
  assumes "watch fuel w sha nodes tree sz cnt interval deadline t0 k = Inr (recs, out, k')"
    and "distinct (dict_keys nodes)"
  shows "distinct (dict_keys recs) \<and> set (dict_keys recs) = set (dict_keys nodes) \<and>
    (\<forall>(name, r) \<in> set recs. record_ok w sha t0 name r \<and>
       (arrived_at r = None \<longrightarrow> (\<exists>j. t0 + deadline \<le> clock w j)))"
proof -
  have keys: "distinct (dict_keys recs)" "set (dict_keys recs) = set (dict_keys nodes)"
    using watch_keys [OF assms] by simp_all
  have "record_ok w sha t0 name r \<and> (arrived_at r = None \<longrightarrow> (\<exists>j. t0 + deadline \<le> clock w j))"
    if "(name, r) \<in> set recs" for name r
    using watch_record [OF assms map_of_is_SomeI [OF keys(1) that]] by (auto split: option.splits)
  then show ?thesis
    using keys by blast
qed

text \<open>
  C9. An arrival is never reported for a file with bytes missing: when a watch of a single file
  reports that a node's copy arrived at \<open>a\<close>, one status call on that node's path answered the
  full size with at least that many bytes allocated, and \<open>a\<close> is the clock reading right after it.
\<close>

theorem watch_arrival_sound:
  assumes "watch fuel w sha nodes False sz cnt interval deadline t0 k = Inr (recs, out, k')"
    and "distinct (dict_keys nodes)"
    and "map_of recs name = Some r" and "arrived_at r = Some a"
  shows "\<exists>p j st. map_of nodes name = Some p \<and> stat_at w j p = Inr st \<and>
    st_size st = sz \<and> st_blocks st * 512 \<ge> sz \<and> a = clock w (Suc j)"
proof -
  obtain p where p: "(name, p) \<in> set nodes" "arrived_when w False sz cnt p a"
    using watch_record [OF assms(1-3)] assms(4) by auto
  then obtain j st where "stat_at w j p = Inr st" "st_size st = sz" "st_blocks st * 512 \<ge> sz"
      "a = clock w (Suc j)"
    by (auto simp: arrived_when_def probe_def complete_True rbind_Inr_iff)
  moreover have "map_of nodes name = Some p"
    using p(1) assms(2) by simp
  ultimately show ?thesis
    by blast
qed

text \<open>
  C34. The watch ends: once the clock stays past the deadline from reading \<open>N\<close> on, any fuel beyond
  \<open>N - k\<close> is enough, and what comes back is a result, or the error of a disk that failed in a way
  the probes do not absorb. No record is looked up before it was filed.
\<close>

theorem watch_terminates:
  assumes "\<And>j. N \<le> j \<Longrightarrow> t0 + deadline \<le> clock w j" and "N < k + fuel" and "0 < fuel"
    and "distinct (dict_keys nodes)" and "0 \<le> interval"
  shows "(\<exists>x. watch fuel w sha nodes tree sz cnt interval deadline t0 k = Inl (OSErr x)) \<or>
    (\<exists>r. watch fuel w sha nodes tree sz cnt interval deadline t0 k = Inr r)"
  by (rule watch_ends [OF assms])

text \<open>
  A copy that is in place is seen: if the payload of a node is complete whenever it is probed
  and the deadline has not passed when the watch starts, the node's record has an arrival.
\<close>

theorem watch_sees_stable_copy:
  assumes "watch fuel w sha nodes False sz cnt interval deadline t0 k = Inr (recs, out, k')"
    and "distinct (dict_keys nodes)" and "map_of nodes name = Some p" and "clock w k < t0 + deadline"
    and "\<And>j. \<exists>st. stat_at w j p = Inr st \<and> st_size st = sz \<and> st_blocks st * 512 \<ge> sz"
  shows "\<exists>r. map_of recs name = Some r \<and> arrived_at r \<noteq> None"
proof (rule watch_arrives [OF assms(1,2) map_of_SomeD [OF assms(3)] assms(4)])
  fix j
  obtain st where "stat_at w j p = Inr st" "st_size st = sz" "st_blocks st * 512 \<ge> sz"
    using assms(5) by blast
  then show "\<exists>j'. probe w False sz cnt p j = Inr (True, j')"
    by (simp add: probe_def complete_def)
qed

text \<open>
  The tree probe counts what stands in the tree: over a tree that does not change while it
  is walked, the count is the number of regular files with all their blocks and the total the sum
  of their sizes, so two walks that list the same entries in different orders agree.
\<close>

theorem tree_size_order:
  assumes "\<And>j e. lstat_at w j e = st e" and "\<And>j e. lstat_at w' j e = st e"
    and "mset (tree_entries (walk_at w k p)) = mset (tree_entries (walk_at w' k' p'))"
  shows "fst (tree_size w k p) = int (length (filter (present st) (tree_entries (walk_at w k p)))) \<and>
    fst (tree_size w' k' p') = fst (tree_size w k p) \<and>
    fst (snd (tree_size w' k' p')) = fst (snd (tree_size w k p)) \<and>
    fst (snd (tree_size w k p)) =
      (\<Sum>e\<leftarrow>filter (present st) (tree_entries (walk_at w k p)). size_of st e)"
proof -
  let ?f = "filter (present st) (tree_entries (walk_at w k p))"
  let ?g = "filter (present st) (tree_entries (walk_at w' k' p'))"
  have m: "mset ?f = mset ?g"
    using assms(3) by simp
  then have "length ?f = length ?g"
    by (rule mset_eq_length)
  moreover have "sum_list (map (size_of st) ?f) = sum_list (map (size_of st) ?g)"
    using m by (metis mset_map sum_mset_sum_list)
  ultimately show ?thesis
    by (simp add: tree_size_quiet [OF assms(1)] tree_size_quiet [OF assms(2)] Let_def)
qed

text \<open>
  The tree hash tells trees apart: when two trees were read without error and SHA-256 does not
  collide on their two canonical forms, the hashes are equal exactly when the sorted listings of
  relative paths and content hashes are, provided neither names nor printed digests hold a NUL.
\<close>

theorem tree_hash_identifies:
  assumes "tree_listing w sha b (sort (rglob_at w k b)) (Suc k) = Inr (l, j)"
    and "tree_listing w' sha b' (sort (rglob_at w' k' b')) (Suc k') = Inr (l', j')"
    and "list_all nul_free l" and "list_all nul_free l'"
    and "sha (frame l) = sha (frame l') \<Longrightarrow> frame l = frame l'"
  shows "rbind (tree_sha256 w sha k b) (\<lambda>(h, _). Inr h) = rbind (tree_sha256 w' sha k' b') (\<lambda>(h, _). Inr h)
    \<longleftrightarrow> l = l'"
  using assms(5) framing.enc_inj [OF assms(3,4)] by (auto simp: tree_sha256_def assms(1,2))

text \<open>
  The output file holds one line per node, in the nodes' order, and each line is JSON that
  reads back to that node's record, when the clock's readings are decimals not before the start.
\<close>

theorem watch_output_reads_back:
  assumes "watch fuel w sha nodes tree sz cnt interval deadline t0 k = Inr (recs, out, k')"
    and "distinct (dict_keys nodes)" and "decimal_float t0"
    and "\<And>j. t0 \<le> clock w j \<and> decimal_float (clock w j)"
  shows "rmap json_loads (butlast (split_char (CHR 0x0A) out)) =
    Inr (map (\<lambda>n. record_obj (the (map_of recs n))) (dict_keys nodes))"
proof -
  have "json_loads (record_json r) = Inr (record_obj r)" if "map_of recs n = Some r" for n r
  proof -
    have ok: "record_ok w sha t0 n r" and arr: "\<And>a. arrived_at r = Some a \<Longrightarrow> a \<in> range (clock w)"
      using watch_record [OF assms(1,2) that] by (auto simp: arrived_when_def split: option.splits)
    have diff: "decimal_float (clock w j - t0)" for j
      using assms(3,4) by (simp add: decimal_float_def left_diff_distrib)
    have "jobj_ok (record_obj r)"
      using ok arr assms(3,4) diff
      by (intro record_obj_ok) (auto simp: record_ok_def)
    then show ?thesis
      by (simp add: record_json_def json_loads_dumps)
  qed
  moreover have "map_of recs n \<noteq> None" if "n \<in> set (dict_keys nodes)" for n
    using watch_keys [OF assms(1,2)] that by (simp add: map_of_eq_None_iff)
  ultimately have "rmap json_loads (map (\<lambda>n. record_json (the (map_of recs n))) (dict_keys nodes)) =
      Inr (map (\<lambda>n. record_obj (the (map_of recs n))) (dict_keys nodes))"
    by (subst rmap_map) (rule rmap_Inr, fastforce)
  then show ?thesis
    using watch_output_lines [OF assms(1,2)] by simp
qed

text \<open>
  \<open>watch_absent\<close> answers yes only when every node's path was seen to be gone, and no only when
  the deadline passed.
\<close>

theorem watch_absent_sound:
  assumes "watch_absent fuel w nodes interval deadline k = Inr (b, k')"
    and "distinct (dict_keys nodes)"
  shows "if b then (\<forall>(n, p) \<in> set nodes. \<exists>j. file_size w j p = Inr (- 1))
    else (\<exists>j. clock w k + deadline \<le> clock w j)"
proof -
  obtain s where s: "poll_until (clock w) (clock w k + deadline) interval (\<lambda>s. absent_pass w (pending s) s)
      fuel \<lparr>tick = Suc k, pending = nodes\<rparr> = Inr s" "b \<longleftrightarrow> pending s = []"
    using assms(1) by (auto simp: watch_absent_def rbind_Inr_iff)
  show ?thesis
    using watch_absent_loop [OF s(1) assms(2)] absence.loop_exit [OF s(1)] s(2) by auto
qed

text \<open>
  The program exits with 0 exactly when every node's copy arrived and all of them have one and
  the same hash, and with 1 otherwise; a line is printed for every node.
\<close>

theorem poller_exit_code:
  assumes "parse_targets (pa_targets args) [] = Inr nodes" and "pa_targets args \<noteq> []"
    and "pa_t0 args = Some t0"
    and "watch fuel w sha nodes (pa_tree args) (pa_size args) (pa_count args)
           (of_int (pa_interval_ms args) / 1000) (pa_deadline args) t0 k = Inr (recs, out, k')"
    and "\<And>c. sha c \<noteq> []"
  shows "\<exists>code printed. poller_main fuel w sha args k = Inr (code, printed, out) \<and>
    (code = 0 \<longleftrightarrow> (\<forall>(n, r) \<in> set recs. arrived_at r \<noteq> None) \<and>
       (\<exists>h. \<forall>(n, r) \<in> set recs. nr_sha256 r = Some h)) \<and>
    (code = 0 \<and> length printed = length nodes \<or> code = 1 \<and> length printed = Suc (length nodes))"
proof -
  have d: "distinct (dict_keys nodes)"
    using parse_targets_distinct [OF assms(1)] by simp
  note keys = watch_keys [OF assms(4) d]
  have ne: "recs \<noteq> []"
    using keys parse_targets_nonempty [OF assms(1,2)] by (cases nodes) auto
  let ?row = "\<lambda>name. rbind (dict_get recs name) (\<lambda>r. Inr (poller_line name r))"
  have "rmap ?row (dict_keys nodes) = Inr (map (\<lambda>n. poller_line n (the (map_of recs n))) (dict_keys nodes))"
  proof (rule rmap_Inr)
    fix n assume "n \<in> set (dict_keys nodes)"
    then have "map_of recs n \<noteq> None"
      using keys by (simp add: map_of_eq_None_iff)
    then show "?row n = Inr (poller_line n (the (map_of recs n)))"
      by (auto simp: dict_get_def)
  qed
  moreover have "length (distinct_hashes recs) = 1 \<longleftrightarrow> (\<exists>h. \<forall>(n, r) \<in> set recs. nr_sha256 r = Some h)"
    if "missing_nodes recs = []"
  proof (rule distinct_hashes_single [OF _ ne])
    fix n r assume "(n, r) \<in> set recs"
    moreover from this have "record_ok w sha t0 n r"
      using watch_record [OF assms(4) d] keys by (metis map_of_is_SomeI)
    ultimately show "\<exists>h. nr_sha256 r = Some h \<and> h \<noteq> []"
      using that assms(5) by (fastforce simp: missing_nodes_Nil record_ok_def)
  qed
  ultimately show ?thesis
    using assms by (auto simp: poller_main_def Let_def missing_nodes_Nil)
qed

section \<open>Instances\<close>

text \<open>The properties at the sample, with the model evaluated.\<close>

theorem watch_accounts_witness:
  "\<exists>recs out k'. watch 5 sample_world sample_sha sample_nodes False 3 1 1 4 0 0 = Inr (recs, out, k') \<and>
    distinct (dict_keys recs) \<and> set (dict_keys recs) = set (dict_keys sample_nodes) \<and>
    (\<forall>(name, r) \<in> set recs. record_ok sample_world sample_sha 0 name r \<and>
       (arrived_at r = None \<longrightarrow> (\<exists>j. 0 + 4 \<le> clock sample_world j)))"
proof -
  have "distinct (dict_keys sample_nodes)"
    by (simp add: sample_nodes_def)
  then show ?thesis
    using sample_watch_run watch_accounts [OF sample_watch_run] by blast
qed

theorem watch_arrival_sound_witness:
  "\<exists>p j st. map_of sample_nodes ''n1'' = Some p \<and> stat_at sample_world j p = Inr st \<and>
    st_size st = 3 \<and> st_blocks st * 512 \<ge> 3 \<and> 2 = clock sample_world (Suc j)"
  by (rule watch_arrival_sound [OF sample_watch_run]) (simp add: sample_nodes_def sample_records_def)+

theorem watch_terminates_witness:
  "(\<exists>x. watch 5 sample_world sample_sha sample_nodes False 3 1 1 4 0 0 = Inl (OSErr x)) \<or>
    (\<exists>r. watch 5 sample_world sample_sha sample_nodes False 3 1 1 4 0 0 = Inr r)"
  by (rule watch_terminates [where N = 4]) (simp_all add: sample_nodes_def sample_clock)

theorem watch_sees_stable_copy_witness:
  "\<exists>r. map_of sample_records ''n1'' = Some r \<and> arrived_at r \<noteq> None"
  by (rule watch_sees_stable_copy [OF sample_watch_run, where p = "[[], ''a'']"])
    (simp_all add: sample_nodes_def sample_clock sample_world_def still_world_def sample_stat_def)

theorem tree_size_order_witness:
  "let w = sample_world; w' = sample_world\<lparr>walk_at := (\<lambda>_ p. [(p, [''b'', ''a''])])\<rparr>; p = [[]]
   in fst (tree_size w 0 p) = int (length (filter (present sample_stat) (tree_entries (walk_at w 0 p)))) \<and>
    fst (tree_size w' 7 p) = fst (tree_size w 0 p) \<and>
    fst (snd (tree_size w' 7 p)) = fst (snd (tree_size w 0 p)) \<and>
    fst (snd (tree_size w 0 p)) =
      (\<Sum>e\<leftarrow>filter (present sample_stat) (tree_entries (walk_at w 0 p)). size_of sample_stat e)"
  unfolding Let_def
  by (rule tree_size_order) (simp_all add: sample_world_def still_world_def tree_entries_def)

theorem tree_hash_identifies_witness:
  "rbind (tree_sha256 sample_world sample_sha 0 [[], ''t'']) (\<lambda>(h, _). Inr h) =
    rbind (tree_sha256 (sample_world\<lparr>bytes_at := (\<lambda>_ _. Inr ''xy'')\<rparr>) sample_sha 9 [[], ''u''])
      (\<lambda>(h, _). Inr h)
   \<longleftrightarrow> [(''a'', ''hxyz''), (''b'', ''hxy'')] = [(''a'', ''hxy''), (''b'', ''hxy'')]"
proof (rule tree_hash_identifies [where j = 3 and j' = 12])
  show "sample_sha (frame [(''a'', ''hxyz''), (''b'', ''hxy'')]) = sample_sha (frame [(''a'', ''hxy''), (''b'', ''hxy'')]) \<Longrightarrow>
      frame [(''a'', ''hxyz''), (''b'', ''hxy'')] = frame [(''a'', ''hxy''), (''b'', ''hxy'')]"
    by (simp add: sample_sha_def)
qed code_simp+

theorem watch_output_reads_back_witness:
  "rmap json_loads (butlast (split_char (CHR 0x0A) sample_output)) =
    Inr (map (\<lambda>n. record_obj (the (map_of sample_records n))) (dict_keys sample_nodes))"
  by (rule watch_output_reads_back [OF sample_watch_run])
    (simp_all add: sample_nodes_def sample_clock decimal_float_def)

theorem watch_absent_sound_witness:
  "\<exists>b k'. watch_absent 3 sample_world [(''n1'', [''gone''])] 1 9 0 = Inr (b, k') \<and>
    (if b then (\<forall>(n, p) \<in> set [(''n1'', [''gone''])]. \<exists>j. file_size sample_world j p = Inr (- 1))
     else (\<exists>j. clock sample_world 0 + 9 \<le> clock sample_world j))"
proof -
  have "watch_absent 3 sample_world [(''n1'', [''gone''])] 1 9 0 = Inr (True, 3)"
    by code_simp
  then show ?thesis
    using watch_absent_sound [of 3 sample_world "[(''n1'', [''gone''])]" 1 9 0 True 3] by auto
qed

theorem poller_exit_code_witness:
  "\<exists>code printed. poller_main 5 sample_world sample_sha
      \<lparr>pa_interval_ms = 1000, pa_deadline = 4, pa_size = 3, pa_count = 1, pa_tree = False,
       pa_t0 = Some 0, pa_targets = [''n1=/a'', ''n2=/b'']\<rparr> 0 = Inr (code, printed, sample_output) \<and>
    (code = 0 \<longleftrightarrow> (\<forall>(n, r) \<in> set sample_records. arrived_at r \<noteq> None) \<and>
       (\<exists>h. \<forall>(n, r) \<in> set sample_records. nr_sha256 r = Some h)) \<and>
    (code = 0 \<and> length printed = length sample_nodes \<or> code = 1 \<and> length printed = Suc (length sample_nodes))"
proof (rule poller_exit_code)
  show "parse_targets (pa_targets \<lparr>pa_interval_ms = 1000, pa_deadline = 4, pa_size = 3, pa_count = 1,
      pa_tree = False, pa_t0 = Some 0, pa_targets = [''n1=/a'', ''n2=/b'']\<rparr>) [] = Inr sample_nodes"
    by code_simp
qed (use sample_watch_run in \<open>simp_all add: sample_sha_def\<close>)

end
