(* ===== verification/Csv.thy ===== *)
theory Csv
  imports PyNum
begin

text \<open>
  The part of Python's \<open>csv\<close> module the programs use: the default dialect's writer (a field
  is quoted when it holds a comma, a quote or a line end) and the reader's automaton, with
  \<open>DictWriter\<close> and \<open>DictReader\<close> on top. The files are opened with \<open>newline=""\<close>, so no line end
  is translated.
\<close>

section \<open>Writing a row\<close>

definition special_char :: "char \<Rightarrow> bool" where
  "special_char c \<longleftrightarrow> c \<in> {CHR '','', CHR 0x22, CHR 0x0A, CHR 0x0D}"

definition double_quotes :: "string \<Rightarrow> string" where
  "double_quotes s = replace_char CHR 0x22 [CHR 0x22, CHR 0x22] s"

definition csv_field :: "string \<Rightarrow> string" where
  "csv_field s =
     (if list_ex special_char s then CHR 0x22 # double_quotes s @ [CHR 0x22] else s)"

definition crlf :: string where
  "crlf = [CHR 0x0D, CHR 0x0A]"

definition csv_row :: "string list \<Rightarrow> string" where
  "csv_row fs =
     (if fs = [[]] then [CHR 0x22, CHR 0x22] else str_join '','' (map csv_field fs)) @ crlf"

section \<open>Reading\<close>

datatype csv_state = StartRecord | StartField | InField | InQuoted | QuoteInQuoted

definition is_newline :: "char \<Rightarrow> bool" where
  "is_newline c \<longleftrightarrow> c = CHR 0x0A \<or> c = CHR 0x0D"

text \<open>
  The automaton: its state, the field read so far and the fields before it (both reversed), and
  the text left. A carriage return takes a following newline with it.
\<close>

fun csv_scan :: "csv_state \<Rightarrow> string \<Rightarrow> string list \<Rightarrow> string \<Rightarrow> string list list" where
  "csv_scan st f fs [] = (if st = StartRecord then [] else [rev (rev f # fs)])"
| "csv_scan st f fs (c # cs) =
     (let rest = (if c = CHR 0x0D \<and> cs \<noteq> [] \<and> hd cs = CHR 0x0A then tl cs else cs) in
      case st of
        StartRecord \<Rightarrow>
          if is_newline c then [] # csv_scan StartRecord [] [] rest
          else if c = CHR '','' then csv_scan StartField [] [[]] cs
          else if c = CHR 0x22 then csv_scan InQuoted [] [] cs
          else csv_scan InField [c] [] cs
      | StartField \<Rightarrow>
          if is_newline c then rev ([] # fs) # csv_scan StartRecord [] [] rest
          else if c = CHR '','' then csv_scan StartField [] ([] # fs) cs
          else if c = CHR 0x22 then csv_scan InQuoted [] fs cs
          else csv_scan InField [c] fs cs
      | InField \<Rightarrow>
          if is_newline c then rev (rev f # fs) # csv_scan StartRecord [] [] rest
          else if c = CHR '','' then csv_scan StartField [] (rev f # fs) cs
          else csv_scan InField (c # f) fs cs
      | InQuoted \<Rightarrow>
          if c = CHR 0x22 then csv_scan QuoteInQuoted f fs cs
          else csv_scan InQuoted (c # f) fs cs
      | QuoteInQuoted \<Rightarrow>
          if c = CHR 0x22 then csv_scan InQuoted (c # f) fs cs
          else if c = CHR '','' then csv_scan StartField [] (rev f # fs) cs
          else if is_newline c then rev (rev f # fs) # csv_scan StartRecord [] [] rest
          else csv_scan InField (c # f) fs cs)"

declare csv_scan.simps(2) [simp del]

definition csv_reader :: "string \<Rightarrow> string list list" where
  "csv_reader s = csv_scan StartRecord [] [] s"

section \<open>What is written is read back\<close>

lemma special_simps [simp]:
  "special_char CHR '',''" "special_char CHR 0x22" "special_char CHR 0x0A" "special_char CHR 0x0D"
  by (simp_all add: special_char_def)

lemma scan_in_field:
  "list_all (\<lambda>c. \<not> special_char c) w \<Longrightarrow> csv_scan InField f fs (w @ s) = csv_scan InField (rev w @ f) fs s"
  by (induction w arbitrary: f) (auto simp: csv_scan.simps(2) special_char_def is_newline_def)

lemma scan_in_quoted:
  "csv_scan InQuoted f fs (double_quotes w @ CHR 0x22 # s) = csv_scan QuoteInQuoted (rev w @ f) fs s"
  by (induction w arbitrary: f)
    (simp_all add: csv_scan.simps(2) double_quotes_def replace_char_def)

text \<open>A printed field, up to the separator or the line end after it.\<close>

lemma scan_field:
  assumes "st = StartField \<or> st = StartRecord \<and> fs = [] \<and> (w \<noteq> [] \<or> hd t = CHR '','')"
    and "t = CHR '','' # s \<or> t = crlf @ s"
  shows "csv_scan st [] fs (csv_field w @ t) =
    (if hd t = CHR '','' then csv_scan StartField [] (w # fs) s
     else rev (w # fs) # csv_scan StartRecord [] [] s)"
proof (cases "list_ex special_char w")
  case True
  have "csv_scan st [] fs (csv_field w @ t) = csv_scan QuoteInQuoted (rev w) fs t"
    using True assms(1) scan_in_quoted [of "[]" fs w t]
    by (auto simp: csv_field_def csv_scan.simps(2) is_newline_def)
  then show ?thesis
    using assms(2) by (auto simp: csv_scan.simps(2) is_newline_def crlf_def)
next
  case False
  then have plain: "list_all (\<lambda>c. \<not> special_char c) w"
    by (simp add: list_ex_iff list_all_iff)
  show ?thesis
  proof (cases w)
    case Nil
    then show ?thesis
      using assms by (auto simp: csv_field_def csv_scan.simps(2) is_newline_def crlf_def)
  next
    case (Cons c cs)
    then have c: "\<not> special_char c" "list_all (\<lambda>c. \<not> special_char c) cs"
      using plain by simp_all
    then have "csv_scan st [] fs (csv_field w @ t) = csv_scan InField (rev w) fs t"
      using assms(1) Cons False scan_in_field [of cs "[c]" fs t]
      by (auto simp: csv_field_def csv_scan.simps(2) special_char_def is_newline_def)
    then show ?thesis
      using assms(2) by (auto simp: csv_scan.simps(2) is_newline_def crlf_def)
  qed
qed

lemma scan_fields:
  "ws \<noteq> [] \<Longrightarrow>
   csv_scan StartField [] fs (str_join '','' (map csv_field ws) @ crlf @ s)
     = (rev fs @ ws) # csv_scan StartRecord [] [] s"
proof (induction ws arbitrary: fs)
  case (Cons w ws)
  show ?case
  proof (cases "ws = []")
    case True
    then show ?thesis
      using scan_field [of StartField fs w "crlf @ s" s] by (simp add: crlf_def)
  next
    case False
    then show ?thesis
      using scan_field [of StartField fs w "CHR '','' # str_join '','' (map csv_field ws) @ crlf @ s"
          "str_join '','' (map csv_field ws) @ crlf @ s"]
        Cons.IH [of "w # fs"]
      by (simp add: str_join_Cons)
  qed
qed simp

lemma scan_row:
  assumes "ws \<noteq> []"
  shows "csv_scan StartRecord [] [] (csv_row ws @ s) = ws # csv_scan StartRecord [] [] s"
proof (cases "ws = [[]]")
  case True
  then show ?thesis
    by (simp add: csv_row_def csv_scan.simps(2) is_newline_def crlf_def)
next
  case False
  obtain w ws' where ws: "ws = w # ws'" using assms by (cases ws) auto
  show ?thesis
  proof (cases "ws' = []")
    case True
    then show ?thesis
      using scan_field [of StartRecord "[]" w "crlf @ s" s] False ws
      by (simp add: csv_row_def crlf_def)
  next
    case more: False
    then show ?thesis
      using scan_field [of StartRecord "[]" w "CHR '','' # str_join '','' (map csv_field ws') @ crlf @ s"
          "str_join '','' (map csv_field ws') @ crlf @ s"]
        scan_fields [of ws' "[w]" s] False ws
      by (simp add: csv_row_def str_join_Cons)
  qed
qed

lemma csv_reader_append:
  "(\<And>r. r \<in> set rows \<Longrightarrow> r \<noteq> []) \<Longrightarrow>
   csv_scan StartRecord [] [] (concat (map csv_row rows) @ s) = rows @ csv_scan StartRecord [] [] s"
  by (induction rows) (simp_all add: scan_row)

lemma csv_reader_rows:
  "(\<And>r. r \<in> set rows \<Longrightarrow> r \<noteq> []) \<Longrightarrow> csv_reader (concat (map csv_row rows)) = rows"
  using csv_reader_append [of rows "[]"] by (simp add: csv_reader_def)

definition read_table :: "string \<Rightarrow> string list list option" where
  "read_table s = Some (csv_reader s)"

interpretation table: codec "\<lambda>rows. concat (map csv_row rows)" read_table "list_all (\<lambda>r. r \<noteq> [])"
  by unfold_locales (simp add: read_table_def csv_reader_rows list_all_iff)

section \<open>Rows as dictionaries\<close>

datatype pyval = PNone | PBool bool | PInt int | PFloat rat | PStr string

fun csv_text :: "pyval \<Rightarrow> string" where
  "csv_text PNone = []"
| "csv_text (PBool b) = (if b then ''True'' else ''False'')"
| "csv_text (PInt i) = str_of_int i"
| "csv_text (PFloat x) = float_repr x"
| "csv_text (PStr s) = s"

type_synonym pyrow = "(string, pyval) dict"

text \<open>\<open>row.get(k)\<close>.\<close>

definition row_get :: "pyrow \<Rightarrow> string \<Rightarrow> pyval" where
  "row_get row k = (case map_of row k of None \<Rightarrow> PNone | Some v \<Rightarrow> v)"

type_synonym csv_dict = "(string, string option) dict"

text \<open>\<open>DictReader\<close>: the first row names the fields, empty rows are skipped, a short row's missing
  fields are \<open>None\<close>; what a long row has beyond the names is filed under no name.\<close>

definition row_dict :: "string list \<Rightarrow> string list \<Rightarrow> csv_dict" where
  "row_dict names r =
     fold (\<lambda>(k, v) d. dict_set d k v) (zip names (map Some r @ replicate (length names) None)) []"

definition dict_reader :: "string \<Rightarrow> csv_dict list" where
  "dict_reader s =
     (case csv_reader s of
        [] \<Rightarrow> []
      | names # rows \<Rightarrow> map (row_dict names) (filter (\<lambda>r. r \<noteq> []) rows))"

text \<open>Subscripting a read row: a name that is no field raises, and so does using \<open>None\<close> as text.\<close>

definition field :: "csv_dict \<Rightarrow> string \<Rightarrow> string res" where
  "field r k = (case map_of r k of
      None \<Rightarrow> Inl (KeyError k) | Some None \<Rightarrow> Inl TypeError | Some (Some v) \<Rightarrow> Inr v)"

lemma row_dict_full:
  assumes "length r = length names" "distinct names"
  shows "row_dict names r = zip names (map Some r)"
proof -
  have "zip names (map Some r @ replicate (length names) None) = zip names (map Some r)"
    using assms(1) by (simp add: zip_append2)
  then show ?thesis
    using assms fold_dict_set_distinct [of "[]" "zip names (map Some r)"]
    by (simp add: row_dict_def)
qed

lemma field_row_dict:
  assumes "length r = length names" "distinct names" "i < length names"
  shows "field (row_dict names r) (names ! i) = Inr (r ! i)"
proof -
  have "map_of (zip names (map Some r)) (names ! i) = Some (Some (r ! i))"
    using assms by (simp add: map_of_zip_nth)
  then show ?thesis
    using assms by (simp add: field_def row_dict_full)
qed

end
