(* ===== verification/RunMatrix.thy ===== *)
theory RunMatrix
  imports ExasolCluster Poller Csv
begin

text \<open>
  \<open>tools/measure/bucketfs/run_matrix.py\<close>, up to one cell: payloads, the HTTP client, the two
  systems behind one interface, the summary of a watch. A cell's write runs on a thread beside the
  poller; the thread's outcome is decided when it is started and raised when it is joined, and what
  the poller sees meanwhile is the environment's to choose.
\<close>

section \<open>Sizes, intervals, deadlines\<close>

definition kib :: int where "kib = 1024"
definition mib :: int where "mib = 1024 * kib"
definition gib :: int where "gib = 1024 * mib"

definition default_sizes :: "int list" where
  "default_sizes = [kib, mib, 100 * mib, gib, 4 * gib]"

definition small_file :: int where
  "small_file = 4 * kib"

definition result_fields :: "string list" where
  "result_fields =
     [''experiment'', ''system'', ''config'', ''nodes'', ''size_bytes'', ''file_count'',
      ''repeat'', ''t0'', ''ingest_s'', ''propagation_s'', ''fanout_s'', ''converged'',
      ''distinct_hashes'', ''nofile'', ''loadavg'', ''arrivals'']"

definition interval_ms :: "int \<Rightarrow> int" where
  "interval_ms sz = (if sz \<le> mib then 50 else 500)"

definition deadline_for :: "int \<Rightarrow> int \<Rightarrow> rat" where
  "deadline_for sz n = (if sz \<ge> gib then 1800 else 900)"

text \<open>The wait for an idle host, from observation \<open>k\<close>: the load it ended with.\<close>

fun idle_loop :: "nat \<Rightarrow> env \<Rightarrow> rat \<Rightarrow> rat \<Rightarrow> nat \<Rightarrow> (rat \<times> nat) res" where
  "idle_loop 0 env threshold stop k = Inl OutOfFuel"
| "idle_loop (Suc fuel) env threshold stop k =
     (if load_at env k > threshold
      then (if clock env (Suc k) < stop then idle_loop fuel env threshold stop (k + 2)
            else Inr (load_at env (k + 2), k + 3))
      else Inr (load_at env (Suc k), k + 2))"

definition wait_for_idle :: "nat \<Rightarrow> env \<Rightarrow> rat \<Rightarrow> rat \<Rightarrow> nat \<Rightarrow> (rat \<times> nat) res" where
  "wait_for_idle fuel env threshold deadline k =
     idle_loop fuel env threshold (clock env k + deadline) (Suc k)"

section \<open>Payloads\<close>

text \<open>The sizes of the chunks written; \<open>os.urandom\<close> raises for a negative size.\<close>

function payload_chunks :: "int \<Rightarrow> int list res" where
  "payload_chunks remaining =
     (if remaining = 0 then Inr []
      else if remaining < 0 then Inl ValueError
      else (let chunk = min remaining (8 * mib)
            in rbind (payload_chunks (remaining - chunk)) (\<lambda>cs. Inr (chunk # cs))))"
  by pat_completeness auto

termination
  by (relation "measure nat") (auto simp: mib_def kib_def)

declare payload_chunks.simps [simp del]

definition make_payload :: "env \<Rightarrow> path \<Rightarrow> int \<Rightarrow> (sys, unit) prog" where
  "make_payload env p sz =
     pbind (io env (Wrote p [])) (\<lambda>_.
     pbind (plift (payload_chunks sz)) (\<lambda>chunks.
     pfor chunks (\<lambda>chunk. pbind (ask (\<lambda>k. random_at env k (nat chunk))) (\<lambda>data.
       io env (Appended p data)))))"

section \<open>The HTTP client\<close>

text \<open>A request's event says where it went, its method, target and headers, and the file sent as its body.\<close>

record bucket =
  bk_host :: string
  bk_port :: int
  bk_bucket :: string
  bk_auth :: string

definition bucket_init :: "string \<Rightarrow> string \<Rightarrow> bucket res" where
  "bucket_init url write_passwd =
     (case splitn_char CHR ''/'' 3 url of
        [_, _, hostport, bucket] \<Rightarrow>
          (case str_partition '':'' hostport of (host, _, port) \<Rightarrow>
             rbind (int_of_str port) (\<lambda>n.
               Inr \<lparr>bk_host = host, bk_port = n, bk_bucket = bucket, bk_auth = ''w:'' @ write_passwd\<rparr>))
      | _ \<Rightarrow> Inl ValueError)"

definition basic_auth :: "bucket \<Rightarrow> string \<times> string" where
  "basic_auth b = (''Authorization'', ''Basic '' @ b64encode (bk_auth b))"

definition bucket_target :: "bucket \<Rightarrow> string \<Rightarrow> string" where
  "bucket_target b name = ''/'' @ bk_bucket b @ ''/'' @ name"

definition bucket_put :: "env \<Rightarrow> bucket \<Rightarrow> string \<Rightarrow> path \<Rightarrow> int \<Rightarrow> (sys, int) prog" where
  "bucket_put env b name p sz =
     pbind (ask (\<lambda>k. case bytes_at env k p of Inl e \<Rightarrow> Inl (OSErr e) | Inr _ \<Rightarrow> Inr ())) (\<lambda>opened.
     pbind (plift opened) (\<lambda>_.
     act (Sent (bk_host b) (bk_port b) ''PUT'' (bucket_target b name)
            [(''Content-Length'', str_of_int sz), basic_auth b] (Some p)) (http_at env)))"

definition bucket_delete :: "env \<Rightarrow> bucket \<Rightarrow> string \<Rightarrow> (sys, int) prog" where
  "bucket_delete env b name =
     act (Sent (bk_host b) (bk_port b) ''DELETE'' (bucket_target b name) [basic_auth b] None) (http_at env)"

definition bucket_close :: "(sys, unit) prog" where
  "bucket_close = act Closed (\<lambda>_. Inr ())"

section \<open>Clusters\<close>

definition cluster_up :: "nat \<Rightarrow> env \<Rightarrow> string \<Rightarrow> int \<Rightarrow> path \<Rightarrow> int \<Rightarrow> (sys, cluster_info) prog" where
  "cluster_up fuel env system n base sync_period =
     (if system = ''syncfs'' then syncfs_up fuel env base n 600 False None
      else exasol_up fuel env base n sync_period 900)"

definition purge :: "env \<Rightarrow> path \<Rightarrow> (sys, unit) prog" where
  "purge env base =
     pbind (ask (\<lambda>k. exists_at env k base)) (\<lambda>there.
       if \<not> there then pret ()
       else pbind (shell env [''podman'', ''unshare'', ''rm'', ''-rf'', path_str base]) (\<lambda>_.
            act (RemovedTree base) (\<lambda>_. Inr ())))"

definition cluster_down :: "env \<Rightarrow> string \<Rightarrow> int \<Rightarrow> path \<Rightarrow> (sys, unit) prog" where
  "cluster_down env system n base =
     pbind (if system = ''syncfs'' then syncfs_down env base n else exasol_down env base n) (\<lambda>_.
     purge env base)"

definition dir_key :: "cluster_info \<Rightarrow> string" where
  "dir_key info = (if ci_system info = ''syncfs'' then ''data_dir'' else ''bucket_dir'')"

definition target_dirs :: "cluster_info \<Rightarrow> nodes res" where
  "target_dirs info = rmap (\<lambda>(n, v). rbind (dict_get v (dir_key info)) (\<lambda>d.
     Inr (n, path_of_str d))) (ci_node info)"

definition target_paths :: "cluster_info \<Rightarrow> string \<Rightarrow> nodes res" where
  "target_paths info name = rmap (\<lambda>(n, v). rbind (dict_get v (dir_key info)) (\<lambda>d.
     Inr (n, path_of_str d @ [name]))) (ci_node info)"

definition writer_of :: "cluster_info \<Rightarrow> string res" where
  "writer_of info =
     (case ci_writer info of
        Some w \<Rightarrow> if w \<noteq> [] then Inr w else
          (if ci_node info = [] then Inl IndexError else Inr (hd (sort (dict_keys (ci_node info)))))
      | None \<Rightarrow> if ci_node info = [] then Inl IndexError else Inr (hd (sort (dict_keys (ci_node info)))))"

text \<open>\<open>Bucket(info["node"][writer]["url"], info["write_passwd"])\<close>.\<close>

definition writer_bucket :: "cluster_info \<Rightarrow> string \<Rightarrow> bucket res" where
  "writer_bucket info writer =
     rbind (dict_get (ci_node info) writer) (\<lambda>v.
     rbind (dict_get v ''url'') (\<lambda>url.
     rbind (case ci_write_passwd info of None \<Rightarrow> Inl (KeyError ''write_passwd'') | Some p \<Rightarrow> Inr p) (\<lambda>p.
       bucket_init url p)))"

section \<open>The summary of a cell\<close>

definition arrivals_of :: "records \<Rightarrow> (string, rat option) dict" where
  "arrivals_of recs = map (\<lambda>(n, r). (n, elapsed r)) recs"

definition arrived_values :: "records \<Rightarrow> rat list" where
  "arrived_values recs = concat (map (\<lambda>(n, r). case elapsed r of None \<Rightarrow> [] | Some x \<Rightarrow> [x]) recs)"

definition round_opt :: "rat option \<Rightarrow> pyval" where
  "round_opt x = (case x of None \<Rightarrow> PNone | Some v \<Rightarrow> PFloat (py_round v 4))"

definition summarise :: "records \<Rightarrow> string \<Rightarrow> rat \<Rightarrow> pyrow" where
  "summarise recs writer t0 =
     (let arrivals = arrivals_of recs;
          hashes = distinct_hashes recs;
          converged = (list_all (\<lambda>(_, v). v \<noteq> None) arrivals \<and> length hashes = 1);
          ingest = (case map_of arrivals writer of None \<Rightarrow> None | Some v \<Rightarrow> v);
          vs = arrived_values recs;
          latest = (if vs = [] then None else Some (Max (set vs)))
      in [(''ingest_s'', round_opt ingest),
          (''propagation_s'', round_opt latest),
          (''fanout_s'', case (latest, ingest) of (Some l, Some i) \<Rightarrow> PFloat (py_round (l - i) 4) | _ \<Rightarrow> PNone),
          (''converged'', PBool converged),
          (''distinct_hashes'', PInt (int (length hashes))),
          (''arrivals'', PStr (json_dumps (map (\<lambda>(n, v). (n, case v of None \<Rightarrow> JNull
             | Some x \<Rightarrow> JFloat (py_round x 4))) arrivals)))])"

definition row_update :: "pyrow \<Rightarrow> (string \<times> pyval) list \<Rightarrow> pyrow" where
  "row_update row kvs = fold (\<lambda>(k, v) d. dict_set d k v) kvs row"

definition int_opt :: "int option \<Rightarrow> pyval" where
  "int_opt x = (case x of None \<Rightarrow> PNone | Some i \<Rightarrow> PInt i)"

definition name_for :: "int \<Rightarrow> int \<Rightarrow> string" where
  "name_for sz i = ''probe-'' @ str_of_int sz @ ''-'' @ str_of_int i @ ''.bin''"

section \<open>The writers' threads\<close>

definition joined :: "exn option \<Rightarrow> (sys, unit) prog" where
  "joined err = (case err of None \<Rightarrow> pret () | Some e \<Rightarrow> praise e)"

definition spawn_copy :: "env \<Rightarrow> path \<Rightarrow> path \<Rightarrow> (sys, exn option) prog" where
  "spawn_copy env src dst = act (Copied src dst) (\<lambda>k. Inr (map_option OSErr (io_at env k)))"

text \<open>What a body's end leaves in the thread's error list.\<close>

definition caught :: "(sys, exn option) prog \<Rightarrow> (sys, exn option) prog" where
  "caught body = pbind (ptry body) (\<lambda>r. pret (case r of Inl e \<Rightarrow> Some e | Inr err \<Rightarrow> err))"

definition spawn_put :: "env \<Rightarrow> bucket \<Rightarrow> string \<Rightarrow> path \<Rightarrow> int \<Rightarrow> (sys, exn option) prog" where
  "spawn_put env b name payload sz =
     caught (pbind (bucket_put env b name payload sz) (\<lambda>status.
       pret (if status \<in> {200, 201, 204} then None
             else Some (RuntimeError (''PUT returned '' @ str_of_int status)))))"

definition joined_closing :: "exn option \<Rightarrow> (sys, unit) prog" where
  "joined_closing err = pbind bucket_close (\<lambda>_. joined err)"

definition unit_name :: "nat \<Rightarrow> string" where
  "unit_name i = ''f'' @ zfill_left 5 (str_of_nat i) @ ''.bin''"

definition spawn_tree_copy :: "env \<Rightarrow> path \<Rightarrow> path \<Rightarrow> int \<Rightarrow> (sys, exn option) prog" where
  "spawn_tree_copy env src target cnt =
     caught (pbind (io env (MadeDir target)) (\<lambda>_.
       pbind (pfor [0..<nat cnt] (\<lambda>i. io env (Copied src (target @ [unit_name i])))) (\<lambda>_. pret None)))"

fun put_units :: "env \<Rightarrow> bucket \<Rightarrow> string \<Rightarrow> path \<Rightarrow> nat list \<Rightarrow> (sys, exn option) prog" where
  "put_units env b pre src [] = pret None"
| "put_units env b pre src (i # rest) =
     pbind (bucket_put env b (pre @ ''/'' @ unit_name i) src small_file) (\<lambda>status.
       if status \<in> {200, 201, 204} then put_units env b pre src rest
       else pret (Some (RuntimeError (''PUT '' @ str_of_nat i @ '' returned '' @ str_of_int status))))"

definition spawn_tree_put :: "env \<Rightarrow> bucket \<Rightarrow> string \<Rightarrow> path \<Rightarrow> int \<Rightarrow> (sys, exn option) prog" where
  "spawn_tree_put env b pre src cnt = caught (put_units env b pre src [0..<nat cnt])"

section \<open>Cells\<close>

definition watch_nodes ::
  "nat \<Rightarrow> env \<Rightarrow> (string \<Rightarrow> string) \<Rightarrow> nodes \<Rightarrow> bool \<Rightarrow> int \<Rightarrow> int \<Rightarrow> rat \<Rightarrow> rat \<Rightarrow> rat \<Rightarrow> (sys, records) prog" where
  "watch_nodes fuel env sha nodes tree sz cnt interval deadline t0 =
     watching_part (\<lambda>k. rbind (watch fuel (world.truncate env) sha nodes tree sz cnt interval deadline t0 k)
       (\<lambda>(recs, _, k'). Inr (recs, k')))"

definition clear_cell :: "nat \<Rightarrow> env \<Rightarrow> cluster_info \<Rightarrow> string \<Rightarrow> (sys, unit) prog" where
  "clear_cell fuel env info name =
     pbind (plift (writer_of info)) (\<lambda>writer.
     pbind
       (if ci_system info = ''syncfs''
        then pbind (plift (rbind (dict_get (ci_node info) writer) (\<lambda>v. dict_get v ''data_dir''))) (\<lambda>d.
               unlink env (path_of_str d @ [name]))
        else pbind (plift (writer_bucket info writer)) (\<lambda>b.
               pfinally (pbind (bucket_delete env b name) (\<lambda>_. pret ())) bucket_close)) (\<lambda>_.
     pbind (plift (target_paths info name)) (\<lambda>nodes.
     pbind (watching_part (watch_absent fuel (world.truncate env) nodes (1 / 5) 180)) (\<lambda>gone.
       if gone then pret ()
       else say (''  warning: '' @ name @ '' still present somewhere after 180 s'')))))"

definition finish_row :: "cluster_info \<Rightarrow> records \<Rightarrow> string \<Rightarrow> rat \<Rightarrow> rat \<Rightarrow> pyrow" where
  "finish_row info recs writer t0 load =
     row_update (summarise recs writer t0)
       [(''loadavg'', PFloat (py_round load 2)), (''nofile'', int_opt (ci_nofile info))]"

definition start_write ::
  "env \<Rightarrow> cluster_info \<Rightarrow> nodes \<Rightarrow> string \<Rightarrow> string \<Rightarrow> path \<Rightarrow> int \<Rightarrow> (sys, exn option) prog" where
  "start_write env info nodes writer name payload sz =
     (if ci_system info = ''syncfs''
      then pbind (plift (dict_get nodes writer)) (\<lambda>dst. spawn_copy env payload dst)
      else pbind (plift (writer_bucket info writer)) (\<lambda>b. spawn_put env b name payload sz))"

definition start_tree_write ::
  "env \<Rightarrow> cluster_info \<Rightarrow> nodes \<Rightarrow> string \<Rightarrow> string \<Rightarrow> path \<Rightarrow> int \<Rightarrow> (sys, exn option) prog" where
  "start_tree_write env info subdirs writer pre payload cnt =
     (if ci_system info = ''syncfs''
      then pbind (plift (dict_get subdirs writer)) (\<lambda>d. spawn_tree_copy env payload d cnt)
      else pbind (plift (writer_bucket info writer)) (\<lambda>b. spawn_tree_put env b pre payload cnt))"

definition join_write :: "cluster_info \<Rightarrow> exn option \<Rightarrow> (sys, unit) prog" where
  "join_write info started =
     (if ci_system info = ''syncfs'' then joined started else joined_closing started)"

definition propagation_cell ::
  "nat \<Rightarrow> env \<Rightarrow> (string \<Rightarrow> string) \<Rightarrow> cluster_info \<Rightarrow> int \<Rightarrow> int \<Rightarrow> path \<Rightarrow> (sys, pyrow) prog" where
  "propagation_cell fuel env sha info sz i staging =
     (let name = name_for sz i; payload = staging @ [name] in
      pbind (make_payload env payload sz) (\<lambda>_.
      pbind (plift (target_paths info name)) (\<lambda>nodes.
      pbind (plift (writer_of info)) (\<lambda>writer.
      pbind (watching_part (wait_for_idle fuel env (3 / 2) 120)) (\<lambda>load.
      pbind (ask (clock env)) (\<lambda>t0.
      pbind (start_write env info nodes writer name payload sz) (\<lambda>started.
      pbind (watch_nodes fuel env sha nodes False sz 1 (of_int (interval_ms sz) / 1000)
               (deadline_for sz (ci_nodes info)) t0) (\<lambda>recs.
      pbind (join_write info started) (\<lambda>_.
      pbind (unlink env payload) (\<lambda>_.
      pret (finish_row info recs writer t0 load)))))))))))"

definition tree_cell ::
  "nat \<Rightarrow> env \<Rightarrow> (string \<Rightarrow> string) \<Rightarrow> cluster_info \<Rightarrow> int \<Rightarrow> int \<Rightarrow> path \<Rightarrow> (sys, pyrow) prog" where
  "tree_cell fuel env sha info cnt i staging =
     (let pre = ''many-'' @ str_of_int cnt @ ''-'' @ str_of_int i;
          payload = staging @ [pre @ ''.unit''] in
      pbind (make_payload env payload small_file) (\<lambda>_.
      pbind (plift (writer_of info)) (\<lambda>writer.
      pbind (plift (target_dirs info)) (\<lambda>dirs.
      let subdirs = map (\<lambda>(n, d). (n, d @ [pre])) dirs in
      pbind (watching_part (wait_for_idle fuel env (3 / 2) 120)) (\<lambda>load.
      pbind (ask (clock env)) (\<lambda>t0.
      pbind (start_tree_write env info subdirs writer pre payload cnt) (\<lambda>started.
      pbind (watch_nodes fuel env sha subdirs True (small_file * cnt) cnt (1 / 2) 900 t0) (\<lambda>recs.
      pbind (join_write info started) (\<lambda>_.
      pbind (unlink env payload) (\<lambda>_.
      pret (finish_row info recs writer t0 load)))))))))))"

section \<open>The summary\<close>

lemma arrived_values_set:
  "x \<in> set (arrived_values recs) \<longleftrightarrow> (\<exists>n r. (n, r) \<in> set recs \<and> elapsed r = Some x)"
proof (induction recs)
  case (Cons nr recs)
  obtain n r where "nr = (n, r)" by (cases nr)
  with Cons show ?case
    by (cases "elapsed r") (auto simp: arrived_values_def)
qed (simp add: arrived_values_def)

lemma map_of_arrivals: "map_of (arrivals_of recs) n = map_option elapsed (map_of recs n)"
  by (induction recs) (auto simp: arrivals_of_def)

lemma summarise_fields:
  "row_get (summarise recs writer t0) ''converged'' =
     PBool (list_all (\<lambda>(_, r). elapsed r \<noteq> None) recs \<and> length (distinct_hashes recs) = 1)"
  "row_get (summarise recs writer t0) ''distinct_hashes'' = PInt (int (length (distinct_hashes recs)))"
  by (auto simp: summarise_def Let_def row_get_def arrivals_of_def list_all_iff)

lemma summarise_times:
  assumes "map_of recs writer = Some r" and "elapsed r = Some i"
  obtains l where "row_get (summarise recs writer t0) ''ingest_s'' = PFloat (py_round i 4)"
    "row_get (summarise recs writer t0) ''propagation_s'' = PFloat (py_round l 4)"
    "row_get (summarise recs writer t0) ''fanout_s'' = PFloat (py_round (l - i) 4)"
    "i \<le> l" "\<exists>n r. (n, r) \<in> set recs \<and> elapsed r = Some l"
    "\<And>n r x. (n, r) \<in> set recs \<Longrightarrow> elapsed r = Some x \<Longrightarrow> x \<le> l"
proof -
  let ?l = "Max (set (arrived_values recs))"
  have i: "i \<in> set (arrived_values recs)"
    using map_of_SomeD [OF assms(1)] assms(2) by (auto simp: arrived_values_set)
  then have ne: "arrived_values recs \<noteq> []"
    by auto
  have w: "map_of (arrivals_of recs) writer = Some (Some i)"
    using assms by (simp add: map_of_arrivals)
  have "?l \<in> set (arrived_values recs)"
    using ne by (intro Max_in) auto
  moreover have "x \<le> ?l" if "(n, r) \<in> set recs" "elapsed r = Some x" for n r x
    by (rule Max_ge) (use that in \<open>auto simp: arrived_values_set\<close>)
  moreover have "i \<le> ?l"
    using i by (intro Max_ge) auto
  ultimately show ?thesis
    using ne w by (intro that [of ?l])
      (auto simp: summarise_def Let_def row_get_def round_opt_def arrived_values_set)
qed

text \<open>
  A cell is written down as converged exactly when every node's copy arrived and all copies have
  one and the same hash, for the records of any watch of at least one node.
\<close>

theorem summarise_converged:
  assumes "watch fuel w sha nodes tree sz cnt interval deadline t0 k = Inr (recs, out, k')"
    and "distinct (dict_keys nodes)" and "nodes \<noteq> []" and "\<And>c. sha c \<noteq> []"
  shows "row_get (summarise recs writer t0) ''converged'' =
    PBool ((\<forall>(n, r) \<in> set recs. arrived_at r \<noteq> None) \<and> (\<exists>h. \<forall>(n, r) \<in> set recs. nr_sha256 r = Some h))"
proof -
  have keys: "distinct (dict_keys recs)" "set (dict_keys recs) = set (dict_keys nodes)"
    using watch_keys [OF assms(1,2)] by simp_all
  then have ne: "recs \<noteq> []"
    using assms(3) by (cases nodes) auto
  have ok: "record_ok w sha t0 n r" if "(n, r) \<in> set recs" for n r
    using watch_record [OF assms(1,2)] keys(1) that by (metis map_of_is_SomeI)
  then have all: "list_all (\<lambda>(_, r). elapsed r \<noteq> None) recs \<longleftrightarrow> (\<forall>(n, r) \<in> set recs. arrived_at r \<noteq> None)"
    by (fastforce simp: list_all_iff record_ok_def)
  show ?thesis
  proof (cases "\<forall>(n, r) \<in> set recs. arrived_at r \<noteq> None")
    case True
    have "length (distinct_hashes recs) = 1 \<longleftrightarrow> (\<exists>h. \<forall>(n, r) \<in> set recs. nr_sha256 r = Some h)"
    proof (rule distinct_hashes_single [OF _ ne])
      fix n r assume "(n, r) \<in> set recs"
      then show "\<exists>h. nr_sha256 r = Some h \<and> h \<noteq> []"
        using ok [of n r] True assms(4) by (fastforce simp: record_ok_def)
    qed
    then show ?thesis
      using all True by (simp add: summarise_fields)
  next
    case False
    then show ?thesis
      using all by (subst summarise_fields) (simp only: simp_thms)
  qed
qed

text \<open>
  The three times of a cell fit together: when the writer's copy arrived, the ingest time is not
  negative, the propagation time is at least the ingest time, the fan-out time is not negative, and
  it is their difference up to the rounding of the three printed values.
\<close>

theorem summarise_durations:
  assumes "watch fuel w sha nodes tree sz cnt interval deadline t0 k = Inr (recs, out, k')"
    and "distinct (dict_keys nodes)" and "map_of recs writer = Some r" and "arrived_at r \<noteq> None"
    and "\<And>j. t0 \<le> clock w j"
  shows "\<exists>i p f. row_get (summarise recs writer t0) ''ingest_s'' = PFloat i \<and>
    row_get (summarise recs writer t0) ''propagation_s'' = PFloat p \<and>
    row_get (summarise recs writer t0) ''fanout_s'' = PFloat f \<and>
    0 \<le> i \<and> i \<le> p \<and> 0 \<le> f \<and> \<bar>f - (p - i)\<bar> \<le> 3 / 20000"
proof -
  obtain a where a: "arrived_at r = Some a"
    using assms(4) by blast
  have r: "elapsed r = Some (a - t0)" "\<exists>p. arrived_when w tree sz cnt p a"
    using watch_record [OF assms(1-3)] a by (auto simp: record_ok_def)
  then have "0 \<le> a - t0"
    using assms(5) by (auto simp: arrived_when_def)
  obtain l where l: "row_get (summarise recs writer t0) ''ingest_s'' = PFloat (py_round (a - t0) 4)"
    "row_get (summarise recs writer t0) ''propagation_s'' = PFloat (py_round l 4)"
    "row_get (summarise recs writer t0) ''fanout_s'' = PFloat (py_round (l - (a - t0)) 4)"
    "a - t0 \<le> l"
    using summarise_times [OF assms(3) r(1)] by metis
  have near: "x - 1 / 20000 \<le> py_round x 4 \<and> py_round x 4 \<le> x + 1 / 20000" for x
    using py_round_error [of x 4] by (simp only: abs_diff_le_iff) simp
  have "\<bar>py_round (l - (a - t0)) 4 - (py_round l 4 - py_round (a - t0) 4)\<bar> \<le> 3 / 20000"
    using near [of "l - (a - t0)"] near [of l] near [of "a - t0"]
    by (simp only: abs_diff_le_iff) linarith
  then show ?thesis
    using l \<open>0 \<le> a - t0\<close> by (auto intro!: py_round_nonneg py_round_mono)
qed

section \<open>Payloads\<close>

lemma payload_chunks_sum:
  "payload_chunks n = Inr cs \<Longrightarrow> sum_list cs = n \<and> (\<forall>c \<in> set cs. 0 < c \<and> c \<le> 8 * mib)"
proof (induction n arbitrary: cs rule: payload_chunks.induct)
  case (1 n)
  have m: "0 < 8 * mib" by (simp add: mib_def kib_def)
  show ?case
  proof (cases "n \<le> 0")
    case True
    then show ?thesis
      using 1(2) by (auto simp: payload_chunks.simps [of n] split: if_splits)
  next
    case False
    then obtain ds where ds: "payload_chunks (n - min n (8 * mib)) = Inr ds" "cs = min n (8 * mib) # ds"
      using 1(2) by (auto simp: payload_chunks.simps [of n] Let_def rbind_Inr_iff split: if_splits)
    then show ?thesis
      using 1(1) [OF _ _ refl ds(1)] False m by auto
  qed
qed

lemma payload_chunks_total: "0 \<le> n \<Longrightarrow> \<exists>cs. payload_chunks n = Inr cs"
proof (induction n rule: payload_chunks.induct)
  case (1 n)
  then show ?case
    by (cases "n = 0") (auto simp: payload_chunks.simps [of n] payload_chunks.simps [of 0] Let_def rbind_Inr_iff)
qed

lemma payload_appends:
  assumes "pfor cs (\<lambda>c. pbind (ask (\<lambda>k. random_at env k (nat c))) (\<lambda>data. io env (Appended p data))) s = (Inr (), t)"
    and "\<And>k n. length (random_at env k n) = n"
  shows "\<exists>ds. trace t = trace s @ map (Appended p) ds \<and> map length ds = map nat cs"
  using assms(1)
proof (induction cs arbitrary: s)
  case (Cons c cs)
  obtain s1 where s1: "trace s1 = trace s @ [Appended p (random_at env (obs s) (nat c))]"
    "pfor cs (\<lambda>c. pbind (ask (\<lambda>k. random_at env k (nat c))) (\<lambda>data. io env (Appended p data))) s1 = (Inr (), t)"
    using Cons.prems by (auto simp: pbind_Inr_iff ask_Inr_iff dest!: doesD [OF does_io])
  then obtain ds where "trace t = trace s1 @ map (Appended p) ds" "map length ds = map nat cs"
    using Cons.IH [OF s1(2)] by blast
  then show ?case
    using s1(1) assms(2) by (intro exI [of _ "random_at env (obs s) (nat c) # ds"]) simp
qed simp

lemma payload_bytes:
  assumes "make_payload env p sz s = (Inr (), t)"
    and "\<And>k n. length (random_at env k n) = n"
  shows "0 \<le> sz \<and> (\<exists>ds. trace t = trace s @ Wrote p [] # map (Appended p) ds \<and>
    int (length (concat ds)) = sz \<and> list_all (\<lambda>d. d \<noteq> [] \<and> int (length d) \<le> 8 * mib) ds)"
proof -
  obtain s1 cs where s1: "io env (Wrote p []) s = (Inr (), s1)" "payload_chunks sz = Inr cs"
    "pfor cs (\<lambda>c. pbind (ask (\<lambda>k. random_at env k (nat c))) (\<lambda>data. io env (Appended p data))) s1 = (Inr (), t)"
    using assms(1) by (auto simp: make_payload_def pbind_Inr_iff)
  obtain ds where ds: "trace t = trace s1 @ map (Appended p) ds" "map length ds = map nat cs"
    using payload_appends [OF s1(3) assms(2)] by blast
  have cs: "sum_list cs = sz" "\<And>c. c \<in> set cs \<Longrightarrow> 0 < c \<and> c \<le> 8 * mib"
    using payload_chunks_sum [OF s1(2)] by auto
  have "map (int \<circ> length) ds = cs"
  proof -
    have "map (int \<circ> length) ds = map int (map nat cs)"
      using ds(2) by (metis map_map)
    also have "\<dots> = cs"
      using cs(2) by (simp add: map_idI less_imp_le)
    finally show ?thesis .
  qed
  then have c: "int (length (concat ds)) = sz" "\<And>d. d \<in> set ds \<Longrightarrow> int (length d) \<in> set cs"
    using cs(1) by (auto simp: length_concat sum_list_int comp_def)
  have "d \<noteq> [] \<and> int (length d) \<le> 8 * mib" if "d \<in> set ds" for d
    using cs(2) [OF c(2) [OF that]] by auto
  moreover have "0 \<le> sz"
    using cs by (metis order_less_imp_le sum_list_nonneg)
  ultimately show ?thesis
    using ds(1) doesD [OF does_io s1(1)] c(1) by (auto simp: list_all_iff)
qed

text \<open>
  A payload has exactly the size asked for: \<open>make_payload\<close> truncates the file and appends
  non-empty chunks of at most 8 MiB whose lengths add up to the size, and it raises for a negative
  one.
\<close>

theorem payload_exact:
  assumes "make_payload env p sz s = (Inr (), t)"
    and "\<And>k n. length (random_at env k n) = n"
  shows "0 \<le> sz \<and> (\<exists>ds. trace t = trace s @ Wrote p [] # map (Appended p) ds \<and>
    int (length (concat ds)) = sz \<and> list_all (\<lambda>d. d \<noteq> [] \<and> int (length d) \<le> 8 * mib) ds)"
  by (rule payload_bytes [OF assms])

section \<open>The two systems behind one interface\<close>

lemma component_ok_names [simp]:
  "component_ok (syncfs_node_name i)" "component_ok (exasol_node_name i)"
  "component_ok ''data''" "component_ok ''bucketfs''" "component_ok bucketfs_name"
  "component_ok ''.dest''" "component_ok bucket_name" "component_ok ''peers''"
  by (auto simp: component_ok_def syncfs_node_name_def exasol_node_name_def str_of_int_free
      bucketfs_name_def bucket_name_def)

lemma dirs_of_info:
  assumes "ci_node info = map (\<lambda>i. (name i, entry i)) ids"
    and "\<And>i. i \<in> set ids \<Longrightarrow> map_of (entry i) (dir_key info) = Some (path_str (dir i)) \<and> path_ok (dir i)"
  shows "target_dirs info = Inr (map (\<lambda>i. (name i, dir i)) ids)"
    and "target_paths info f = Inr (map (\<lambda>i. (name i, dir i @ [f])) ids)"
proof -
  have get: "dict_get (entry i) (dir_key info) = Inr (path_str (dir i))" "path_ok (dir i)" if "i \<in> set ids" for i
    using assms(2) [OF that] by (simp_all add: dict_get_Inr_iff)
  show "target_dirs info = Inr (map (\<lambda>i. (name i, dir i)) ids)"
    unfolding target_dirs_def assms(1) rmap_map
    by (rule rmap_Inr) (simp add: get path_of_path_str)
  show "target_paths info f = Inr (map (\<lambda>i. (name i, dir i @ [f])) ids)"
    unfolding target_paths_def assms(1) rmap_map
    by (rule rmap_Inr) (simp add: get path_of_path_str)
qed

lemma syncfs_target_dirs:
  assumes "path_ok base" and "base \<noteq> []"
  shows "target_dirs (syncfs_info base n nofile) =
    Inr (map (\<lambda>i. (syncfs_node_name i, data_dir base i)) (syncfs_node_ids n))"
proof (rule dirs_of_info(1))
  show "ci_node (syncfs_info base n nofile) = map (\<lambda>i. (syncfs_node_name i, syncfs_node_entry base i)) (syncfs_node_ids n)"
    by (simp add: syncfs_info_def)
  show "map_of (syncfs_node_entry base i) (dir_key (syncfs_info base n nofile)) = Some (path_str (data_dir base i)) \<and>
    path_ok (data_dir base i)" for i
    using assms by (auto simp: data_dir_def node_root_def syncfs_info_def syncfs_node_entry_def dir_key_def
        intro!: path_ok_append)
qed

text \<open>
  The poller watches the directories the containers have mounted: reading the paths back out of
  the description of a cluster gives the data directory of every syncfs node, the bucket directory of
  every BucketFS node, and below them the cell's file.
\<close>

theorem targets_are_the_mounts:
  assumes "path_ok base" and "base \<noteq> []"
  shows "target_dirs (syncfs_info base n nofile) =
      Inr (map (\<lambda>i. (syncfs_node_name i, data_dir base i)) (syncfs_node_ids n)) \<and>
    target_paths (syncfs_info base n nofile) f =
      Inr (map (\<lambda>i. (syncfs_node_name i, data_dir base i @ [f])) (syncfs_node_ids n)) \<and>
    target_dirs (exasol_info base n period pw) =
      Inr (map (\<lambda>i. (exasol_node_name i, bucket_dir base i)) (exasol_node_ids n)) \<and>
    target_paths (exasol_info base n period pw) f =
      Inr (map (\<lambda>i. (exasol_node_name i, bucket_dir base i @ [f])) (exasol_node_ids n))"
proof -
  have "path_ok (data_dir base i)" "path_ok (bucket_dir base i)" for i
    using assms by (auto simp: data_dir_def node_root_def bucket_dir_def exasol_node_root_def
        intro!: path_ok_append)
  note d = this
  have s: "ci_node (syncfs_info base n nofile) = map (\<lambda>i. (syncfs_node_name i, syncfs_node_entry base i)) (syncfs_node_ids n)"
    "ci_node (exasol_info base n period pw) = map (\<lambda>i. (exasol_node_name i, exasol_node_entry base i)) (exasol_node_ids n)"
    by (simp_all add: syncfs_info_def exasol_info_def)
  have "map_of (syncfs_node_entry base i) (dir_key (syncfs_info base n nofile)) = Some (path_str (data_dir base i))"
    "map_of (exasol_node_entry base i) (dir_key (exasol_info base n period pw)) = Some (path_str (bucket_dir base i))" for i
    by (simp_all add: syncfs_info_def exasol_info_def syncfs_node_entry_def exasol_node_entry_def dir_key_def)
  then show ?thesis
    using d by (intro conjI dirs_of_info [OF s(1)] dirs_of_info [OF s(2)]) simp_all
qed

text \<open>The address the client parses out of a node's URL.\<close>

lemma bucket_init_url:
  "bucket_init (bucket_url i) pw = Inr \<lparr>bk_host = ''localhost'', bk_port = host_port i,
     bk_bucket = bucket_name, bk_auth = ''w:'' @ pw\<rparr>"
proof -
  let ?port = "str_of_int (host_port i)"
  have "splitn_char CHR ''/'' 3 (bucket_url i) = [''http:'', [], ''localhost:'' @ ?port, bucket_name]"
    using splitn_char_append [of "CHR ''/''" "''localhost:'' @ ?port" 0 bucket_name]
    by (simp add: bucket_url_def eval_nat_numeral str_of_int_free)
  moreover have "str_partition '':'' (''localhost:'' @ ?port) = (''localhost'', '':'', ?port)"
    using str_partition_char [of "CHR '':''" "''localhost''" ?port] by simp
  ultimately show ?thesis
    by (simp add: bucket_init_def)
qed

text \<open>
  The HTTP client the driver builds from a BucketFS node's entry talks to that node's published
  port, addresses the bucket the cluster was configured with, and sends credentials that decode to
  the write password.
\<close>

theorem writer_bucket_client:
  assumes "i \<in> set (exasol_node_ids n)" and "ascii (snd pw)"
  shows "\<exists>b. writer_bucket (exasol_info base n period pw) (exasol_node_name i) = Inr b \<and>
    bk_host b = ''localhost'' \<and> bk_port b = host_port i \<and>
    bucket_target b f = ''/default/'' @ f \<and>
    b64decode (drop 6 (snd (basic_auth b))) = Inr (''w:'' @ snd pw)"
proof -
  have "map_of (ci_node (exasol_info base n period pw)) (exasol_node_name i) = Some (exasol_node_entry base i)"
    using assms(1) by (simp add: exasol_info_def map_of_keyed)
  then show ?thesis
    using assms(2)
    by (simp add: writer_bucket_def dict_get_def exasol_node_entry_def bucket_init_url
        exasol_info_def bucket_target_def bucket_name_def basic_auth_def b64decode_encode ascii_def)
qed

section \<open>A cell\<close>

lemma joined_Inr: "joined err s = (Inr u, t) \<longleftrightarrow> err = None \<and> t = s"
  by (auto simp: joined_def split: option.splits)

lemma joined_closing_Inr:
  "joined_closing err s = (Inr u, t) \<Longrightarrow> err = None \<and> trace t = trace s @ [Closed]"
  by (auto simp: joined_closing_def bucket_close_def act_def pbind_Inr_iff joined_Inr)

lemma join_write_ok:
  "join_write info started s = (Inr u, t) \<Longrightarrow>
   started = None \<and> trace t = trace s @ (if ci_system info = ''syncfs'' then [] else [Closed])"
  by (auto simp: join_write_def joined_Inr dest: joined_closing_Inr split: if_splits)

lemma spawn_copy_ok:
  "spawn_copy env src dst s = (Inr None, t) \<Longrightarrow>
   io_at env (obs s) = None \<and> obs t = Suc (obs s) \<and> trace t = trace s @ [Copied src dst]"
  by (auto simp: spawn_copy_def act_def)

lemma caught_ok:
  assumes "caught body s = (Inr None, t)"
  shows "body s = (Inr None, t)"
proof -
  obtain r where r: "ptry body s = (Inr r, t)" "(case r of Inl e \<Rightarrow> Some e | Inr err \<Rightarrow> err) = None"
    using assms by (auto simp: caught_def pbind_Inr_iff)
  then have "r = Inr None"
    by (cases r) auto
  then show ?thesis
    using r(1) by (cases "body s"; cases "fst (body s)") (auto simp: ptry_def split: exn.splits)
qed

definition put_event :: "bucket \<Rightarrow> string \<Rightarrow> path \<Rightarrow> int \<Rightarrow> event" where
  "put_event b name p sz = Sent (bk_host b) (bk_port b) ''PUT'' (bucket_target b name)
     [(''Content-Length'', str_of_int sz), basic_auth b] (Some p)"

lemma bucket_put_status:
  "bucket_put env b name p sz s = (Inr status, t) \<Longrightarrow>
   http_at env (Suc (obs s)) = Inr status \<and> obs t = obs s + 2 \<and> trace t = trace s @ [put_event b name p sz]"
  by (auto simp: bucket_put_def put_event_def act_def pbind_Inr_iff ask_Inr_iff)

lemma spawn_put_ok:
  "spawn_put env b name p sz s = (Inr None, t) \<Longrightarrow>
   obs t = obs s + 2 \<and> trace t = trace s @ [put_event b name p sz] \<and>
   (\<exists>status. http_at env (Suc (obs s)) = Inr status \<and> status \<in> {200, 201, 204})"
  unfolding spawn_put_def
  by (drule caught_ok) (auto simp: pbind_Inr_iff split: if_splits dest!: bucket_put_status)

lemma watch_nodes_Inr:
  "watch_nodes fuel env sha nodes tree sz cnt interval deadline t0 s = (Inr recs, t) \<Longrightarrow>
   trace t = trace s \<and>
   (\<exists>out k'. watch fuel (world.truncate env) sha nodes tree sz cnt interval deadline t0 (obs s) = Inr (recs, out, k'))"
  by (auto simp: watch_nodes_def watching_part_Inr rbind_Inr_iff)

lemma idle_loop_later: "idle_loop fuel env threshold stop k = Inr (load, k') \<Longrightarrow> k \<le> k'"
  by (induction fuel env threshold stop k rule: idle_loop.induct) (auto split: if_splits)

lemma waiting_for_idle:
  "watching_part (wait_for_idle fuel env threshold deadline) s = (Inr load, t) \<Longrightarrow>
   trace t = trace s \<and> obs s \<le> obs t"
  by (auto simp: watching_part_Inr wait_for_idle_def dest!: idle_loop_later)

definition written_after :: "env \<Rightarrow> cluster_info \<Rightarrow> nat \<Rightarrow> nat \<Rightarrow> bool" where
  "written_after env info j k \<longleftrightarrow>
     (if ci_system info = ''syncfs'' then io_at env (Suc j) = None \<and> k = j + 2
      else k = j + 3 \<and> (\<exists>status. http_at env (j + 2) = Inr status \<and> status \<in> {200, 201, 204}))"

text \<open>The one write of a cell: to the writer node's path, or to the writer node's bucket.\<close>

definition write_of :: "cluster_info \<Rightarrow> nodes \<Rightarrow> string \<Rightarrow> string \<Rightarrow> path \<Rightarrow> int \<Rightarrow> event \<Rightarrow> bool" where
  "write_of info nodes writer name payload sz ev \<longleftrightarrow>
     (if ci_system info = ''syncfs'' then \<exists>dst. map_of nodes writer = Some dst \<and> ev = Copied payload dst
      else \<exists>b. writer_bucket info writer = Inr b \<and> ev = put_event b name payload sz)"

lemma start_write_ok:
  assumes "start_write env info nodes writer name payload sz s = (Inr None, t)"
    and "obs s = Suc j"
  shows "written_after env info j (obs t) \<and>
    (\<exists>ev. write_of info nodes writer name payload sz ev \<and> trace t = trace s @ [ev])"
proof (cases "ci_system info = ''syncfs''")
  case True
  then obtain dst where "map_of nodes writer = Some dst" "spawn_copy env payload dst s = (Inr None, t)"
    using assms(1) by (auto simp: start_write_def dict_get_Inr_iff elim!: pbindE)
  then show ?thesis
    using True assms(2) by (auto simp: written_after_def write_of_def dest!: spawn_copy_ok)
next
  case False
  then obtain b where "writer_bucket info writer = Inr b" "spawn_put env b name payload sz s = (Inr None, t)"
    using assms(1) by (auto simp: start_write_def elim!: pbindE)
  then show ?thesis
    using False assms(2) by (auto simp: written_after_def write_of_def dest!: spawn_put_ok)
qed

lemma payload_made:
  assumes "make_payload env p sz s = (Inr (), t)"
    and "\<And>k n. length (random_at env k n) = n"
  shows "\<exists>ds. trace t = trace s @ Wrote p [] # map (Appended p) ds \<and> int (length (concat ds)) = sz"
  using payload_bytes [OF assms] by blast

text \<open>
  C13. A cell of experiment A that returns a row measured one write that succeeded, of a payload of
  the cell's size. What the cell did is exactly this, in this order: it wrote the payload's
  bytes, \<open>sz\<close> of them in all, to a fresh file of the staging directory; it copied that
  file to the writer node's path (or sent it as the body of a PUT to the writer node's bucket,
  with the size and the credentials as headers); it closed the connection, if there was one; it removed the
  payload. \<open>t0\<close> is the clock reading right before the write and after the payload was made, the
  write raised nothing (a PUT was answered with status 200, 201 or 204), and the row summarises a watch, begun after
  the write was started, of the cell's file on every node. A write that fails raises out of
  the cell instead. (\<open>os.urandom n\<close> returns \<open>n\<close> bytes.)
\<close>

theorem cell_measures_a_finished_write:
  assumes "propagation_cell fuel env sha info sz i staging s = (Inr row, t)"
    and "\<And>k n. length (random_at env k n) = n"
  shows "\<exists>nodes writer ev ds s1 j k load recs out k'.
    target_paths info (name_for sz i) = Inr nodes \<and> writer_of info = Inr writer \<and>
    make_payload env (staging @ [name_for sz i]) sz s = (Inr (), s1) \<and> obs s1 \<le> j \<and>
    int (length (concat ds)) = sz \<and>
    write_of info nodes writer (name_for sz i) (staging @ [name_for sz i]) sz ev \<and>
    trace t = trace s @ Wrote (staging @ [name_for sz i]) [] # map (Appended (staging @ [name_for sz i])) ds @
      [ev] @ (if ci_system info = ''syncfs'' then [] else [Closed]) @ [Removed (staging @ [name_for sz i])] \<and>
    written_after env info j k \<and>
    watch fuel (world.truncate env) sha nodes False sz 1 (of_int (interval_ms sz) / 1000)
      (deadline_for sz (ci_nodes info)) (clock env j) k = Inr (recs, out, k') \<and>
    row = finish_row info recs writer (clock env j) load"
proof -
  let ?nm = "name_for sz i" and ?p = "staging @ [name_for sz i]"
  obtain s1 :: sys and nodes writer load s2 t0 s3 started s4 recs s5 x s6 where run:
    "make_payload env ?p sz s = (Inr (), s1)"
    "target_paths info ?nm = Inr nodes" "writer_of info = Inr writer"
    "watching_part (wait_for_idle fuel env (3 / 2) 120) s1 = (Inr load, s2)"
    "ask (clock env) s2 = (Inr t0, s3)"
    "start_write env info nodes writer ?nm ?p sz s3 = (Inr started, s4)"
    "watch_nodes fuel env sha nodes False sz 1 (of_int (interval_ms sz) / 1000)
      (deadline_for sz (ci_nodes info)) t0 s4 = (Inr recs, s5)"
    "join_write info started s5 = (Inr (), s6)"
    "unlink env ?p s6 = (Inr x, t)" "row = finish_row info recs writer t0 load"
    using assms(1) unfolding propagation_cell_def Let_def by (auto elim!: pbindE)
  note join = join_write_ok [OF run(8)]
  have s3: "t0 = clock env (obs s2)" "obs s3 = Suc (obs s2)" "trace s3 = trace s2"
    using run(5) by (simp_all add: ask_Inr_iff)
  obtain ev where ev: "written_after env info (obs s2) (obs s4)"
    "write_of info nodes writer ?nm ?p sz ev" "trace s4 = trace s3 @ [ev]"
    using start_write_ok [OF _ s3(2)] run(6) join by blast
  obtain ds where ds: "trace s1 = trace s @ Wrote ?p [] # map (Appended ?p) ds" "int (length (concat ds)) = sz"
    using payload_made [OF run(1) assms(2)] by blast
  have "trace t = trace s @ Wrote ?p [] # map (Appended ?p) ds @
      [ev] @ (if ci_system info = ''syncfs'' then [] else [Closed]) @ [Removed ?p]"
    using doesD [OF does_unlink run(9)] join watch_nodes_Inr [OF run(7)] ev(3) s3(3)
      waiting_for_idle [OF run(4)] ds(1) by simp
  then show ?thesis
    using run(1-3,10) ds(2) ev(1,2) waiting_for_idle [OF run(4)] watch_nodes_Inr [OF run(7)]
    unfolding s3(1) by blast
qed

section \<open>Instances\<close>

theorem summarise_converged_witness:
  "row_get (summarise sample_records ''n1'' 0) ''converged'' =
    PBool ((\<forall>(n, r) \<in> set sample_records. arrived_at r \<noteq> None) \<and>
      (\<exists>h. \<forall>(n, r) \<in> set sample_records. nr_sha256 r = Some h))"
  by (rule summarise_converged [OF sample_watch_run]) (simp_all add: sample_nodes_def sample_sha_def)

theorem summarise_durations_witness:
  "\<exists>i p f. row_get (summarise sample_records ''n1'' 0) ''ingest_s'' = PFloat i \<and>
    row_get (summarise sample_records ''n1'' 0) ''propagation_s'' = PFloat p \<and>
    row_get (summarise sample_records ''n1'' 0) ''fanout_s'' = PFloat f \<and>
    0 \<le> i \<and> i \<le> p \<and> 0 \<le> f \<and> \<bar>f - (p - i)\<bar> \<le> 3 / 20000"
  by (rule summarise_durations [OF sample_watch_run])
    (simp add: sample_nodes_def sample_records_def sample_clock)+

theorem payload_exact_witness:
  "\<exists>t. make_payload (ready_env 3) [''p''] 3 fresh = (Inr (), t) \<and> 0 \<le> (3::int) \<and>
    (\<exists>ds. trace t = trace fresh @ Wrote [''p''] [] # map (Appended [''p'']) ds \<and>
      int (length (concat ds)) = 3 \<and> list_all (\<lambda>d. d \<noteq> [] \<and> int (length d) \<le> 8 * mib) ds)"
proof -
  have "fst (make_payload (ready_env 3) [''p''] 3 fresh) = Inr ()"
    by code_simp
  then obtain t where t: "make_payload (ready_env 3) [''p''] 3 fresh = (Inr (), t)"
    by (metis prod.collapse)
  have "length (random_at (ready_env 3) k n) = n" for k n
    by (simp add: ready_env_def)
  then show ?thesis
    using t payload_exact [OF t] by blast
qed

theorem targets_are_the_mounts_witness:
  "target_dirs (syncfs_info [[], ''r''] 2 None) =
      Inr (map (\<lambda>i. (syncfs_node_name i, data_dir [[], ''r''] i)) (syncfs_node_ids 2)) \<and>
    target_paths (syncfs_info [[], ''r''] 2 None) ''f'' =
      Inr (map (\<lambda>i. (syncfs_node_name i, data_dir [[], ''r''] i @ [''f''])) (syncfs_node_ids 2)) \<and>
    target_dirs (exasol_info [[], ''r''] 2 1000 (''a'', ''b'')) =
      Inr (map (\<lambda>i. (exasol_node_name i, bucket_dir [[], ''r''] i)) (exasol_node_ids 2)) \<and>
    target_paths (exasol_info [[], ''r''] 2 1000 (''a'', ''b'')) ''f'' =
      Inr (map (\<lambda>i. (exasol_node_name i, bucket_dir [[], ''r''] i @ [''f''])) (exasol_node_ids 2))"
  by (rule targets_are_the_mounts) (code_simp, simp)

theorem writer_bucket_client_witness:
  "\<exists>b. writer_bucket (exasol_info [[], ''r''] 2 1000 (''a'', ''pw'')) (exasol_node_name 11) = Inr b \<and>
    bk_host b = ''localhost'' \<and> bk_port b = host_port 11 \<and>
    bucket_target b ''f'' = ''/default/'' @ ''f'' \<and>
    b64decode (drop 6 (snd (basic_auth b))) = Inr (''w:'' @ snd (''a'', ''pw''))"
  by (rule writer_bucket_client) (code_simp, code_simp)

theorem cell_measures_a_finished_write_witness:
  "\<exists>row t. propagation_cell 5 (ready_env 3) sample_sha (syncfs_info [[], ''r''] 2 None) 3 0 [''s''] fresh =
      (Inr row, t) \<and>
    (\<exists>nodes writer ev ds s1 j k load recs out k'.
    target_paths (syncfs_info [[], ''r''] 2 None) (name_for 3 0) = Inr nodes \<and>
    writer_of (syncfs_info [[], ''r''] 2 None) = Inr writer \<and>
    make_payload (ready_env 3) ([''s''] @ [name_for 3 0]) 3 fresh = (Inr (), s1) \<and> obs s1 \<le> j \<and>
    int (length (concat ds)) = 3 \<and>
    write_of (syncfs_info [[], ''r''] 2 None) nodes writer (name_for 3 0) ([''s''] @ [name_for 3 0]) 3 ev \<and>
    trace t = trace fresh @ Wrote ([''s''] @ [name_for 3 0]) [] # map (Appended ([''s''] @ [name_for 3 0])) ds @
      [ev] @ (if ci_system (syncfs_info [[], ''r''] 2 None) = ''syncfs'' then [] else [Closed]) @
      [Removed ([''s''] @ [name_for 3 0])] \<and>
    written_after (ready_env 3) (syncfs_info [[], ''r''] 2 None) j k \<and>
    watch 5 (world.truncate (ready_env 3)) sample_sha nodes False 3 1 (of_int (interval_ms 3) / 1000)
      (deadline_for 3 (ci_nodes (syncfs_info [[], ''r''] 2 None))) (clock (ready_env 3) j) k = Inr (recs, out, k') \<and>
    row = finish_row (syncfs_info [[], ''r''] 2 None) recs writer (clock (ready_env 3) j) load)"
proof -
  have "\<not> isl (fst (propagation_cell 5 (ready_env 3) sample_sha (syncfs_info [[], ''r''] 2 None) 3 0 [''s''] fresh))"
    by code_simp
  then obtain row t where t:
    "propagation_cell 5 (ready_env 3) sample_sha (syncfs_info [[], ''r''] 2 None) 3 0 [''s''] fresh = (Inr row, t)"
    by (metis isl_def prod.collapse sum.collapse(2))
  have "length (random_at (ready_env 3) k n) = n" for k n
    by (simp add: ready_env_def)
  then show ?thesis
    using t cell_measures_a_finished_write [OF t] by blast
qed

end
