(* ===== verification/Experiments.thy ===== *)
theory Experiments
  imports RunMatrix
begin

text \<open>
  \<open>tools/measure/bucketfs/run_matrix.py\<close>, from the results file on: the rows appended and read back,
  the three experiments, and the program. The results file is the \<open>out_file\<close> of the run's state.
\<close>

section \<open>The results file\<close>

definition row_line :: "pyrow \<Rightarrow> string" where
  "row_line row = csv_row (map (\<lambda>k. csv_text (row_get row k)) result_fields)"

text \<open>
  \<open>open(out, "a")\<close> can fail, and then the file is untouched; the rows are written when it is closed, and a
  write that fails leaves the first \<open>kept_at\<close> characters of them behind, in a file that is there from then
  on. The header is only written to a file that was not there.
\<close>

definition append_row :: "env \<Rightarrow> pyrow \<Rightarrow> (sys, unit) prog" where
  "append_row env row s =
     (let k = obs s;
          old = (case out_file s of None \<Rightarrow> [] | Some c \<Rightarrow> c);
          lines = (if out_file s = None then csv_row result_fields else []) @ row_line row
      in case io_at env k of
           Some e \<Rightarrow> (Inl (OSErr e), s\<lparr>obs := Suc k\<rparr>)
         | None \<Rightarrow>
             (case io_at env (Suc k) of
                Some e \<Rightarrow> (Inl (OSErr e),
                  s\<lparr>obs := k + 2, out_file := Some (old @ take (kept_at env (Suc k)) lines)\<rparr>)
              | None \<Rightarrow> (Inr (), s\<lparr>obs := k + 2, out_file := Some (old @ lines)\<rparr>)))"

definition key_fields :: "string list" where
  "key_fields = [''experiment'', ''system'', ''config'', ''nodes'', ''size_bytes'', ''file_count'', ''repeat'']"

type_synonym cell_key = "string option list"

definition cell_key :: "csv_dict \<Rightarrow> cell_key res" where
  "cell_key r = rmap (\<lambda>k. case map_of r k of None \<Rightarrow> Inl (KeyError k) | Some v \<Rightarrow> Inr v) key_fields"

definition done_keys :: "string option \<Rightarrow> cell_key list res" where
  "done_keys out = (case out of None \<Rightarrow> Inr [] | Some c \<Rightarrow> rmap cell_key (dict_reader c))"

definition done_cells :: "(sys, cell_key list) prog" where
  "done_cells s = (done_keys (out_file s), s)"

definition wanted_key :: "string \<Rightarrow> string \<Rightarrow> string \<Rightarrow> int \<Rightarrow> int \<Rightarrow> int \<Rightarrow> int \<Rightarrow> cell_key" where
  "wanted_key experiment system config n sz cnt i =
     [Some experiment, Some system, Some config, Some (str_of_int n), Some (str_of_int sz),
      Some (str_of_int cnt), Some (str_of_int i)]"

section \<open>Experiments\<close>

type_synonym plan_entry = "string \<times> string \<times> int \<times> int"

fun pyval_str :: "pyval \<Rightarrow> string" where
  "pyval_str PNone = ''None''"
| "pyval_str v = csv_text v"

definition cell_str :: "pyrow \<Rightarrow> string \<Rightarrow> string" where
  "cell_str row k = pyval_str (row_get row k)"

definition a_line :: "string \<Rightarrow> string \<Rightarrow> int \<Rightarrow> int \<Rightarrow> int \<Rightarrow> pyrow \<Rightarrow> string" where
  "a_line system config n sz i cell =
     ''A '' @ ljust 9 system @ '' '' @ ljust 8 config @ '' N='' @ ljust 3 (str_of_int n) @ '' '' @
     rjust 11 (str_of_int sz) @ '' r'' @ str_of_int i @
     '' ingest='' @ cell_str cell ''ingest_s'' @ '' prop='' @ cell_str cell ''propagation_s'' @
     '' fanout='' @ cell_str cell ''fanout_s'' @ '' converged='' @ cell_str cell ''converged''"

definition b_line :: "string \<Rightarrow> string \<Rightarrow> int \<Rightarrow> int \<Rightarrow> int \<Rightarrow> pyrow \<Rightarrow> string" where
  "b_line system config n cnt i cell =
     ''B '' @ ljust 9 system @ '' '' @ ljust 8 config @ '' N='' @ ljust 3 (str_of_int n) @ '' '' @
     rjust 6 (str_of_int cnt) @ '' files r'' @ str_of_int i @
     '' ingest='' @ cell_str cell ''ingest_s'' @ '' prop='' @ cell_str cell ''propagation_s'' @
     '' converged='' @ cell_str cell ''converged''"

text \<open>What a finished cell of experiments A and B is labelled with; \<open>t0\<close> is read after the cell.\<close>

definition label_cell ::
  "string \<Rightarrow> string \<Rightarrow> string \<Rightarrow> int \<Rightarrow> int \<Rightarrow> int \<Rightarrow> int \<Rightarrow> rat \<Rightarrow> pyrow \<Rightarrow> pyrow" where
  "label_cell experiment system config n sz cnt i t0 cell =
     row_update cell
       [(''experiment'', PStr experiment), (''system'', PStr system), (''config'', PStr config),
        (''nodes'', PInt n), (''size_bytes'', PInt sz), (''file_count'', PInt cnt),
        (''repeat'', PInt i), (''t0'', PFloat t0)]"

definition repeats_of :: "int \<Rightarrow> int list" where
  "repeats_of repeats = map int [0..<nat repeats]"

definition pairs :: "int list \<Rightarrow> int \<Rightarrow> (int \<times> int) list" where
  "pairs xs repeats = concat (map (\<lambda>x. map (\<lambda>i. (x, i)) (repeats_of repeats)) xs)"

definition cluster_root :: "path \<Rightarrow> string \<Rightarrow> plan_entry \<Rightarrow> path" where
  "cluster_root base pre entry =
     (case entry of (system, config, n, _) \<Rightarrow> base @ [pre @ system @ ''-'' @ config @ ''-'' @ str_of_int n])"

definition a_cell ::
  "nat \<Rightarrow> env \<Rightarrow> (string \<Rightarrow> string) \<Rightarrow> path \<Rightarrow> plan_entry \<Rightarrow> cluster_info \<Rightarrow> int \<times> int \<Rightarrow> (sys, unit) prog" where
  "a_cell fuel env sha staging entry info cell =
     (case (entry, cell) of ((system, config, n, _), (sz, i)) \<Rightarrow>
      pbind (propagation_cell fuel env sha info sz i staging) (\<lambda>row.
      pbind (ask (clock env)) (\<lambda>t0.
      let row = label_cell ''A'' system config n sz 1 i t0 row in
      pbind (append_row env row) (\<lambda>_.
      pbind (say (a_line system config n sz i row)) (\<lambda>_.
      clear_cell fuel env info (name_for sz i))))))"

definition a_wanted :: "int list \<Rightarrow> int \<Rightarrow> cell_key list \<Rightarrow> plan_entry \<Rightarrow> (int \<times> int) list" where
  "a_wanted sizes repeats finished entry =
     (case entry of (system, config, n, _) \<Rightarrow>
        filter (\<lambda>(sz, i). wanted_key ''A'' system config n sz 1 i \<notin> set finished) (pairs sizes repeats))"

definition a_entry ::
  "nat \<Rightarrow> env \<Rightarrow> (string \<Rightarrow> string) \<Rightarrow> path \<Rightarrow> int list \<Rightarrow> int \<Rightarrow> cell_key list \<Rightarrow> plan_entry \<Rightarrow> (sys, unit) prog" where
  "a_entry fuel env sha base sizes repeats finished entry =
     (case entry of (system, config, n, sync_period) \<Rightarrow>
      let wanted = a_wanted sizes repeats finished entry; here = cluster_root base [] entry in
      if wanted = [] then pret ()
      else pbind (cluster_up fuel env system n here sync_period) (\<lambda>info.
           pfinally (pfor wanted (a_cell fuel env sha (base @ [''staging'']) entry info))
             (cluster_down env system n here)))"

definition experiment_a ::
  "nat \<Rightarrow> env \<Rightarrow> (string \<Rightarrow> string) \<Rightarrow> path \<Rightarrow> int list \<Rightarrow> int \<Rightarrow> plan_entry list \<Rightarrow> (sys, unit) prog" where
  "experiment_a fuel env sha base sizes repeats plan =
     pbind done_cells (\<lambda>finished.
     pbind (io env (MadeDir (base @ [''staging'']))) (\<lambda>_.
     pfor plan (a_entry fuel env sha base sizes repeats finished)))"

text \<open>Experiment B gives every cell a fresh cluster, so the description is threaded through.\<close>

fun b_cells ::
  "nat \<Rightarrow> env \<Rightarrow> (string \<Rightarrow> string) \<Rightarrow> path \<Rightarrow> path \<Rightarrow> plan_entry \<Rightarrow> (int \<times> int) list \<Rightarrow> cluster_info \<Rightarrow>
   (sys, unit) prog" where
  "b_cells fuel env sha staging here entry [] info = pret ()"
| "b_cells fuel env sha staging here entry ((cnt, i) # rest) info =
     (case entry of (system, config, n, sync_period) \<Rightarrow>
      pbind (tree_cell fuel env sha info cnt i staging) (\<lambda>row.
      pbind (ask (clock env)) (\<lambda>t0.
      let row = label_cell ''B'' system config n small_file cnt i t0 row in
      pbind (append_row env row) (\<lambda>_.
      pbind (say (b_line system config n cnt i row)) (\<lambda>_.
      pbind (cluster_down env system n here) (\<lambda>_.
      pbind (cluster_up fuel env system n here sync_period) (\<lambda>info.
      b_cells fuel env sha staging here entry rest info)))))))"

definition b_wanted :: "int list \<Rightarrow> int \<Rightarrow> cell_key list \<Rightarrow> plan_entry \<Rightarrow> (int \<times> int) list" where
  "b_wanted counts repeats finished entry =
     (case entry of (system, config, n, _) \<Rightarrow>
        filter (\<lambda>(cnt, i). wanted_key ''B'' system config n small_file cnt i \<notin> set finished)
          (pairs counts repeats))"

definition b_entry ::
  "nat \<Rightarrow> env \<Rightarrow> (string \<Rightarrow> string) \<Rightarrow> path \<Rightarrow> int list \<Rightarrow> int \<Rightarrow> cell_key list \<Rightarrow> plan_entry \<Rightarrow> (sys, unit) prog" where
  "b_entry fuel env sha base counts repeats finished entry =
     (case entry of (system, config, n, sync_period) \<Rightarrow>
      let wanted = b_wanted counts repeats finished entry; here = cluster_root base ''B-'' entry in
      if wanted = [] then pret ()
      else pbind (cluster_up fuel env system n here sync_period) (\<lambda>info.
           pfinally (b_cells fuel env sha (base @ [''staging'']) here entry wanted info)
             (cluster_down env system n here)))"

definition experiment_b ::
  "nat \<Rightarrow> env \<Rightarrow> (string \<Rightarrow> string) \<Rightarrow> path \<Rightarrow> int \<Rightarrow> plan_entry list \<Rightarrow> int list \<Rightarrow> (sys, unit) prog" where
  "experiment_b fuel env sha base repeats plan counts =
     pbind done_cells (\<lambda>finished.
     pbind (io env (MadeDir (base @ [''staging'']))) (\<lambda>_.
     pfor plan (b_entry fuel env sha base counts repeats finished)))"

definition c_row :: "int \<Rightarrow> int \<Rightarrow> rat \<Rightarrow> rat \<Rightarrow> rat \<Rightarrow> pyrow" where
  "c_row sz i t0 took load =
     [(''experiment'', PStr ''C''), (''system'', PStr ''plainfile''), (''config'', PStr ''baseline''),
      (''nodes'', PInt 0), (''size_bytes'', PInt sz), (''file_count'', PInt 1), (''repeat'', PInt i),
      (''t0'', PFloat t0), (''ingest_s'', PFloat (py_round took 4)),
      (''propagation_s'', PFloat (py_round took 4)), (''fanout_s'', PFloat 0),
      (''converged'', PBool True), (''distinct_hashes'', PInt 1), (''nofile'', PNone),
      (''loadavg'', PFloat (py_round load 2)), (''arrivals'', PStr ''{}'')]"

definition c_cell :: "nat \<Rightarrow> env \<Rightarrow> path \<Rightarrow> int \<times> int \<Rightarrow> (sys, unit) prog" where
  "c_cell fuel env base cell =
     (case cell of (sz, i) \<Rightarrow>
      let id = str_of_int sz @ ''-'' @ str_of_int i @ ''.bin'';
          payload = base @ [''staging'', ''plain-'' @ id];
          target = base @ [''plain'', ''copy-'' @ id] in
      pbind (make_payload env payload sz) (\<lambda>_.
      pbind (watching_part (wait_for_idle fuel env (3 / 2) 120)) (\<lambda>load.
      pbind (ask (clock env)) (\<lambda>t0.
      pbind (io env (Copied payload target)) (\<lambda>_.
      pbind (ask (\<lambda>k. case io_at env k of None \<Rightarrow> Inr () | Some e \<Rightarrow> Inl (OSErr e))) (\<lambda>opened.
      pbind (plift opened) (\<lambda>_.
      pbind (pfinally (io env (Synced target)) bucket_close) (\<lambda>_.
      pbind (ask (clock env)) (\<lambda>t1.
      let took = t1 - t0 in
      pbind (unlink env payload) (\<lambda>_.
      pbind (unlink env target) (\<lambda>_.
      pbind (append_row env (c_row sz i t0 took load)) (\<lambda>_.
      say (''C plainfile  baseline N=0   '' @ rjust 11 (str_of_int sz) @ '' r'' @ str_of_int i @
           '' write='' @ fixed 4 took)))))))))))))"

definition experiment_c :: "nat \<Rightarrow> env \<Rightarrow> path \<Rightarrow> int list \<Rightarrow> int \<Rightarrow> (sys, unit) prog" where
  "experiment_c fuel env base sizes repeats =
     pbind done_cells (\<lambda>finished.
     pbind (io env (MadeDir (base @ [''staging'']))) (\<lambda>_.
     pbind (io env (MadeDir (base @ [''plain'']))) (\<lambda>_.
     pfor (pairs sizes repeats) (\<lambda>(sz, i).
       if wanted_key ''C'' ''plainfile'' ''baseline'' 0 sz 1 i \<in> set finished then pret ()
       else c_cell fuel env base (sz, i)))))"

section \<open>The program\<close>

record matrix_args =
  ma_experiment :: string
  ma_root :: path
  ma_repeats :: int
  ma_sizes :: "string option"
  ma_plan :: "plan_entry list option"
  ma_counts :: string

definition default_plan :: "plan_entry list" where
  "default_plan =
     map (\<lambda>n. (''syncfs'', ''default'', n, 0)) [2, 4, 10, 20]
     @ map (\<lambda>n. (''bucketfs'', ''default'', n, 30000)) [2, 4]
     @ map (\<lambda>n. (''bucketfs'', ''tuned'', n, 1000)) [2, 4]"

text \<open>A plan given as a JSON file comes in parsed; an empty option string counts as not given.\<close>

definition comma_ints :: "string \<Rightarrow> int list res" where
  "comma_ints s = rmap int_of_str (split_char CHR '','' s)"

definition matrix_sizes :: "string option \<Rightarrow> int list res" where
  "matrix_sizes s = (case s of None \<Rightarrow> Inr default_sizes
     | Some t \<Rightarrow> if t = [] then Inr default_sizes else comma_ints t)"

definition matrix_main :: "nat \<Rightarrow> env \<Rightarrow> (string \<Rightarrow> string) \<Rightarrow> matrix_args \<Rightarrow> (sys, int) prog" where
  "matrix_main fuel env sha args =
     (let plan = (case ma_plan args of None \<Rightarrow> default_plan | Some p \<Rightarrow> p) in
      pbind (plift (matrix_sizes (ma_sizes args))) (\<lambda>sizes.
      pbind (io env (MadeDir (ma_root args))) (\<lambda>_.
      pbind
        (if ma_experiment args = ''A''
         then experiment_a fuel env sha (ma_root args) sizes (ma_repeats args) plan
         else if ma_experiment args = ''B''
         then pbind (plift (comma_ints (ma_counts args))) (\<lambda>counts.
                experiment_b fuel env sha (ma_root args) (ma_repeats args) plan counts)
         else experiment_c fuel env (ma_root args) sizes (ma_repeats args)) (\<lambda>_.
      pret 0))))"

section \<open>The results file as a table\<close>

definition table_file :: "string option \<Rightarrow> string list list \<Rightarrow> bool" where
  "table_file out rows \<longleftrightarrow>
     (case out of None \<Rightarrow> rows = []
      | Some c \<Rightarrow> c = concat (map csv_row (result_fields # rows)) \<and>
          list_all (\<lambda>r. length r = length result_fields) rows)"

definition row_key :: "string list \<Rightarrow> cell_key" where
  "row_key r = map Some (take 7 r)"

definition row_cells :: "pyrow \<Rightarrow> string list" where
  "row_cells row = map (\<lambda>k. csv_text (row_get row k)) result_fields"

lemma length_result_fields: "length result_fields = 16"
  by (simp add: result_fields_def)

lemma cell_key_row:
  assumes "length r = length result_fields"
  shows "cell_key (row_dict result_fields r) = Inr (row_key r)"
proof -
  have d: "distinct result_fields"
    by (simp add: result_fields_def)
  have get: "map_of (row_dict result_fields r) (result_fields ! i) = Some (Some (r ! i))" if "i < 16" for i
    using assms that d by (simp add: row_dict_full map_of_zip_nth length_result_fields)
  have fields: "key_fields = map ((!) result_fields) [0..<7]"
    by (simp add: key_fields_def result_fields_def upt_rec)
  have "cell_key (row_dict result_fields r) = Inr (map (\<lambda>i. Some (r ! i)) [0..<7])"
    unfolding cell_key_def fields rmap_map by (rule rmap_Inr) (simp add: get)
  also have "map (\<lambda>i. Some (r ! i)) [0..<7] = row_key r"
    using assms by (intro nth_equalityI) (simp_all add: row_key_def length_result_fields)
  finally show ?thesis .
qed

lemma done_keys_table:
  assumes "table_file out rows"
  shows "done_keys out = Inr (map row_key rows)"
proof (cases out)
  case None
  then show ?thesis
    using assms by (simp add: done_keys_def table_file_def)
next
  case (Some c)
  then have c: "c = concat (map csv_row (result_fields # rows))" "\<And>r. r \<in> set rows \<Longrightarrow> length r = length result_fields"
    using assms by (auto simp: table_file_def list_all_iff)
  then have ne: "r \<noteq> []" if "r \<in> set (result_fields # rows)" for r
    using that c(2) by (metis length_0_conv length_result_fields set_ConsD zero_neq_numeral)
  then have "csv_reader c = result_fields # rows"
    using csv_reader_rows [of "result_fields # rows"] c(1) by blast
  moreover have "filter (\<lambda>r. r \<noteq> []) rows = rows"
    using ne by (intro filter_True) auto
  ultimately have "dict_reader c = map (row_dict result_fields) rows"
    by (simp add: dict_reader_def)
  moreover have "rmap (cell_key \<circ> row_dict result_fields) rows = Inr (map row_key rows)"
    by (rule rmap_Inr) (simp add: cell_key_row c(2))
  ultimately show ?thesis
    using Some by (simp add: done_keys_def rmap_map)
qed

lemma append_row_table:
  assumes "append_row env row s = (Inr (), t)" and "table_file (out_file s) rows"
  shows "table_file (out_file t) (rows @ [row_cells row])"
  using assms
  by (auto simp: append_row_def Let_def table_file_def row_line_def row_cells_def list_all_iff
      split: option.splits if_splits)

section \<open>Rows are only appended\<close>

text \<open>
  A file whose last write was broken off: behind the rows there is the beginning of one more line, or
  the file was being made and ends within the header.
\<close>

definition broken_off :: "string option \<Rightarrow> string list list \<Rightarrow> bool" where
  "broken_off out rows \<longleftrightarrow>
     (\<exists>n r. length r = length result_fields \<and> n < length (csv_row r) \<and>
        out = Some (concat (map csv_row (result_fields # rows)) @ take n (csv_row r))) \<or>
     (rows = [] \<and> (\<exists>n < length (csv_row result_fields). out = Some (take n (csv_row result_fields))))"

definition records_rows :: "(sys, 'a) prog \<Rightarrow> bool" where
  "records_rows m \<longleftrightarrow> (\<forall>s r t rows. m s = (r, t) \<longrightarrow> table_file (out_file s) rows \<longrightarrow>
     (\<exists>more. table_file (out_file t) (rows @ more) \<or> isl r \<and> broken_off (out_file t) (rows @ more)))"

lemma records_rowsD:
  assumes "records_rows m" "m s = (r, t)" "table_file (out_file s) rows"
  obtains more where "table_file (out_file t) (rows @ more)"
    | more where "isl r" "broken_off (out_file t) (rows @ more)"
  using assms unfolding records_rows_def by blast

lemma records_same: "filing.climbs m \<Longrightarrow> records_rows m"
  unfolding records_rows_def using filing.climbs_result same_file_def by (metis append_Nil2)

lemma records_ret: "records_rows (pret x)"
  by (rule records_same) (intro climbing)

lemma records_bind:
  assumes "records_rows m" and "\<And>x. records_rows (f x)"
  shows "records_rows (pbind m f)"
  unfolding records_rows_def
proof (intro allI impI)
  fix s r u rows
  assume run: "pbind m f s = (r, u)" and rows: "table_file (out_file s) rows"
  obtain r1 t where t: "m s = (r1, t)" by (cases "m s")
  from assms(1) t rows show "\<exists>more. table_file (out_file u) (rows @ more) \<or> isl r \<and> broken_off (out_file u) (rows @ more)"
  proof (cases rule: records_rowsD)
    case (1 more)
    show ?thesis
    proof (cases r1)
      case (Inl e)
      then show ?thesis
        using run t 1 by (auto simp: pbind_def)
    next
      case (Inr x)
      then have "f x t = (r, u)"
        using run t by (simp add: pbind_def)
      from assms(2) this 1 show ?thesis
        by (cases rule: records_rowsD) (metis append_assoc)+
    qed
  next
    case (2 more)
    then show ?thesis
      using run t by (cases r1) (auto simp: pbind_def)
  qed
qed

lemma records_finally:
  assumes "records_rows m" and "filing.climbs fin"
  shows "records_rows (pfinally m fin)"
  unfolding records_rows_def
proof (intro allI impI)
  fix s r u rows
  assume run: "pfinally m fin s = (r, u)" and rows: "table_file (out_file s) rows"
  obtain r1 t where t: "m s = (r1, t)" by (cases "m s")
  have "out_file (snd (fin t)) = out_file t"
    using filing.climbsD [OF assms(2)] by (simp add: same_file_def)
  then have "out_file u = out_file t" "isl r1 \<Longrightarrow> isl r"
    using run t by (auto simp: pfinally_def split: prod.splits sum.splits if_splits)
  with assms(1) t rows show "\<exists>more. table_file (out_file u) (rows @ more) \<or> isl r \<and> broken_off (out_file u) (rows @ more)"
    by (cases rule: records_rowsD) metis+
qed

lemma records_for: "(\<And>x. records_rows (f x)) \<Longrightarrow> records_rows (pfor xs f)"
  by (induction xs) (simp_all del: pret_run add: records_ret records_bind)

lemma records_if: "(b \<Longrightarrow> records_rows m) \<Longrightarrow> (\<not> b \<Longrightarrow> records_rows n) \<Longrightarrow> records_rows (if b then m else n)"
  by simp

lemma records_row: "records_rows (append_row env row)"
  unfolding records_rows_def
proof (intro allI impI)
  fix s r t rows
  assume run: "append_row env row s = (r, t)" and rows: "table_file (out_file s) rows"
  let ?cut = "\<lambda>lines. take (kept_at env (Suc (obs s))) lines"
  show "\<exists>more. table_file (out_file t) (rows @ more) \<or> isl r \<and> broken_off (out_file t) (rows @ more)"
  proof (cases "io_at env (obs s) = None \<and> io_at env (Suc (obs s)) \<noteq> None")
    case False
    then show ?thesis
      using run rows append_row_table [of env row s t rows]
      by (cases "io_at env (obs s)"; cases "io_at env (Suc (obs s))")
        (auto simp: append_row_def Let_def intro: exI [of _ "[]"])
  next
    case True
    then have t: "isl r" "out_file t = Some ((case out_file s of None \<Rightarrow> [] | Some c \<Rightarrow> c) @
        ?cut ((if out_file s = None then csv_row result_fields else []) @ csv_row (row_cells row)))"
      using run by (auto simp: append_row_def Let_def row_line_def row_cells_def)
    have c: "concat (map csv_row (result_fields # rows)) =
        (case out_file s of None \<Rightarrow> [] | Some c \<Rightarrow> c) @ (if out_file s = None then csv_row result_fields else [])"
      using rows by (cases "out_file s") (auto simp: table_file_def)
    have len: "length (row_cells row) = length result_fields"
      by (simp add: row_cells_def)
    consider "out_file s = None" "kept_at env (Suc (obs s)) < length (csv_row result_fields)"
      | n where "out_file t = Some (concat (map csv_row (result_fields # rows)) @ take n (csv_row (row_cells row)))"
    proof (cases "out_file s = None \<and> kept_at env (Suc (obs s)) \<ge> length (csv_row result_fields)")
      case True
      have "out_file t = Some (concat (map csv_row (result_fields # rows)) @
          take (kept_at env (Suc (obs s)) - length (csv_row result_fields)) (csv_row (row_cells row)))"
        using t(2) True unfolding c by simp
      then show ?thesis
        by (rule that(2))
    next
      case False
      then show ?thesis
        using that(1) that(2) [of "kept_at env (Suc (obs s))"] t(2) unfolding c
        by (cases "out_file s") (simp_all add: not_le)
    qed
    then show ?thesis
    proof cases
      case 1
      then show ?thesis
        using t rows by (auto simp: broken_off_def table_file_def intro!: exI [of _ "[]"])
    next
      case 2
      show ?thesis
      proof (cases "n < length (csv_row (row_cells row))")
        case True
        then show ?thesis
          using t(1) 2 len unfolding broken_off_def by (metis append_Nil2)
      next
        case False
        then have "table_file (out_file t) (rows @ [row_cells row])"
          using 2 rows len by (auto simp: table_file_def list_all_iff split: option.splits)
        then show ?thesis
          by blast
      qed
    qed
  qed
qed

lemmas recording = records_ret records_bind records_finally records_for records_if records_row

lemma cluster_climbs [step_climbs]:
  "filing.climbs (cluster_up fuel env system n base p)" "filing.climbs (cluster_down env system n base)"
  "growth.climbs (cluster_up fuel env system n base p)" "growth.climbs (cluster_down env system n base)"
  unfolding cluster_up_def cluster_down_def purge_def
  by (intro climbing step_climbs)+

lemma bucket_climbs [step_climbs]:
  "filing.climbs (bucket_put env b name p sz)" "filing.climbs (bucket_delete env b name)"
  "filing.climbs bucket_close"
  "growth.climbs (bucket_put env b name p sz)" "growth.climbs (bucket_delete env b name)"
  "growth.climbs bucket_close"
  unfolding bucket_put_def bucket_delete_def bucket_close_def
  by (intro climbing step_climbs)+

lemma caught_climbs:
  "filing.climbs m \<Longrightarrow> filing.climbs (caught m)" "growth.climbs m \<Longrightarrow> growth.climbs (caught m)"
  unfolding caught_def by (intro climbing; assumption)+

lemma put_units_climbs:
  "filing.climbs (put_units env b pre src is)" "growth.climbs (put_units env b pre src is)"
  by (induction env b pre src "is" rule: put_units.induct)
    (simp_all del: pret_run; intro climbing step_climbs; assumption)+

lemma write_climbs [step_climbs]:
  "filing.climbs (start_write env info nodes writer name payload sz)"
  "filing.climbs (start_tree_write env info subdirs writer pre payload cnt)"
  "filing.climbs (join_write info started)"
  "growth.climbs (start_write env info nodes writer name payload sz)"
  "growth.climbs (start_tree_write env info subdirs writer pre payload cnt)"
  "growth.climbs (join_write info started)"
  unfolding start_write_def start_tree_write_def join_write_def spawn_copy_def spawn_put_def
    spawn_tree_copy_def spawn_tree_put_def joined_def joined_closing_def
  by (intro climbing step_climbs caught_climbs put_units_climbs | cases started; simp only: option.case)+

lemma cell_climbs [step_climbs]:
  "filing.climbs (make_payload env p sz)" "growth.climbs (make_payload env p sz)"
  "filing.climbs (propagation_cell fuel env sha info sz i staging)"
  "filing.climbs (tree_cell fuel env sha info cnt i staging)"
  "filing.climbs (clear_cell fuel env info name)"
  "growth.climbs (propagation_cell fuel env sha info sz i staging)"
  "growth.climbs (tree_cell fuel env sha info cnt i staging)"
  "growth.climbs (clear_cell fuel env info name)"
  unfolding propagation_cell_def tree_cell_def clear_cell_def make_payload_def watch_nodes_def Let_def
  by (intro climbing step_climbs)+

lemma append_row_grows: "growth.climbs (append_row env row)"
  by (auto simp: growth.climbs_def grows_def append_row_def Let_def split: option.splits)

lemma a_cell_grows: "growth.climbs (a_cell fuel env sha staging entry info cell)"
  unfolding a_cell_def Let_def
  by (cases entry; cases cell)
    (simp only: prod.case; intro growth.climbs_intros append_row_grows step_climbs)

lemma b_cells_grows: "growth.climbs (b_cells fuel env sha staging here entry cells info)"
proof (induction cells arbitrary: info)
  case (Cons c cells)
  obtain cnt i where c: "c = (cnt, i)" by (cases c)
  show ?case
    unfolding c b_cells.simps Let_def split_def
    by (intro growth.climbs_intros append_row_grows Cons.IH step_climbs)
qed (simp only: b_cells.simps growth.climbs_ret)

lemma a_cell_records: "records_rows (a_cell fuel env sha staging entry info cell)"
  unfolding a_cell_def Let_def
  by (cases entry; cases cell)
    (simp only: prod.case; intro recording records_same step_climbs)

lemma a_entry_records: "records_rows (a_entry fuel env sha base sizes repeats finished entry)"
  unfolding a_entry_def Let_def
  by (cases entry)
    (simp only: prod.case; intro recording a_cell_records step_climbs records_same)

lemma b_cells_records: "records_rows (b_cells fuel env sha staging here entry cells info)"
proof (induction cells arbitrary: info)
  case (Cons c cells)
  obtain cnt i where c: "c = (cnt, i)" by (cases c)
  show ?case
    unfolding c b_cells.simps Let_def split_def
    by (intro recording Cons.IH; rule records_same; intro step_climbs)
qed (simp only: b_cells.simps records_ret)

lemma b_entry_records: "records_rows (b_entry fuel env sha base counts repeats finished entry)"
  unfolding b_entry_def Let_def
  by (cases entry)
    (simp only: prod.case; intro recording b_cells_records step_climbs records_same)

lemma c_cell_records: "records_rows (c_cell fuel env base cell)"
  unfolding c_cell_def Let_def
  by (cases cell)
    (simp only: prod.case; intro recording records_same step_climbs climbing)

lemma done_cells_climbs [step_climbs]: "filing.climbs done_cells" "growth.climbs done_cells"
  by (simp_all add: filing.climbs_def growth.climbs_def grows_def same_file_def done_cells_def)

lemma experiments_record:
  "records_rows (experiment_a fuel env sha base sizes repeats plan)"
  "records_rows (experiment_b fuel env sha base repeats plan counts)"
  "records_rows (experiment_c fuel env base sizes repeats)"
  unfolding experiment_a_def experiment_b_def experiment_c_def split_def
  by (intro recording a_entry_records b_entry_records c_cell_records records_same step_climbs)+

lemma experiments_grow:
  "growth.climbs (experiment_a fuel env sha base sizes repeats plan)"
  "growth.climbs (experiment_b fuel env sha base repeats plan counts)"
  "growth.climbs (experiment_c fuel env base sizes repeats)"
  unfolding experiment_a_def experiment_b_def experiment_c_def split_def a_entry_def b_entry_def c_cell_def Let_def
  by (intro growth.climbs_intros a_cell_grows b_cells_grows append_row_grows step_climbs)+

text \<open>
  C5. Checkpointing is append-only. However a run ends, what was in the results file is still there,
  byte for byte, at its beginning. A run that returns leaves the table it found (or a fresh one) with further rows
  behind the old ones; so does a run that raises, except that when a write to the file failed the last
  line can be broken off: behind the rows there is the beginning of one more row, or, in a file
  this run made, only the beginning of the header.
\<close>

theorem results_only_appended:
  assumes "matrix_main fuel env sha args s = (r, t)" and "table_file (out_file s) rows"
  shows "(\<exists>more. table_file (out_file t) (rows @ more) \<or> isl r \<and> broken_off (out_file t) (rows @ more)) \<and>
    (case out_file s of None \<Rightarrow> True | Some c \<Rightarrow> \<exists>d. out_file t = Some (c @ d))"
proof -
  have "growth.climbs (matrix_main fuel env sha args)"
    unfolding matrix_main_def Let_def by (intro climbing experiments_grow)
  from growth.climbs_result [OF this assms(1)] have
    "case out_file s of None \<Rightarrow> True | Some c \<Rightarrow> \<exists>d. out_file t = Some (c @ d)"
    by (auto simp: grows_def prefix_def split: option.splits)
  moreover have "records_rows (matrix_main fuel env sha args)"
    unfolding matrix_main_def Let_def by (intro recording experiments_record records_same climbing)
  ultimately show ?thesis
    using assms unfolding records_rows_def by blast
qed

text \<open>
  A results file whose header was lost to a failed write is not resumed: once two rows are in it,
  \<open>csv.DictReader\<close> takes the first for the header, and \<open>done_cells\<close> raises.
\<close>

lemma row_dict_keys: "fst ` set (row_dict names r) \<subseteq> set names"
proof -
  have "fst ` set (fold (\<lambda>(k, v) d. dict_set d k v) kvs d) = fst ` set d \<union> fst ` set kvs" for kvs and d :: csv_dict
    by (induction kvs arbitrary: d) (simp_all add: split_def)
  then show ?thesis
    by (auto simp: row_dict_def dest: set_zip_leftD)
qed

lemma headerless_file_stops_the_resume:
  assumes "r \<noteq> []" and "q \<noteq> []" and "list_all (\<lambda>q. q \<noteq> []) rows" and "''experiment'' \<notin> set r"
  shows "done_keys (Some (concat (map csv_row (r # q # rows)))) = Inl (KeyError ''experiment'')"
proof -
  have "csv_reader (concat (map csv_row (r # q # rows))) = r # q # rows"
    using assms by (intro csv_reader_rows) (auto simp: list_all_iff)
  moreover have "map_of (row_dict r q) ''experiment'' = None"
    using row_dict_keys [of r q] assms(4) by (auto simp: map_of_eq_None_iff)
  ultimately show ?thesis
    using assms(2) by (simp add: done_keys_def dict_reader_def cell_key_def key_fields_def)
qed

section \<open>Cells on record\<close>

text \<open>The keys of the rows a program appends when it returns, in order.\<close>

definition appends :: "(sys, 'a) prog \<Rightarrow> cell_key list \<Rightarrow> bool" where
  "appends m ks \<longleftrightarrow> (\<forall>s x t rows. m s = (Inr x, t) \<longrightarrow> table_file (out_file s) rows \<longrightarrow>
     (\<exists>new. table_file (out_file t) (rows @ new) \<and> map row_key new = ks))"

lemma appendsD:
  assumes "appends m ks" "m s = (Inr x, t)" "table_file (out_file s) rows"
  obtains new where "table_file (out_file t) (rows @ new)" "map row_key new = ks"
  using assms unfolding appends_def by blast

lemma appends_none: "filing.climbs m \<Longrightarrow> appends m []"
  unfolding appends_def using filing.climbs_result same_file_def by fastforce

lemma appends_bind:
  assumes "appends m ks" "\<And>x. appends (f x) ls"
  shows "appends (pbind m f) (ks @ ls)"
  unfolding appends_def
proof (intro allI impI)
  fix s y u rows
  assume run: "pbind m f s = (Inr y, u)" and rows: "table_file (out_file s) rows"
  obtain x t where t: "m s = (Inr x, t)" "f x t = (Inr y, u)"
    using run by (rule pbindE)
  obtain n1 where n1: "table_file (out_file t) (rows @ n1)" "map row_key n1 = ks"
    using appendsD [OF assms(1) t(1) rows] .
  obtain n2 where n2: "table_file (out_file u) ((rows @ n1) @ n2)" "map row_key n2 = ls"
    using appendsD [OF assms(2) t(2) n1(1)] .
  show "\<exists>new. table_file (out_file u) (rows @ new) \<and> map row_key new = ks @ ls"
    using n1(2) n2 by (intro exI [of _ "n1 @ n2"]) simp
qed

lemma appends_after: "filing.climbs m \<Longrightarrow> (\<And>x. appends (f x) ls) \<Longrightarrow> appends (pbind m f) ls"
  using appends_bind [OF appends_none, of m f ls] by simp

lemma appends_before: "appends m ls \<Longrightarrow> (\<And>x. filing.climbs (f x)) \<Longrightarrow> appends (pbind m f) ls"
  using appends_bind [of m ls f "[]"] appends_none by auto

lemma appends_for: "(\<And>x. appends (f x) (ks x)) \<Longrightarrow> appends (pfor xs f) (concat (map ks xs))"
proof (induction xs)
  case Nil
  then show ?case by (simp add: appends_def)
next
  case (Cons x xs)
  then show ?case
    using appends_bind [of "f x" "ks x" "\<lambda>_. pfor xs f" "concat (map ks xs)"] by simp
qed

lemma appends_finally:
  assumes "appends m ks" "filing.climbs fin"
  shows "appends (pfinally m fin) ks"
  unfolding appends_def
proof (intro allI impI)
  fix s x t rows
  assume run: "pfinally m fin s = (Inr x, t)" and rows: "table_file (out_file s) rows"
  then obtain u y where u: "m s = (Inr x, u)" "fin u = (Inr y, t)"
    by (auto simp: pfinally_def split: prod.splits sum.splits if_splits)
  then have "out_file t = out_file u"
    using filing.climbs_result [OF assms(2)] by (simp add: same_file_def)
  then show "\<exists>new. table_file (out_file t) (rows @ new) \<and> map row_key new = ks"
    using appendsD [OF assms(1) u(1) rows] by metis
qed

lemma appends_row: "appends (append_row env row) [row_key (row_cells row)]"
  unfolding appends_def using append_row_table by fastforce

lemma label_key:
  "row_key (row_cells (label_cell e system config n sz cnt i t0 cell)) =
   wanted_key e system config n sz cnt i"
  by (simp add: row_key_def row_cells_def label_cell_def row_update_def row_get_def wanted_key_def
      result_fields_def)

lemma c_row_key:
  "row_key (row_cells (c_row sz i t0 took load)) = wanted_key ''C'' ''plainfile'' ''baseline'' 0 sz 1 i"
  by (simp add: row_key_def row_cells_def c_row_def row_get_def wanted_key_def result_fields_def)

section \<open>The keys of the experiments' cells\<close>

definition a_key :: "plan_entry \<Rightarrow> int \<times> int \<Rightarrow> cell_key" where
  "a_key entry c = (case entry of (system, config, n, _) \<Rightarrow> wanted_key ''A'' system config n (fst c) 1 (snd c))"

definition b_key :: "plan_entry \<Rightarrow> int \<times> int \<Rightarrow> cell_key" where
  "b_key entry c =
     (case entry of (system, config, n, _) \<Rightarrow> wanted_key ''B'' system config n small_file (fst c) (snd c))"

definition c_key :: "int \<times> int \<Rightarrow> cell_key" where
  "c_key c = wanted_key ''C'' ''plainfile'' ''baseline'' 0 (fst c) 1 (snd c)"

lemma a_wanted_eq: "a_wanted sizes repeats finished e = filter (\<lambda>c. a_key e c \<notin> set finished) (pairs sizes repeats)"
  by (cases e) (simp add: a_wanted_def a_key_def split_def)

lemma b_wanted_eq: "b_wanted counts repeats finished e = filter (\<lambda>c. b_key e c \<notin> set finished) (pairs counts repeats)"
  by (cases e) (simp add: b_wanted_def b_key_def split_def)

lemma a_cell_appends: "appends (a_cell fuel env sha staging entry info c) [a_key entry c]"
proof -
  obtain system config n p sz i where e: "entry = (system, config, n, p)" "c = (sz, i)"
    by (cases entry; cases c)
  show ?thesis
    unfolding a_cell_def Let_def prod.case e a_key_def fst_conv snd_conv
    by (intro appends_after appends_before climbing step_climbs)
      (subst label_key [symmetric], rule appends_row)
qed

lemma b_cells_appends: "appends (b_cells fuel env sha staging here entry cells info) (map (b_key entry) cells)"
proof (induction cells arbitrary: info)
  case Nil
  then show ?case by (simp add: appends_def)
next
  case (Cons c cells)
  obtain system config n p cnt i where e: "entry = (system, config, n, p)" "c = (cnt, i)"
    by (cases entry; cases c)
  note rest = Cons.IH [unfolded e(1)]
  have key: "b_key entry c = wanted_key ''B'' system config n small_file cnt i"
    by (simp add: e b_key_def)
  have "appends (b_cells fuel env sha staging here entry (c # cells) info)
     ([b_key entry c] @ map (b_key entry) cells)"
    unfolding key unfolding e b_cells.simps Let_def prod.case
    by (rule appends_after, rule step_climbs, rule appends_after, rule step_climbs, rule appends_bind,
        subst label_key [symmetric], rule appends_row)
      (intro appends_after step_climbs rest)
  then show ?case
    by simp
qed

lemma c_cell_appends: "appends (c_cell fuel env base c) [c_key c]"
proof -
  obtain sz i where c: "c = (sz, i)" by (cases c)
  show ?thesis
    unfolding c_cell_def Let_def prod.case c c_key_def fst_conv snd_conv
    by (intro appends_after appends_before climbing step_climbs)
      (subst c_row_key [symmetric], rule appends_row)
qed

lemma a_entry_appends:
  "appends (a_entry fuel env sha base sizes repeats finished entry)
     (map (a_key entry) (a_wanted sizes repeats finished entry))"
proof -
  obtain system config n p where e: "entry = (system, config, n, p)" by (cases entry)
  have body: "appends (pfor ws (a_cell fuel env sha staging entry info)) (map (a_key entry) ws)" for ws staging info
    using appends_for [of "a_cell fuel env sha staging entry info" "\<lambda>c. [a_key entry c]" ws] a_cell_appends
    by (simp add: concat_map_singleton)
  show ?thesis
  proof (cases "a_wanted sizes repeats finished entry = []")
    case True
    then show ?thesis
      by (simp add: a_entry_def e Let_def appends_def)
  next
    case False
    then show ?thesis
      using body unfolding a_entry_def Let_def e prod.case
      by (simp only: if_False) (intro appends_after appends_finally step_climbs)
  qed
qed

lemma b_entry_appends:
  "appends (b_entry fuel env sha base counts repeats finished entry)
     (map (b_key entry) (b_wanted counts repeats finished entry))"
proof -
  obtain system config n p where e: "entry = (system, config, n, p)" by (cases entry)
  show ?thesis
  proof (cases "b_wanted counts repeats finished entry = []")
    case True
    then show ?thesis
      by (simp add: b_entry_def e Let_def appends_def)
  next
    case False
    then show ?thesis
      unfolding b_entry_def Let_def e prod.case
      by (simp only: if_False) (intro appends_after appends_finally step_climbs b_cells_appends)
  qed
qed

text \<open>What is still to be done of each experiment when these cells are on record.\<close>

definition a_missing :: "int list \<Rightarrow> int \<Rightarrow> plan_entry list \<Rightarrow> cell_key list \<Rightarrow> cell_key list" where
  "a_missing sizes repeats plan finished =
     concat (map (\<lambda>e. filter (\<lambda>k. k \<notin> set finished) (map (a_key e) (pairs sizes repeats))) plan)"

definition b_missing :: "int list \<Rightarrow> int \<Rightarrow> plan_entry list \<Rightarrow> cell_key list \<Rightarrow> cell_key list" where
  "b_missing counts repeats plan finished =
     concat (map (\<lambda>e. filter (\<lambda>k. k \<notin> set finished) (map (b_key e) (pairs counts repeats))) plan)"

definition c_missing :: "int list \<Rightarrow> int \<Rightarrow> cell_key list \<Rightarrow> cell_key list" where
  "c_missing sizes repeats finished = filter (\<lambda>k. k \<notin> set finished) (map c_key (pairs sizes repeats))"

lemma after_done_cells:
  assumes "pbind done_cells g s = (Inr x, t)" and "table_file (out_file s) rows"
    and "appends (g (map row_key rows)) ks"
  shows "\<exists>new. table_file (out_file t) (rows @ new) \<and> map row_key new = ks"
proof -
  have "g (map row_key rows) s = (Inr x, t)"
    using assms(1) done_keys_table [OF assms(2)] by (simp add: pbind_def done_cells_def)
  then show ?thesis
    using appendsD [OF assms(3) _ assms(2)] by blast
qed

lemma experiment_a_appends:
  assumes "experiment_a fuel env sha base sizes repeats plan s = (Inr (), t)" "table_file (out_file s) rows"
  shows "\<exists>new. table_file (out_file t) (rows @ new) \<and>
    map row_key new = a_missing sizes repeats plan (map row_key rows)"
proof (rule after_done_cells [OF assms(1) [unfolded experiment_a_def] assms(2)])
  have "a_missing sizes repeats plan (map row_key rows) =
      concat (map (\<lambda>e. map (a_key e) (a_wanted sizes repeats (map row_key rows) e)) plan)"
    by (simp add: a_missing_def a_wanted_eq filter_map comp_def)
  then show "appends (pbind (io env (MadeDir (base @ [''staging'']))) (\<lambda>_.
     pfor plan (a_entry fuel env sha base sizes repeats (map row_key rows))))
     (a_missing sizes repeats plan (map row_key rows))"
    by (simp only:) (intro appends_after appends_for a_entry_appends step_climbs)
qed

lemma experiment_b_appends:
  assumes "experiment_b fuel env sha base repeats plan counts s = (Inr (), t)" "table_file (out_file s) rows"
  shows "\<exists>new. table_file (out_file t) (rows @ new) \<and>
    map row_key new = b_missing counts repeats plan (map row_key rows)"
proof (rule after_done_cells [OF assms(1) [unfolded experiment_b_def] assms(2)])
  have "b_missing counts repeats plan (map row_key rows) =
      concat (map (\<lambda>e. map (b_key e) (b_wanted counts repeats (map row_key rows) e)) plan)"
    by (simp add: b_missing_def b_wanted_eq filter_map comp_def)
  then show "appends (pbind (io env (MadeDir (base @ [''staging'']))) (\<lambda>_.
     pfor plan (b_entry fuel env sha base counts repeats (map row_key rows))))
     (b_missing counts repeats plan (map row_key rows))"
    by (simp only:) (intro appends_after appends_for b_entry_appends step_climbs)
qed

lemma pfor_filter:
  assumes "\<And>c. f c = (if P c then pret () else g c)"
  shows "pfor cs f = pfor (filter (\<lambda>c. \<not> P c) cs) g"
proof (induction cs)
  case (Cons c cs)
  then show ?case
    by (simp add: assms pbind_ret del: pret_run)
qed simp

lemma c_loop_eq:
  "pfor cs (\<lambda>(sz, i). if wanted_key ''C'' ''plainfile'' ''baseline'' 0 sz 1 i \<in> set finished then pret ()
       else c_cell fuel env base (sz, i)) =
   pfor (filter (\<lambda>c. c_key c \<notin> set finished) cs) (c_cell fuel env base)"
  by (rule pfor_filter) (simp add: c_key_def split_def)

lemma experiment_c_appends:
  assumes "experiment_c fuel env base sizes repeats s = (Inr (), t)" "table_file (out_file s) rows"
  shows "\<exists>new. table_file (out_file t) (rows @ new) \<and>
    map row_key new = c_missing sizes repeats (map row_key rows)"
proof (rule after_done_cells [OF assms(1) [unfolded experiment_c_def c_loop_eq] assms(2)])
  let ?cs = "filter (\<lambda>c. c_key c \<notin> set (map row_key rows)) (pairs sizes repeats)"
  have "c_missing sizes repeats (map row_key rows) = concat (map (\<lambda>c. [c_key c]) ?cs)"
    by (simp add: c_missing_def filter_map comp_def concat_map_singleton)
  then show "appends (pbind (io env (MadeDir (base @ [''staging'']))) (\<lambda>_.
      pbind (io env (MadeDir (base @ [''plain'']))) (\<lambda>_. pfor ?cs (c_cell fuel env base))))
     (c_missing sizes repeats (map row_key rows))"
    by (simp only:) (intro appends_after appends_for c_cell_appends step_climbs)
qed

section \<open>A finished experiment is not run again\<close>

lemma io_ok: "io_at env (obs s) = None \<Longrightarrow> io env ev s = (Inr (), s\<lparr>obs := Suc (obs s), trace := trace s @ [ev]\<rparr>)"
  by (simp add: io_def act_def)

lemma pfor_nothing: "(\<And>x. x \<in> set xs \<Longrightarrow> f x = pret ()) \<Longrightarrow> pfor xs f = pret ()"
  by (induction xs) (simp_all add: pbind_def fun_eq_iff)

lemma missing_again:
  "a_missing sizes repeats plan (finished @ a_missing sizes repeats plan finished) = []"
  "b_missing counts repeats plan (finished @ b_missing counts repeats plan finished) = []"
  "c_missing sizes repeats (finished @ c_missing sizes repeats finished) = []"
  by (auto simp: a_missing_def b_missing_def c_missing_def filter_empty_conv)

lemma again_a:
  assumes "table_file (out_file s) rows" "a_missing sizes repeats plan (map row_key rows) = []"
    and "\<And>k. io_at env k = None"
  shows "\<exists>t. experiment_a fuel env sha base sizes repeats plan s = (Inr (), t) \<and> out_file t = out_file s \<and>
    trace t = trace s @ [MadeDir (base @ [''staging''])]"
proof -
  have "a_entry fuel env sha base sizes repeats (map row_key rows) e = pret ()" if "e \<in> set plan" for e
  proof -
    have "a_wanted sizes repeats (map row_key rows) e = []"
      using assms(2) that by (force simp: a_missing_def a_wanted_eq filter_empty_conv)
    then show ?thesis
      by (cases e) (simp add: a_entry_def Let_def)
  qed
  then have "pfor plan (a_entry fuel env sha base sizes repeats (map row_key rows)) = pret ()"
    by (rule pfor_nothing)
  then show ?thesis
    using done_keys_table [OF assms(1)] assms(3)
    by (simp add: experiment_a_def done_cells_def pbind_def io_ok)
qed

lemma again_b:
  assumes "table_file (out_file s) rows" "b_missing counts repeats plan (map row_key rows) = []"
    and "\<And>k. io_at env k = None"
  shows "\<exists>t. experiment_b fuel env sha base repeats plan counts s = (Inr (), t) \<and> out_file t = out_file s \<and>
    trace t = trace s @ [MadeDir (base @ [''staging''])]"
proof -
  have "b_entry fuel env sha base counts repeats (map row_key rows) e = pret ()" if "e \<in> set plan" for e
  proof -
    have "b_wanted counts repeats (map row_key rows) e = []"
      using assms(2) that by (force simp: b_missing_def b_wanted_eq filter_empty_conv)
    then show ?thesis
      by (cases e) (simp add: b_entry_def Let_def)
  qed
  then have "pfor plan (b_entry fuel env sha base counts repeats (map row_key rows)) = pret ()"
    by (rule pfor_nothing)
  then show ?thesis
    using done_keys_table [OF assms(1)] assms(3)
    by (simp add: experiment_b_def done_cells_def pbind_def io_ok)
qed

lemma again_c:
  assumes "table_file (out_file s) rows" "c_missing sizes repeats (map row_key rows) = []"
    and "\<And>k. io_at env k = None"
  shows "\<exists>t. experiment_c fuel env base sizes repeats s = (Inr (), t) \<and> out_file t = out_file s \<and>
    trace t = trace s @ [MadeDir (base @ [''staging'']), MadeDir (base @ [''plain''])]"
proof -
  have "filter (\<lambda>c. c_key c \<notin> set (map row_key rows)) (pairs sizes repeats) = []"
    using assms(2) by (simp add: c_missing_def filter_map comp_def)
  then show ?thesis
    using done_keys_table [OF assms(1)] assms(3) unfolding experiment_c_def c_loop_eq
    by (simp add: done_cells_def pbind_def io_ok)
qed

text \<open>The cells a run of the program is to have on record.\<close>

definition main_missing :: "matrix_args \<Rightarrow> cell_key list \<Rightarrow> cell_key list res" where
  "main_missing args finished =
     (let plan = (case ma_plan args of None \<Rightarrow> default_plan | Some p \<Rightarrow> p) in
      rbind (matrix_sizes (ma_sizes args)) (\<lambda>sizes.
        if ma_experiment args = ''A'' then Inr (a_missing sizes (ma_repeats args) plan finished)
        else if ma_experiment args = ''B''
        then rbind (comma_ints (ma_counts args)) (\<lambda>counts. Inr (b_missing counts (ma_repeats args) plan finished))
        else Inr (c_missing sizes (ma_repeats args) finished)))"

lemma main_missing_again:
  "main_missing args finished = Inr ks \<Longrightarrow> main_missing args (finished @ ks) = Inr []"
  by (cases "matrix_sizes (ma_sizes args)"; cases "comma_ints (ma_counts args)")
    (auto simp: main_missing_def Let_def missing_again split: if_splits)

text \<open>
  C3. A run that ends well appends one row for every planned cell that was not on record, in the plan's
  order, and no other: read back from the file, the keys of the new rows are exactly the missing ones.
\<close>

theorem matrix_appends_missing_cells:
  assumes "matrix_main fuel env sha args s = (Inr c, t)" and "table_file (out_file s) rows"
  shows "c = 0 \<and> (\<exists>new. table_file (out_file t) (rows @ new) \<and>
    main_missing args (map row_key rows) = Inr (map row_key new))"
proof -
  obtain sizes s1 s2 where run: "matrix_sizes (ma_sizes args) = Inr sizes"
    "io env (MadeDir (ma_root args)) s1 = (Inr (), s2)" "s1 = s"
    using assms(1) by (auto simp: matrix_main_def Let_def pbind_Inr_iff)
  have s2: "table_file (out_file s2) rows"
    using run(2,3) assms(2) by (auto simp: io_def act_def)
  show ?thesis
    using assms(1) run(1,3) experiment_a_appends [OF _ s2] experiment_b_appends [OF _ s2]
      experiment_c_appends [OF _ s2] run(2)
    by (auto simp: matrix_main_def main_missing_def Let_def pbind_Inr_iff split: if_splits; metis)
qed

text \<open>
  Resuming a finished matrix does nothing: when every planned cell is on record, the program makes
  its directories and exits with 0, starts no cluster, writes no payload and leaves the results as
  they are.
\<close>

theorem finished_matrix_is_not_rerun:
  assumes "table_file (out_file s) rows" and "main_missing args (map row_key rows) = Inr []"
    and "\<And>k. io_at env k = None"
  shows "\<exists>t dirs. matrix_main fuel env sha args s = (Inr 0, t) \<and> out_file t = out_file s \<and>
    trace t = trace s @ map MadeDir dirs"
proof -
  let ?plan = "case ma_plan args of None \<Rightarrow> default_plan | Some p \<Rightarrow> p"
  obtain sizes where sizes: "matrix_sizes (ma_sizes args) = Inr sizes"
    using assms(2) by (cases "matrix_sizes (ma_sizes args)") (auto simp: main_missing_def Let_def)
  define s1 where "s1 = s\<lparr>obs := Suc (obs s), trace := trace s @ [MadeDir (ma_root args)]\<rparr>"
  have s1: "io env (MadeDir (ma_root args)) s = (Inr (), s1)" "table_file (out_file s1) rows"
    using assms(1,3) by (simp_all add: io_ok s1_def)
  consider (A) "ma_experiment args = ''A''" | (B) "ma_experiment args = ''B''"
    | (C) "ma_experiment args \<noteq> ''A''" "ma_experiment args \<noteq> ''B''"
    by blast
  then show ?thesis
  proof cases
    case A
    then have "a_missing sizes (ma_repeats args) ?plan (map row_key rows) = []"
      using assms(2) sizes by (simp add: main_missing_def Let_def)
    then obtain u where "experiment_a fuel env sha (ma_root args) sizes (ma_repeats args) ?plan s1 = (Inr (), u)"
      "out_file u = out_file s1" "trace u = trace s1 @ [MadeDir (ma_root args @ [''staging''])]"
      using again_a [OF s1(2) _ assms(3)] by blast
    then show ?thesis
      using A sizes s1(1)
      by (intro exI [of _ u] exI [of _ "[ma_root args, ma_root args @ [''staging'']]"])
        (simp add: matrix_main_def Let_def pbind_def s1_def)
  next
    case B
    then obtain counts where c: "comma_ints (ma_counts args) = Inr counts"
      "b_missing counts (ma_repeats args) ?plan (map row_key rows) = []"
      using assms(2) sizes by (auto simp: main_missing_def Let_def rbind_Inr_iff)
    then obtain u where "experiment_b fuel env sha (ma_root args) (ma_repeats args) ?plan counts s1 = (Inr (), u)"
      "out_file u = out_file s1" "trace u = trace s1 @ [MadeDir (ma_root args @ [''staging''])]"
      using again_b [OF s1(2) _ assms(3)] c(2) by blast
    then show ?thesis
      using B sizes s1(1) c(1)
      by (intro exI [of _ u] exI [of _ "[ma_root args, ma_root args @ [''staging'']]"])
        (simp add: matrix_main_def Let_def pbind_def s1_def)
  next
    case C
    then have "c_missing sizes (ma_repeats args) (map row_key rows) = []"
      using assms(2) sizes by (simp add: main_missing_def Let_def)
    then obtain u where "experiment_c fuel env (ma_root args) sizes (ma_repeats args) s1 = (Inr (), u)"
      "out_file u = out_file s1" "trace u = trace s1 @ [MadeDir (ma_root args @ [''staging'']), MadeDir (ma_root args @ [''plain''])]"
      using again_c [OF s1(2) _ assms(3)] by blast
    then show ?thesis
      using C sizes s1(1)
      by (intro exI [of _ u] exI [of _ "[ma_root args, ma_root args @ [''staging''], ma_root args @ [''plain'']]"])
        (simp add: matrix_main_def Let_def pbind_def s1_def)
  qed
qed

section \<open>Clusters are removed\<close>

definition cluster_names :: "string \<Rightarrow> int \<Rightarrow> path \<Rightarrow> string list" where
  "cluster_names system n base =
     (if system = ''syncfs'' then map (syncfs_container base) (syncfs_node_ids n)
      else map (exasol_container base) (exasol_node_ids n))"

definition purge_events :: "path \<Rightarrow> event set" where
  "purge_events base = {Ran [''podman'', ''unshare'', ''rm'', ''-rf'', path_str base], RemovedTree base}"

lemma shell_ok:
  assumes "\<And>k args. \<exists>p. run_at env k args = Inr p"
  shows "\<exists>p. shell env args s = (Inr p, s\<lparr>obs := Suc (obs s), trace := trace s @ [Ran args]\<rparr>)"
  using assms [of "obs s" args] by (auto simp: shell_def act_def query_def proc_res_def)

lemma remove_containers_ok:
  assumes "\<And>k args. \<exists>p. run_at env k args = Inr p"
  shows "\<exists>t. remove_containers env name ids s = (Inr (), t) \<and>
    trace t = trace s @ map (\<lambda>i. Ran (rm_args (name i))) ids"
proof (induction ids arbitrary: s)
  case (Cons i ids)
  obtain p where p: "shell env (rm_args (name i)) s =
      (Inr p, s\<lparr>obs := Suc (obs s), trace := trace s @ [Ran (rm_args (name i))]\<rparr>)"
    using shell_ok [OF assms] by blast
  show ?case
    using Cons.IH [of "s\<lparr>obs := Suc (obs s), trace := trace s @ [Ran (rm_args (name i))]\<rparr>"] p
    by (auto simp: remove_containers_def pbind_def)
qed (simp add: remove_containers_def)

lemma purge_ok:
  assumes "\<And>k args. \<exists>p. run_at env k args = Inr p"
  shows "\<exists>t pe. purge env base s = (Inr (), t) \<and> trace t = trace s @ pe \<and> set pe \<subseteq> purge_events base"
proof (cases "exists_at env (obs s) base")
  case True
  let ?s = "s\<lparr>obs := Suc (obs s)\<rparr>"
  obtain p where "shell env [''podman'', ''unshare'', ''rm'', ''-rf'', path_str base] ?s =
      (Inr p, ?s\<lparr>obs := Suc (obs ?s), trace := trace ?s @ [Ran [''podman'', ''unshare'', ''rm'', ''-rf'', path_str base]]\<rparr>)"
    using shell_ok [OF assms] by blast
  then show ?thesis
    using True by (simp add: purge_def pbind_def ask_def act_def purge_events_def)
next
  case False
  then show ?thesis
    by (auto simp: purge_def pbind_def ask_def)
qed

lemma cluster_down_ok:
  assumes "\<And>k args. \<exists>p. run_at env k args = Inr p"
  shows "\<exists>t pe. cluster_down env system n base s = (Inr (), t) \<and>
    trace t = trace s @ map (\<lambda>c. Ran (rm_args c)) (cluster_names system n base) @ pe \<and>
    set pe \<subseteq> purge_events base"
proof -
  obtain u where u: "(if system = ''syncfs'' then syncfs_down env base n else exasol_down env base n) s = (Inr (), u)"
    "trace u = trace s @ map (\<lambda>c. Ran (rm_args c)) (cluster_names system n base)"
  proof (cases "system = ''syncfs''")
    case True
    then show ?thesis
      using that remove_containers_ok [OF assms, of "syncfs_container base" "syncfs_node_ids n" s]
      by (auto simp: syncfs_down_def cluster_names_def comp_def)
  next
    case False
    then show ?thesis
      using that remove_containers_ok [OF assms, of "exasol_container base" "exasol_node_ids n" s]
      by (auto simp: exasol_down_def cluster_names_def comp_def)
  qed
  obtain t pe where "purge env base u = (Inr (), t)" "trace t = trace u @ pe" "set pe \<subseteq> purge_events base"
    using purge_ok [OF assms] by blast
  then show ?thesis
    using u unfolding cluster_down_def pbind_def by (intro exI [of _ t] exI [of _ pe]) simp
qed

lemma exasol_up_info:
  assumes "exasol_up fuel env base n period dl s = (Inr info, t)"
  shows "\<exists>pw. info = exasol_info base n period pw"
  using assms unfolding exasol_up_def Let_def by (elim pbindE) auto

lemma cluster_up_names:
  assumes "cluster_up fuel env system n base period s = (Inr info, t)"
  shows "map (\<lambda>(_, v). the (map_of v ''container'')) (ci_node info) = cluster_names system n base"
proof (cases "system = ''syncfs''")
  case True
  then have "syncfs_up fuel env base n 600 False None s = (Inr info, t)"
    using assms by (simp add: cluster_up_def)
  from syncfs_up_result(2) [OF this] True show ?thesis
    by (auto simp: cluster_names_def syncfs_info_def syncfs_node_entry_def)
next
  case False
  then have "exasol_up fuel env base n period 900 s = (Inr info, t)"
    using assms by (simp add: cluster_up_def)
  from exasol_up_info [OF this] False show ?thesis
    by (auto simp: cluster_names_def exasol_info_def exasol_node_entry_def)
qed

lemma finally_down:
  assumes "\<And>k args. \<exists>p. run_at env k args = Inr p" and "growth.climbs body"
    and "pfinally body (cluster_down env system n base) s = (r, t)" and "r \<noteq> Inl OutOfFuel"
  shows "\<exists>did pe. trace t = trace s @ did @ map (\<lambda>c. Ran (rm_args c)) (cluster_names system n base) @ pe \<and>
    set pe \<subseteq> purge_events base"
proof -
  obtain r' u where u: "body s = (r', u)" by (cases "body s")
  then obtain did where did: "trace u = trace s @ did"
    using growth.climbs_result [OF assms(2) u] by (auto simp: grows_def prefix_def)
  obtain v pe where v: "cluster_down env system n base u = (Inr (), v)"
    "trace v = trace u @ map (\<lambda>c. Ran (rm_args c)) (cluster_names system n base) @ pe"
    "set pe \<subseteq> purge_events base"
    using cluster_down_ok [OF assms(1)] by blast
  have "r' \<noteq> Inl OutOfFuel"
    using assms(3,4) u by (auto simp: pfinally_def)
  then have "t = v"
    using assms(3) u v(1) by (simp add: pfinally_def)
  then show ?thesis
    using did v by (intro exI [of _ did] exI [of _ pe]) simp
qed

text \<open>
  C29. A cluster that came up is taken down on every exit of its plan entry, by an exception too: in
  experiments A and B the last thing done is the removal of each container of the cluster, followed by
  the removal of its directory.
\<close>

theorem clusters_are_removed:
  assumes "\<And>k args. \<exists>p. run_at env k args = Inr p"
    and "entry = (system, config, n, period)" and "r \<noteq> Inl OutOfFuel"
    and "(a_entry fuel env sha base xs repeats finished entry s = (r, t) \<and>
          a_wanted xs repeats finished entry \<noteq> [] \<and> here = cluster_root base [] entry) \<or>
         (b_entry fuel env sha base xs repeats finished entry s = (r, t) \<and>
          b_wanted xs repeats finished entry \<noteq> [] \<and> here = cluster_root base ''B-'' entry)"
    and "cluster_up fuel env system n here period s = (Inr info, s1)"
  shows "\<exists>did pe. trace t = trace s1 @ did @
      map (\<lambda>(_, v). Ran (rm_args (the (map_of v ''container'')))) (ci_node info) @ pe \<and>
    set pe \<subseteq> purge_events here"
proof -
  have names: "map (\<lambda>(_, v). Ran (rm_args (the (map_of v ''container'')))) (ci_node info) =
      map (\<lambda>c. Ran (rm_args c)) (cluster_names system n here)"
    using arg_cong [OF cluster_up_names [OF assms(5)], of "map (\<lambda>c. Ran (rm_args c))"]
    by (simp add: split_def comp_def)
  have "\<exists>body. growth.climbs body \<and> pfinally body (cluster_down env system n here) s1 = (r, t)"
    using assms(4)
  proof
    assume "a_entry fuel env sha base xs repeats finished entry s = (r, t) \<and>
          a_wanted xs repeats finished entry \<noteq> [] \<and> here = cluster_root base [] entry"
    then have "pfinally (pfor (a_wanted xs repeats finished entry)
        (a_cell fuel env sha (base @ [''staging'']) entry info)) (cluster_down env system n here) s1 = (r, t)"
      using assms(5) unfolding a_entry_def Let_def assms(2) prod.case
      by (elim conjE) (simp add: pbind_def)
    then show ?thesis
      using growth.climbs_for [of _ "a_cell fuel env sha (base @ [''staging'']) entry info"] a_cell_grows by blast
  next
    assume "b_entry fuel env sha base xs repeats finished entry s = (r, t) \<and>
          b_wanted xs repeats finished entry \<noteq> [] \<and> here = cluster_root base ''B-'' entry"
    then have "pfinally (b_cells fuel env sha (base @ [''staging'']) here entry
        (b_wanted xs repeats finished entry) info) (cluster_down env system n here) s1 = (r, t)"
      using assms(5) unfolding b_entry_def Let_def assms(2) prod.case
      by (elim conjE) (simp add: pbind_def)
    then show ?thesis
      using b_cells_grows by blast
  qed
  then show ?thesis
    unfolding names using finally_down [OF assms(1)] assms(3) by blast
qed

section \<open>Instances\<close>

definition sample_plan :: "plan_entry list" where
  "sample_plan = [(''syncfs'', ''x'', 2, 0)]"

definition sample_args :: matrix_args where
  "sample_args = \<lparr>ma_experiment = ''C'', ma_root = [[], ''r''], ma_repeats = 1, ma_sizes = Some ''0'',
     ma_plan = Some sample_plan, ma_counts = ''1''\<rparr>"

lemma table_file_fresh: "table_file (out_file fresh) []"
  by (simp add: table_file_def fresh_def)

lemma sample_matrix_run:
  obtains t where "matrix_main 5 (ready_env 3) sample_sha sample_args fresh = (Inr 0, t)"
proof -
  have "matrix_sizes (ma_sizes sample_args) = Inr [0]" "pairs [0] 1 = [(0, 0)]"
    by code_simp+
  moreover have "payload_chunks 0 = Inr []"
    by (simp add: payload_chunks.simps)
  ultimately have "fst (matrix_main 5 (ready_env 3) sample_sha sample_args fresh) = Inr 0"
    by (simp add: matrix_main_def Let_def step_defs append_row_def done_cells_def bucket_close_def experiment_c_def c_cell_def make_payload_def
        done_keys_def wait_for_idle_def eval_nat_numeral ready_env_def fresh_def sample_args_def
        cong: outer_congs)
  then show ?thesis
    using that by (metis prod.collapse)
qed

text \<open>The first write fails after twelve characters.\<close>

definition full_env :: env where
  "full_env = (ready_env 3)\<lparr>io_at := (\<lambda>k. if k = 16 then Some (OtherOSError) else None), kept_at := (\<lambda>_. 12)\<rparr>"

theorem results_only_appended_witness:
  "\<exists>r t. matrix_main 5 full_env sample_sha sample_args fresh = (r, t) \<and> isl r \<and>
    out_file t = Some (take 12 (csv_row result_fields)) \<and>
    (\<exists>more. table_file (out_file t) ([] @ more) \<or> isl r \<and> broken_off (out_file t) ([] @ more)) \<and>
    (case out_file fresh of None \<Rightarrow> True | Some c \<Rightarrow> \<exists>d. out_file t = Some (c @ d))"
proof -
  have "matrix_sizes (ma_sizes sample_args) = Inr [0]" "pairs [0] 1 = [(0, 0)]"
    by code_simp+
  moreover have "payload_chunks 0 = Inr []"
    by (simp add: payload_chunks.simps)
  moreover have "12 - length (csv_row result_fields) = 0"
    by code_simp
  ultimately have "isl (fst (matrix_main 5 full_env sample_sha sample_args fresh)) \<and>
      out_file (snd (matrix_main 5 full_env sample_sha sample_args fresh)) = Some (take 12 (csv_row result_fields))"
    by (simp add: matrix_main_def Let_def step_defs append_row_def done_cells_def bucket_close_def experiment_c_def c_cell_def make_payload_def
        done_keys_def wait_for_idle_def eval_nat_numeral full_env_def ready_env_def fresh_def sample_args_def
        del: take_Suc_Cons cong: outer_congs)
  then show ?thesis
    using results_only_appended [OF _ table_file_fresh] by (metis prod.collapse)
qed

theorem matrix_appends_missing_cells_witness:
  "\<exists>t. matrix_main 5 (ready_env 3) sample_sha sample_args fresh = (Inr 0, t) \<and>
    (0::int) = 0 \<and> (\<exists>new. table_file (out_file t) ([] @ new) \<and>
      main_missing sample_args (map row_key []) = Inr (map row_key new))"
proof -
  obtain t where "matrix_main 5 (ready_env 3) sample_sha sample_args fresh = (Inr 0, t)"
    by (rule sample_matrix_run)
  then show ?thesis
    using matrix_appends_missing_cells [OF _ table_file_fresh] by blast
qed

definition sample_row :: "string list" where
  "sample_row = [''C'', ''plainfile'', ''baseline'', ''0'', ''0'', ''1'', ''0''] @ replicate 9 []"

theorem finished_matrix_is_not_rerun_witness:
  "let s = fresh\<lparr>out_file := Some (concat (map csv_row [result_fields, sample_row]))\<rparr> in
   \<exists>t dirs. matrix_main 5 (ready_env 3) sample_sha sample_args s = (Inr 0, t) \<and> out_file t = out_file s \<and>
    trace t = trace s @ map MadeDir dirs"
  unfolding Let_def
proof (rule finished_matrix_is_not_rerun)
  show "table_file (out_file (fresh\<lparr>out_file := Some (concat (map csv_row [result_fields, sample_row]))\<rparr>)) [sample_row]"
    by (simp add: table_file_def sample_row_def result_fields_def)
  show "main_missing sample_args (map row_key [sample_row]) = Inr []"
    by code_simp
qed (simp add: ready_env_def)

lemma sample_up:
  obtains info s1 where "cluster_up 2 (ready_env 3) ''syncfs'' 2 [[], ''r'', ''syncfs-x-2''] 0 fresh = (Inr info, s1)"
proof -
  have ids: "syncfs_node_ids 2 = [1, 2]"
    by code_simp
  have "contains ''Started libtorrent session'' ''Started libtorrent session''" "str_strip ''Started libtorrent session'' \<noteq> ''exited''"
    by code_simp+
  then have "\<not> isl (fst (cluster_up 2 (ready_env 3) ''syncfs'' 2 [[], ''r'', ''syncfs-x-2''] 0 fresh))"
    by (simp add: cluster_up_def syncfs_up_def Let_def ids step_defs append_row_def Let_def done_cells_def bucket_close_def ensure_network_def syncfs_start_node_def
        run_checked_def syncfs_wait_ready_def wait_ready_def syncfs_probe_def eval_nat_numeral observed_nofile_def
        ready_env_def fresh_def cong: outer_congs)
  then show ?thesis
    using that by (metis isl_def prod.collapse sum.collapse(2))
qed


theorem clusters_are_removed_witness:
  "\<exists>info s1 r t. cluster_up 2 (ready_env 3) ''syncfs'' 2 [[], ''r'', ''syncfs-x-2''] 0 fresh = (Inr info, s1) \<and>
    a_entry 2 (ready_env 3) sample_sha [[], ''r''] [- 1] 1 [] (''syncfs'', ''x'', 2, 0) fresh = (r, t) \<and>
    r = Inl ValueError \<and>
    (\<exists>did pe. trace t = trace s1 @ did @
      map (\<lambda>(_, v). Ran (rm_args (the (map_of v ''container'')))) (ci_node info) @ pe \<and>
    set pe \<subseteq> purge_events [[], ''r'', ''syncfs-x-2''])"
proof -
  let ?env = "ready_env 3" and ?entry = "(''syncfs'', ''x'', 2, 0) :: plan_entry"
  obtain info s1 where up: "cluster_up 2 ?env ''syncfs'' 2 [[], ''r'', ''syncfs-x-2''] 0 fresh = (Inr info, s1)"
    by (rule sample_up)
  have ran: "\<exists>p. run_at ?env k args = Inr p" for k args
    by (simp add: ready_env_def)
  have wanted: "a_wanted [- 1] 1 [] ?entry = [(- 1, 0)]"
    by code_simp
  have here: "cluster_root [[], ''r''] [] ?entry = [[], ''r'', ''syncfs-x-2'']"
    by code_simp
  have "fst (pfor [(- 1, 0)] (a_cell 2 ?env sample_sha ([[], ''r''] @ [''staging'']) ?entry info) s1) = Inl ValueError"
    by (simp add: a_cell_def propagation_cell_def make_payload_def Let_def step_defs append_row_def done_cells_def bucket_close_def ready_env_def
        payload_chunks.simps [of "- 1"] cong: outer_congs)
  then obtain u where body:
    "pfor [(- 1, 0)] (a_cell 2 ?env sample_sha ([[], ''r''] @ [''staging'']) ?entry info) s1 = (Inl ValueError, u)"
    by (metis prod.collapse)
  obtain v where "cluster_down ?env ''syncfs'' 2 [[], ''r'', ''syncfs-x-2''] u = (Inr (), v)"
    using cluster_down_ok [OF ran] by blast
  then have run: "a_entry 2 ?env sample_sha [[], ''r''] [- 1] 1 [] ?entry fresh = (Inl ValueError, v)"
    using body up by (simp only: a_entry_def prod.case Let_def wanted here)
      (simp add: pbind_def pfinally_def del: pfor.simps)
  then have "a_entry 2 ?env sample_sha [[], ''r''] [- 1] 1 [] ?entry fresh = (Inl ValueError, v) \<and>
      a_wanted [- 1] 1 [] ?entry \<noteq> [] \<and> [[], ''r'', ''syncfs-x-2''] = cluster_root [[], ''r''] [] ?entry"
    using wanted here by simp
  note clusters_are_removed [OF ran refl _ disjI1 [OF this] up]
  then show ?thesis
    using up run by blast
qed

end
