(* ===== verification/Tables.thy ===== *)
theory Tables
  imports Experiments
begin

text \<open>
  What \<open>tools/measure/bucketfs/summarise.py\<close> and \<open>tex_tables.py\<close> share: reading the rows of the
  results files back, naming sizes, collecting rows by a key, the values of one column. Rows are the
  dictionaries \<open>csv.DictReader\<close> makes, so a field can be missing or \<open>None\<close>.
\<close>

section \<open>Fields of a row\<close>

definition lookup :: "csv_dict \<Rightarrow> string \<Rightarrow> string option res" where
  "lookup r k = (case map_of r k of None \<Rightarrow> Inl (KeyError k) | Some v \<Rightarrow> Inr v)"

text \<open>\<open>int(r[k])\<close> and \<open>float(r[k])\<close>; \<open>None\<close> is no argument for either.\<close>

definition int_field :: "csv_dict \<Rightarrow> string \<Rightarrow> int res" where
  "int_field r k = rbind (field r k) int_of_str"

text \<open>\<open>r["converged"] != "True"\<close>, summed over a group.\<close>

definition not_converged :: "csv_dict \<Rightarrow> bool res" where
  "not_converged r = rbind (lookup r ''converged'') (\<lambda>v. Inr (v \<noteq> Some ''True''))"

definition count_bad :: "csv_dict list \<Rightarrow> nat res" where
  "count_bad grp = rbind (rmap not_converged grp) (\<lambda>bs. Inr (length (filter id bs)))"

text \<open>\<open>[float(r[metric]) for r in group if r[metric]]\<close>.\<close>

fun cell_values :: "string \<Rightarrow> csv_dict list \<Rightarrow> rat list res" where
  "cell_values metric [] = Inr []"
| "cell_values metric (r # rs) =
     rbind (lookup r metric) (\<lambda>v.
       if v = None \<or> v = Some [] then cell_values metric rs
       else rbind (float_of_str (the v)) (\<lambda>x. rbind (cell_values metric rs) (\<lambda>xs. Inr (x # xs))))"

section \<open>Loading\<close>

definition load_rows :: "string list \<Rightarrow> csv_dict list" where
  "load_rows files = concat (map dict_reader files)"

section \<open>Sizes for people\<close>

definition human_with :: "string \<Rightarrow> int \<Rightarrow> string" where
  "human_with sep sz =
     (if sz \<ge> gib then general (of_int sz / of_int gib) @ sep @ ''GiB''
      else if sz \<ge> mib then general (of_int sz / of_int mib) @ sep @ ''MiB''
      else if sz \<ge> kib then general (of_int sz / of_int kib) @ sep @ ''KiB''
      else str_of_int sz @ sep @ ''B'')"

section \<open>Collecting by key\<close>

text \<open>
  A dictionary filled row by row: the entry of the row's key, or \<open>start\<close> when there is none yet, is
  replaced by what \<open>add\<close> makes of it and the row. Computing the key can raise.
\<close>

fun fold_by :: "('r \<Rightarrow> 'k res) \<Rightarrow> 'v \<Rightarrow> ('v \<Rightarrow> 'r \<Rightarrow> 'v) \<Rightarrow> 'r list \<Rightarrow> ('k, 'v) dict \<Rightarrow> ('k, 'v) dict res" where
  "fold_by key start add [] d = Inr d"
| "fold_by key start add (r # rs) d =
     rbind (key r) (\<lambda>k. fold_by key start add rs
       (dict_set d k (add (case map_of d k of None \<Rightarrow> start | Some v \<Rightarrow> v) r)))"

definition group_by :: "('r \<Rightarrow> 'k res) \<Rightarrow> 'r list \<Rightarrow> ('k, 'r list) dict res" where
  "group_by key rows = fold_by key [] (\<lambda>v r. v @ [r]) rows []"

definition tally_by :: "('r \<Rightarrow> 'k res) \<Rightarrow> 'r list \<Rightarrow> ('k, nat) dict res" where
  "tally_by key rows = fold_by key 0 (\<lambda>n _. n + 1) rows []"

text \<open>The keys in order of first appearance, and the rows of one key.\<close>

definition first_keys :: "('r \<Rightarrow> 'k) \<Rightarrow> 'r list \<Rightarrow> 'k list" where
  "first_keys key rows = rev (remdups (rev (map key rows)))"

definition rows_of :: "('r \<Rightarrow> 'k) \<Rightarrow> 'k \<Rightarrow> 'r list \<Rightarrow> 'r list" where
  "rows_of key k rows = filter (\<lambda>r. key r = k) rows"

lemma rmap_Inl_Inr: "rmap f xs = Inr ys \<Longrightarrow> x \<in> set xs \<Longrightarrow> \<exists>y. f x = Inr y"
  by (induction xs arbitrary: ys) (auto simp: rbind_Inr_iff)

text \<open>What a fold by key leaves in the dictionary, for keys that are all computed.\<close>

lemma fold_by_result:
  assumes "\<And>r. r \<in> set rows \<Longrightarrow> key r = Inr (f r)" "distinct (dict_keys d)"
  shows "\<exists>d'. fold_by key start add rows d = Inr d' \<and> distinct (dict_keys d') \<and>
    set (dict_keys d') = set (dict_keys d) \<union> f ` set rows \<and>
    (\<forall>k. map_of d' k = (case (map_of d k, rows_of f k rows) of
       (None, []) \<Rightarrow> None
     | (None, g) \<Rightarrow> Some (foldl add start g)
     | (Some v, g) \<Rightarrow> Some (foldl add v g)))"
  using assms
proof (induction rows arbitrary: d)
  case Nil
  then show ?case
    by (auto simp: rows_of_def split: option.splits)
next
  case (Cons r rows)
  let ?v = "add (case map_of d (f r) of None \<Rightarrow> start | Some v \<Rightarrow> v) r"
  let ?d = "dict_set d (f r) ?v"
  obtain d' where d': "fold_by key start add rows ?d = Inr d'" "distinct (dict_keys d')"
    "set (dict_keys d') = set (dict_keys ?d) \<union> f ` set rows"
    and m: "\<And>k. map_of d' k = (case (map_of ?d k, rows_of f k rows) of
       (None, []) \<Rightarrow> None
     | (None, g) \<Rightarrow> Some (foldl add start g)
     | (Some v, g) \<Rightarrow> Some (foldl add v g))"
    using Cons.IH [of ?d] Cons.prems by auto
  have "map_of d' k = (case (map_of d k, rows_of f k (r # rows)) of
       (None, []) \<Rightarrow> None
     | (None, g) \<Rightarrow> Some (foldl add start g)
     | (Some v, g) \<Rightarrow> Some (foldl add v g))" for k
    by (cases "k = f r"; cases "map_of d k"; cases "rows_of f k rows") (auto simp: m rows_of_def)
  moreover have "set (dict_keys d') = set (dict_keys d) \<union> f ` set (r # rows)"
    using d'(3) by auto
  ultimately show ?case
    using d'(1,2) Cons.prems(1) [of r] by auto
qed

lemma foldl_snoc: "foldl (\<lambda>v r. v @ [r]) a xs = a @ xs"
  by (induction xs arbitrary: a) simp_all

lemma foldl_count: "foldl (\<lambda>n _. n + 1) (a :: nat) xs = a + length xs"
  by (induction xs arbitrary: a) simp_all

lemma group_by_result:
  assumes "\<And>r. r \<in> set rows \<Longrightarrow> key r = Inr (f r)"
  obtains d where "group_by key rows = Inr d" "distinct (dict_keys d)"
    "set (dict_keys d) = f ` set rows"
    "\<And>k. map_of d k = (if k \<in> f ` set rows then Some (rows_of f k rows) else None)"
proof -
  obtain d where d: "fold_by key [] (\<lambda>v r. v @ [r]) rows [] = Inr d" "distinct (dict_keys d)"
    "set (dict_keys d) = f ` set rows"
    and m: "\<And>k. map_of d k = (case rows_of f k rows of [] \<Rightarrow> None | g \<Rightarrow> Some (foldl (\<lambda>v r. v @ [r]) [] g))"
    using fold_by_result [of rows key f "[]" "[]" "\<lambda>v r. v @ [r]"] assms by auto
  have "map_of d k = (if k \<in> f ` set rows then Some (rows_of f k rows) else None)" for k
  proof (cases "rows_of f k rows")
    case Nil
    then have "k \<notin> f ` set rows" by (auto simp: rows_of_def filter_empty_conv)
    with Nil show ?thesis by (simp add: m)
  next
    case (Cons r g)
    then have "r \<in> set (rows_of f k rows)" by simp
    then have "r \<in> set rows \<and> f r = k" by (simp add: rows_of_def)
    then have "k \<in> f ` set rows" by auto
    with Cons show ?thesis by (simp only: m foldl_snoc list.case append_Nil if_True)
  qed
  with d show ?thesis
    using that by (simp add: group_by_def)
qed

lemma tally_by_result:
  assumes "\<And>r. r \<in> set rows \<Longrightarrow> key r = Inr (f r)"
  obtains d where "tally_by key rows = Inr d" "distinct (dict_keys d)"
    "set (dict_keys d) = f ` set rows"
    "\<And>k. k \<in> f ` set rows \<Longrightarrow> map_of d k = Some (length (rows_of f k rows))"
proof -
  obtain d where d: "fold_by key 0 (\<lambda>n _. n + 1 :: nat) rows [] = Inr d" "distinct (dict_keys d)"
    "set (dict_keys d) = f ` set rows"
    and m: "\<And>k. map_of d k = (case rows_of f k rows of [] \<Rightarrow> None | g \<Rightarrow> Some (foldl (\<lambda>n _. n + 1) 0 g))"
    using fold_by_result [of rows key f "[]" "0 :: nat" "\<lambda>n _. n + 1"] assms by auto
  have "map_of d k = Some (length (rows_of f k rows))" if "k \<in> f ` set rows" for k
  proof -
    have "rows_of f k rows \<noteq> []"
      using that by (auto simp: rows_of_def filter_empty_conv)
    then show ?thesis
      by (cases "rows_of f k rows") (simp_all only: m foldl_count list.case, simp_all)
  qed
  with d show ?thesis
    using that by (simp add: tally_by_def)
qed

text \<open>The groups of distinct keys that cover the rows hold every row once.\<close>

lemma sum_rows_of:
  assumes "distinct ks" "set ks = f ` set rows"
  shows "sum_list (map (\<lambda>k. length (rows_of f k rows)) ks) = length rows"
proof -
  have "length (rows_of f k rows) = count_list (map f rows) k" for k
    by (induction rows) (auto simp: rows_of_def)
  then have "sum_list (map (\<lambda>k. length (rows_of f k rows)) ks) = (\<Sum>k\<in>f ` set rows. count_list (map f rows) k)"
    using assms by (simp add: sum_list_distinct_conv_sum_set)
  also have "\<dots> = length rows"
    using sum_count_set [of "map f rows" "f ` set rows"] by simp
  finally show ?thesis .
qed

lemma rows_of_filter: "rows_of f k (filter P rows) = filter P (rows_of f k rows)"
  by (simp add: rows_of_def conj_commute)

lemma rows_of_permute: "mset rows = mset rows' \<Longrightarrow> mset (rows_of f k rows) = mset (rows_of f k rows')"
  by (simp add: rows_of_def mset_filter)

section \<open>Values of a column\<close>

text \<open>A field that is empty, or that \<open>float\<close> reads.\<close>

definition value_of :: "string \<Rightarrow> csv_dict \<Rightarrow> rat list" where
  "value_of metric r = (case lookup r metric of
     Inr (Some s) \<Rightarrow> if s = [] then [] else (case float_of_str s of Inr x \<Rightarrow> [x] | Inl _ \<Rightarrow> []) | _ \<Rightarrow> [])"

definition value_ok :: "string \<Rightarrow> csv_dict \<Rightarrow> bool" where
  "value_ok metric r \<longleftrightarrow> (case lookup r metric of
     Inl _ \<Rightarrow> False
   | Inr v \<Rightarrow> v = None \<or> v = Some [] \<or> (\<exists>x. float_of_str (the v) = Inr x))"

lemma cell_values_step:
  "value_ok m r \<Longrightarrow> cell_values m (r # rs) = rbind (cell_values m rs) (\<lambda>xs. Inr (value_of m r @ xs))"
  by (cases "lookup r m"; cases "cell_values m rs")
    (auto simp: value_ok_def value_of_def split: option.splits)

lemma cell_values_ok:
  assumes "\<And>r. r \<in> set g \<Longrightarrow> value_ok m r"
  shows "cell_values m g = Inr (concat (map (value_of m) g))"
  using assms
proof (induction g)
  case (Cons r g)
  then show ?case
    by (simp add: cell_values_step del: cell_values.simps)
qed simp

lemma cell_values_permute:
  assumes "mset g = mset g'" "\<And>r. r \<in> set g \<Longrightarrow> value_ok m r"
  obtains xs xs' where "cell_values m g = Inr xs" "cell_values m g' = Inr xs'" "mset xs = mset xs'"
proof -
  have "value_ok m r" if "r \<in> set g'" for r
    using assms that by (metis set_mset_mset)
  then have "cell_values m g' = Inr (concat (map (value_of m) g'))"
    by (rule cell_values_ok)
  moreover have "mset (concat (map (value_of m) g)) = mset (concat (map (value_of m) g'))"
    using assms(1) by (simp add: mset_concat) (metis image_mset.compositionality mset_map sum_mset_sum_list)
  ultimately show ?thesis
    using that cell_values_ok [of g m] assms(2) by blast
qed

definition converged_ok :: "csv_dict \<Rightarrow> bool" where
  "converged_ok r \<longleftrightarrow> map_of r ''converged'' \<noteq> None"

definition is_bad :: "csv_dict \<Rightarrow> bool" where
  "is_bad r \<longleftrightarrow> map_of r ''converged'' \<noteq> Some (Some ''True'')"

lemma not_converged_ok: "converged_ok r \<Longrightarrow> not_converged r = Inr (is_bad r)"
  by (auto simp: converged_ok_def is_bad_def not_converged_def lookup_def)

lemma count_bad_ok:
  assumes "\<And>r. r \<in> set g \<Longrightarrow> converged_ok r"
  shows "count_bad g = Inr (length (filter is_bad g))"
proof -
  have "rmap not_converged g = Inr (map is_bad g)"
    using assms by (intro rmap_Inr) (simp add: not_converged_ok)
  then show ?thesis
    by (simp add: count_bad_def filter_map comp_def)
qed

section \<open>Printing to files\<close>

text \<open>
  The programs print lines to standard output or an output file, and \<open>tex_tables\<close> to a second file
  and to standard error too. The state is what each has been given so far.
\<close>

datatype handle = Out | Defs | Err

type_synonym printed = "handle \<Rightarrow> string list"

definition emit :: "handle \<Rightarrow> string \<Rightarrow> (printed, unit) prog" where
  "emit h line p = (Inr (), p(h := p h @ [line]))"

definition emits :: "handle \<Rightarrow> string list \<Rightarrow> (printed, unit) prog" where
  "emits h lines = pfor lines (emit h)"

text \<open>Whatever happens, nothing that was printed is taken back.\<close>

definition printed_more :: "printed \<Rightarrow> printed \<Rightarrow> bool" where
  "printed_more p q \<longleftrightarrow> (\<forall>h. prefix (p h) (q h))"

interpretation printing: effect_order printed_more
  by unfold_locales (auto simp: printed_more_def intro: prefix_order.trans)

lemma emit_climbs: "printing.climbs (emit h line)"
  by (auto simp: printing.climbs_def printed_more_def emit_def)

lemma emits_climbs: "printing.climbs (emits h lines)"
  unfolding emits_def by (intro printing.climbs_for emit_climbs)

text \<open>A program that returns a value and prints these lines to one handle, from any state.\<close>

definition prints :: "(printed, 'a) prog \<Rightarrow> handle \<Rightarrow> 'a \<Rightarrow> string list \<Rightarrow> bool" where
  "prints m h x ls \<longleftrightarrow> (\<forall>p. m p = (Inr x, p(h := p h @ ls)))"

lemma printsD: "prints m h x ls \<Longrightarrow> m p = (Inr x, p(h := p h @ ls))"
  by (simp add: prints_def)

lemma prints_ret: "prints (pret x) h x []"
  by (simp add: prints_def)

lemma prints_emit: "prints (emit h line) h () [line]"
  by (simp add: prints_def emit_def)

lemma prints_bind: "prints m h x ls \<Longrightarrow> prints (f x) h y ks \<Longrightarrow> prints (pbind m f) h y (ls @ ks)"
  by (simp add: prints_def pbind_def)

lemma prints_lift: "r = Inr x \<Longrightarrow> prints (f x) h y ks \<Longrightarrow> prints (pbind (plift r) f) h y ks"
  by (simp add: prints_def pbind_def)

lemma prints_for: "(\<And>x. x \<in> set xs \<Longrightarrow> prints (f x) h () (g x)) \<Longrightarrow> prints (pfor xs f) h () (concat (map g xs))"
proof (induction xs)
  case Nil
  then show ?case by (simp add: prints_def)
next
  case (Cons x xs)
  then show ?case
    using prints_bind [of "f x" h "()" "g x" "\<lambda>_. pfor xs f"] by simp
qed

lemma prints_for_each: "(\<And>x. x \<in> set xs \<Longrightarrow> prints (f x) h () [g x]) \<Longrightarrow> prints (pfor xs f) h () (map g xs)"
  using prints_for [of xs f h "\<lambda>x. [g x]"] by (simp add: concat_map_singleton)

lemma prints_emits: "prints (emits h ls) h () ls"
  using prints_for [of ls "emit h" h "\<lambda>l. [l]"] prints_emit by (simp add: emits_def concat_map_singleton)

lemmas prints_intros = prints_ret prints_emit prints_emits prints_bind prints_lift

section \<open>Rows as the matrix writes them\<close>

definition table_row :: "pyrow \<Rightarrow> csv_dict" where
  "table_row row = row_dict result_fields (row_cells row)"

definition row_str :: "pyrow \<Rightarrow> string \<Rightarrow> string" where
  "row_str row k = (case row_get row k of PStr s \<Rightarrow> s | _ \<Rightarrow> [])"

definition row_int :: "pyrow \<Rightarrow> string \<Rightarrow> int" where
  "row_int row k = (case row_get row k of PInt i \<Rightarrow> i | _ \<Rightarrow> 0)"

definition row_values :: "string \<Rightarrow> pyrow \<Rightarrow> rat list" where
  "row_values m row = (case row_get row m of PFloat x \<Rightarrow> [x] | _ \<Rightarrow> [])"

definition row_converged :: "pyrow \<Rightarrow> bool" where
  "row_converged row \<longleftrightarrow> row_get row ''converged'' = PBool True"

definition metrics :: "string list" where
  "metrics = [''ingest_s'', ''propagation_s'', ''fanout_s'']"

text \<open>The columns have the types the driver gives them.\<close>

definition measured :: "pyrow \<Rightarrow> bool" where
  "measured row \<longleftrightarrow>
     (\<forall>k \<in> set [''experiment'', ''system'', ''config'']. \<exists>s. row_get row k = PStr s) \<and>
     (\<forall>k \<in> set [''nodes'', ''size_bytes'', ''file_count'', ''repeat'']. \<exists>i. row_get row k = PInt i) \<and>
     (\<exists>b. row_get row ''converged'' = PBool b) \<and>
     (\<forall>m \<in> set metrics. row_get row m = PNone \<or> (\<exists>x. row_get row m = PFloat x \<and> decimal_float x))"

lemma map_of_table_row:
  assumes "k \<in> set result_fields"
  shows "map_of (table_row row) k = Some (Some (csv_text (row_get row k)))"
proof -
  have d: "distinct result_fields"
    by (simp add: result_fields_def)
  have "table_row row = zip result_fields (map Some (row_cells row))"
    unfolding table_row_def by (rule row_dict_full) (simp_all add: row_cells_def d)
  also have "\<dots> = map (\<lambda>k. (k, Some (csv_text (row_get row k)))) result_fields"
    by (simp add: row_cells_def zip_map2 zip_same_conv_map comp_def)
  finally show ?thesis
    using map_of_keyed [of k result_fields "\<lambda>k. k" "\<lambda>k. Some (csv_text (row_get row k))"] assms by simp
qed

lemma field_table_row:
  "k \<in> set result_fields \<Longrightarrow> field (table_row row) k = Inr (csv_text (row_get row k))"
  by (simp add: field_def map_of_table_row)

lemma lookup_table_row:
  "k \<in> set result_fields \<Longrightarrow> lookup (table_row row) k = Inr (Some (csv_text (row_get row k)))"
  by (simp add: lookup_def map_of_table_row)

lemma result_fields_members [simp]:
  "''experiment'' \<in> set result_fields" "''system'' \<in> set result_fields" "''config'' \<in> set result_fields"
  "''nodes'' \<in> set result_fields" "''size_bytes'' \<in> set result_fields" "''file_count'' \<in> set result_fields"
  "''repeat'' \<in> set result_fields" "''converged'' \<in> set result_fields" "''arrivals'' \<in> set result_fields"
  "''ingest_s'' \<in> set result_fields" "''propagation_s'' \<in> set result_fields" "''fanout_s'' \<in> set result_fields"
  "''nofile'' \<in> set result_fields" "''loadavg'' \<in> set result_fields"
  by (simp_all add: result_fields_def)

lemma metrics_fields: "m \<in> set metrics \<Longrightarrow> m \<in> set result_fields"
  by (auto simp: metrics_def)

lemma measured_str:
  assumes "measured row" "k \<in> {''experiment'', ''system'', ''config''}"
  shows "field (table_row row) k = Inr (row_str row k)" "lookup (table_row row) k = Inr (Some (row_str row k))"
  using assms by (auto simp: measured_def field_table_row lookup_table_row row_str_def)

lemma measured_int:
  assumes "measured row" "k \<in> {''nodes'', ''size_bytes'', ''file_count'', ''repeat''}"
  shows "int_field (table_row row) k = Inr (row_int row k)"
    "lookup (table_row row) k = Inr (Some (str_of_int (row_int row k)))"
  using assms by (auto simp: measured_def int_field_def field_table_row lookup_table_row row_int_def)

lemma measured_converged:
  assumes "measured row"
  shows "converged_ok (table_row row)" "is_bad (table_row row) \<longleftrightarrow> \<not> row_converged row"
proof -
  obtain b where "row_get row ''converged'' = PBool b"
    using assms by (auto simp: measured_def)
  then show "converged_ok (table_row row)" "is_bad (table_row row) \<longleftrightarrow> \<not> row_converged row"
    by (cases b; simp add: converged_ok_def is_bad_def row_converged_def map_of_table_row)+
qed

text \<open>A duration that was written is read back exactly.\<close>

lemma measured_values:
  assumes "measured row" "m \<in> set metrics"
  shows "value_ok m (table_row row)" "value_of m (table_row row) = row_values m row"
proof -
  have look: "lookup (table_row row) m = Inr (Some (csv_text (row_get row m)))"
    using lookup_table_row metrics_fields assms(2) by blast
  consider "row_get row m = PNone" | x where "row_get row m = PFloat x" "decimal_float x"
    using assms by (auto simp: measured_def)
  then have "value_ok m (table_row row) \<and> value_of m (table_row row) = row_values m row"
  proof cases
    case 1
    then show ?thesis
      using look by (simp add: value_ok_def value_of_def row_values_def)
  next
    case 2
    then have "float_of_str (float_repr x) = Inr x"
      using float_of_str_repr [of x 17] by (simp add: decimal_float_def)
    then show ?thesis
      using look 2 by (simp add: value_ok_def value_of_def row_values_def)
  qed
  then show "value_ok m (table_row row)" "value_of m (table_row row) = row_values m row"
    by simp_all
qed

lemma measured_cell_values:
  assumes "\<And>r. r \<in> set rows \<Longrightarrow> measured r" "m \<in> set metrics"
  shows "cell_values m (map table_row rows) = Inr (concat (map (row_values m) rows))"
proof -
  have "cell_values m (map table_row rows) = Inr (concat (map (value_of m) (map table_row rows)))"
    using assms by (intro cell_values_ok) (auto simp: measured_values)
  also have "map (value_of m) (map table_row rows) = map (row_values m) rows"
    using assms by (auto simp: measured_values)
  finally show ?thesis .
qed

lemma measured_count_bad:
  assumes "\<And>r. r \<in> set rows \<Longrightarrow> measured r"
  shows "count_bad (map table_row rows) = Inr (length (filter (\<lambda>r. \<not> row_converged r) rows))"
proof -
  have "count_bad (map table_row rows) = Inr (length (filter is_bad (map table_row rows)))"
    using assms by (intro count_bad_ok) (auto simp: measured_converged)
  also have "length (filter is_bad (map table_row rows)) = length (filter (\<lambda>r. \<not> row_converged r) rows)"
    using assms by (simp add: filter_map comp_def measured_converged cong: filter_cong)
  finally show ?thesis .
qed

text \<open>A results file of such rows is loaded as them.\<close>

definition results_file :: "pyrow list \<Rightarrow> string" where
  "results_file rows = concat (map csv_row (result_fields # map row_cells rows))"

lemma dict_reader_results: "dict_reader (results_file rows) = map table_row rows"
proof -
  have ne: "r \<noteq> []" if "r \<in> set (result_fields # map row_cells rows)" for r
    using that by (auto simp: row_cells_def result_fields_def)
  then have "csv_reader (results_file rows) = result_fields # map row_cells rows"
    unfolding results_file_def by (rule csv_reader_rows)
  moreover have "filter (\<lambda>r. r \<noteq> []) (map row_cells rows) = map row_cells rows"
    using ne by (intro filter_True) auto
  ultimately show ?thesis
    by (simp add: dict_reader_def table_row_def)
qed

lemma load_results: "load_rows (map results_file tables) = map table_row (concat tables)"
  by (simp add: load_rows_def dict_reader_results map_concat comp_def)

section \<open>What the driver appends is such a row\<close>

lemma decimal_round: "0 \<le> x \<Longrightarrow> decimal_float (py_round x 4)"
proof -
  assume "0 \<le> x"
  have "py_round x 4 * 10 ^ 4 \<in> \<int>"
    by (simp add: py_round_def)
  then have "(py_round x 4 * 10 ^ 4) * 10 ^ 13 \<in> \<int>"
    by (rule Ints_mult) simp
  then show ?thesis
    using py_round_nonneg [OF \<open>0 \<le> x\<close>, of 4] by (simp add: decimal_float_def mult.assoc)
qed

lemma row_update_other: "k \<notin> fst ` set kvs \<Longrightarrow> row_get (row_update row kvs) k = row_get row k"
proof -
  have "k \<notin> fst ` set kvs \<Longrightarrow> map_of (fold (\<lambda>(k, v) d. dict_set d k v) kvs row) k = map_of row k"
    by (induction kvs arbitrary: row) auto
  then show "k \<notin> fst ` set kvs \<Longrightarrow> row_get (row_update row kvs) k = row_get row k"
    by (simp add: row_get_def row_update_def)
qed

lemma label_cell_fields:
  "row_get (label_cell e s c n sz cnt i t0 cell) ''experiment'' = PStr e"
  "row_get (label_cell e s c n sz cnt i t0 cell) ''system'' = PStr s"
  "row_get (label_cell e s c n sz cnt i t0 cell) ''config'' = PStr c"
  "row_get (label_cell e s c n sz cnt i t0 cell) ''nodes'' = PInt n"
  "row_get (label_cell e s c n sz cnt i t0 cell) ''size_bytes'' = PInt sz"
  "row_get (label_cell e s c n sz cnt i t0 cell) ''file_count'' = PInt cnt"
  "row_get (label_cell e s c n sz cnt i t0 cell) ''repeat'' = PInt i"
  by (simp_all add: label_cell_def row_update_def row_get_def)

lemma label_cell_other:
  "k \<in> set metrics \<union> {''converged'', ''arrivals''} \<Longrightarrow>
   row_get (label_cell e s c n sz cnt i t1 (finish_row info recs writer t0 load)) k =
   row_get (summarise recs writer t0) k"
  unfolding label_cell_def finish_row_def by (subst row_update_other, force simp: metrics_def)+ (rule refl)

definition ingest_of :: "records \<Rightarrow> string \<Rightarrow> rat option" where
  "ingest_of recs writer = (case map_of (arrivals_of recs) writer of None \<Rightarrow> None | Some v \<Rightarrow> v)"

definition last_of :: "records \<Rightarrow> rat option" where
  "last_of recs = (let vs = arrived_values recs in if vs = [] then None else Some (Max (set vs)))"

lemma summarise_metrics:
  "row_get (summarise recs writer t0) ''ingest_s'' = round_opt (ingest_of recs writer)"
  "row_get (summarise recs writer t0) ''propagation_s'' = round_opt (last_of recs)"
  "row_get (summarise recs writer t0) ''fanout_s'' =
    (case (last_of recs, ingest_of recs writer) of (Some l, Some i) \<Rightarrow> PFloat (py_round (l - i) 4) | _ \<Rightarrow> PNone)"
  unfolding summarise_def Let_def row_get_def ingest_of_def last_of_def by simp_all

lemma summarise_measured:
  assumes "\<And>n r x. (n, r) \<in> set recs \<Longrightarrow> elapsed r = Some x \<Longrightarrow> 0 \<le> x" and "m \<in> set metrics"
  shows "row_get (summarise recs writer t0) m = PNone \<or>
    (\<exists>x. row_get (summarise recs writer t0) m = PFloat x \<and> decimal_float x)"
proof -
  let ?vs = "arrived_values recs"
  have vs: "0 \<le> x" if "x \<in> set ?vs" for x
    using that assms(1) by (auto simp: arrived_values_set)
  have last: "0 \<le> l \<and> (\<forall>x \<in> set ?vs. x \<le> l)" if "last_of recs = Some l" for l
  proof -
    have "?vs \<noteq> []" "l = Max (set ?vs)"
      using that by (auto simp: last_of_def Let_def split: if_splits)
    then show ?thesis
      using vs Max_in [of "set ?vs"] by simp
  qed
  have ingest: "x \<in> set ?vs" if "ingest_of recs writer = Some x" for x
  proof -
    have "map_of (arrivals_of recs) writer = Some (Some x)"
      using that by (simp add: ingest_of_def split: option.splits)
    then obtain r where "map_of recs writer = Some r" "elapsed r = Some x"
      by (auto simp: map_of_arrivals)
    then show ?thesis
      using map_of_SomeD by (fastforce simp: arrived_values_set)
  qed
  consider "m = ''ingest_s''" | "m = ''propagation_s''" | "m = ''fanout_s''"
    using assms(2) by (auto simp: metrics_def)
  then show ?thesis
  proof cases
    case 1
    then show ?thesis
      using ingest vs by (cases "ingest_of recs writer") (simp_all add: summarise_metrics round_opt_def decimal_round)
  next
    case 2
    then show ?thesis
      using last by (cases "last_of recs") (simp_all add: summarise_metrics round_opt_def decimal_round)
  next
    case 3
    then show ?thesis
      using last ingest
      by (cases "last_of recs"; cases "ingest_of recs writer") (simp_all add: summarise_metrics decimal_round)
  qed
qed

lemma cell_row_measured:
  assumes "\<And>n r x. (n, r) \<in> set recs \<Longrightarrow> elapsed r = Some x \<Longrightarrow> 0 \<le> x"
  shows "measured (label_cell e s c n sz cnt i t1 (finish_row info recs writer t0 load))"
  using summarise_measured [OF assms]
  by (auto simp: measured_def label_cell_fields label_cell_other summarise_fields)

lemma c_row_measured: "0 \<le> took \<Longrightarrow> measured (c_row sz i t0 took load)"
  by (auto simp: measured_def c_row_def row_get_def metrics_def decimal_round) (auto simp: decimal_float_def)

lemma watched_elapsed:
  assumes "watch fuel w sha nodes tree sz cnt interval deadline t0 k = Inr (recs, out, k')"
    and "distinct (dict_keys nodes)" and "\<And>j. t0 \<le> clock w j"
    and "(n, r) \<in> set recs" and "elapsed r = Some x"
  shows "0 \<le> x"
proof -
  have "map_of recs n = Some r"
    using watch_keys(1) [OF assms(1,2)] assms(4) by simp
  then have "record_ok w sha t0 n r"
    using watch_record [OF assms(1,2)] by blast
  then show ?thesis
    using assms(3,5) watch_record [OF assms(1,2) \<open>map_of recs n = Some r\<close>]
    by (auto simp: record_ok_def arrived_when_def)
qed

definition opt_list :: "'a option \<Rightarrow> 'a list" where
  "opt_list x = (case x of None \<Rightarrow> [] | Some y \<Rightarrow> [y])"

lemma row_values_summary:
  "row_values ''ingest_s'' (label_cell e s c n sz cnt i t1 (finish_row info recs writer t0 load)) =
    opt_list (map_option (\<lambda>x. py_round x 4) (ingest_of recs writer))"
  "row_values ''propagation_s'' (label_cell e s c n sz cnt i t1 (finish_row info recs writer t0 load)) =
    opt_list (map_option (\<lambda>x. py_round x 4) (last_of recs))"
  by (simp_all add: row_values_def label_cell_other summarise_metrics round_opt_def opt_list_def metrics_def
      split: option.splits)

text \<open>
  C28. What the matrix writes down is what the table programs read: a cell's row, appended to the results
  file and parsed again, gives back the labels of the cell, the ingest and propagation times as they
  were rounded (and no value where there was none), and whether it converged.
\<close>

theorem recorded_cell_read_back:
  assumes "watch fuel w sha nodes tree sz cnt interval deadline t0 k = Inr (recs, out, k')"
    and "distinct (dict_keys nodes)" and "\<And>j. t0 \<le> clock w j"
    and "row = label_cell e system config n size_bytes fc i t1 (finish_row info recs writer t0 load)"
  shows "\<exists>d. dict_reader (csv_row result_fields @ row_line row) = [d] \<and>
    field d ''experiment'' = Inr e \<and> field d ''system'' = Inr system \<and> field d ''config'' = Inr config \<and>
    int_field d ''nodes'' = Inr n \<and> int_field d ''size_bytes'' = Inr size_bytes \<and>
    int_field d ''file_count'' = Inr fc \<and> int_field d ''repeat'' = Inr i \<and>
    cell_values ''ingest_s'' [d] = Inr (opt_list (map_option (\<lambda>x. py_round x 4) (ingest_of recs writer))) \<and>
    cell_values ''propagation_s'' [d] = Inr (opt_list (map_option (\<lambda>x. py_round x 4) (last_of recs))) \<and>
    count_bad [d] = Inr (if row_get (summarise recs writer t0) ''converged'' = PBool True then 0 else 1)"
proof -
  have m: "measured row"
    unfolding assms(4) by (rule cell_row_measured) (rule watched_elapsed [OF assms(1-3)])
  have "csv_row result_fields @ row_line row = results_file [row]"
    by (simp add: results_file_def row_line_def row_cells_def)
  then have "dict_reader (csv_row result_fields @ row_line row) = [table_row row]"
    by (simp add: dict_reader_results)
  moreover have "cell_values metric [table_row row] = Inr (row_values metric row)" if "metric \<in> set metrics" for metric
    using measured_cell_values [of "[row]" metric] m that by simp
  moreover have "count_bad [table_row row] = Inr (if row_converged row then 0 else 1)"
    using measured_count_bad [of "[row]"] m by simp
  moreover have "row_converged row \<longleftrightarrow> row_get (summarise recs writer t0) ''converged'' = PBool True"
    by (simp add: row_converged_def assms(4) label_cell_other)
  ultimately show ?thesis
    using m by (intro exI [of _ "table_row row"])
      (simp add: measured_str measured_int row_values_summary row_str_def row_int_def label_cell_fields metrics_def assms(4))
qed

theorem recorded_cell_read_back_witness:
  "\<exists>row d. dict_reader (csv_row result_fields @ row_line row) = [d] \<and>
    field d ''experiment'' = Inr ''A'' \<and> field d ''system'' = Inr ''syncfs'' \<and> field d ''config'' = Inr ''default'' \<and>
    int_field d ''nodes'' = Inr 2 \<and> int_field d ''size_bytes'' = Inr 3 \<and>
    int_field d ''file_count'' = Inr 1 \<and> int_field d ''repeat'' = Inr 0 \<and>
    cell_values ''ingest_s'' [d] = Inr (opt_list (map_option (\<lambda>x. py_round x 4) (ingest_of sample_records ''n1''))) \<and>
    cell_values ''propagation_s'' [d] = Inr (opt_list (map_option (\<lambda>x. py_round x 4) (last_of sample_records))) \<and>
    count_bad [d] = Inr (if row_get (summarise sample_records ''n1'' 0) ''converged'' = PBool True then 0 else 1)"
proof -
  have "distinct (dict_keys sample_nodes)" "\<And>j. 0 \<le> clock sample_world j"
    by (simp_all add: sample_nodes_def sample_clock)
  from recorded_cell_read_back [OF sample_watch_run this refl, where e = "''A''" and system = "''syncfs''"
      and config = "''default''" and n = 2 and size_bytes = 3 and fc = 1 and i = 0 and writer = "''n1''"]
  show ?thesis by blast
qed

end
