(* ===== verification/Summarise.thy ===== *)
theory Summarise
  imports Tables
begin

text \<open>
  \<open>tools/measure/bucketfs/summarise.py\<close>: the table of a metric, one line per system, configuration,
  node count and size. The files are given by their contents. A row cut short, whose field would be
  \<open>None\<close>, raises its \<open>TypeError\<close> when the rows are collected.
\<close>

definition human :: "int \<Rightarrow> string" where
  "human sz = human_with '' '' sz"

type_synonym cell_id = "string \<times> string \<times> int \<times> int"

definition cell_id :: "csv_dict \<Rightarrow> cell_id res" where
  "cell_id r =
     rbind (field r ''system'') (\<lambda>s. rbind (field r ''config'') (\<lambda>c.
     rbind (int_field r ''nodes'') (\<lambda>n. rbind (int_field r ''size_bytes'') (\<lambda>z. Inr (s, c, n, z)))))"

definition cell_order :: "cell_id \<Rightarrow> string \<times> string \<times> int \<times> int" where
  "cell_order k = (case k of (s, c, n, z) \<Rightarrow> (s, c, z, n))"

definition summary_header :: string where
  "summary_header =
     ljust 10 ''system'' @ '' '' @ ljust 8 ''config'' @ '' '' @ rjust 3 ''N'' @ '' '' @ rjust 9 ''size'' @ '' '' @
     rjust 9 ''median'' @ '' '' @ rjust 9 ''min'' @ '' '' @ rjust 9 ''max'' @ '' '' @ rjust 3 ''n'' @ '' '' @
     rjust 4 ''bad''"

definition summary_head :: "string \<Rightarrow> string list" where
  "summary_head metric =
     [metric @ '', seconds -- median (min-max), n, and non-converged count'' @ [CHR 0x0A],
      summary_header, replicate (length summary_header) CHR ''-'']"

definition summary_text :: "cell_id \<Rightarrow> string \<Rightarrow> string \<Rightarrow> string \<Rightarrow> nat \<Rightarrow> nat \<Rightarrow> string" where
  "summary_text k med low high n bad =
     (case k of (system, config, nodes, sz) \<Rightarrow>
        ljust 10 system @ '' '' @ ljust 8 config @ '' '' @ rjust 3 (str_of_int nodes) @ '' '' @
        rjust 9 (human sz) @ '' '' @ rjust 9 med @ '' '' @ rjust 9 low @ '' '' @ rjust 9 high @ '' '' @
        rjust 3 (str_of_nat n) @ '' '' @ rjust 4 (str_of_nat bad))"

definition summary_line :: "string \<Rightarrow> cell_id \<Rightarrow> csv_dict list \<Rightarrow> string res" where
  "summary_line metric k grp =
     rbind (cell_values metric grp) (\<lambda>vs.
     rbind (count_bad grp) (\<lambda>bad.
       if vs = [] then Inr (summary_text k ''--'' ''--'' ''--'' (length grp) bad)
       else rbind (median vs) (\<lambda>med. Inr (summary_text k (fixed 3 med) (fixed 3 (Min (set vs)))
              (fixed 3 (Max (set vs))) (length grp) bad))))"

definition summarise_main :: "string list \<Rightarrow> string \<Rightarrow> (printed, int) prog" where
  "summarise_main files metric =
     pbind (plift (group_by cell_id (load_rows files))) (\<lambda>cells.
     pbind (emits Out (summary_head metric)) (\<lambda>_.
     pbind (pfor (sort_key cell_order (dict_keys cells)) (\<lambda>k.
       pbind (plift (summary_line metric k (the (map_of cells k)))) (emit Out))) (\<lambda>_. pret 0)))"

section \<open>The table of what the matrix recorded\<close>

definition id_of :: "pyrow \<Rightarrow> cell_id" where
  "id_of row = (row_str row ''system'', row_str row ''config'', row_int row ''nodes'', row_int row ''size_bytes'')"

text \<open>A line for a cell, from the durations of its repeats rather than from their text.\<close>

definition cell_line :: "string \<Rightarrow> cell_id \<Rightarrow> pyrow list \<Rightarrow> string" where
  "cell_line metric k g =
     (let vs = concat (map (row_values metric) g); bad = length (filter (\<lambda>r. \<not> row_converged r) g)
      in case median vs of
           Inl _ \<Rightarrow> summary_text k ''--'' ''--'' ''--'' (length g) bad
         | Inr med \<Rightarrow> summary_text k (fixed 3 med) (fixed 3 (Min (set vs))) (fixed 3 (Max (set vs))) (length g) bad)"

lemma cell_id_row: "measured r \<Longrightarrow> cell_id (table_row r) = Inr (id_of r)"
  by (simp add: cell_id_def id_of_def measured_str measured_int)

lemma summary_line_rows:
  assumes "\<And>r. r \<in> set g \<Longrightarrow> measured r" "metric \<in> set metrics"
  shows "summary_line metric k (map table_row g) = Inr (cell_line metric k g)"
proof (cases "concat (map (row_values metric) g) = []")
  case True
  then have "median (concat (map (row_values metric) g)) = Inl StatisticsError"
    by (simp only: median_def Let_def) simp
  then show ?thesis
    using assms True
    by (simp add: summary_line_def cell_line_def measured_cell_values measured_count_bad del: concat_eq_Nil_conv)
next
  case False
  then obtain med where "median (concat (map (row_values metric) g)) = Inr med"
    using median_total by blast
  then show ?thesis
    using assms False
    by (simp add: summary_line_def cell_line_def measured_cell_values measured_count_bad del: concat_eq_Nil_conv)
qed

text \<open>Rows collected from their text are the rows collected as they were written.\<close>

lemma rows_of_table:
  assumes "\<And>r. r \<in> set rows \<Longrightarrow> f (table_row r) = g r"
  shows "rows_of f k (map table_row rows) = map table_row (rows_of g k rows)"
  using assms by (induction rows) (simp_all add: rows_of_def)

lemma summary_run:
  assumes "\<And>r. r \<in> set (concat tables) \<Longrightarrow> measured r" and "metric \<in> set metrics"
  obtains ks where "distinct ks" "set ks = id_of ` set (concat tables)" "sorted (map cell_order ks)"
    "summarise_main (map results_file tables) metric p =
      (Inr 0, p(Out := p Out @ summary_head metric @
        map (\<lambda>k. cell_line metric k (rows_of id_of k (concat tables))) ks))"
proof -
  let ?rows = "concat tables"
  define f where "f = (\<lambda>r. the (case cell_id r of Inr k \<Rightarrow> Some k | Inl _ \<Rightarrow> None))"
  have fid: "f (table_row r) = id_of r" if "r \<in> set ?rows" for r
    using cell_id_row [OF assms(1)] that by (simp add: f_def del: set_concat)
  have f: "cell_id r = Inr (f r)" if r: "r \<in> set (map table_row ?rows)" for r
  proof -
    obtain x where "x \<in> set ?rows" "r = table_row x"
      using r by (auto simp del: set_concat)
    then show ?thesis
      using cell_id_row [OF assms(1)] fid by (simp del: set_concat)
  qed
  obtain d where d: "group_by cell_id (map table_row ?rows) = Inr d" "distinct (dict_keys d)"
    "set (dict_keys d) = f ` set (map table_row ?rows)"
    "\<And>k. map_of d k = (if k \<in> f ` set (map table_row ?rows) then Some (rows_of f k (map table_row ?rows)) else None)"
    using group_by_result [of "map table_row ?rows" cell_id f, OF f] by metis
  let ?ks = "sort_key cell_order (dict_keys d)"
  have keys: "set ?ks = id_of ` set ?rows"
    using d(3) fid by (auto simp: image_iff) metis+
  have line: "summary_line metric k (the (map_of d k)) = Inr (cell_line metric k (rows_of id_of k ?rows))"
    if "k \<in> set ?ks" for k
  proof -
    have "map_of d k = Some (rows_of f k (map table_row ?rows))"
      using that d(3,4) by simp
    also have "rows_of f k (map table_row ?rows) = map table_row (rows_of id_of k ?rows)"
      using fid by (rule rows_of_table)
    finally have "the (map_of d k) = map table_row (rows_of id_of k ?rows)" by simp
    moreover have "measured r" if "r \<in> set (rows_of id_of k ?rows)" for r
      using assms(1) that by (simp add: rows_of_def del: set_concat)
    ultimately show ?thesis
      using summary_line_rows [OF _ assms(2)] by metis
  qed
  have body: "prints (pfor ?ks (\<lambda>k. pbind (plift (summary_line metric k (the (map_of d k)))) (emit Out))) Out ()
      (map (\<lambda>k. cell_line metric k (rows_of id_of k ?rows)) ?ks)"
    using line by (intro prints_for_each prints_lift [OF _ prints_emit])
  have "prints (summarise_main (map results_file tables) metric) Out 0
      (summary_head metric @ map (\<lambda>k. cell_line metric k (rows_of id_of k ?rows)) ?ks @ [])"
    unfolding summarise_main_def load_results
    by (rule prints_lift [OF d(1)], rule prints_bind [OF prints_emits], rule prints_bind [OF body], rule prints_ret)
  moreover have "distinct ?ks"
    using d(2) by simp
  ultimately show ?thesis
    using keys by (intro that [of ?ks]) (simp_all add: prints_def)
qed

text \<open>
  The summary accounts for every row: from files the matrix wrote, whatever their number, it prints
  the header and then one line for each system, configuration, size and node count that was measured,
  in that order; the line shows the number of the cell's repeats, how many did not converge, and the
  median, minimum and maximum of the durations as they were recorded.
\<close>

theorem summary_accounts:
  assumes "\<And>r. r \<in> set (concat tables) \<Longrightarrow> measured r" and "metric \<in> set metrics"
  shows "\<exists>ks. distinct ks \<and> set ks = id_of ` set (concat tables) \<and> sorted (map cell_order ks) \<and>
    summarise_main (map results_file tables) metric p =
      (Inr 0, p(Out := p Out @ summary_head metric @
        map (\<lambda>k. cell_line metric k (rows_of id_of k (concat tables))) ks)) \<and>
    sum_list (map (\<lambda>k. length (rows_of id_of k (concat tables))) ks) = length (concat tables)"
proof -
  obtain ks where ks: "distinct ks" "set ks = id_of ` set (concat tables)" "sorted (map cell_order ks)"
    "summarise_main (map results_file tables) metric p =
      (Inr 0, p(Out := p Out @ summary_head metric @
        map (\<lambda>k. cell_line metric k (rows_of id_of k (concat tables))) ks))"
    using assms by (rule summary_run)
  show ?thesis
    using ks sum_rows_of [OF ks(1,2)] by (intro exI [of _ ks]) simp
qed

text \<open>A line depends on the repeats of its cell, not on their order.\<close>

lemma cell_line_permute:
  assumes "mset g = mset g'"
  shows "cell_line metric k g = cell_line metric k g'"
proof -
  let ?vs = "concat (map (row_values metric) g)" and ?vs' = "concat (map (row_values metric) g')"
  have vs: "mset ?vs = mset ?vs'"
    using assms by (simp add: mset_concat) (metis image_mset.compositionality mset_map sum_mset_sum_list)
  then have "median ?vs = median ?vs'" "set ?vs = set ?vs'"
    by (rule median_permute, rule mset_eq_setD)
  moreover have "length (filter (\<lambda>r. \<not> row_converged r) g) = length (filter (\<lambda>r. \<not> row_converged r) g')"
    using assms by (metis mset_filter size_mset)
  moreover have "length g = length g'"
    using assms by (rule mset_eq_length)
  ultimately show ?thesis
    by (simp only: cell_line_def Let_def)
qed

text \<open>
  The summary is a function of the measurements: spreading the same rows over other files, or
  appending them in another order, as an interrupted and resumed matrix does, prints the same table.
\<close>

theorem summary_order_free:
  assumes "\<And>r. r \<in> set (concat tables) \<Longrightarrow> measured r" and "metric \<in> set metrics"
    and "mset (concat tables) = mset (concat tables')"
  shows "summarise_main (map results_file tables) metric p = summarise_main (map results_file tables') metric p"
proof -
  have sets: "set (concat tables') = set (concat tables)"
    using assms(3) by (metis mset_eq_setD)
  then have m: "\<And>r. r \<in> set (concat tables') \<Longrightarrow> measured r"
    using assms(1) by blast
  have inj: "inj_on cell_order A" for A
    by (auto simp: inj_on_def cell_order_def)
  have same: "cell_line metric k (rows_of id_of k (concat tables')) = cell_line metric k (rows_of id_of k (concat tables))" for k
    using assms(3) by (intro cell_line_permute rows_of_permute) simp
  obtain ks where ks: "distinct ks" "set ks = id_of ` set (concat tables)" "sorted (map cell_order ks)"
    "summarise_main (map results_file tables) metric p = (Inr 0, p(Out := p Out @ summary_head metric @
        map (\<lambda>k. cell_line metric k (rows_of id_of k (concat tables))) ks))"
    using assms(1,2) by (rule summary_run)
  obtain ks' where ks': "distinct ks'" "set ks' = id_of ` set (concat tables')" "sorted (map cell_order ks')"
    "summarise_main (map results_file tables') metric p = (Inr 0, p(Out := p Out @ summary_head metric @
        map (\<lambda>k. cell_line metric k (rows_of id_of k (concat tables'))) ks'))"
    using m assms(2) by (rule summary_run)
  note ks' = ks'[unfolded sets same]
  have "map cell_order ks = map cell_order ks'"
    using ks(1-3) ks'(1-3) inj by (intro sorted_distinct_set_unique) (simp_all add: distinct_map)
  then have "ks = ks'"
    using inj_map_eq_map [OF inj] by blast
  then show ?thesis
    using ks(4) ks'(4) by simp
qed

section \<open>Instances\<close>

definition sample_rows :: "pyrow list" where
  "sample_rows = [c_row 1024 0 10 (1 / 2) 1, c_row 1024 1 12 (1 / 4) 1]"

lemma sample_rows_measured: "\<And>r. r \<in> set (concat [sample_rows]) \<Longrightarrow> measured r"
  by (auto simp: sample_rows_def intro!: c_row_measured)

lemma sample_rows_swapped: "mset (concat [sample_rows]) = mset (concat [[sample_rows ! 1], [sample_rows ! 0]])"
proof -
  have "mset (concat [[a, b]]) = mset (concat [[[a, b] ! 1], [[a, b] ! 0]])" for a b :: pyrow
    by (simp add: add_mset_commute)
  then show ?thesis
    unfolding sample_rows_def .
qed

lemma ingest_metric: "''ingest_s'' \<in> set metrics"
  by (simp add: metrics_def)

theorem summary_accounts_witness:
  "\<exists>ks. distinct ks \<and> set ks = id_of ` set (concat [sample_rows]) \<and> sorted (map cell_order ks) \<and>
    summarise_main (map results_file [sample_rows]) ''ingest_s'' (\<lambda>_. []) =
      (Inr 0, (\<lambda>_. [])(Out := (\<lambda>_. []) Out @ summary_head ''ingest_s'' @
        map (\<lambda>k. cell_line ''ingest_s'' k (rows_of id_of k (concat [sample_rows]))) ks)) \<and>
    sum_list (map (\<lambda>k. length (rows_of id_of k (concat [sample_rows]))) ks) = length (concat [sample_rows])"
  using sample_rows_measured ingest_metric by (rule summary_accounts)

theorem summary_order_free_witness:
  "summarise_main (map results_file [sample_rows]) ''ingest_s'' (\<lambda>_. []) =
   summarise_main (map results_file [[sample_rows ! 1], [sample_rows ! 0]]) ''ingest_s'' (\<lambda>_. [])"
  using sample_rows_measured ingest_metric sample_rows_swapped by (rule summary_order_free)

end
