(* ===== verification/TexTables.thy ===== *)
theory TexTables
  imports Tables
begin

text \<open>
  \<open>tools/measure/bucketfs/tex_tables.py\<close>: the LaTeX tables of the results chapter, generated from the
  results files. Every table function prints to a handle; \<open>bs\<close> is the backslash, and \<open>tex\<close> puts one in
  front of a control sequence.
\<close>

definition bs :: char where
  "bs = CHR 0x5C"

definition tex :: "string \<Rightarrow> string" where
  "tex s = bs # s"

definition row_end :: string where
  "row_end = [CHR '' '', bs, bs]"

section \<open>Labels, arms and formats\<close>

definition system_label :: "(string, string) dict" where
  "system_label = [(''syncfs'', ''syncfs''), (''bucketfs'', ''BucketFS''), (''plainfile'', ''plain file'')]"

definition tex_human :: "int \<Rightarrow> string" where
  "tex_human sz = human_with (tex '','') sz"

definition arm :: "csv_dict \<Rightarrow> string res" where
  "arm r = rbind (lookup r ''system'') (\<lambda>s.
     case s of None \<Rightarrow> Inl (KeyError ''None'') | Some n \<Rightarrow> dict_get system_label n)"

definition missing_cell :: string where
  "missing_cell = tex ''multicolumn{1}{c}{---}''"

definition generated_line :: string where
  "generated_line = ''% Generated by tools/measure/bucketfs/tex_tables.py -- do not edit by hand.''"

text \<open>\<open>[x for x in xs if p(x)]\<close> with a condition that can raise, and \<open>any(...)\<close>, which stops early.\<close>

fun rfilter :: "('a \<Rightarrow> bool res) \<Rightarrow> 'a list \<Rightarrow> 'a list res" where
  "rfilter p [] = Inr []"
| "rfilter p (x # xs) =
     rbind (p x) (\<lambda>b. rbind (rfilter p xs) (\<lambda>ys. Inr (if b then x # ys else ys)))"

fun rany :: "('a \<Rightarrow> bool res) \<Rightarrow> 'a list \<Rightarrow> bool res" where
  "rany p [] = Inr False"
| "rany p (x # xs) = rbind (p x) (\<lambda>b. if b then Inr True else rany p xs)"

definition rand :: "bool res \<Rightarrow> bool res \<Rightarrow> bool res" where
  "rand a b = rbind a (\<lambda>x. if x then b else Inr False)"

definition field_is :: "string \<Rightarrow> string \<Rightarrow> csv_dict \<Rightarrow> bool res" where
  "field_is k v r = rbind (lookup r k) (\<lambda>x. Inr (x = Some v))"

definition int_is :: "string \<Rightarrow> int \<Rightarrow> csv_dict \<Rightarrow> bool res" where
  "int_is k i r = rbind (int_field r k) (\<lambda>x. Inr (x = i))"

definition is_dropped_arm :: "csv_dict \<Rightarrow> bool res" where
  "is_dropped_arm r =
     rbind (lookup r ''system'') (\<lambda>s. rbind (lookup r ''config'') (\<lambda>c.
       Inr (s = Some ''bucketfs'' \<and> c = Some ''tuned'')))"

definition drop_arm :: "csv_dict list \<Rightarrow> (csv_dict list \<times> csv_dict list) res" where
  "drop_arm rows =
     rbind (rfilter (\<lambda>r. rbind (is_dropped_arm r) (\<lambda>b. Inr (\<not> b))) rows) (\<lambda>kept.
     rbind (rfilter is_dropped_arm rows) (\<lambda>dropped. Inr (kept, dropped)))"

definition dagger_legend :: string where
  "dagger_legend =
     '' A $'' @ tex ''dagger$ marks runs that did not converge inside the deadline, and '' @
     ''the count beside it says how many of the repeats those were; a time next '' @
     ''to one is the last arrival among the nodes that did receive the payload, '' @
     ''not a convergence time.''"

definition tex_deadline :: "string option \<Rightarrow> int \<Rightarrow> rat" where
  "tex_deadline e sz = (if e = Some ''A'' \<and> sz \<ge> gib then 1800 else 900)"

definition digits_for :: "rat \<Rightarrow> nat" where
  "digits_for x = (if x \<ge> 100 then 0 else if x \<ge> 10 then 1 else if x \<ge> 1 then 2 else 3)"

definition median_range :: "rat list \<Rightarrow> nat \<Rightarrow> string \<Rightarrow> string res" where
  "median_range vs places sfx =
     rbind (median vs) (\<lambda>med.
       let low = Min (set vs); high = Max (set vs); body = fixed places med @ sfx
       in if high - low < 1 / 10 ^ places then Inr body
          else Inr (tex ''begin{tabular}[t]{@'' @ ''{}r@'' @ ''{}}'' @ body @ [bs, bs] @
                    ''{'' @ tex ''tiny '' @ fixed places low @ ''--'' @ fixed places high @ ''}'' @
                    tex ''end{tabular}''))"

definition dagger_count :: "nat \<Rightarrow> string" where
  "dagger_count bad = tex '',$^{'' @ str_of_nat bad @ tex ''dagger}$''"

definition fmt :: "csv_dict list \<Rightarrow> string \<Rightarrow> nat option \<Rightarrow> string res" where
  "fmt grp metric digits =
     rbind (cell_values metric grp) (\<lambda>vs.
     rbind (count_bad grp) (\<lambda>bad.
       if vs = []
       then (case grp of [] \<Rightarrow> Inl IndexError
         | r # _ \<Rightarrow> rbind (lookup r ''experiment'') (\<lambda>e. rbind (int_field r ''size_bytes'') (\<lambda>sz.
             Inr (''$>'' @ fixed 0 (tex_deadline e sz) @ ''$'' @ dagger_count bad))))
       else rbind (case digits of None \<Rightarrow> rbind (median vs) (\<lambda>m. Inr (digits_for m)) | Some d \<Rightarrow> Inr d) (\<lambda>places.
         median_range vs places (if bad \<noteq> 0 then dagger_count bad else []))))"

definition sorted_set :: "'a::linorder list \<Rightarrow> 'a list" where
  "sorted_set xs = sort (remdups xs)"

section \<open>The tables with one column per node count\<close>

text \<open>
  \<open>matrix_table\<close> and \<open>tree_table\<close> differ in the second column: the field it shows and how. \<open>what\<close> is
  its heading, \<open>fld\<close> the field, \<open>shw\<close> the format.
\<close>

definition table_open :: "string \<Rightarrow> string list" where
  "table_open spec =
     [tex ''begin{table}[H]'', tex ''centering'', tex ''footnotesize'', tex ''setlength{'' @ tex ''tabcolsep}{4pt}'',
      tex ''begin{tabular}{'' @ spec @ ''}'', tex ''hline'']"

definition table_close :: "string \<Rightarrow> string \<Rightarrow> string \<Rightarrow> string list" where
  "table_close short caption label =
     [tex ''caption['' @ short @ '']{'' @ caption @ ''}'', tex ''label{'' @ label @ ''}'', tex ''end{table}'', []]"

type_synonym grid_key = "string \<times> int \<times> int"

definition grid_key :: "string \<Rightarrow> csv_dict \<Rightarrow> grid_key res" where
  "grid_key fld r =
     rbind (arm r) (\<lambda>a. rbind (int_field r fld) (\<lambda>s. rbind (int_field r ''nodes'') (\<lambda>n. Inr (a, s, n))))"

definition grid_row ::
  "(grid_key, csv_dict list) dict \<Rightarrow> string \<Rightarrow> int list \<Rightarrow> (int \<Rightarrow> string) \<Rightarrow> string \<Rightarrow> nat \<times> int \<Rightarrow> string res" where
  "grid_row cells metric ns shw a entry =
     (case entry of (index, s) \<Rightarrow>
      rbind (rmap (\<lambda>n. case map_of cells (a, s, n) of
          None \<Rightarrow> Inr missing_cell | Some g \<Rightarrow> fmt g metric None) ns) (\<lambda>cs.
        Inr (str_join '' & '' ((if index = 0 then a else []) # shw s # cs) @ row_end)))"

definition grid_table ::
  "handle \<Rightarrow> string \<Rightarrow> string \<Rightarrow> (int \<Rightarrow> string) \<Rightarrow> csv_dict list \<Rightarrow> string \<Rightarrow> string \<Rightarrow> string \<Rightarrow> string \<Rightarrow>
   (printed, unit) prog" where
  "grid_table h what fld shw rows metric short caption label =
     pbind (plift (group_by (grid_key fld) rows)) (\<lambda>cells.
     let ks = dict_keys cells;
         arms = sorted_set (map (\<lambda>(a, _, _). a) ks);
         ss = sorted_set (map (\<lambda>(_, s, _). s) ks);
         ns = sorted_set (map (\<lambda>(_, _, n). n) ks)
     in
     pbind (emits h (table_open (''ll'' @ replicate (length ns) CHR ''r'') @
       [''System & '' @ what @ '' & '' @
          str_join '' & '' (map (\<lambda>n. ''$N{=}'' @ str_of_int n @ ''$'') ns) @ row_end, tex ''hline''])) (\<lambda>_.
     pbind (pfor arms (\<lambda>a.
       pbind (pfor (zip [0..<length ss] ss) (\<lambda>entry.
         pbind (plift (grid_row cells metric ns shw a entry)) (emit h))) (\<lambda>_.
       emit h (tex ''hline'')))) (\<lambda>_.
     pbind (emit h (tex ''end{tabular}'')) (\<lambda>_.
     pbind (plift (rany not_converged rows)) (\<lambda>bad.
     emits h (table_close short (caption @ (if bad then dagger_legend else [])) label))))))"

definition matrix_table ::
  "handle \<Rightarrow> csv_dict list \<Rightarrow> string \<Rightarrow> string \<Rightarrow> string \<Rightarrow> string \<Rightarrow> (printed, unit) prog" where
  "matrix_table h rows metric short caption label =
     grid_table h ''Size'' ''size_bytes'' tex_human rows metric short caption label"

definition show_count :: "int \<Rightarrow> string" where
  "show_count n = replace_char CHR '','' (tex '','') (thousands n)"

definition tree_table ::
  "handle \<Rightarrow> csv_dict list \<Rightarrow> string \<Rightarrow> string \<Rightarrow> string \<Rightarrow> (printed, unit) prog" where
  "tree_table h rows short caption label =
     grid_table h ''Files'' ''file_count'' show_count rows ''propagation_s'' short caption label"

section \<open>The baseline table\<close>

text \<open>This table has its own head, without the narrower column separation.\<close>

definition plain_open :: "string \<Rightarrow> string list" where
  "plain_open spec =
     [tex ''begin{table}[H]'', tex ''centering'', tex ''footnotesize'', tex ''begin{tabular}{'' @ spec @ ''}'', tex ''hline'']"

definition baseline_caption :: string where
  "baseline_caption =
     ''Writer-side ingest time in seconds, median with range: a '' @
     ''plain copy on the same filesystem against what each system's writer '' @
     ''waits for at $N=2$. A syncfs write returns once the bytes are on '' @
     ''local disk; a BucketFS PUT returns once every node has them. The '' @
     ''baseline column is the stricter measurement of the two: it waits '' @
     ''for an explicit flush to the device, where the other columns are '' @
     ''sampled by the same host-side probe as every other cell.''"

definition ingest_key :: "csv_dict \<Rightarrow> (string \<times> int) res" where
  "ingest_key r = rbind (arm r) (\<lambda>a. rbind (int_field r ''size_bytes'') (\<lambda>s. Inr (a, s)))"

definition cell_or_missing :: "csv_dict list option \<Rightarrow> string res" where
  "cell_or_missing g = (case g of None \<Rightarrow> Inr missing_cell | Some rs \<Rightarrow> fmt rs ''ingest_s'' None)"

definition baseline_row ::
  "(int, csv_dict list) dict \<Rightarrow> (string \<times> int, csv_dict list) dict \<Rightarrow> string list \<Rightarrow> int \<Rightarrow> string res" where
  "baseline_row plain ingest arms s =
     rbind (cell_or_missing (map_of plain s)) (\<lambda>c.
     rbind (rmap (\<lambda>a. cell_or_missing (map_of ingest (a, s))) arms) (\<lambda>cs.
       Inr (str_join '' & '' (tex_human s # c # cs) @ row_end)))"

definition baseline_table :: "handle \<Rightarrow> csv_dict list \<Rightarrow> (printed, unit) prog" where
  "baseline_table h rows =
     pbind (plift (rfilter (field_is ''experiment'' ''C'') rows)) (\<lambda>c_rows.
     pbind (plift (group_by (\<lambda>r. int_field r ''size_bytes'') c_rows)) (\<lambda>plain.
     pbind (plift (rfilter (\<lambda>r. rand (field_is ''experiment'' ''A'' r) (int_is ''nodes'' 2 r)) rows)) (\<lambda>a_rows.
     pbind (plift (group_by ingest_key a_rows)) (\<lambda>ingest.
     let arms = sorted_set (map fst (dict_keys ingest));
         ss = sorted_set (dict_keys plain @ map snd (dict_keys ingest))
     in
     pbind (emits h (plain_open (CHR ''l'' # replicate (length arms + 1) CHR ''r'') @
       [str_join '' & '' ([''Size'', ''plain file''] @ arms) @ row_end, tex ''hline''])) (\<lambda>_.
     pbind (pfor ss (\<lambda>s. pbind (plift (baseline_row plain ingest arms s)) (emit h))) (\<lambda>_.
     emits h ([tex ''hline'', tex ''end{tabular}''] @
       table_close ''Writer-side ingest time against a plain file copy'' baseline_caption
         ''tab:results-ingest-baseline'')))))))"

section \<open>The requirements\<close>

text \<open>The rows of one system, node count and size in an experiment, and the median of a metric over them.\<close>

definition group_of :: "csv_dict list \<Rightarrow> string \<Rightarrow> string \<Rightarrow> int \<Rightarrow> int \<Rightarrow> csv_dict list res" where
  "group_of rows e system n sz =
     rfilter (\<lambda>r. rand (field_is ''experiment'' e r) (rand (field_is ''system'' system r)
       (rand (int_is ''nodes'' n r) (int_is ''size_bytes'' sz r)))) rows"

definition median_of :: "csv_dict list \<Rightarrow> string \<Rightarrow> string \<Rightarrow> int \<Rightarrow> int \<Rightarrow> string \<Rightarrow> rat option res" where
  "median_of rows e system n sz metric =
     rbind (group_of rows e system n sz) (\<lambda>g. rbind (cell_values metric g) (\<lambda>vs.
       if vs = [] then Inr None else rbind (median vs) (\<lambda>m. Inr (Some m))))"

definition measured_sizes :: "csv_dict list \<Rightarrow> int \<Rightarrow> int list res" where
  "measured_sizes rows n =
     rbind (rfilter (\<lambda>r. rand (field_is ''experiment'' ''A'' r) (rand (field_is ''system'' ''syncfs'' r)
       (int_is ''nodes'' n r))) rows) (\<lambda>g.
     rbind (rmap (\<lambda>r. int_field r ''size_bytes'') g) (\<lambda>ss. Inr (sorted_set ss)))"

text \<open>\<open>median_of(...) if size else None\<close>: no size, or the size 0, has no median.\<close>

definition median_at :: "csv_dict list \<Rightarrow> int \<Rightarrow> int option \<Rightarrow> rat option res" where
  "median_at rows n sz =
     (case sz of None \<Rightarrow> Inr None
      | Some s \<Rightarrow> if s = 0 then Inr None else median_of rows ''A'' ''syncfs'' n s ''propagation_s'')"

definition verdict :: "rat option \<Rightarrow> rat \<Rightarrow> string" where
  "verdict x bound = (case x of None \<Rightarrow> ''---'' | Some v \<Rightarrow> if v \<le> bound then ''met'' else ''not met'')"

definition ratio_of :: "rat option \<Rightarrow> rat option \<Rightarrow> rat option" where
  "ratio_of ten twenty =
     (case (ten, twenty) of (Some a, Some b) \<Rightarrow> if a \<noteq> 0 \<and> b \<noteq> 0 then Some (b / a) else None | _ \<Rightarrow> None)"

type_synonym scenario_line = "string \<times> string \<times> string \<times> string"

definition small_line :: "csv_dict list \<Rightarrow> scenario_line res" where
  "small_line rows =
     rbind (measured_sizes rows 10) (\<lambda>at_ten.
     let small = (if at_ten = [] then None else Some (hd (sort_key (\<lambda>s. \<bar>s - 10 * kib\<bar>) at_ten))) in
     rbind (median_at rows 10 small) (\<lambda>v.
       Inr (tex ''ref{req:synch_small_file}'',
            ''$10$'' @ tex '',KiB across $10$ nodes in $'' @ tex ''leq 5$'' @ tex '',s'',
            (case v of None \<Rightarrow> ''---'' | Some x \<Rightarrow> fixed 2 x @ tex '',s at '' @ tex_human (the small)),
            verdict v 5)))"

definition big_line :: "csv_dict list \<Rightarrow> scenario_line res" where
  "big_line rows =
     rbind (median_of rows ''A'' ''syncfs'' 10 gib ''propagation_s'') (\<lambda>v.
       Inr (tex ''ref{req:synch_big_file}'',
            ''$1$'' @ tex '',GiB across $10$ nodes in $'' @ tex ''leq 120$'' @ tex '',s'',
            (case v of None \<Rightarrow> ''---'' | Some x \<Rightarrow> fixed 2 x @ tex '',s''),
            verdict v 120))"

definition growth_line :: "csv_dict list \<Rightarrow> scenario_line res" where
  "growth_line rows =
     rbind (measured_sizes rows 10) (\<lambda>at_ten. rbind (if at_ten = [] then Inr [] else measured_sizes rows 20) (\<lambda>at_twenty.
     let both = filter (\<lambda>s. s \<in> set at_twenty) at_ten;
         largest = (if both = [] then None else Some (Max (set both))) in
     rbind (median_at rows 10 largest) (\<lambda>ten. rbind (median_at rows 20 largest) (\<lambda>twenty.
       let what = ''$10 '' @ tex ''rightarrow 20$ nodes costs less than $2'' @ tex ''times$'' in
       Inr (case ratio_of ten twenty of
              None \<Rightarrow> (tex ''ref{req:no_linear_growth}'', what, ''---'', ''---'')
            | Some r \<Rightarrow> (tex ''ref{req:no_linear_growth}'', what,
                ''$'' @ tex ''times'' @ fixed 2 r @ ''$ at '' @ tex_human (the largest),
                if r < 2 then ''met'' else ''not met''))))))"

definition bounded_line :: "csv_dict list \<Rightarrow> scenario_line res" where
  "bounded_line rows =
     rbind (rfilter (\<lambda>r. rand (field_is ''experiment'' ''A'' r) (field_is ''system'' ''syncfs'' r)) rows) (\<lambda>single.
     rbind (rfilter (\<lambda>r. rand (field_is ''experiment'' ''B'' r) (field_is ''system'' ''syncfs'' r)) rows) (\<lambda>many.
     rbind (count_bad single) (\<lambda>bad_single. rbind (count_bad many) (\<lambda>bad_many.
       Inr (tex ''ref{req:files_are_synch_bounded}'', ''bounded convergence time'',
            str_of_nat bad_single @ '' of '' @ str_of_nat (length single) @ '' single-file and '' @
            str_of_nat bad_many @ '' of '' @ str_of_nat (length many) @ '' many-file syncfs runs'',
            if bad_single = 0 \<and> bad_many = 0 then ''met'' else ''partly'')))))"

definition scenario_lines :: "csv_dict list \<Rightarrow> scenario_line list res" where
  "scenario_lines rows =
     rbind (small_line rows) (\<lambda>a. rbind (big_line rows) (\<lambda>b.
     rbind (growth_line rows) (\<lambda>c. rbind (bounded_line rows) (\<lambda>d. Inr [a, b, c, d]))))"

definition scenario_table :: "handle \<Rightarrow> csv_dict list \<Rightarrow> (printed, unit) prog" where
  "scenario_table h rows =
     pbind (plift (scenario_lines rows)) (\<lambda>ls.
     emits h (plain_open ''lp{5.0cm}p{3.6cm}l'' @
       [''Scenario & Requirement & Measured & Verdict'' @ row_end, tex ''hline''] @
       map (\<lambda>(s, r, m, v). s @ '' & '' @ r @ '' & '' @ m @ '' & '' @ v @ row_end) ls @
       [tex ''hline'', tex ''end{tabular}''] @
       table_close ''The requirements against the measured medians''
         (''The requirements the matrix was run to answer, against '' @ ''syncfs's measured medians.'')
         ''tab:results-scenarios''))"

section \<open>The environment\<close>

text \<open>\<open>repr\<close> of a string, for the list of limits printed in a comment.\<close>

definition repr_char :: "char \<Rightarrow> char \<Rightarrow> string" where
  "repr_char q c =
     (let k = (of_char c :: nat) in
      if c = bs \<or> c = q then [bs, c]
      else if k = 10 then tex ''n'' else if k = 13 then tex ''r'' else if k = 9 then tex ''t''
      else if k < 32 \<or> k = 127 then tex ''x'' @ [hex_char (k div 16), hex_char (k mod 16)]
      else [c])"

definition str_repr :: "string \<Rightarrow> string" where
  "str_repr s =
     (let q = (if CHR 0x27 \<in> set s \<and> CHR 0x22 \<notin> set s then CHR 0x22 else CHR 0x27)
      in q # concat (map (repr_char q) s) @ [q])"

definition str_list_repr :: "string list \<Rightarrow> string" where
  "str_list_repr xs = ''['' @ str_join '', '' (map str_repr xs) @ '']''"

text \<open>The values of a field that are not empty.\<close>

definition truthy :: "string option \<Rightarrow> string list" where
  "truthy v = (case v of None \<Rightarrow> [] | Some s \<Rightarrow> if s = [] then [] else [s])"

definition field_values :: "string \<Rightarrow> csv_dict list \<Rightarrow> string list res" where
  "field_values k rows = rbind (rmap (\<lambda>r. lookup r k) rows) (\<lambda>vs. Inr (concat (map truthy vs)))"

definition repeat_key :: "csv_dict \<Rightarrow> string option list res" where
  "repeat_key r =
     rmap (lookup r) [''experiment'', ''system'', ''config'', ''nodes'', ''size_bytes'', ''file_count'']"

definition environment_note :: "handle \<Rightarrow> csv_dict list \<Rightarrow> nat \<Rightarrow> (printed, unit) prog" where
  "environment_note h rows dropped =
     pbind (plift (field_values ''nofile'' rows)) (\<lambda>nofile.
     pbind (plift (cell_values ''loadavg'' rows)) (\<lambda>loads.
     pbind (plift (tally_by repeat_key rows)) (\<lambda>repeats.
     emits h
       ([generated_line,
         ''% cells: '' @ str_of_nat (length repeats) @ '', samples: '' @ str_of_nat (length rows) @
         '', repeats per cell: '' @ int_list_str (map int (sorted_set (map snd repeats)))]
        @ (if nofile = [] then []
           else [''% RLIMIT_NOFILE observed in the containers: '' @ str_list_repr (sorted_set nofile)])
        @ (if loads = [] then []
           else [''% host load average at t0: min '' @ fixed 2 (Min (set loads)) @ '', max '' @ fixed 2 (Max (set loads))])
        @ (if dropped = 0 then []
           else [''% BucketFS (tuned) rows measured and not tabulated: '' @ str_of_nat dropped])
        @ [[]]))))"

section \<open>Cells that missed their deadline\<close>

text \<open>Node names sort by their letters, then by the last number in them.\<close>

definition last_number :: "string \<Rightarrow> nat" where
  "last_number name =
     (let ds = rev (takeWhile is_digit (dropWhile (\<lambda>c. \<not> is_digit c) (rev name)))
      in case nat_of_digits 0 ds of None \<Rightarrow> 0 | Some n \<Rightarrow> n)"

definition node_key :: "string \<Rightarrow> string \<times> nat" where
  "node_key name = (filter (\<lambda>c. \<not> is_digit c) name, last_number name)"

definition missing_of :: "jobj \<Rightarrow> string list" where
  "missing_of arrivals = map fst (filter (\<lambda>(_, v). v = JNull) arrivals)"

definition missing_detail :: "string list \<Rightarrow> string" where
  "missing_detail missing =
     (if missing = [] then ''arrived, hashes disagreed'' else str_join '', '' (sort_key node_key missing))"

type_synonym outcome = "string \<times> string \<times> int \<times> string \<times> rat \<times> string"

definition payload_of :: "csv_dict \<Rightarrow> string res" where
  "payload_of r =
     rbind (field_is ''file_count'' ''1'' r) (\<lambda>single.
       if single then rbind (int_field r ''size_bytes'') (\<lambda>s. Inr (tex_human s))
       else rbind (int_field r ''file_count'') (\<lambda>n. Inr (replace_char CHR '','' (tex '','') (thousands n @ '' files''))))"

definition outcome_of :: "csv_dict \<Rightarrow> outcome res" where
  "outcome_of r =
     rbind (lookup r ''arrivals'') (\<lambda>a.
     rbind (json_loads (case truthy a of [] \<Rightarrow> ''{}'' | s # _ \<Rightarrow> s)) (\<lambda>arrivals.
     let detail = missing_detail (missing_of arrivals) in
     rbind (payload_of r) (\<lambda>payload.
     rbind (field r ''experiment'') (\<lambda>e.
     rbind (arm r) (\<lambda>label.
     rbind (int_field r ''nodes'') (\<lambda>n.
     rbind (int_field r ''size_bytes'') (\<lambda>s.
       Inr (e, label, n, payload, tex_deadline (Some e) s, detail))))))))"

definition outcome_order :: "outcome \<Rightarrow> string \<times> string \<times> int \<times> string" where
  "outcome_order k = (case k of (e, s, n, p, _, _) \<Rightarrow> (e, s, n, p))"

definition outcome_line :: "outcome \<Rightarrow> nat \<Rightarrow> string" where
  "outcome_line k runs =
     (case k of (e, s, n, p, d, detail) \<Rightarrow>
        e @ '' & '' @ s @ '' & '' @ str_of_int n @ '' & '' @ p @ '' & '' @ fixed 0 d @ tex '',s & '' @
        str_of_nat runs @ '' & '' @ detail @ row_end)"

definition nonconvergence_head :: "string list" where
  "nonconvergence_head =
     table_open ''llrlrrp{2.6cm}'' @
     [''Experiment & System & $N$ & Payload & Deadline & Runs & '' @ ''Nodes that never received it'' @ row_end,
      tex ''hline'']"

definition nonconvergence_foot :: "string list" where
  "nonconvergence_foot =
     [tex ''hline'', tex ''end{tabular}''] @
     table_close ''Cells that missed their deadline''
       (''Cells that did not converge inside their deadline, with '' @
        ''the number of repeats that failed the same way. A non-convergence '' @
        ''is a result and is recorded, not retried away.'')
       ''tab:results-nonconvergence''"

definition nonconvergence_note :: "handle \<Rightarrow> csv_dict list \<Rightarrow> (printed, unit) prog" where
  "nonconvergence_note h rows =
     pbind (plift (rfilter not_converged rows)) (\<lambda>bad.
     if bad = [] then pret ()
     else pbind (plift (tally_by outcome_of bad)) (\<lambda>tally.
          pbind (emits h nonconvergence_head) (\<lambda>_.
          pbind (pfor (sort_key outcome_order (dict_keys tally)) (\<lambda>k.
            emit h (outcome_line k (the (map_of tally k))))) (\<lambda>_.
          emits h nonconvergence_foot))))"

section \<open>Numbers for the prose\<close>

definition macro_line :: "string \<Rightarrow> rat \<Rightarrow> nat \<Rightarrow> string" where
  "macro_line name x digits = tex ''newcommand{'' @ tex name @ ''}{'' @ fixed digits x @ ''}''"

definition define_macro :: "handle \<Rightarrow> string \<times> nat \<times> rat option res \<Rightarrow> (printed, unit) prog" where
  "define_macro h m =
     (case m of (name, digits, value) \<Rightarrow>
        pbind (plift value) (\<lambda>v. case v of None \<Rightarrow> pret () | Some x \<Rightarrow> emit h (macro_line name x digits)))"

definition scaling :: "csv_dict list \<Rightarrow> int \<Rightarrow> rat option res" where
  "scaling rows sz =
     rbind (median_of rows ''A'' ''syncfs'' 10 sz ''propagation_s'') (\<lambda>ten.
     rbind (median_of rows ''A'' ''syncfs'' 20 sz ''propagation_s'') (\<lambda>twenty.
       Inr (ratio_of ten twenty)))"

text \<open>The macros in the order they are defined: name, digits, value.\<close>

definition macro_list :: "csv_dict list \<Rightarrow> (string \<times> nat \<times> rat option res) list" where
  "macro_list rows =
     (let prop = (\<lambda>system n sz. median_of rows ''A'' system n sz ''propagation_s'') in
      concat (map (\<lambda>(label, n).
        [(''syncfsGib'' @ label, 2, prop ''syncfs'' n gib),
         (''syncfsFourGib'' @ label, 2, prop ''syncfs'' n (4 * gib)),
         (''bucketfsGib'' @ label, 2, prop ''bucketfs'' n gib),
         (''bucketfsFourGib'' @ label, 2, prop ''bucketfs'' n (4 * gib)),
         (''syncfsHundredMib'' @ label, 2, prop ''syncfs'' n (100 * mib)),
         (''bucketfsHundredMib'' @ label, 2, prop ''bucketfs'' n (100 * mib))])
        [(''Two'', 2), (''Four'', 4), (''Ten'', 10), (''Twenty'', 20)])
      @ [(''syncfsGibScaling'', 2, scaling rows gib),
         (''syncfsFourGibScaling'', 2, scaling rows (4 * gib)),
         (''plainGib'', 2, median_of rows ''C'' ''plainfile'' 0 gib ''ingest_s''),
         (''plainFourGib'', 2, median_of rows ''C'' ''plainfile'' 0 (4 * gib) ''ingest_s''),
         (''syncfsGibIngest'', 3, median_of rows ''A'' ''syncfs'' 2 gib ''ingest_s''),
         (''bucketfsGibIngest'', 3, median_of rows ''A'' ''bucketfs'' 2 gib ''ingest_s'')])"

definition macros :: "handle \<Rightarrow> csv_dict list \<Rightarrow> (printed, unit) prog" where
  "macros h rows = pbind (pfor (macro_list rows) (define_macro h)) (\<lambda>_. emit h [])"

section \<open>The program\<close>

text \<open>
  \<open>macro_file\<close> is the name of the file given with \<open>--macros\<close>, if any; without it the definitions go
  where the tables go.
\<close>

definition propagation_caption :: string where
  "propagation_caption =
     ''Propagation time in seconds, median with range: from the first '' @
     ''byte written to the last node holding the whole file. This is '' @ ''the user-visible number.''"

definition fanout_caption :: string where
  "fanout_caption =
     ''Fan-out time in seconds, median with range: from the writer '' @
     ''holding the file to the last node holding it. Replication '' @
     ''alone, and the only term that compares the two mechanisms '' @ ''directly.''"

definition tree_caption :: string where
  "tree_caption =
     ''Propagation time in seconds for $4$'' @ tex '',KiB files written at '' @
     ''once, median with range: the UDF-load case.''"

definition tex_tables :: "csv_dict list \<Rightarrow> (printed, unit) prog" where
  "tex_tables rows =
     pbind (plift (rfilter (field_is ''experiment'' ''A'') rows)) (\<lambda>a_rows.
     pbind (plift (rfilter (field_is ''experiment'' ''B'') rows)) (\<lambda>b_rows.
     pbind (if a_rows = [] then pret () else
       pbind (matrix_table Out a_rows ''propagation_s'' ''Propagation time by node count and file size''
         propagation_caption ''tab:results-propagation'') (\<lambda>_.
       matrix_table Out a_rows ''fanout_s'' ''Fan-out time by node count and file size''
         fanout_caption ''tab:results-fanout'')) (\<lambda>_.
     pbind (if b_rows = [] then pret () else
       tree_table Out b_rows ''Propagation time for many small files written at once''
         tree_caption ''tab:results-manyfiles'') (\<lambda>_.
     pbind (plift (rany (field_is ''experiment'' ''C'') rows)) (\<lambda>some_c.
     pbind (if some_c then baseline_table Out rows else pret ()) (\<lambda>_.
     pbind (if a_rows = [] then pret () else scenario_table Out rows) (\<lambda>_.
     nonconvergence_note Out rows)))))))"

definition tex_main :: "string list \<Rightarrow> string option \<Rightarrow> (printed, int) prog" where
  "tex_main files macro_file =
     (let rows = load_rows files in
      if rows = [] then pbind (emit Err ''no rows'') (\<lambda>_. pret 1)
      else
        pbind (plift (drop_arm rows)) (\<lambda>(kept, dropped).
        let defs = (if macro_file = None then Out else Defs) in
        pbind (environment_note defs kept (length dropped)) (\<lambda>_.
        pbind (macros defs kept) (\<lambda>_.
        pbind (case macro_file of None \<Rightarrow> pret ()
          | Some f \<Rightarrow> emits Out [generated_line, ''% Macros for the prose are in '' @ f @ ''.'', []]) (\<lambda>_.
        pbind (tex_tables kept) (\<lambda>_. pret 0)))))) "

end
