(* ===== verification/TexReport.thy ===== *)
theory TexReport
  imports TexTables
begin

text \<open>
  What the generated tables say of the rows they are made from: the text of a table is a function of the
  measurements, nothing recorded is left out, the outcomes counted are the runs that missed, and every
  number quoted is one of the tables'.
\<close>

section \<open>Reading rows the matrix wrote\<close>

lemma rfilter_map:
  assumes "\<And>x. x \<in> set xs \<Longrightarrow> p (f x) = Inr (P x)"
  shows "rfilter p (map f xs) = Inr (map f (filter P xs))"
  using assms by (induction xs) auto

lemma rany_map:
  assumes "\<And>x. x \<in> set xs \<Longrightarrow> p (f x) = Inr (P x)"
  shows "rany p (map f xs) = Inr (\<exists>x \<in> set xs. P x)"
  using assms by (induction xs) auto

text \<open>
  A row as the matrix writes it, of a system the tables have a name for, with the arrivals in JSON.
\<close>

definition recorded :: "pyrow \<Rightarrow> bool" where
  "recorded row \<longleftrightarrow> measured row \<and> row_str row ''system'' \<in> set (dict_keys system_label) \<and>
     (row_get row ''loadavg'' = PNone \<or> (\<exists>x. row_get row ''loadavg'' = PFloat x \<and> decimal_float x)) \<and>
     (\<exists>kvs. row_get row ''arrivals'' = PStr (json_dumps kvs) \<and> jobj_ok kvs)"

definition arm_of :: "pyrow \<Rightarrow> string" where
  "arm_of row = the (map_of system_label (row_str row ''system''))"

lemma recorded_measured: "recorded r \<Longrightarrow> measured r"
  by (simp add: recorded_def)

lemma arm_row: "recorded r \<Longrightarrow> arm (table_row r) = Inr (arm_of r)"
proof -
  assume r: "recorded r"
  then obtain l where "map_of system_label (row_str r ''system'') = Some l"
    by (auto simp: recorded_def system_label_def)
  then show ?thesis
    using measured_str [OF recorded_measured [OF r]] by (simp add: arm_def arm_of_def dict_get_def)
qed

lemma field_is_row:
  "measured r \<Longrightarrow> k \<in> {''experiment'', ''system'', ''config''} \<Longrightarrow>
   field_is k v (table_row r) = Inr (row_str r k = v)"
  by (simp add: field_is_def measured_str)

lemma int_is_row:
  "measured r \<Longrightarrow> k \<in> {''nodes'', ''size_bytes'', ''file_count'', ''repeat''} \<Longrightarrow>
   int_is k i (table_row r) = Inr (row_int r k = i)"
  by (simp add: int_is_def measured_int)

lemma not_converged_row: "measured r \<Longrightarrow> not_converged (table_row r) = Inr (\<not> row_converged r)"
  by (simp add: not_converged_ok measured_converged)

definition grid_of :: "string \<Rightarrow> pyrow \<Rightarrow> grid_key" where
  "grid_of fld r = (arm_of r, row_int r fld, row_int r ''nodes'')"

lemma grid_key_row:
  "recorded r \<Longrightarrow> fld \<in> {''size_bytes'', ''file_count''} \<Longrightarrow> grid_key fld (table_row r) = Inr (grid_of fld r)"
  by (auto simp: grid_key_def grid_of_def arm_row measured_int recorded_measured)

text \<open>The text of a cell, from the durations of its repeats.\<close>

definition cell_text :: "string \<Rightarrow> pyrow list \<Rightarrow> string" where
  "cell_text metric g =
     (let vs = concat (map (row_values metric) g); bad = length (filter (\<lambda>r. \<not> row_converged r) g)
      in case median vs of
           Inl _ \<Rightarrow> ''$>'' @ fixed 0 (tex_deadline (Some (row_str (hd g) ''experiment'')) (row_int (hd g) ''size_bytes'')) @
             ''$'' @ dagger_count bad
         | Inr m \<Rightarrow> (case median_range vs (digits_for m) (if bad \<noteq> 0 then dagger_count bad else []) of
             Inr s \<Rightarrow> s | Inl _ \<Rightarrow> []))"

lemma median_range_total: "vs \<noteq> [] \<Longrightarrow> \<exists>s. median_range vs p sfx = Inr s"
  using median_total [of vs] by (auto simp: median_range_def Let_def)

lemma fmt_rows:
  assumes "\<And>r. r \<in> set g \<Longrightarrow> measured r" "metric \<in> set metrics" "g \<noteq> []"
  shows "fmt (map table_row g) metric None = Inr (cell_text metric g)"
proof -
  let ?vs = "concat (map (row_values metric) g)" and ?bad = "length (filter (\<lambda>r. \<not> row_converged r) g)"
  have vs: "cell_values metric (map table_row g) = Inr ?vs" "count_bad (map table_row g) = Inr ?bad"
    using assms by (simp_all add: measured_cell_values measured_count_bad)
  obtain r g' where g: "g = r # g'"
    using assms(3) by (cases g) auto
  show ?thesis
  proof (cases "?vs = []")
    case True
    then have "median ?vs = Inl StatisticsError"
      by (simp only: median_def Let_def) simp
    then show ?thesis
      using vs True assms(1) [of r] g
      by (simp add: fmt_def cell_text_def measured_str measured_int del: concat_eq_Nil_conv)
  next
    case False
    obtain m where m: "median ?vs = Inr m"
      using median_total [OF False] by blast
    obtain s where "median_range ?vs (digits_for m) (if ?bad \<noteq> 0 then dagger_count ?bad else []) = Inr s"
      using median_range_total [OF False] by blast
    then show ?thesis
      using vs False m unfolding fmt_def cell_text_def Let_def by (simp del: concat_eq_Nil_conv)
  qed
qed

text \<open>Within a group of one deadline the text does not depend on the order of the repeats.\<close>

definition deadline_of :: "pyrow \<Rightarrow> rat" where
  "deadline_of r = tex_deadline (Some (row_str r ''experiment'')) (row_int r ''size_bytes'')"

lemma mset_concat_map: "mset g = mset g' \<Longrightarrow> mset (concat (map f g)) = mset (concat (map f g'))"
  by (simp add: mset_concat) (metis image_mset.compositionality mset_map sum_mset_sum_list)

lemma median_range_permute:
  assumes "mset vs = mset vs'"
  shows "median_range vs p sfx = median_range vs' p sfx"
  using median_permute [OF assms] mset_eq_setD [OF assms] by (simp add: median_range_def)

lemma cell_text_permute:
  assumes "mset g = mset g'"
    and "\<And>r. r \<in> set g \<Longrightarrow> deadline_of r = dl"
  shows "cell_text metric g = cell_text metric g'"
proof (cases "g = []")
  case True
  then show ?thesis using assms(1) by simp
next
  case False
  let ?vs = "concat (map (row_values metric) g)" and ?vs' = "concat (map (row_values metric) g')"
  have vs: "mset ?vs = mset ?vs'"
    using assms(1) by (rule mset_concat_map)
  have bad: "length (filter (\<lambda>r. \<not> row_converged r) g) = length (filter (\<lambda>r. \<not> row_converged r) g')"
    using assms(1) by (metis mset_filter size_mset)
  have "g' \<noteq> []" "set g' = set g"
    using False assms(1) by (auto dest: mset_eq_setD)
  then have "hd g \<in> set g" "hd g' \<in> set g"
    using False hd_in_set [of g'] by auto
  then show ?thesis
    using assms(2) [of "hd g"] assms(2) [of "hd g'"]
    by (simp only: cell_text_def Let_def bad median_permute [OF vs] median_range_permute [OF vs] flip: deadline_of_def)
qed

section \<open>The tables of the rows\<close>

lemma sorted_set_cong: "set xs = set ys \<Longrightarrow> sorted_set xs = sorted_set ys"
  unfolding sorted_set_def by (intro sorted_distinct_set_unique) simp_all

text \<open>
  What a table shows, said of the rows rather than of their text: the node counts across, an arm and
  a size down, each in order, and in each place the text of the repeats measured there.
\<close>

definition grid_cell :: "string \<Rightarrow> string \<Rightarrow> pyrow list \<Rightarrow> grid_key \<Rightarrow> string" where
  "grid_cell fld metric rows k =
     (let g = rows_of (grid_of fld) k rows in if g = [] then missing_cell else cell_text metric g)"

definition grid_line :: "string \<Rightarrow> string \<Rightarrow> (int \<Rightarrow> string) \<Rightarrow> pyrow list \<Rightarrow> int list \<Rightarrow> string \<Rightarrow> nat \<times> int \<Rightarrow> string" where
  "grid_line fld metric shw rows ns a e =
     str_join '' & '' ((if fst e = 0 then a else []) # shw (snd e) #
       map (\<lambda>n. grid_cell fld metric rows (a, snd e, n)) ns) @ row_end"

definition grid_lines ::
  "string \<Rightarrow> string \<Rightarrow> (int \<Rightarrow> string) \<Rightarrow> pyrow list \<Rightarrow> string \<Rightarrow> string \<Rightarrow> string \<Rightarrow> string \<Rightarrow> string list" where
  "grid_lines what fld shw rows metric short caption label =
     (let arms = sorted_set (map arm_of rows);
          ss = sorted_set (map (\<lambda>r. row_int r fld) rows);
          ns = sorted_set (map (\<lambda>r. row_int r ''nodes'') rows)
      in (table_open (''ll'' @ replicate (length ns) CHR ''r'') @
         [''System & '' @ what @ '' & '' @
            str_join '' & '' (map (\<lambda>n. ''$N{=}'' @ str_of_int n @ ''$'') ns) @ row_end, tex ''hline'']) @
         concat (map (\<lambda>a. map (grid_line fld metric shw rows ns a) (zip [0..<length ss] ss) @ [tex ''hline'']) arms) @
         [tex ''end{tabular}''] @
         table_close short (caption @ (if \<exists>r \<in> set rows. \<not> row_converged r then dagger_legend else [])) label)"

lemma grid_lines_member:
  assumes "a \<in> set (sorted_set (map arm_of rows))"
    and "e \<in> set (zip [0..<length (sorted_set (map (\<lambda>r. row_int r fld) rows))] (sorted_set (map (\<lambda>r. row_int r fld) rows)))"
  shows "grid_line fld metric shw rows (sorted_set (map (\<lambda>r. row_int r ''nodes'') rows)) a e
    \<in> set (grid_lines what fld shw rows metric short caption label)"
proof -
  have "l a e \<in> set (concat (map (\<lambda>a. map (l a) es @ [tex ''hline'']) as))" if "a \<in> set as" "e \<in> set es" for l es as
    using that by auto
  then show ?thesis
    using assms unfolding grid_lines_def Let_def set_append by blast
qed

lemma rows_of_map:
  assumes "\<And>r. r \<in> set rows \<Longrightarrow> key (f r) = g r"
  shows "rows_of key k (map f rows) = map f (rows_of g k rows)"
  using assms by (induction rows) (simp_all add: rows_of_def)

text \<open>Grouping rows by a key that is computed from their text.\<close>

lemma group_by_rows:
  assumes "\<And>r. r \<in> set rows \<Longrightarrow> key (table_row r) = Inr (f r)"
  shows "\<exists>d. group_by key (map table_row rows) = Inr d \<and> distinct (dict_keys d) \<and>
    set (dict_keys d) = f ` set rows \<and>
    (\<forall>k. map_of d k = (if k \<in> f ` set rows then Some (map table_row (rows_of f k rows)) else None))"
proof -
  define g where "g = (\<lambda>d. case key d of Inr k \<Rightarrow> k | Inl _ \<Rightarrow> undefined)"
  have g: "g (table_row r) = f r" if "r \<in> set rows" for r
    using assms that by (simp add: g_def)
  have key: "key d = Inr (g d)" if "d \<in> set (map table_row rows)" for d
    using that assms by (auto simp: g_def)
  have "g ` set (map table_row rows) = f ` set rows"
    using g by force
  then show ?thesis
    using group_by_result [of "map table_row rows" key g, OF key] rows_of_map [of rows g table_row f, OF g] by metis
qed

lemma grid_row_ok:
  assumes rec: "\<And>r. r \<in> set rows \<Longrightarrow> recorded r" and m: "metric \<in> set metrics"
    and d: "\<And>k. map_of cells k = (if k \<in> grid_of fld ` set rows then Some (map table_row (rows_of (grid_of fld) k rows)) else None)"
  shows "grid_row cells metric ns shw a e = Inr (grid_line fld metric shw rows ns a e)"
proof -
  have cell: "(case map_of cells k of None \<Rightarrow> Inr missing_cell | Some g \<Rightarrow> fmt g metric None) =
      Inr (grid_cell fld metric rows k)" for k
  proof (cases "k \<in> grid_of fld ` set rows")
    case True
    then have "rows_of (grid_of fld) k rows \<noteq> []"
      by (auto simp: rows_of_def filter_empty_conv)
    moreover have "measured r" if "r \<in> set (rows_of (grid_of fld) k rows)" for r
      using rec that by (auto simp: rows_of_def recorded_measured)
    ultimately show ?thesis
      using True m by (simp add: d grid_cell_def fmt_rows)
  next
    case False
    then have "rows_of (grid_of fld) k rows = []"
      by (auto simp: rows_of_def filter_empty_conv)
    then show ?thesis
      using False by (simp add: d grid_cell_def)
  qed
  have "rmap (\<lambda>n. case map_of cells (a, snd e, n) of None \<Rightarrow> Inr missing_cell | Some g \<Rightarrow> fmt g metric None) ns =
      Inr (map (\<lambda>n. grid_cell fld metric rows (a, snd e, n)) ns)"
    by (rule rmap_Inr) (rule cell)
  then show ?thesis
    by (cases e) (simp add: grid_row_def grid_line_def)
qed

lemma grid_table_prints:
  assumes rec: "\<And>r. r \<in> set rows \<Longrightarrow> recorded r" and m: "metric \<in> set metrics"
    and fld: "fld \<in> {''size_bytes'', ''file_count''}"
  shows "prints (grid_table h what fld shw (map table_row rows) metric short caption label) h ()
    (grid_lines what fld shw rows metric short caption label)"
proof -
  obtain d where d: "group_by (grid_key fld) (map table_row rows) = Inr d"
    "set (dict_keys d) = grid_of fld ` set rows"
    "\<And>k. map_of d k = (if k \<in> grid_of fld ` set rows then Some (map table_row (rows_of (grid_of fld) k rows)) else None)"
    using group_by_rows [of rows "grid_key fld" "grid_of fld"] grid_key_row [OF rec fld] by metis
  have arms: "sorted_set (map (\<lambda>(a, _, _). a) (dict_keys d)) = sorted_set (map arm_of rows)"
    and ss: "sorted_set (map (\<lambda>(_, s, _). s) (dict_keys d)) = sorted_set (map (\<lambda>r. row_int r fld) rows)"
    and ns: "sorted_set (map (\<lambda>(_, _, n). n) (dict_keys d)) = sorted_set (map (\<lambda>r. row_int r ''nodes'') rows)"
    by (rule sorted_set_cong, simp only: set_map [of _ "dict_keys d"] d(2), force simp: grid_of_def)+
  have bad: "rany not_converged (map table_row rows) = Inr (\<exists>r \<in> set rows. \<not> row_converged r)"
    using rec by (intro rany_map not_converged_row recorded_measured)
  have body: "prints (pfor es (\<lambda>entry. pbind (plift (grid_row d metric ms shw a entry)) (emit h))) h ()
      (map (grid_line fld metric shw rows ms a) es)" for es ms a
    by (rule prints_for_each) (rule prints_lift [OF grid_row_ok [OF rec m d(3)] prints_emit])
  show ?thesis
    unfolding grid_table_def grid_lines_def Let_def
    by (rule prints_lift [OF d(1)], unfold arms ss ns, rule prints_bind [OF prints_emits],
        rule prints_bind [OF prints_for [OF prints_bind [OF body prints_emit]]],
        rule prints_bind [OF prints_emit], rule prints_lift [OF bad], rule prints_emits)
qed

lemma grid_lines_permute:
  assumes rows: "mset rows = mset rows'"
    and "\<And>r r'. r \<in> set rows \<Longrightarrow> r' \<in> set rows \<Longrightarrow> row_int r fld = row_int r' fld \<Longrightarrow> deadline_of r = deadline_of r'"
  shows "grid_lines what fld shw rows metric short caption label = grid_lines what fld shw rows' metric short caption label"
proof -
  have sets: "set rows' = set rows"
    using rows by (metis mset_eq_setD)
  have cell: "grid_cell fld metric rows k = grid_cell fld metric rows' k" for k
  proof -
    have g: "mset (rows_of (grid_of fld) k rows) = mset (rows_of (grid_of fld) k rows')"
      using rows by (rule rows_of_permute)
    have "cell_text metric (rows_of (grid_of fld) k rows) = cell_text metric (rows_of (grid_of fld) k rows')"
    proof (cases "rows_of (grid_of fld) k rows")
      case Nil
      then show ?thesis using g by simp
    next
      case (Cons r0 g0)
      then have r0: "r0 \<in> set (rows_of (grid_of fld) k rows)" by simp
      have "deadline_of r = deadline_of r0" if "r \<in> set (rows_of (grid_of fld) k rows)" for r
        using that r0 assms(2) [of r r0] by (auto simp: rows_of_def grid_of_def)
      then show ?thesis
        using g by (rule cell_text_permute [rotated])
    qed
    moreover have "rows_of (grid_of fld) k rows = [] \<longleftrightarrow> rows_of (grid_of fld) k rows' = []"
      using g by (metis mset_zero_iff)
    ultimately show ?thesis
      by (simp add: grid_cell_def)
  qed
  have arms: "sorted_set (map f rows) = sorted_set (map f rows')" for f :: "pyrow \<Rightarrow> string"
    by (rule sorted_set_cong) (simp add: sets)
  have ints: "sorted_set (map f rows) = sorted_set (map f rows')" for f :: "pyrow \<Rightarrow> int"
    by (rule sorted_set_cong) (simp add: sets)
  show ?thesis
    unfolding grid_lines_def grid_line_def Let_def
    by (simp only: cell arms ints sets)
qed

text \<open>
  C14. The results table is the table of the measurements: from rows the matrix recorded, whatever the
  text they were read from, it prints a column per node count, a line per system and size, both in order
  and without repetition, and in each place the median and range of exactly the repeats measured there,
  their deadline as a bound when none arrived, or the dash when there were none.
\<close>

theorem matrix_table_refines:
  assumes "\<And>r. r \<in> set rows \<Longrightarrow> recorded r" and "metric \<in> set metrics"
  shows "matrix_table h (map table_row rows) metric short caption label p =
    (Inr (), p(h := p h @ grid_lines ''Size'' ''size_bytes'' tex_human rows metric short caption label))"
proof -
  have "prints (matrix_table h (map table_row rows) metric short caption label) h ()
      (grid_lines ''Size'' ''size_bytes'' tex_human rows metric short caption label)"
    unfolding matrix_table_def by (rule grid_table_prints [OF assms insertI1])
  then show ?thesis
    by (rule printsD)
qed

text \<open>
  No measurement is left out of its table: for every recorded row there is a line of the table for
  its system and size, with one place per node count behind the two labels, and the place of the row's
  node count shows the text of a group of repeats that the row is one of.
\<close>

theorem every_row_is_tabulated:
  assumes "\<And>r. r \<in> set rows \<Longrightarrow> recorded r" and "metric \<in> set metrics" and "r \<in> set rows"
  shows "\<exists>ls ns cells g i. matrix_table h (map table_row rows) metric short caption label p = (Inr (), p(h := p h @ ls)) \<and>
    str_join '' & '' cells @ row_end \<in> set ls \<and>
    length cells = length ns + 2 \<and> cells ! 1 = tex_human (row_int r ''size_bytes'') \<and>
    i < length ns \<and> ns ! i = row_int r ''nodes'' \<and> r \<in> set g \<and> cells ! (i + 2) = cell_text metric g"
proof -
  let ?fld = "''size_bytes''"
  let ?ls = "grid_lines ''Size'' ?fld tex_human rows metric short caption label"
  have run: "matrix_table h (map table_row rows) metric short caption label p = (Inr (), p(h := p h @ ?ls))"
    unfolding matrix_table_def by (rule printsD [OF grid_table_prints [OF assms(1,2) insertI1]])
  let ?ss = "sorted_set (map (\<lambda>r. row_int r ?fld) rows)" and ?ns = "sorted_set (map (\<lambda>r. row_int r ''nodes'') rows)"
  have "arm_of r \<in> set (sorted_set (map arm_of rows))" "row_int r ?fld \<in> set ?ss" "row_int r ''nodes'' \<in> set ?ns"
    using assms(3) by (simp_all add: sorted_set_def)
  then obtain j i where j: "j < length ?ss" "?ss ! j = row_int r ?fld"
    and i: "i < length ?ns" "?ns ! i = row_int r ''nodes''" and arm: "arm_of r \<in> set (sorted_set (map arm_of rows))"
    by (auto simp: in_set_conv_nth)
  let ?g = "rows_of (grid_of ?fld) (grid_of ?fld r) rows"
  have r: "r \<in> set ?g"
    using assms(3) by (simp add: rows_of_def)
  let ?cells = "(if j = 0 then arm_of r else []) # tex_human (?ss ! j) #
    map (\<lambda>n. grid_cell ?fld metric rows (arm_of r, ?ss ! j, n)) ?ns"
  have "grid_line ?fld metric tex_human rows ?ns (arm_of r) (j, ?ss ! j) = str_join '' & '' ?cells @ row_end"
    by (simp add: grid_line_def)
  moreover have "(j, ?ss ! j) \<in> set (zip [0..<length ?ss] ?ss)"
    using j(1) by (auto simp: in_set_zip intro!: exI [of _ j])
  ultimately have "str_join '' & '' ?cells @ row_end \<in> set ?ls"
    using grid_lines_member [OF arm] by metis
  moreover have "?cells ! (i + 2) = cell_text metric ?g"
    using i j r by (auto simp: grid_cell_def grid_of_def Let_def)
  moreover have "length ?cells = length ?ns + 2" "?cells ! 1 = tex_human (row_int r ?fld)"
    using j by simp_all
  ultimately show ?thesis
    using run i r by blast
qed

section \<open>Runs that missed their deadline\<close>

definition arrivals_in :: "pyrow \<Rightarrow> jobj" where
  "arrivals_in row = (case json_loads (row_str row ''arrivals'') of Inl _ \<Rightarrow> [] | Inr kvs \<Rightarrow> kvs)"

definition payload_text :: "pyrow \<Rightarrow> string" where
  "payload_text row =
     (if row_int row ''file_count'' = 1 then tex_human (row_int row ''size_bytes'')
      else replace_char CHR '','' (tex '','') (thousands (row_int row ''file_count'') @ '' files''))"

definition outcome_row :: "pyrow \<Rightarrow> outcome" where
  "outcome_row row =
     (row_str row ''experiment'', arm_of row, row_int row ''nodes'', payload_text row, deadline_of row,
      missing_detail (missing_of (arrivals_in row)))"

lemma outcome_of_row:
  assumes "recorded r"
  shows "outcome_of (table_row r) = Inr (outcome_row r)"
proof -
  have m: "measured r"
    using assms by (rule recorded_measured)
  obtain kvs where kvs: "row_get r ''arrivals'' = PStr (json_dumps kvs)" "jobj_ok kvs"
    using assms by (auto simp: recorded_def)
  then have "lookup (table_row r) ''arrivals'' = Inr (Some (json_dumps kvs))" "json_dumps kvs \<noteq> []"
    by (simp_all add: lookup_table_row json_dumps_def)
  moreover have "arrivals_in r = kvs"
    using kvs by (simp add: arrivals_in_def row_str_def json_loads_dumps)
  moreover have "field_is ''file_count'' ''1'' (table_row r) = Inr (row_int r ''file_count'' = 1)"
  proof -
    have "str_of_int (row_int r ''file_count'') = ''1'' \<longleftrightarrow> row_int r ''file_count'' = 1"
      using str_of_int_inj [of _ 1] by (simp add: str_of_int_def str_of_nat_small digit_char_def)
    then show ?thesis
      using m by (simp add: field_is_def measured_int)
  qed
  ultimately show ?thesis
    using m assms kvs(2)
    by (simp add: outcome_of_def truthy_def json_loads_dumps payload_of_def measured_int measured_str arm_row
        outcome_row_def payload_text_def deadline_of_def split: list.split)
qed

lemma tally_by_rows:
  assumes "\<And>r. r \<in> set rows \<Longrightarrow> key (table_row r) = Inr (f r)"
  shows "\<exists>d. tally_by key (map table_row rows) = Inr d \<and> distinct (dict_keys d) \<and>
    set (dict_keys d) = f ` set rows \<and>
    (\<forall>k \<in> f ` set rows. map_of d k = Some (length (rows_of f k rows)))"
proof -
  define g where "g = (\<lambda>d. case key d of Inr k \<Rightarrow> k | Inl _ \<Rightarrow> undefined)"
  have g: "g (table_row r) = f r" if "r \<in> set rows" for r
    using assms that by (simp add: g_def)
  have key: "key d = Inr (g d)" if "d \<in> set (map table_row rows)" for d
    using that assms by (auto simp: g_def)
  have "g ` set (map table_row rows) = f ` set rows"
    using g by force
  moreover have "length (rows_of g k (map table_row rows)) = length (rows_of f k rows)" for k
    using rows_of_map [of rows g table_row f, OF g] by simp
  ultimately show ?thesis
    using tally_by_result [of "map table_row rows" key g, OF key] by metis
qed

lemma missed_runs:
  assumes "\<And>r. r \<in> set rows \<Longrightarrow> recorded r" and "bad = filter (\<lambda>r. \<not> row_converged r) rows"
  shows "\<exists>ks ls. nonconvergence_note h (map table_row rows) p = (Inr (), p(h := p h @ ls)) \<and>
    ls = (if bad = [] then []
          else nonconvergence_head @ map (\<lambda>k. outcome_line k (length (rows_of outcome_row k bad))) ks @ nonconvergence_foot) \<and>
    distinct ks \<and> set ks = outcome_row ` set bad \<and> sorted (map outcome_order ks) \<and>
    sum_list (map (\<lambda>k. length (rows_of outcome_row k bad)) ks) = length bad"
proof -
  have filt: "rfilter not_converged (map table_row rows) = Inr (map table_row bad)"
    unfolding assms(2) using assms(1) by (intro rfilter_map not_converged_row recorded_measured)
  show ?thesis
  proof (cases "bad = []")
    case True
    then have "nonconvergence_note h (map table_row rows) p = (Inr (), p(h := p h @ []))"
      by (simp add: nonconvergence_note_def filt pbind_def)
    with True show ?thesis
      by (intro exI [of _ "[]"]) simp
  next
    case False
    have "outcome_of (table_row r) = Inr (outcome_row r)" if "r \<in> set bad" for r
      using that assms by (simp add: outcome_of_row)
    then obtain d where d: "tally_by outcome_of (map table_row bad) = Inr d" "distinct (dict_keys d)"
      "set (dict_keys d) = outcome_row ` set bad"
      and n: "\<And>k. k \<in> outcome_row ` set bad \<Longrightarrow> map_of d k = Some (length (rows_of outcome_row k bad))"
      using tally_by_rows [of bad outcome_of outcome_row] by metis
    let ?ks = "sort_key outcome_order (dict_keys d)"
    have ks: "distinct ?ks" "set ?ks = outcome_row ` set bad"
      using d(2,3) by simp_all
    have body: "prints (pfor ?ks (\<lambda>k. emit h (outcome_line k (the (map_of d k))))) h ()
        (map (\<lambda>k. outcome_line k (length (rows_of outcome_row k bad))) ?ks)"
    proof (rule prints_for_each)
      fix k assume "k \<in> set ?ks"
      then have "map_of d k = Some (length (rows_of outcome_row k bad))"
        using n ks(2) by blast
      then show "prints (emit h (outcome_line k (the (map_of d k)))) h () [outcome_line k (length (rows_of outcome_row k bad))]"
        by (simp add: prints_emit)
    qed
    have "prints (nonconvergence_note h (map table_row rows)) h ()
        (nonconvergence_head @ map (\<lambda>k. outcome_line k (length (rows_of outcome_row k bad))) ?ks @ nonconvergence_foot)"
      unfolding nonconvergence_note_def
      by (rule prints_lift [OF filt], subst if_not_P, use False in simp, rule prints_lift [OF d(1)],
          rule prints_bind [OF prints_emits], rule prints_bind [OF body], rule prints_emits)
    then show ?thesis
      using False ks sum_rows_of [OF ks] by (intro exI [of _ ?ks]) (simp add: prints_def)
  qed
qed

text \<open>
  The table of missed deadlines accounts for every run that missed: nothing is printed when every
  run converged; otherwise there is one line per distinct outcome (experiment, system, node count,
  payload, deadline, and the nodes that never received it), in order, and the runs counted on the lines
  add up to the runs that did not converge.
\<close>

theorem missed_runs_are_counted:
  assumes "\<And>r. r \<in> set rows \<Longrightarrow> recorded r" and "bad = filter (\<lambda>r. \<not> row_converged r) rows"
  shows "\<exists>ks ls. nonconvergence_note h (map table_row rows) p = (Inr (), p(h := p h @ ls)) \<and>
    ls = (if bad = [] then []
          else nonconvergence_head @ map (\<lambda>k. outcome_line k (length (rows_of outcome_row k bad))) ks @ nonconvergence_foot) \<and>
    distinct ks \<and> set ks = outcome_row ` set bad \<and> sorted (map outcome_order ks) \<and>
    sum_list (map (\<lambda>k. length (rows_of outcome_row k bad)) ks) = length bad"
  using assms by (rule missed_runs)

section \<open>The macros\<close>

definition letter :: "char \<Rightarrow> bool" where
  "letter c \<longleftrightarrow> (let k = (of_char c :: nat) in 65 \<le> k \<and> k \<le> 90 \<or> 97 \<le> k \<and> k \<le> 122)"

definition defined_macros :: "(string \<times> nat \<times> rat option res) list \<Rightarrow> (string \<times> nat \<times> rat) list" where
  "defined_macros ms =
     concat (map (\<lambda>(n, d, v). case v of Inr (Some x) \<Rightarrow> [(n, d, x)] | _ \<Rightarrow> []) ms)"

lemma define_macro_run:
  "define_macro h (n, d, Inl e) p = (Inl e, p)"
  "define_macro h (n, d, Inr None) p = (Inr (), p)"
  "define_macro h (n, d, Inr (Some x)) p = (Inr (), p(h := p h @ [macro_line n x d]))"
  by (simp_all add: define_macro_def pbind_def emit_def)

lemma defined_macros_Cons:
  "defined_macros ((n, d, v) # ms) = (case v of Inr (Some x) \<Rightarrow> [(n, d, x)] | _ \<Rightarrow> []) @ defined_macros ms"
  by (simp add: defined_macros_def)

lemma defined_macros_run:
  assumes "pfor ms (define_macro h) p = (Inr (), q)"
  shows "q = p(h := p h @ map (\<lambda>(n, d, x). macro_line n x d) (defined_macros ms))"
  using assms
proof (induction ms arbitrary: p)
  case Nil
  then show ?case by (simp add: defined_macros_def)
next
  case (Cons m ms)
  obtain n d v where m: "m = (n, d, v)" by (cases m)
  obtain p1 where p1: "define_macro h (n, d, v) p = (Inr (), p1)" "pfor ms (define_macro h) p1 = (Inr (), q)"
    using Cons.prems unfolding m pfor.simps by (elim pbindE) (rule that, simp_all)
  obtain y where v: "v = Inr y"
    using p1(1) by (cases v) (simp_all add: define_macro_run)
  show ?case
    using Cons.IH [OF p1(2)] p1(1) unfolding m v
    by (cases y) (auto simp: define_macro_run defined_macros_Cons)
qed

lemma defined_macros_mem: "(n, d, x) \<in> set (defined_macros ms) \<longleftrightarrow> (n, d, Inr (Some x)) \<in> set ms"
  by (force simp: defined_macros_def split: sum.splits option.splits prod.splits)

lemma defined_macros_sub: "fst ` set (defined_macros ms) \<subseteq> fst ` set ms"
  using defined_macros_mem by force

lemma defined_macros_distinct: "distinct (map fst ms) \<Longrightarrow> distinct (map fst (defined_macros ms))"
proof (induction ms)
  case (Cons m ms)
  obtain n d v where m: "m = (n, d, v)" by (cases m)
  have "n \<notin> fst ` set (defined_macros ms)"
    using Cons.prems defined_macros_sub [of ms] by (auto simp: m)
  then show ?case
    using Cons by (auto simp: m defined_macros_Cons split: sum.split option.split)
qed (simp add: defined_macros_def)

definition macro_names :: "string list" where
  "macro_names =
     concat (map (\<lambda>l. [''syncfsGib'' @ l, ''syncfsFourGib'' @ l, ''bucketfsGib'' @ l, ''bucketfsFourGib'' @ l,
       ''syncfsHundredMib'' @ l, ''bucketfsHundredMib'' @ l]) [''Two'', ''Four'', ''Ten'', ''Twenty''])
     @ [''syncfsGibScaling'', ''syncfsFourGibScaling'', ''plainGib'', ''plainFourGib'', ''syncfsGibIngest'',
        ''bucketfsGibIngest'']"

lemma macro_list_names: "map fst (macro_list rows) = macro_names"
  by (simp add: macro_list_def macro_names_def Let_def)

lemma macro_names_ok: "distinct macro_names" "list_all (list_all letter) macro_names"
  by code_simp+

text \<open>
  The macro file can be input as it is: each command is defined at most once and its name is letters
  only, so LaTeX accepts every definition; and a command is defined exactly when its median exists, as
  that median, so the prose never quotes a number the data does not have.
\<close>

theorem macros_defined_once:
  assumes "macros h rows p = (Inr (), q)"
  shows "\<exists>defs. q = p(h := p h @ map (\<lambda>(n, d, x). macro_line n x d) defs @ [[]]) \<and>
    distinct (map fst defs) \<and> list_all (list_all letter) (map fst defs) \<and>
    set defs = {(n, d, x). (n, d, Inr (Some x)) \<in> set (macro_list rows)}"
proof -
  let ?defs = "defined_macros (macro_list rows)"
  obtain p1 where "pfor (macro_list rows) (define_macro h) p = (Inr (), p1)" and q: "emit h [] p1 = (Inr (), q)"
    using assms unfolding macros_def by (elim pbindE) simp
  then have "p1 = p(h := p h @ map (\<lambda>(n, d, x). macro_line n x d) ?defs)"
    using defined_macros_run by blast
  moreover have "q = p1(h := p1 h @ [[]])"
    using q by (simp add: emit_def)
  moreover have "distinct (map fst ?defs)"
    by (rule defined_macros_distinct) (simp add: macro_list_names macro_names_ok)
  moreover have "list_all (list_all letter) (map fst ?defs)"
    using macro_names_ok(2) defined_macros_sub [of "macro_list rows"]
    unfolding list_all_iff set_map macro_list_names [of rows, symmetric] by blast
  moreover have "set ?defs = {(n, d, x). (n, d, Inr (Some x)) \<in> set (macro_list rows)}"
    using defined_macros_mem by auto
  ultimately show ?thesis
    by (intro exI [of _ ?defs]) simp
qed

section \<open>The requirements\<close>

definition durations :: "pyrow list \<Rightarrow> string \<Rightarrow> int \<Rightarrow> int \<Rightarrow> rat list" where
  "durations rows system n sz =
     concat (map (row_values ''propagation_s'') (filter (\<lambda>r. row_str r ''experiment'' = ''A'' \<and>
       row_str r ''system'' = system \<and> row_int r ''nodes'' = n \<and> row_int r ''size_bytes'' = sz) rows))"

definition median_opt :: "rat list \<Rightarrow> rat option" where
  "median_opt vs = (case median vs of Inl _ \<Rightarrow> None | Inr m \<Rightarrow> Some m)"

lemma rand_Inr: "rand (Inr a) b = (if a then b else Inr False)"
  by (simp add: rand_def)

lemma median_of_rows:
  assumes "\<And>r. r \<in> set rows \<Longrightarrow> measured r"
  shows "median_of (map table_row rows) ''A'' system n sz ''propagation_s'' =
    Inr (median_opt (durations rows system n sz))"
proof -
  let ?P = "\<lambda>r. row_str r ''experiment'' = ''A'' \<and> row_str r ''system'' = system \<and> row_int r ''nodes'' = n \<and>
    row_int r ''size_bytes'' = sz"
  have "group_of (map table_row rows) ''A'' system n sz = Inr (map table_row (filter ?P rows))"
    unfolding group_of_def
    by (rule rfilter_map) (simp add: assms field_is_row int_is_row rand_Inr)
  moreover have "cell_values ''propagation_s'' (map table_row (filter ?P rows)) = Inr (durations rows system n sz)"
    unfolding durations_def by (rule measured_cell_values) (use assms in \<open>auto simp: metrics_def\<close>)
  moreover have "median [] = Inl StatisticsError"
    by (simp add: median_def)
  ultimately show ?thesis
    using median_total [of "durations rows system n sz"]
    by (auto simp: median_of_def median_opt_def)
qed

definition sizes_at :: "pyrow list \<Rightarrow> int \<Rightarrow> int list" where
  "sizes_at rows n = sorted_set (map (\<lambda>r. row_int r ''size_bytes'') (filter (\<lambda>r. row_str r ''experiment'' = ''A'' \<and>
     row_str r ''system'' = ''syncfs'' \<and> row_int r ''nodes'' = n) rows))"

lemma measured_sizes_rows:
  assumes "\<And>r. r \<in> set rows \<Longrightarrow> measured r"
  shows "measured_sizes (map table_row rows) n = Inr (sizes_at rows n)"
proof -
  let ?P = "\<lambda>r. row_str r ''experiment'' = ''A'' \<and> row_str r ''system'' = ''syncfs'' \<and> row_int r ''nodes'' = n"
  let ?p = "\<lambda>r. rand (field_is ''experiment'' ''A'' r) (rand (field_is ''system'' ''syncfs'' r) (int_is ''nodes'' n r))"
  have "rfilter ?p (map table_row rows) = Inr (map table_row (filter ?P rows))"
    by (rule rfilter_map) (simp add: assms field_is_row int_is_row rand_Inr)
  moreover have "rmap (\<lambda>r. int_field r ''size_bytes'') (map table_row (filter ?P rows)) =
      Inr (map (\<lambda>r. row_int r ''size_bytes'') (filter ?P rows))"
    unfolding rmap_map by (rule rmap_Inr) (use assms in \<open>auto simp: measured_int\<close>)
  ultimately show ?thesis
    by (simp add: measured_sizes_def sizes_at_def)
qed

definition verdict_of :: "scenario_line \<Rightarrow> string" where
  "verdict_of l = snd (snd (snd l))"

definition nearest_size :: "int list \<Rightarrow> int" where
  "nearest_size ss = hd (sort_key (\<lambda>s. \<bar>s - 10 * kib\<bar>) ss)"

lemma nearest_size_min:
  assumes "ss \<noteq> []"
  shows "nearest_size ss \<in> set ss" and "s \<in> set ss \<Longrightarrow> \<bar>nearest_size ss - 10 * kib\<bar> \<le> \<bar>s - 10 * kib\<bar>"
proof -
  let ?f = "\<lambda>s. \<bar>s - 10 * kib\<bar>"
  obtain x xs where x: "sort_key ?f ss = x # xs"
    using assms by (cases "sort_key ?f ss") (auto dest: arg_cong [where f = length])
  then have "set ss = set (x # xs)" "sorted (map ?f (x # xs))"
    by (metis set_sort) (metis sorted_sort_key x)
  then show "nearest_size ss \<in> set ss" "s \<in> set ss \<Longrightarrow> ?f (nearest_size ss) \<le> ?f s"
    by (auto simp: nearest_size_def x)
qed

lemma verdict_met: "verdict x b = ''met'' \<longleftrightarrow> (\<exists>m. x = Some m \<and> m \<le> b)"
  by (auto simp: verdict_def split: option.split)

lemma median_opt_Some: "median_opt vs = Some m \<longleftrightarrow> median vs = Inr m"
  by (auto simp: median_opt_def split: sum.split)

lemma small_line_rows:
  assumes "\<And>r. r \<in> set rows \<Longrightarrow> measured r" and "0 \<notin> set (sizes_at rows 10)"
  shows "\<exists>l. small_line (map table_row rows) = Inr l \<and>
    (verdict_of l = ''met'' \<longleftrightarrow> sizes_at rows 10 \<noteq> [] \<and>
      (\<exists>m. median (durations rows ''syncfs'' 10 (nearest_size (sizes_at rows 10))) = Inr m \<and> m \<le> 5))"
proof (cases "sizes_at rows 10 = []")
  case True
  then show ?thesis
    using assms(1) by (simp add: small_line_def measured_sizes_rows median_at_def verdict_of_def verdict_met)
next
  case False
  then have "nearest_size (sizes_at rows 10) \<noteq> 0"
    using assms(2) nearest_size_min(1) by metis
  then show ?thesis
    using assms(1) False
    by (simp add: small_line_def measured_sizes_rows median_at_def verdict_of_def verdict_met median_of_rows
        median_opt_Some flip: nearest_size_def)
qed

lemma big_line_rows:
  assumes "\<And>r. r \<in> set rows \<Longrightarrow> measured r"
  shows "\<exists>l. big_line (map table_row rows) = Inr l \<and>
    (verdict_of l = ''met'' \<longleftrightarrow> (\<exists>m. median (durations rows ''syncfs'' 10 gib) = Inr m \<and> m \<le> 120))"
  using assms by (simp add: big_line_def median_of_rows verdict_of_def verdict_met median_opt_Some)

definition common_sizes :: "pyrow list \<Rightarrow> int list" where
  "common_sizes rows = filter (\<lambda>s. s \<in> set (sizes_at rows 20)) (sizes_at rows 10)"

lemma ratio_of_less:
  "(case ratio_of x y of None \<Rightarrow> False | Some r \<Rightarrow> r < 2) \<longleftrightarrow>
   (\<exists>a b. x = Some a \<and> y = Some b \<and> a \<noteq> 0 \<and> b \<noteq> 0 \<and> b / a < 2)"
  by (auto simp: ratio_of_def split: option.splits)

lemma growth_line_rows:
  assumes "\<And>r. r \<in> set rows \<Longrightarrow> measured r" and "0 \<notin> set (sizes_at rows 10)"
  shows "\<exists>l. growth_line (map table_row rows) = Inr l \<and>
    (verdict_of l = ''met'' \<longleftrightarrow> common_sizes rows \<noteq> [] \<and>
      (\<exists>a b. median (durations rows ''syncfs'' 10 (Max (set (common_sizes rows)))) = Inr a \<and>
        median (durations rows ''syncfs'' 20 (Max (set (common_sizes rows)))) = Inr b \<and>
        a \<noteq> 0 \<and> b \<noteq> 0 \<and> b / a < 2))"
proof -
  let ?ten = "sizes_at rows 10"
  have sub: "set (common_sizes rows) \<subseteq> set ?ten"
    by (auto simp: common_sizes_def)
  have both: "filter (\<lambda>s. s \<in> set (if ?ten = [] then [] else sizes_at rows 20)) ?ten = common_sizes rows"
    by (simp add: common_sizes_def)
  have sizes: "(if ?ten = [] then Inr [] else Inr (sizes_at rows 20)) =
      (Inr (if ?ten = [] then [] else sizes_at rows 20) :: int list res)"
    by simp
  let ?L = "if common_sizes rows = [] then None else Some (Max (set (common_sizes rows)))"
  have median: "median_at (map table_row rows) n ?L =
      Inr (if common_sizes rows = [] then None else median_opt (durations rows ''syncfs'' n (Max (set (common_sizes rows)))))" for n
  proof (cases "common_sizes rows = []")
    case False
    then have "Max (set (common_sizes rows)) \<in> set ?ten"
      using Max_in [of "set (common_sizes rows)"] sub by blast
    then have "Max (set (common_sizes rows)) \<noteq> 0"
      using assms(2) by metis
    then show ?thesis
      using False assms(1) by (simp add: median_at_def median_of_rows)
  qed (simp add: median_at_def)
  let ?m = "\<lambda>n. if common_sizes rows = [] then None else median_opt (durations rows ''syncfs'' n (Max (set (common_sizes rows))))"
  obtain l where l: "growth_line (map table_row rows) = Inr l"
    "verdict_of l = (case ratio_of (?m 10) (?m 20) of None \<Rightarrow> ''---'' | Some r \<Rightarrow> if r < 2 then ''met'' else ''not met'')"
    by (rule that, simp only: growth_line_def measured_sizes_rows [OF assms(1)] rbind_simps sizes Let_def both median)
      (simp add: verdict_of_def split: option.split)
  have "verdict_of l = ''met'' \<longleftrightarrow> (case ratio_of (?m 10) (?m 20) of None \<Rightarrow> False | Some r \<Rightarrow> r < 2)"
    by (simp add: l(2) split: option.split)
  then show ?thesis
    using l(1) unfolding ratio_of_less by (auto simp: median_opt_Some split: if_splits)
qed

lemma bounded_line_rows:
  assumes "\<And>r. r \<in> set rows \<Longrightarrow> measured r"
  shows "\<exists>l. bounded_line (map table_row rows) = Inr l \<and>
    (verdict_of l = ''met'' \<longleftrightarrow> (\<forall>r \<in> set rows. row_str r ''system'' = ''syncfs'' \<longrightarrow>
      row_str r ''experiment'' \<in> {''A'', ''B''} \<longrightarrow> row_converged r))"
proof -
  let ?P = "\<lambda>e r. row_str r ''experiment'' = e \<and> row_str r ''system'' = ''syncfs''"
  have sel: "rfilter (\<lambda>r. rand (field_is ''experiment'' e r) (field_is ''system'' ''syncfs'' r)) (map table_row rows) =
      Inr (map table_row (filter (?P e) rows))" for e
    by (rule rfilter_map) (simp add: assms field_is_row rand_Inr)
  have bad: "count_bad (map table_row (filter (?P e) rows)) =
      Inr (length (filter (\<lambda>r. \<not> row_converged r) (filter (?P e) rows)))" for e
    using assms by (intro measured_count_bad) simp
  show ?thesis
    unfolding bounded_line_def sel rbind_simps bad
    by (auto simp: verdict_of_def filter_empty_conv)
qed

text \<open>
  C27. The verdicts are what the measurements say: the small-file requirement is met exactly when the
  median at ten nodes of the measured size nearest to 10 KiB is at most 5 s, the big-file one when that
  of 1 GiB is at most 120 s, the growth one when at the largest size measured at both ten and twenty
  nodes the ratio of the medians is below 2, and convergence is called bounded exactly when every
  syncfs run of experiments A and B converged.
\<close>

theorem verdicts_are_earned:
  assumes "\<And>r. r \<in> set rows \<Longrightarrow> measured r" and "0 \<notin> set (sizes_at rows 10)"
  shows "\<exists>a b c d. scenario_lines (map table_row rows) = Inr [a, b, c, d] \<and>
    (verdict_of a = ''met'' \<longleftrightarrow> sizes_at rows 10 \<noteq> [] \<and>
      (\<exists>m. median (durations rows ''syncfs'' 10 (nearest_size (sizes_at rows 10))) = Inr m \<and> m \<le> 5)) \<and>
    (verdict_of b = ''met'' \<longleftrightarrow> (\<exists>m. median (durations rows ''syncfs'' 10 gib) = Inr m \<and> m \<le> 120)) \<and>
    (verdict_of c = ''met'' \<longleftrightarrow> common_sizes rows \<noteq> [] \<and>
      (\<exists>x y. median (durations rows ''syncfs'' 10 (Max (set (common_sizes rows)))) = Inr x \<and>
        median (durations rows ''syncfs'' 20 (Max (set (common_sizes rows)))) = Inr y \<and>
        x \<noteq> 0 \<and> y \<noteq> 0 \<and> y / x < 2)) \<and>
    (verdict_of d = ''met'' \<longleftrightarrow> (\<forall>r \<in> set rows. row_str r ''system'' = ''syncfs'' \<longrightarrow>
      row_str r ''experiment'' \<in> {''A'', ''B''} \<longrightarrow> row_converged r))"
proof -
  obtain a where a: "small_line (map table_row rows) = Inr a"
    "verdict_of a = ''met'' \<longleftrightarrow> sizes_at rows 10 \<noteq> [] \<and>
      (\<exists>m. median (durations rows ''syncfs'' 10 (nearest_size (sizes_at rows 10))) = Inr m \<and> m \<le> 5)"
    using small_line_rows [OF assms] by blast
  obtain b where b: "big_line (map table_row rows) = Inr b"
    "verdict_of b = ''met'' \<longleftrightarrow> (\<exists>m. median (durations rows ''syncfs'' 10 gib) = Inr m \<and> m \<le> 120)"
    using big_line_rows [OF assms(1)] by blast
  obtain c where c: "growth_line (map table_row rows) = Inr c"
    "verdict_of c = ''met'' \<longleftrightarrow> common_sizes rows \<noteq> [] \<and>
      (\<exists>x y. median (durations rows ''syncfs'' 10 (Max (set (common_sizes rows)))) = Inr x \<and>
        median (durations rows ''syncfs'' 20 (Max (set (common_sizes rows)))) = Inr y \<and>
        x \<noteq> 0 \<and> y \<noteq> 0 \<and> y / x < 2)"
    using growth_line_rows [OF assms] by blast
  obtain d where d: "bounded_line (map table_row rows) = Inr d"
    "verdict_of d = ''met'' \<longleftrightarrow> (\<forall>r \<in> set rows. row_str r ''system'' = ''syncfs'' \<longrightarrow>
      row_str r ''experiment'' \<in> {''A'', ''B''} \<longrightarrow> row_converged r)"
    using bounded_line_rows [OF assms(1)] by blast
  have "scenario_lines (map table_row rows) = Inr [a, b, c, d]"
    by (simp add: scenario_lines_def a(1) b(1) c(1) d(1))
  then show ?thesis
    using a(2) b(2) c(2) d(2) by blast
qed

section \<open>Rows of cells that were watched\<close>

definition arrivals_json :: "records \<Rightarrow> jobj" where
  "arrivals_json recs =
     map (\<lambda>(n, v). (n, case v of None \<Rightarrow> JNull | Some x \<Rightarrow> JFloat (py_round x 4))) (arrivals_of recs)"

abbreviation cell_row ::
  "string \<Rightarrow> string \<Rightarrow> string \<Rightarrow> int \<Rightarrow> int \<Rightarrow> int \<Rightarrow> int \<Rightarrow> rat \<Rightarrow> cluster_info \<Rightarrow> records \<Rightarrow> string \<Rightarrow> rat \<Rightarrow> rat \<Rightarrow> pyrow" where
  "cell_row e system config n z fc i t1 info recs writer t0 load \<equiv>
     label_cell e system config n z fc i t1 (finish_row info recs writer t0 load)"

lemma cell_row_arrivals:
  "row_get (cell_row e system config n z fc i t1 info recs writer t0 load) ''arrivals'' = PStr (json_dumps (arrivals_json recs))"
proof -
  have "row_get (cell_row e system config n z fc i t1 info recs writer t0 load) ''arrivals'' =
      row_get (summarise recs writer t0) ''arrivals''"
    by (rule label_cell_other) simp
  then show ?thesis
    by (simp add: summarise_def Let_def row_get_def arrivals_json_def)
qed

lemma cell_row_load:
  "row_get (cell_row e system config n z fc i t1 info recs writer t0 load) ''loadavg'' = PFloat (py_round load 2)"
  by (simp add: label_cell_def finish_row_def row_update_def row_get_def)

lemma decimal_round_2: "0 \<le> x \<Longrightarrow> decimal_float (py_round x 2)"
proof -
  assume "0 \<le> x"
  have "(py_round x 2 * 10 ^ 2) * 10 ^ 15 \<in> \<int>"
    by (rule Ints_mult) (simp_all add: py_round_def)
  then show ?thesis
    using py_round_nonneg [OF \<open>0 \<le> x\<close>, of 2] by (simp add: decimal_float_def mult.assoc)
qed

lemma arrivals_json_ok:
  assumes "distinct (dict_keys recs)" and "\<And>n r x. (n, r) \<in> set recs \<Longrightarrow> elapsed r = Some x \<Longrightarrow> 0 \<le> x"
  shows "jobj_ok (arrivals_json recs)"
proof -
  have "map fst (arrivals_json recs) = dict_keys recs"
    by (simp add: arrivals_json_def arrivals_of_def comp_def split_def)
  moreover have "jval_ok (snd kv)" if "kv \<in> set (arrivals_json recs)" for kv
    using that assms(2) by (fastforce simp: arrivals_json_def arrivals_of_def decimal_round split: option.splits)
  ultimately show ?thesis
    using assms(1) by (simp add: jobj_ok_def list_all_iff)
qed

lemma cell_row_recorded:
  assumes "watch fuel w sha nodes tree sz cnt interval deadline t0 k = Inr (recs, out, k')"
    and "distinct (dict_keys nodes)" and "\<And>j. t0 \<le> clock w j"
    and "system \<in> set (dict_keys system_label)" and "0 \<le> load"
  shows "recorded (cell_row e system config n z fc i t1 info recs writer t0 load)"
proof -
  have el: "\<And>n r x. (n, r) \<in> set recs \<Longrightarrow> elapsed r = Some x \<Longrightarrow> 0 \<le> x"
    by (rule watched_elapsed [OF assms(1-3)])
  have "jobj_ok (arrivals_json recs)"
    using conjunct1 [OF watch_keys [OF assms(1,2)]] el by (rule arrivals_json_ok)
  then show ?thesis
    unfolding recorded_def
    using cell_row_measured [OF el] assms(4) decimal_round_2 [OF assms(5)]
    by (auto simp: cell_row_arrivals cell_row_load row_str_def label_cell_fields)
qed

lemma missing_of_arrivals:
  assumes "\<And>n r. (n, r) \<in> set recs \<Longrightarrow> elapsed r = None \<longleftrightarrow> arrived_at r = None"
  shows "missing_of (arrivals_json recs) = map fst (filter (\<lambda>(_, r). arrived_at r = None) recs)"
  using assms
proof (induction recs)
  case (Cons nr recs)
  obtain n r where nr: "nr = (n, r)" by (cases nr)
  have "elapsed r = None \<longleftrightarrow> arrived_at r = None"
    using Cons.prems [of n r] nr by simp
  moreover have "missing_of (arrivals_json recs) = map fst (filter (\<lambda>(_, r). arrived_at r = None) recs)"
    using Cons.IH Cons.prems [OF list.set_intros(2)] by blast
  moreover have "missing_of (arrivals_json (nr # recs)) =
      (if elapsed r = None then [n] else []) @ missing_of (arrivals_json recs)"
    by (cases "elapsed r") (simp_all add: nr missing_of_def arrivals_json_def arrivals_of_def)
  ultimately show ?case
    by (simp add: nr)
qed (simp add: missing_of_def arrivals_json_def arrivals_of_def)

lemma watch_elapsed_arrived:
  assumes "watch fuel w sha nodes tree sz cnt interval deadline t0 k = Inr (recs, out, k')"
    and "distinct (dict_keys nodes)" and "(n, r) \<in> set recs"
  shows "elapsed r = None \<longleftrightarrow> arrived_at r = None"
proof -
  have "map_of recs n = Some r"
    using watch_keys [OF assms(1,2)] assms(3) by simp
  from watch_record [OF assms(1,2) this] show ?thesis
    by (auto simp: record_ok_def)
qed

text \<open>
  C31. The table of missed deadlines names the nodes that did not get the payload: for the row of a
  watched cell it shows the cell's experiment, node count and deadline, and the nodes listed, read back
  out of the JSON of the results file, are exactly those the watch saw no arrival on.
\<close>

theorem missed_nodes_are_named:
  assumes "watch fuel w sha nodes tree sz cnt interval deadline t0 k = Inr (recs, out, k')"
    and "distinct (dict_keys nodes)" and "\<And>j. t0 \<le> clock w j"
    and "system \<in> set (dict_keys system_label)" and "0 \<le> load"
  shows "\<exists>label payload.
    outcome_of (table_row (cell_row e system config n z fc i t1 info recs writer t0 load)) =
      Inr (e, label, n, payload, tex_deadline (Some e) z,
           missing_detail (map fst (filter (\<lambda>(_, r). arrived_at r = None) recs)))"
proof -
  let ?row = "cell_row e system config n z fc i t1 info recs writer t0 load"
  have rec: "recorded ?row"
    by (rule cell_row_recorded [OF assms])
  have "jobj_ok (arrivals_json recs)"
    using conjunct1 [OF watch_keys [OF assms(1,2)]] watched_elapsed [OF assms(1-3)] by (rule arrivals_json_ok)
  then have "arrivals_in ?row = arrivals_json recs"
    by (simp add: arrivals_in_def row_str_def cell_row_arrivals json_loads_dumps)
  moreover have "missing_of (arrivals_json recs) = map fst (filter (\<lambda>(_, r). arrived_at r = None) recs)"
    using watch_elapsed_arrived [OF assms(1,2)] by (rule missing_of_arrivals)
  ultimately show ?thesis
    using outcome_of_row [OF rec]
    by (simp add: outcome_row_def deadline_of_def row_str_def row_int_def label_cell_fields)
qed

lemma none_arrived:
  assumes "watch fuel w sha nodes tree sz cnt interval deadline t0 k = Inr (recs, out, k')"
    and "distinct (dict_keys nodes)" and "\<And>j. t0 \<le> clock w j" and "nodes \<noteq> []"
    and "list_all (\<lambda>(_, r). arrived_at r = None) recs"
  shows "fmt [table_row (cell_row e system config n z fc i t1 info recs writer t0 load)] ''propagation_s'' None =
    Inr (''$>'' @ fixed 0 (tex_deadline (Some e) z) @ ''$'' @ dagger_count 1)"
proof -
  let ?row = "cell_row e system config n z fc i t1 info recs writer t0 load"
  have m: "measured ?row"
    by (rule cell_row_measured) (rule watched_elapsed [OF assms(1-3)])
  have gone: "elapsed r = None" if "(n, r) \<in> set recs" for n r
    using that assms(5) watch_elapsed_arrived [OF assms(1,2) that] by (auto simp: list_all_iff)
  then have "arrived_values recs = []"
    using arrived_values_set [of _ recs] by (metis last_in_set option.distinct(1))
  then have vals: "row_values ''propagation_s'' ?row = []"
    by (simp add: row_values_summary last_of_def opt_list_def)
  have "recs \<noteq> []"
    using watch_keys [OF assms(1,2)] assms(4) by (cases nodes) auto
  then obtain n0 r0 where "(n0, r0) \<in> set recs"
    by (cases recs) auto
  then have "\<not> list_all (\<lambda>(_, r). elapsed r \<noteq> None) recs"
    using gone by (fastforce simp: list_all_iff)
  then have bad: "\<not> row_converged ?row"
    by (simp add: row_converged_def label_cell_other summarise_fields)
  have med: "median [] = Inl StatisticsError"
    by (simp add: median_def)
  have "fmt (map table_row [?row]) ''propagation_s'' None = Inr (cell_text ''propagation_s'' [?row])"
    using m by (intro fmt_rows) (simp_all add: metrics_def)
  then show ?thesis
    using vals bad by (simp add: cell_text_def Let_def med row_str_def row_int_def label_cell_fields)
qed

text \<open>
  The bound printed for a cell nobody received is the deadline the cell was given: the tables'
  \<open>deadline_for\<close> and the driver's agree, for a single file of any size and for a tree of small files.
\<close>

theorem shown_deadline_was_watched:
  assumes "tree \<longrightarrow> e = ''B'' \<and> z = small_file \<and> deadline = 900"
    and "\<not> tree \<longrightarrow> e = ''A'' \<and> z = sz \<and> deadline = deadline_for sz n"
    and "watch fuel w sha nodes tree sz cnt interval deadline t0 k = Inr (recs, out, k')"
    and "distinct (dict_keys nodes)" and "\<And>j. t0 \<le> clock w j" and "nodes \<noteq> []"
    and "list_all (\<lambda>(_, r). arrived_at r = None) recs"
  shows "fmt [table_row (cell_row e system config n z fc i t1 info recs writer t0 load)] ''propagation_s'' None =
    Inr (''$>'' @ fixed 0 deadline @ ''$'' @ dagger_count 1)"
proof -
  have "tex_deadline (Some e) z = deadline"
    using assms(1,2) by (cases tree) (simp_all add: tex_deadline_def deadline_for_def)
  then show ?thesis
    using none_arrived [OF assms(3-7)] by simp
qed

section \<open>The program returns\<close>

definition returns :: "(printed, 'a) prog \<Rightarrow> 'a \<Rightarrow> bool" where
  "returns m x \<longleftrightarrow> (\<forall>p. \<exists>q. m p = (Inr x, q) \<and> printed_more p q)"

lemma printed_more_upd: "printed_more p (p(h := p h @ ls))"
  by (simp add: printed_more_def)

lemma returns_prints: "prints m h x ls \<Longrightarrow> returns m x"
  unfolding returns_def prints_def using printed_more_upd by metis

lemma returns_ret: "returns (pret x) x"
  using returns_prints [OF prints_ret] .

lemma returns_bind: "returns m x \<Longrightarrow> returns (f x) y \<Longrightarrow> returns (pbind m f) y"
  unfolding returns_def pbind_def by (metis (no_types, lifting) case_prod_conv printing.leq_trans sum.case(2))

lemma returns_lift: "\<exists>x. r = Inr x \<Longrightarrow> (\<And>x. r = Inr x \<Longrightarrow> returns (f x) y) \<Longrightarrow> returns (pbind (plift r) f) y"
  unfolding returns_def pbind_def by auto

lemma returns_lift_eq: "r = Inr x \<Longrightarrow> returns (f x) y \<Longrightarrow> returns (pbind (plift r) f) y"
  by (rule returns_lift) auto

lemma returns_seq: "returns m () \<Longrightarrow> returns (f ()) y \<Longrightarrow> returns (pbind m f) y"
  by (rule returns_bind)

lemma returns_for: "(\<And>x. x \<in> set xs \<Longrightarrow> returns (f x) ()) \<Longrightarrow> returns (pfor xs f) ()"
  by (induction xs) (auto intro: returns_ret returns_bind)

lemma returns_emits: "returns (emits h ls) ()" "returns (emit h l) ()"
  using returns_prints [OF prints_emits] returns_prints [OF prints_emit] by blast+

lemma measured_sub: "\<lbrakk>\<And>r. r \<in> set rows \<Longrightarrow> measured r\<rbrakk> \<Longrightarrow> r \<in> set (filter P rows) \<Longrightarrow> measured r"
  by simp

lemma median_of_total:
  assumes "\<And>r. r \<in> set rows \<Longrightarrow> measured r" and "metric \<in> set metrics"
  shows "\<exists>x. median_of (map table_row rows) e system n sz metric = Inr x"
proof -
  let ?P = "\<lambda>r. row_str r ''experiment'' = e \<and> row_str r ''system'' = system \<and> row_int r ''nodes'' = n \<and>
    row_int r ''size_bytes'' = sz"
  have "group_of (map table_row rows) e system n sz = Inr (map table_row (filter ?P rows))"
    unfolding group_of_def
    by (rule rfilter_map) (simp add: assms(1) field_is_row int_is_row rand_Inr)
  moreover obtain vs where "cell_values metric (map table_row (filter ?P rows)) = Inr vs"
    using measured_cell_values [of "filter ?P rows" metric] assms by auto
  ultimately show ?thesis
    using median_total [of vs] by (auto simp: median_of_def)
qed

lemma median_at_total:
  assumes "\<And>r. r \<in> set rows \<Longrightarrow> measured r"
  shows "\<exists>x. median_at (map table_row rows) n s = Inr x"
  using median_of_total [OF assms, where metric = "''propagation_s''"]
  by (auto simp: median_at_def metrics_def split: option.split)

lemma scenario_lines_total:
  assumes "\<And>r. r \<in> set rows \<Longrightarrow> measured r"
  shows "\<exists>ls. scenario_lines (map table_row rows) = Inr ls"
proof -
  have at: "\<exists>x. median_at (map table_row rows) n s = Inr x" for n s
    by (rule median_at_total [OF assms])
  have sizes: "measured_sizes (map table_row rows) n = Inr (sizes_at rows n)" for n
    by (rule measured_sizes_rows [OF assms])
  have "\<exists>l. small_line (map table_row rows) = Inr l"
    unfolding small_line_def sizes rbind_simps Let_def rbind_Inr_iff using at by blast
  moreover have "\<exists>l. growth_line (map table_row rows) = Inr l"
  proof -
    obtain twenty where "(if sizes_at rows 10 = [] then Inr [] else Inr (sizes_at rows 20)) = (Inr twenty :: int list res)"
      by (cases "sizes_at rows 10 = []") simp_all
    then show ?thesis
      unfolding growth_line_def sizes rbind_simps Let_def rbind_Inr_iff using at by blast
  qed
  ultimately show ?thesis
    using big_line_rows [OF assms] bounded_line_rows [OF assms] unfolding scenario_lines_def rbind_Inr_iff by blast
qed

lemma macros_returns:
  assumes "\<And>r. r \<in> set rows \<Longrightarrow> measured r"
  shows "returns (macros h (map table_row rows)) ()"
proof -
  have total: "\<exists>x. median_of (map table_row rows) e system n sz m = Inr x" if "m \<in> set metrics" for e system n sz m
    using median_of_total [OF assms that] .
  have scale: "\<exists>x. scaling (map table_row rows) sz = Inr x" for sz
  proof -
    obtain x y where "median_of (map table_row rows) ''A'' ''syncfs'' 10 sz ''propagation_s'' = Inr x"
      "median_of (map table_row rows) ''A'' ''syncfs'' 20 sz ''propagation_s'' = Inr y"
      using total [of "''propagation_s''"] by (simp add: metrics_def) metis
    then show ?thesis
      by (simp add: scaling_def)
  qed
  have "\<exists>x. v = Inr x" if "(n, d, v) \<in> set (macro_list (map table_row rows))" for n d v
    using that scale total by (auto simp: macro_list_def Let_def metrics_def)
  then have "returns (define_macro h m) ()" if "m \<in> set (macro_list (map table_row rows))" for m
    using that unfolding define_macro_def
    by (cases m) (auto intro!: returns_lift returns_ret returns_emits split: option.split)
  then show ?thesis
    unfolding macros_def by (intro returns_seq returns_for returns_emits)
qed

lemma baseline_returns:
  assumes rec: "\<And>r. r \<in> set rows \<Longrightarrow> recorded r"
  shows "returns (baseline_table h (map table_row rows)) ()"
proof -
  let ?C = "filter (\<lambda>r. row_str r ''experiment'' = ''C'') rows"
  let ?A = "filter (\<lambda>r. row_str r ''experiment'' = ''A'' \<and> row_int r ''nodes'' = 2) rows"
  have c: "rfilter (field_is ''experiment'' ''C'') (map table_row rows) = Inr (map table_row ?C)"
    by (rule rfilter_map) (simp add: rec recorded_measured field_is_row)
  have a: "rfilter (\<lambda>r. rand (field_is ''experiment'' ''A'' r) (int_is ''nodes'' 2 r)) (map table_row rows) =
      Inr (map table_row ?A)"
    by (rule rfilter_map) (simp add: rec recorded_measured field_is_row int_is_row rand_Inr)
  obtain plain where plain: "group_by (\<lambda>r. int_field r ''size_bytes'') (map table_row ?C) = Inr plain"
    "\<And>k. map_of plain k = (if k \<in> (\<lambda>r. row_int r ''size_bytes'') ` set ?C
      then Some (map table_row (rows_of (\<lambda>r. row_int r ''size_bytes'') k ?C)) else None)"
    using group_by_rows [of ?C "\<lambda>r. int_field r ''size_bytes''" "\<lambda>r. row_int r ''size_bytes''"]
    by (auto simp: rec recorded_measured measured_int)
  obtain ingest where ingest: "group_by ingest_key (map table_row ?A) = Inr ingest"
    "\<And>k. map_of ingest k = (if k \<in> (\<lambda>r. (arm_of r, row_int r ''size_bytes'')) ` set ?A
      then Some (map table_row (rows_of (\<lambda>r. (arm_of r, row_int r ''size_bytes'')) k ?A)) else None)"
    using group_by_rows [of ?A ingest_key "\<lambda>r. (arm_of r, row_int r ''size_bytes'')"]
    by (auto simp: rec recorded_measured measured_int ingest_key_def arm_row)
  have cell: "\<exists>x. cell_or_missing (if k \<in> f ` set g then Some (map table_row (rows_of f k g)) else None) = Inr x"
    if "set g \<subseteq> set rows" for g k and f :: "pyrow \<Rightarrow> 'k"
  proof (cases "k \<in> f ` set g")
    case True
    then have "rows_of f k g \<noteq> []"
      by (auto simp: rows_of_def filter_empty_conv)
    moreover have "measured r" if "r \<in> set (rows_of f k g)" for r
      using that \<open>set g \<subseteq> set rows\<close> rec by (auto simp: rows_of_def recorded_measured)
    ultimately show ?thesis
      using True fmt_rows [of "rows_of f k g" "''ingest_s''"] by (simp add: cell_or_missing_def metrics_def)
  qed (simp add: cell_or_missing_def)
  have row: "\<exists>x. baseline_row plain ingest arms s = Inr x" for arms s
  proof -
    obtain x where "cell_or_missing (map_of plain s) = Inr x"
      using cell [of ?C s "\<lambda>r. row_int r ''size_bytes''"] by (auto simp: plain(2))
    moreover have "\<exists>y. cell_or_missing (map_of ingest (b, s)) = Inr y" for b
      using cell [of ?A "(b, s)" "\<lambda>r. (arm_of r, row_int r ''size_bytes'')"] by (simp only: ingest(2)) auto
    then obtain y where "\<And>b. cell_or_missing (map_of ingest (b, s)) = Inr (y b)"
      by metis
    then have "rmap (\<lambda>b. cell_or_missing (map_of ingest (b, s))) arms = Inr (map y arms)"
      by (intro rmap_Inr)
    ultimately show ?thesis
      by (simp add: baseline_row_def)
  qed
  show ?thesis
    unfolding baseline_table_def Let_def
    by (rule returns_lift_eq [OF c], rule returns_lift_eq [OF plain(1)], rule returns_lift_eq [OF a],
        rule returns_lift_eq [OF ingest(1)], intro returns_seq returns_for returns_emits returns_lift row)
qed

lemma environment_returns:
  assumes rec: "\<And>r. r \<in> set rows \<Longrightarrow> recorded r"
  shows "returns (environment_note h (map table_row rows) dropped) ()"
proof -
  have look: "lookup (table_row r) k = Inr (Some (csv_text (row_get r k)))" if "k \<in> set result_fields" for r k
    using that by (rule lookup_table_row)
  have nofile: "\<exists>x. field_values ''nofile'' (map table_row rows) = Inr x"
    using rmap_Inr [of rows "(\<lambda>r. lookup r ''nofile'') \<circ> table_row" "\<lambda>r. Some (csv_text (row_get r ''nofile''))"]
    by (simp add: field_values_def rmap_map look)
  have "value_ok ''loadavg'' (table_row r)" if "r \<in> set rows" for r
    using rec [OF that] float_of_str_repr [of _ 17]
    by (auto simp: value_ok_def look recorded_def decimal_float_def)
  then have loads: "\<exists>x. cell_values ''loadavg'' (map table_row rows) = Inr x"
    using cell_values_ok [of "map table_row rows" "''loadavg''"] by auto
  define key where "key = (\<lambda>r. map (\<lambda>k. Some (csv_text (row_get r k)))
      [''experiment'', ''system'', ''config'', ''nodes'', ''size_bytes'', ''file_count''])"
  have "repeat_key (table_row r) = Inr (key r)" for r
    unfolding repeat_key_def key_def by (rule rmap_Inr) (auto intro!: look)
  then have repeats: "\<exists>x. tally_by repeat_key (map table_row rows) = Inr x"
    using tally_by_rows [of rows repeat_key key] by blast
  show ?thesis
    unfolding environment_note_def by (intro returns_lift nofile loads repeats returns_emits)
qed

lemma rows_returns:
  assumes rec: "\<And>r. r \<in> set rows \<Longrightarrow> recorded r"
  shows "returns (tex_tables (map table_row rows)) ()"
proof -
  have m: "\<And>r. r \<in> set rows \<Longrightarrow> measured r"
    using rec by (rule recorded_measured)
  have exp: "rfilter (field_is ''experiment'' e) (map table_row rows) =
      Inr (map table_row (filter (\<lambda>r. row_str r ''experiment'' = e) rows))" for e
    by (rule rfilter_map) (simp add: m field_is_row)
  have some: "rany (field_is ''experiment'' e) (map table_row rows) = Inr (\<exists>r \<in> set rows. row_str r ''experiment'' = e)" for e
    by (rule rany_map) (simp add: m field_is_row)
  have grid: "returns (grid_table h what fld shw (map table_row (filter P rows)) metric short caption label) ()"
    if "metric \<in> set metrics" "fld \<in> {''size_bytes'', ''file_count''}" for h what fld shw P metric short caption label
    by (rule returns_prints, rule grid_table_prints [OF _ that]) (use rec in simp)
  have matrix: "returns (matrix_table Out (map table_row (filter P rows)) metric short caption label) ()"
    if "metric \<in> set metrics" for P metric short caption label
    unfolding matrix_table_def using that by (intro grid) simp_all
  have tree: "returns (tree_table Out (map table_row (filter P rows)) short caption label) ()" for P short caption label
    unfolding tree_table_def by (intro grid) (simp_all add: metrics_def)
  have scenario: "returns (scenario_table Out (map table_row rows)) ()"
    unfolding scenario_table_def using scenario_lines_total [OF m] by (intro returns_lift returns_emits)
  have missed: "returns (nonconvergence_note Out (map table_row rows)) ()"
    unfolding returns_def using missed_runs [OF rec refl] printed_more_upd by metis
  have choice: "returns (if b then x else pret ()) ()" "returns (if b then pret () else x) ()" if "returns x ()" for b x
    using that by (simp_all add: returns_ret del: pret_run)
  have metr: "''propagation_s'' \<in> set metrics" "''fanout_s'' \<in> set metrics"
    by (simp_all add: metrics_def)
  show ?thesis
    unfolding tex_tables_def
    by (rule returns_lift_eq [OF exp], rule returns_lift_eq [OF exp],
        intro returns_seq choice matrix metr tree returns_lift_eq [OF some] baseline_returns [OF rec] scenario missed)
qed

lemma drop_arm_rows:
  assumes "\<And>r. r \<in> set rows \<Longrightarrow> measured r"
  shows "drop_arm (map table_row rows) =
    Inr (map table_row (filter (\<lambda>r. \<not> (row_str r ''system'' = ''bucketfs'' \<and> row_str r ''config'' = ''tuned'')) rows),
         map table_row (filter (\<lambda>r. row_str r ''system'' = ''bucketfs'' \<and> row_str r ''config'' = ''tuned'') rows))"
proof -
  have dropped: "is_dropped_arm (table_row r) = Inr (row_str r ''system'' = ''bucketfs'' \<and> row_str r ''config'' = ''tuned'')"
    if "r \<in> set rows" for r
    using assms [OF that] by (simp add: is_dropped_arm_def measured_str)
  show ?thesis
    unfolding drop_arm_def by (subst rfilter_map, simp add: dropped)+ simp
qed

lemma generator_total:
  assumes "\<And>r. r \<in> set (concat tables) \<Longrightarrow> recorded r"
  shows "\<exists>q. tex_main (map results_file tables) macro_file p = (Inr (if concat tables = [] then 1 else 0), q) \<and>
    printed_more p q"
proof (cases "concat tables = []")
  case True
  then have "tex_main (map results_file tables) macro_file = pbind (emit Err ''no rows'') (\<lambda>_. pret 1)"
    unfolding tex_main_def load_results Let_def by simp
  then have "returns (tex_main (map results_file tables) macro_file) 1"
    by (simp only:) (intro returns_seq returns_emits returns_ret)
  then show ?thesis
    unfolding returns_def if_P [OF True] by blast
next
  case False
  let ?P = "\<lambda>r. row_str r ''system'' = ''bucketfs'' \<and> row_str r ''config'' = ''tuned''"
  have kept: "recorded r" if "r \<in> set (filter (\<lambda>r. \<not> ?P r) (concat tables))" for r
    using assms that by (simp del: set_concat)
  have m: "\<And>r. r \<in> set (concat tables) \<Longrightarrow> measured r"
    using assms by (rule recorded_measured)
  have ne: "map table_row (concat tables) \<noteq> []"
    using False by (simp del: concat_eq_Nil_conv)
  have announce: "returns (case macro_file of None \<Rightarrow> pret () | Some f \<Rightarrow> emits Out (ls f)) ()" for ls
    by (cases macro_file) (simp_all add: returns_ret returns_emits del: pret_run)
  let ?kept = "filter (\<lambda>r. \<not> ?P r) (concat tables)"
  have drop: "drop_arm (map table_row (concat tables)) =
      Inr (map table_row ?kept, map table_row (filter ?P (concat tables)))"
    using m by (rule drop_arm_rows)
  have parts: "returns (environment_note h (map table_row ?kept) k) ()" "returns (macros h (map table_row ?kept)) ()"
    "returns (tex_tables (map table_row ?kept)) ()" for h k
    by (rule environment_returns, erule kept, rule macros_returns, rule recorded_measured, erule kept,
        rule rows_returns, erule kept)
  have "returns (tex_main (map results_file tables) macro_file) 0"
    unfolding tex_main_def load_results Let_def if_not_P [OF ne]
    by (rule returns_lift_eq [OF drop], unfold prod.case, intro returns_seq parts announce returns_ret)
  then show ?thesis
    unfolding returns_def if_not_P [OF False] by blast
qed

text \<open>
  C30. The generator does not fail on what the matrix recorded: for results files of recorded rows, in any
  number, it exits with 0 having only added to its outputs, and it exits with 1 exactly when there is
  not a single row.
\<close>

theorem generator_returns:
  assumes "\<And>r. r \<in> set (concat tables) \<Longrightarrow> recorded r"
  shows "\<exists>q. tex_main (map results_file tables) macro_file p = (Inr (if concat tables = [] then 1 else 0), q) \<and>
    printed_more p q"
  using assms by (rule generator_total)

section \<open>Instances\<close>

text \<open>A cell that one of two nodes missed, one that both missed, and a baseline copy.\<close>

definition sample_info :: cluster_info where
  "sample_info = syncfs_info [[], ''r''] 2 None"

definition missed_cell :: pyrow where
  "missed_cell = cell_row ''A'' ''syncfs'' ''default'' 2 1024 1 0 9 sample_info sample_records ''n1'' 0 1"

definition plain_cell :: pyrow where
  "plain_cell = c_row 1024 0 10 (1 / 2) 1"

definition sample_table :: "pyrow list" where
  "sample_table = [missed_cell, plain_cell]"

definition lost_records :: records where
  "lost_records =
     [(''n1'', \<lparr>nr_node = ''n1'', arrived_at = None, nr_sha256 = None,
         verified_at = None, nr_t0 = Some 0, elapsed = None\<rparr>)]"

definition lost_world :: world where
  "lost_world = sample_world\<lparr>clock := \<lambda>k. 1000 * of_nat k\<rparr>"

definition lost_output :: string where
  "lost_output = concat (map (\<lambda>(_, r). record_json r @ [CHR 0x0A]) lost_records)"

lemma lost_run:
  "watch 5 lost_world sample_sha [(''n1'', [[], ''a''])] False (5 * gib) 1 1 1800 0 0 =
    Inr (lost_records, lost_output, 3)"
  by code_simp

lemma lost_clock: "clock lost_world j = 1000 * of_nat j"
  by (simp add: lost_world_def)

definition lost_cell :: pyrow where
  "lost_cell = cell_row ''A'' ''syncfs'' ''default'' 2 (5 * gib) 1 0 9 sample_info lost_records ''n1'' 0 1"

definition lost_tree :: pyrow where
  "lost_tree = cell_row ''B'' ''syncfs'' ''default'' 2 small_file 100 0 9 sample_info lost_records ''n1'' 0 1"

lemma lost_recorded: "recorded lost_cell" "recorded lost_tree"
  unfolding lost_cell_def lost_tree_def
  by (rule cell_row_recorded [OF lost_run]; simp add: lost_clock system_label_def)+

lemma missed_cell_recorded: "recorded missed_cell"
  unfolding missed_cell_def
  by (rule cell_row_recorded [OF sample_watch_run]) (simp_all add: sample_nodes_def sample_clock system_label_def)

lemma plain_cell_recorded: "recorded plain_cell"
proof -
  have "row_get plain_cell ''arrivals'' = PStr (json_dumps [])"
    by (simp add: plain_cell_def c_row_def row_get_def json_dumps_def)
  moreover have "jobj_ok []"
    by (simp add: jobj_ok_def)
  moreover have "row_str plain_cell ''system'' = ''plainfile''"
    "row_get plain_cell ''loadavg'' = PFloat (py_round 1 2)"
    by (simp_all add: plain_cell_def c_row_def row_get_def row_str_def)
  moreover have "measured plain_cell"
    unfolding plain_cell_def by (rule c_row_measured) simp
  ultimately show ?thesis
    using decimal_round_2 [of 1] unfolding recorded_def by (simp add: system_label_def) blast
qed

lemma sample_table_recorded: "\<And>r. r \<in> set sample_table \<Longrightarrow> recorded r"
  using missed_cell_recorded plain_cell_recorded by (auto simp: sample_table_def)

lemma sample_table_member: "missed_cell \<in> set sample_table"
  by (simp add: sample_table_def)

lemma propagation_metric: "''propagation_s'' \<in> set metrics"
  by (simp add: metrics_def)

theorem matrix_table_refines_witness:
  "matrix_table Out (map table_row sample_table) ''propagation_s'' ''s'' ''c'' ''l'' (\<lambda>_. []) =
    (Inr (), (\<lambda>_. [])(Out := (\<lambda>_. []) Out @
      grid_lines ''Size'' ''size_bytes'' tex_human sample_table ''propagation_s'' ''s'' ''c'' ''l''))"
  using sample_table_recorded propagation_metric by (rule matrix_table_refines)

theorem every_row_is_tabulated_witness:
  "\<exists>ls ns cells g i. matrix_table Out (map table_row sample_table) ''propagation_s'' ''s'' ''c'' ''l'' (\<lambda>_. []) =
      (Inr (), (\<lambda>_. [])(Out := (\<lambda>_. []) Out @ ls)) \<and>
    str_join '' & '' cells @ row_end \<in> set ls \<and>
    length cells = length ns + 2 \<and> cells ! 1 = tex_human (row_int missed_cell ''size_bytes'') \<and>
    i < length ns \<and> ns ! i = row_int missed_cell ''nodes'' \<and> missed_cell \<in> set g \<and>
    cells ! (i + 2) = cell_text ''propagation_s'' g"
  using sample_table_recorded propagation_metric
  by (rule every_row_is_tabulated) (simp_all add: sample_table_member)

theorem missed_runs_are_counted_witness:
  "\<exists>ks ls. nonconvergence_note Out (map table_row sample_table) (\<lambda>_. []) = (Inr (), (\<lambda>_. [])(Out := (\<lambda>_. []) Out @ ls)) \<and>
    ls = (if filter (\<lambda>r. \<not> row_converged r) sample_table = [] then []
          else nonconvergence_head @ map (\<lambda>k. outcome_line k (length (rows_of outcome_row k
            (filter (\<lambda>r. \<not> row_converged r) sample_table)))) ks @ nonconvergence_foot) \<and>
    distinct ks \<and> set ks = outcome_row ` set (filter (\<lambda>r. \<not> row_converged r) sample_table) \<and>
    sorted (map outcome_order ks) \<and>
    sum_list (map (\<lambda>k. length (rows_of outcome_row k (filter (\<lambda>r. \<not> row_converged r) sample_table))) ks) =
      length (filter (\<lambda>r. \<not> row_converged r) sample_table)"
  using sample_table_recorded refl by (rule missed_runs_are_counted)

theorem generator_returns_witness:
  "\<exists>q. tex_main (map results_file [sample_table]) (Some ''m.tex'') (\<lambda>_. []) =
      (Inr (if concat [sample_table] = [] then 1 else 0), q) \<and> printed_more (\<lambda>_. []) q"
proof -
  have "recorded r" if "r \<in> set (concat [sample_table])" for r
    using that sample_table_recorded by simp
  then show ?thesis
    by (rule generator_returns)
qed

theorem missed_nodes_are_named_witness:
  "\<exists>label payload. outcome_of (table_row missed_cell) =
      Inr (''A'', label, 2, payload, tex_deadline (Some ''A'') 1024,
           missing_detail (map fst (filter (\<lambda>(_, r). arrived_at r = None) sample_records)))"
  unfolding missed_cell_def
  by (rule missed_nodes_are_named [OF sample_watch_run])
    (simp_all add: sample_nodes_def sample_clock system_label_def)

theorem shown_deadline_was_watched_witness:
  "fmt [table_row lost_cell] ''propagation_s'' None = Inr (''$>'' @ fixed 0 1800 @ ''$'' @ dagger_count 1)"
  unfolding lost_cell_def
  by (rule shown_deadline_was_watched [OF _ _ lost_run])
    (simp_all add: lost_clock deadline_for_def gib_def mib_def kib_def lost_records_def)

theorem macros_defined_once_witness:
  "\<exists>q defs. macros Defs (map table_row sample_table) (\<lambda>_. []) = (Inr (), q) \<and>
    q = (\<lambda>_. [])(Defs := (\<lambda>_. []) Defs @ map (\<lambda>(n, d, x). macro_line n x d) defs @ [[]]) \<and>
    distinct (map fst defs) \<and> list_all (list_all letter) (map fst defs) \<and>
    set defs = {(n, d, x). (n, d, Inr (Some x)) \<in> set (macro_list (map table_row sample_table))}"
proof -
  have "returns (macros Defs (map table_row sample_table)) ()"
    by (rule macros_returns) (rule recorded_measured, erule sample_table_recorded)
  then obtain q where q: "macros Defs (map table_row sample_table) (\<lambda>_. []) = (Inr (), q)"
    unfolding returns_def by blast
  show ?thesis
    using q macros_defined_once [OF q] by blast
qed

theorem verdicts_are_earned_witness:
  "\<exists>a b c d. scenario_lines (map table_row sample_table) = Inr [a, b, c, d] \<and>
    (verdict_of a = ''met'' \<longleftrightarrow> sizes_at sample_table 10 \<noteq> [] \<and>
      (\<exists>m. median (durations sample_table ''syncfs'' 10 (nearest_size (sizes_at sample_table 10))) = Inr m \<and> m \<le> 5)) \<and>
    (verdict_of b = ''met'' \<longleftrightarrow> (\<exists>m. median (durations sample_table ''syncfs'' 10 gib) = Inr m \<and> m \<le> 120)) \<and>
    (verdict_of c = ''met'' \<longleftrightarrow> common_sizes sample_table \<noteq> [] \<and>
      (\<exists>x y. median (durations sample_table ''syncfs'' 10 (Max (set (common_sizes sample_table)))) = Inr x \<and>
        median (durations sample_table ''syncfs'' 20 (Max (set (common_sizes sample_table)))) = Inr y \<and>
        x \<noteq> 0 \<and> y \<noteq> 0 \<and> y / x < 2)) \<and>
    (verdict_of d = ''met'' \<longleftrightarrow> (\<forall>r \<in> set sample_table. row_str r ''system'' = ''syncfs'' \<longrightarrow>
      row_str r ''experiment'' \<in> {''A'', ''B''} \<longrightarrow> row_converged r))"
proof (rule verdicts_are_earned)
  show "measured r" if "r \<in> set sample_table" for r
    using that sample_table_recorded recorded_measured by blast
  have "row_int missed_cell ''nodes'' = 2" "row_int plain_cell ''nodes'' = 0"
    by (simp_all add: missed_cell_def plain_cell_def row_int_def label_cell_fields) (simp add: c_row_def row_get_def)
  then show "0 \<notin> set (sizes_at sample_table 10)"
    by (simp add: sizes_at_def sorted_set_def sample_table_def)
qed

end
