(* ===== verification/OrderFree.thy ===== *)
theory OrderFree
  imports TexReport
begin

text \<open>
  What the report of \<open>tools/measure/bucketfs/tex_tables.py\<close> owes to the order of the rows it is made
  from. Each part of the program is shown to be the same program for two lists of the same rows; only the
  table of missed deadlines is sorted by less than it is grouped by.
\<close>

lemma pbind_Inr: "pbind (plift (Inr x)) f = f x"
  by (simp add: pbind_def fun_eq_iff)

section \<open>Selections of the same rows\<close>

lemma filter_swap: "mset rows = mset rows' \<Longrightarrow> mset (filter P rows) = mset (filter P rows')"
  by simp

lemma recorded_swap:
  "mset rows = mset rows' \<Longrightarrow> \<lbrakk>\<And>r. r \<in> set rows \<Longrightarrow> recorded r\<rbrakk> \<Longrightarrow> r \<in> set rows' \<Longrightarrow> recorded r"
  by (metis mset_eq_setD)

lemma measured_swap:
  "mset rows = mset rows' \<Longrightarrow> \<lbrakk>\<And>r. r \<in> set rows \<Longrightarrow> measured r\<rbrakk> \<Longrightarrow> r \<in> set rows' \<Longrightarrow> measured r"
  by (metis mset_eq_setD)

lemma empty_swap: "mset xs = mset ys \<Longrightarrow> xs = [] \<longleftrightarrow> ys = []"
  by (metis mset_zero_iff)

lemma rows_swap_set: "mset rows = mset rows' \<Longrightarrow> set (map f rows) = set (map f rows')"
  using mset_eq_setD [of rows rows'] by simp

section \<open>Medians, requirements and macros\<close>

lemma median_of_swap:
  assumes rows: "mset rows = mset rows'" and m: "\<And>r. r \<in> set rows \<Longrightarrow> measured r" and metric: "metric \<in> set metrics"
  shows "median_of (map table_row rows) e system n sz metric = median_of (map table_row rows') e system n sz metric"
proof -
  let ?P = "\<lambda>r. row_str r ''experiment'' = e \<and> row_str r ''system'' = system \<and> row_int r ''nodes'' = n \<and>
    row_int r ''size_bytes'' = sz"
  let ?vs = "\<lambda>g. concat (map (row_values metric) (filter ?P g))"
  have val: "median_of (map table_row g) e system n sz metric =
      (if ?vs g = [] then Inr None else rbind (median (?vs g)) (\<lambda>m. Inr (Some m)))"
    if g: "\<And>r. r \<in> set g \<Longrightarrow> measured r" for g
  proof -
    have "group_of (map table_row g) e system n sz = Inr (map table_row (filter ?P g))"
      unfolding group_of_def by (rule rfilter_map) (simp add: g field_is_row int_is_row rand_Inr)
    moreover have "cell_values metric (map table_row (filter ?P g)) = Inr (?vs g)"
      by (rule measured_cell_values) (use g metric in auto)
    ultimately show ?thesis
      by (simp add: median_of_def)
  qed
  have vs: "mset (?vs rows) = mset (?vs rows')"
    by (rule mset_concat_map) (simp add: rows)
  then have "?vs rows = [] \<longleftrightarrow> ?vs rows' = []"
    by (rule empty_swap)
  then show ?thesis
    by (simp only: val [OF m] val [OF measured_swap [OF rows m]] median_permute [OF vs])
qed

lemma median_at_swap:
  assumes "mset rows = mset rows'" and "\<And>r. r \<in> set rows \<Longrightarrow> measured r"
  shows "median_at (map table_row rows) n s = median_at (map table_row rows') n s"
  using median_of_swap [OF assms] by (simp add: median_at_def metrics_def split: option.split)

lemma measured_sizes_swap:
  assumes rows: "mset rows = mset rows'" and m: "\<And>r. r \<in> set rows \<Longrightarrow> measured r"
  shows "measured_sizes (map table_row rows) n = measured_sizes (map table_row rows') n"
proof -
  have "sizes_at rows n = sizes_at rows' n"
    unfolding sizes_at_def by (rule sorted_set_cong, rule rows_swap_set, rule filter_swap, rule rows)
  then show ?thesis
    by (simp add: measured_sizes_rows [OF m] measured_sizes_rows [OF measured_swap [OF rows m]])
qed

lemma bounded_line_swap:
  assumes rows: "mset rows = mset rows'" and m: "\<And>r. r \<in> set rows \<Longrightarrow> measured r"
  shows "bounded_line (map table_row rows) = bounded_line (map table_row rows')"
proof -
  let ?P = "\<lambda>e r. row_str r ''experiment'' = e \<and> row_str r ''system'' = ''syncfs''"
  have sel: "rfilter (\<lambda>r. rand (field_is ''experiment'' e r) (field_is ''system'' ''syncfs'' r)) (map table_row g) =
      Inr (map table_row (filter (?P e) g))" if "\<And>r. r \<in> set g \<Longrightarrow> measured r" for e g
    by (rule rfilter_map) (simp add: that field_is_row rand_Inr)
  have bad: "count_bad (map table_row (filter (?P e) g)) =
      Inr (length (filter (\<lambda>r. \<not> row_converged r) (filter (?P e) g)))" if "\<And>r. r \<in> set g \<Longrightarrow> measured r" for e g
    using that by (intro measured_count_bad) simp
  have counts: "length (filter Q rows) = length (filter Q rows')" for Q
    using rows by (metis filter_swap mset_eq_length)
  note m' = measured_swap [OF rows m]
  show ?thesis
    by (simp only: bounded_line_def sel [OF m] sel [OF m'] rbind_simps bad [OF m] bad [OF m'] length_map filter_filter counts)
qed

lemma scenario_table_swap:
  assumes "mset rows = mset rows'" and "\<And>r. r \<in> set rows \<Longrightarrow> measured r"
  shows "scenario_table h (map table_row rows) = scenario_table h (map table_row rows')"
proof -
  have "small_line (map table_row rows) = small_line (map table_row rows')"
    "growth_line (map table_row rows) = growth_line (map table_row rows')"
    by (simp_all only: small_line_def growth_line_def measured_sizes_swap [OF assms] median_at_swap [OF assms])
  moreover have "big_line (map table_row rows) = big_line (map table_row rows')"
    by (simp only: big_line_def median_of_swap [OF assms propagation_metric])
  ultimately show ?thesis
    by (simp only: scenario_table_def scenario_lines_def bounded_line_swap [OF assms])
qed

lemma macros_swap:
  assumes "mset rows = mset rows'" and "\<And>r. r \<in> set rows \<Longrightarrow> measured r"
  shows "macros h (map table_row rows) = macros h (map table_row rows')"
proof -
  have "''ingest_s'' \<in> set metrics"
    by (simp add: metrics_def)
  then have "macro_list (map table_row rows) = macro_list (map table_row rows')"
    by (simp only: macro_list_def scaling_def median_of_swap [OF assms propagation_metric] median_of_swap [OF assms])
  then show ?thesis
    by (simp only: macros_def)
qed

section \<open>The environment\<close>

lemma tally_by_swap:
  assumes rows: "mset rows = mset rows'" and key: "\<And>r. key (table_row r) = Inr (f r)"
  obtains d d' where "tally_by key (map table_row rows) = Inr d" "tally_by key (map table_row rows') = Inr d'"
    "mset d = mset d'"
proof -
  obtain d where d: "tally_by key (map table_row rows) = Inr d" "distinct (dict_keys d)" "set (dict_keys d) = f ` set rows"
    "\<And>k. k \<in> f ` set rows \<Longrightarrow> map_of d k = Some (length (rows_of f k rows))"
    using tally_by_rows [of rows key f] key by metis
  obtain d' where d': "tally_by key (map table_row rows') = Inr d'" "distinct (dict_keys d')"
    "set (dict_keys d') = f ` set rows'"
    "\<And>k. k \<in> f ` set rows' \<Longrightarrow> map_of d' k = Some (length (rows_of f k rows'))"
    using tally_by_rows [of rows' key f] key by metis
  have sets: "set rows' = set rows" and counts: "length (rows_of f k rows) = length (rows_of f k rows')" for k
    using rows by (metis mset_eq_setD) (metis rows rows_of_permute mset_eq_length)
  have "map_of d k = map_of d' k" for k
  proof (cases "k \<in> f ` set rows")
    case True
    then show ?thesis using d(4) d'(4) by (simp add: sets counts)
  next
    case False
    then have "k \<notin> fst ` set d" "k \<notin> fst ` set d'"
      using d(3) d'(3) by (simp_all add: sets)
    then show ?thesis by (simp flip: map_of_eq_None_iff)
  qed
  then have "set d = set d'"
    using d(2) d'(2) by (intro map_of_inject_set [THEN iffD1]) auto
  moreover have "distinct d" "distinct d'"
    using d(2) d'(2) by (simp_all add: distinct_map)
  ultimately have "mset d = mset d'"
    by (simp add: set_eq_iff_mset_eq_distinct)
  with d(1) d'(1) show ?thesis
    by (rule that)
qed

lemma environment_swap:
  assumes rows: "mset rows = mset rows'" and rec: "\<And>r. r \<in> set rows \<Longrightarrow> recorded r"
  shows "environment_note h (map table_row rows) n = environment_note h (map table_row rows') n"
proof -
  have look: "lookup (table_row r) k = Inr (Some (csv_text (row_get r k)))" if "k \<in> set result_fields" for r k
    using that by (rule lookup_table_row)
  let ?nofile = "\<lambda>rows. concat (map (\<lambda>r. truthy (Some (csv_text (row_get r ''nofile'')))) rows)"
  have nofile: "field_values ''nofile'' (map table_row g) = Inr (?nofile g)" for g
    using rmap_Inr [of g "(\<lambda>r. lookup r ''nofile'') \<circ> table_row" "\<lambda>r. Some (csv_text (row_get r ''nofile''))"]
    by (simp add: field_values_def rmap_map look comp_def)
  let ?loads = "\<lambda>rows. concat (map (\<lambda>r. value_of ''loadavg'' (table_row r)) rows)"
  have ok: "value_ok ''loadavg'' (table_row r)" if "recorded r" for r
    using that float_of_str_repr [of _ 17]
    by (auto simp: value_ok_def look recorded_def decimal_float_def)
  have loads: "cell_values ''loadavg'' (map table_row g) = Inr (?loads g)" if "\<And>r. r \<in> set g \<Longrightarrow> recorded r" for g
    using cell_values_ok [of "map table_row g" "''loadavg''"] ok that by (auto simp: comp_def)
  define key where "key = (\<lambda>r. map (\<lambda>k. Some (csv_text (row_get r k)))
      [''experiment'', ''system'', ''config'', ''nodes'', ''size_bytes'', ''file_count''])"
  have "repeat_key (table_row r) = Inr (key r)" for r
    unfolding repeat_key_def key_def by (rule rmap_Inr) (auto intro!: look)
  then obtain d d' where d: "tally_by repeat_key (map table_row rows) = Inr d"
    "tally_by repeat_key (map table_row rows') = Inr d'" and perm: "mset d = mset d'"
    using tally_by_swap [OF rows, of repeat_key key] by metis
  have sets: "set (?nofile rows) = set (?nofile rows')" "set (?loads rows) = set (?loads rows')"
    using mset_eq_setD [OF rows] by simp_all
  have empties: "?nofile rows = [] \<longleftrightarrow> ?nofile rows' = []" "?loads rows = [] \<longleftrightarrow> ?loads rows' = []"
    by (rule empty_swap [OF mset_concat_map [OF rows]])+
  have lens: "length d = length d'" "length rows = length rows'"
    using perm rows by (metis mset_eq_length)+
  have "set (map snd d) = set (map snd d')"
    using mset_eq_setD [OF perm] by simp
  note sorts = sorted_set_cong [OF this] sorted_set_cong [OF sets(1)]
  have loaded: "cell_values ''loadavg'' (map table_row rows) = Inr (?loads rows)"
    "cell_values ''loadavg'' (map table_row rows') = Inr (?loads rows')"
    using rec recorded_swap [OF rows rec] by (blast intro: loads)+
  show ?thesis
    unfolding environment_note_def nofile loaded d pbind_Inr length_map
    by (simp only: sorts sets(2) empties lens)
qed

section \<open>The tables\<close>

definition of_experiment :: "string \<Rightarrow> pyrow list \<Rightarrow> pyrow list" where
  "of_experiment e rows = filter (\<lambda>r. row_str r ''experiment'' = e) rows"

lemma grid_table_swap:
  assumes rows: "mset rows = mset rows'" and rec: "\<And>r. r \<in> set rows \<Longrightarrow> recorded r" and metric: "metric \<in> set metrics"
    and fld: "fld \<in> {''size_bytes'', ''file_count''}"
    and "\<And>r r'. r \<in> set rows \<Longrightarrow> r' \<in> set rows \<Longrightarrow> row_int r fld = row_int r' fld \<Longrightarrow> deadline_of r = deadline_of r'"
  shows "grid_table h what fld shw (map table_row rows) metric short caption label =
    grid_table h what fld shw (map table_row rows') metric short caption label"
proof -
  have run: "prints (grid_table h what fld shw (map table_row g) metric short caption label) h ()
      (grid_lines what fld shw g metric short caption label)" if "set g = set rows" for g
    by (rule grid_table_prints [OF _ metric fld]) (simp add: that rec)
  have sets: "set rows' = set rows"
    using rows by (metis mset_eq_setD)
  have "grid_lines what fld shw rows metric short caption label = grid_lines what fld shw rows' metric short caption label"
    using rows by (rule grid_lines_permute) (rule assms(5))
  then show ?thesis
    using printsD [OF run [OF refl]] printsD [OF run [OF sets]] by (simp add: fun_eq_iff)
qed

lemma matrix_table_swap:
  assumes "mset rows = mset rows'" and "\<And>r. r \<in> set rows \<Longrightarrow> recorded r" and "metric \<in> set metrics"
  shows "matrix_table h (map table_row (of_experiment ''A'' rows)) metric short caption label =
    matrix_table h (map table_row (of_experiment ''A'' rows')) metric short caption label"
  unfolding matrix_table_def
  by (rule grid_table_swap)
    (use assms in \<open>auto simp: of_experiment_def deadline_of_def\<close>)

lemma tree_table_swap:
  assumes "mset rows = mset rows'" and "\<And>r. r \<in> set rows \<Longrightarrow> recorded r"
  shows "tree_table h (map table_row (of_experiment ''B'' rows)) short caption label =
    tree_table h (map table_row (of_experiment ''B'' rows')) short caption label"
  unfolding tree_table_def
  by (rule grid_table_swap)
    (use assms in \<open>auto simp: of_experiment_def deadline_of_def tex_deadline_def metrics_def\<close>)

lemma group_by_swap:
  assumes rows: "mset rows = mset rows'" and rec: "\<And>r. r \<in> set rows \<Longrightarrow> measured r"
    and key: "\<And>r. r \<in> set rows \<Longrightarrow> key (table_row r) = Inr (f r)"
    and dl: "\<And>r r'. r \<in> set rows \<Longrightarrow> r' \<in> set rows \<Longrightarrow> f r = f r' \<Longrightarrow> deadline_of r = deadline_of r'"
  obtains d d' where "group_by key (map table_row rows) = Inr d" "group_by key (map table_row rows') = Inr d'"
    "set (dict_keys d) = set (dict_keys d')"
    "\<And>k. cell_or_missing (map_of d k) = cell_or_missing (map_of d' k)"
proof -
  have sets: "set rows' = set rows"
    using rows by (metis mset_eq_setD)
  obtain d where d: "group_by key (map table_row rows) = Inr d" "set (dict_keys d) = f ` set rows"
    "\<And>k. map_of d k = (if k \<in> f ` set rows then Some (map table_row (rows_of f k rows)) else None)"
    using group_by_rows [of rows key f] key by metis
  obtain d' where d': "group_by key (map table_row rows') = Inr d'" "set (dict_keys d') = f ` set rows"
    "\<And>k. map_of d' k = (if k \<in> f ` set rows then Some (map table_row (rows_of f k rows')) else None)"
    using group_by_rows [of rows' key f] key unfolding sets by metis
  have "cell_or_missing (map_of d k) = cell_or_missing (map_of d' k)" for k
  proof (cases "k \<in> f ` set rows")
    case True
    then obtain r0 where r0: "r0 \<in> set rows" "f r0 = k" by blast
    have shown: "fmt (map table_row (rows_of f k g)) ''ingest_s'' None = Inr (cell_text ''ingest_s'' (rows_of f k g))"
      if g: "set g = set rows" for g
    proof (rule fmt_rows)
      show "measured r" if "r \<in> set (rows_of f k g)" for r
        using that rec by (simp add: rows_of_def g)
      have "r0 \<in> set (rows_of f k g)"
        using r0 by (simp add: rows_of_def g)
      then show "rows_of f k g \<noteq> []" by force
    qed (simp add: metrics_def)
    have "cell_text ''ingest_s'' (rows_of f k rows) = cell_text ''ingest_s'' (rows_of f k rows')"
      using rows_of_permute [OF rows]
    proof (rule cell_text_permute)
      show "deadline_of r = deadline_of r0" if "r \<in> set (rows_of f k rows)" for r
        using that dl [of r r0] r0 by (simp add: rows_of_def)
    qed
    then show ?thesis
      by (simp only: d(3) d'(3) True if_True cell_or_missing_def option.case shown [OF refl] shown [OF sets])
  qed (simp only: d(3) d'(3) if_False)
  with d(1) d'(1) show ?thesis
    using that d(2) d'(2) by simp
qed

lemma baseline_table_swap:
  assumes rows: "mset rows = mset rows'" and rec: "\<And>r. r \<in> set rows \<Longrightarrow> recorded r"
  shows "baseline_table h (map table_row rows) = baseline_table h (map table_row rows')"
proof -
  let ?C = "of_experiment ''C''"
  let ?A = "\<lambda>g. filter (\<lambda>r. row_str r ''experiment'' = ''A'' \<and> row_int r ''nodes'' = 2) g"
  have sets: "set rows' = set rows"
    using rows by (metis mset_eq_setD)
  have sel: "rfilter (field_is ''experiment'' ''C'') (map table_row g) = Inr (map table_row (?C g))"
    "rfilter (\<lambda>r. rand (field_is ''experiment'' ''A'' r) (int_is ''nodes'' 2 r)) (map table_row g) =
      Inr (map table_row (?A g))" if "set g = set rows" for g
    unfolding of_experiment_def
    by (rule rfilter_map, simp add: that rec recorded_measured field_is_row int_is_row rand_Inr)+
  obtain plain plain' where plain: "group_by (\<lambda>r. int_field r ''size_bytes'') (map table_row (?C rows)) = Inr plain"
    "group_by (\<lambda>r. int_field r ''size_bytes'') (map table_row (?C rows')) = Inr plain'"
    "set (dict_keys plain) = set (dict_keys plain')"
    "\<And>k. cell_or_missing (map_of plain k) = cell_or_missing (map_of plain' k)"
    by (rule group_by_swap [of "?C rows" "?C rows'" "\<lambda>r. int_field r ''size_bytes''" "\<lambda>r. row_int r ''size_bytes''"])
      (use rows rec in \<open>auto simp: of_experiment_def recorded_measured measured_int deadline_of_def\<close>)
  obtain ingest ingest' where ingest: "group_by ingest_key (map table_row (?A rows)) = Inr ingest"
    "group_by ingest_key (map table_row (?A rows')) = Inr ingest'"
    "set (dict_keys ingest) = set (dict_keys ingest')"
    "\<And>k. cell_or_missing (map_of ingest k) = cell_or_missing (map_of ingest' k)"
    by (rule group_by_swap [of "?A rows" "?A rows'" ingest_key "\<lambda>r. (arm_of r, row_int r ''size_bytes'')"])
      (use rows rec in \<open>auto simp: recorded_measured measured_int deadline_of_def ingest_key_def arm_row\<close>)
  have arms: "sorted_set (map fst (dict_keys ingest)) = sorted_set (map fst (dict_keys ingest'))"
    by (rule sorted_set_cong) (simp only: set_map [of _ "dict_keys _"] ingest(3))
  have sizes: "sorted_set (dict_keys plain @ map snd (dict_keys ingest)) =
      sorted_set (dict_keys plain' @ map snd (dict_keys ingest'))"
    by (rule sorted_set_cong) (simp only: set_append set_map [of _ "dict_keys _"] plain(3) ingest(3))
  have line: "baseline_row plain ingest xs s = baseline_row plain' ingest' xs s" for xs s
    by (simp only: baseline_row_def plain(4) ingest(4))
  show ?thesis
    unfolding baseline_table_def sel [OF refl] sel [OF sets] pbind_Inr plain(1,2) ingest(1,2) Let_def arms sizes line ..
qed

section \<open>The whole report\<close>

text \<open>What \<open>tex_tables\<close> prints before the table of missed deadlines.\<close>

definition result_tables :: "pyrow list \<Rightarrow> (printed, unit) prog" where
  "result_tables rows =
     (let sel = \<lambda>e. map table_row (of_experiment e rows) in
      pbind (if sel ''A'' = [] then pret () else
        pbind (matrix_table Out (sel ''A'') ''propagation_s'' ''Propagation time by node count and file size''
          propagation_caption ''tab:results-propagation'') (\<lambda>_.
        matrix_table Out (sel ''A'') ''fanout_s'' ''Fan-out time by node count and file size''
          fanout_caption ''tab:results-fanout'')) (\<lambda>_.
      pbind (if sel ''B'' = [] then pret () else
        tree_table Out (sel ''B'') ''Propagation time for many small files written at once''
          tree_caption ''tab:results-manyfiles'') (\<lambda>_.
      pbind (if \<exists>r \<in> set rows. row_str r ''experiment'' = ''C'' then baseline_table Out (map table_row rows) else pret ()) (\<lambda>_.
      if sel ''A'' = [] then pret () else scenario_table Out (map table_row rows)))))"

lemma tables_in_order:
  assumes "\<And>r. r \<in> set rows \<Longrightarrow> measured r"
  shows "tex_tables (map table_row rows) = pbind (result_tables rows) (\<lambda>_. nonconvergence_note Out (map table_row rows))"
proof -
  have sel: "rfilter (field_is ''experiment'' e) (map table_row rows) = Inr (map table_row (of_experiment e rows))" for e
    unfolding of_experiment_def by (rule rfilter_map) (simp add: assms field_is_row)
  have some: "rany (field_is ''experiment'' e) (map table_row rows) = Inr (\<exists>r \<in> set rows. row_str r ''experiment'' = e)" for e
    by (rule rany_map) (simp add: assms field_is_row)
  show ?thesis
    unfolding tex_tables_def result_tables_def Let_def sel some pbind_Inr pbind_assoc ..
qed

lemma result_tables_swap:
  assumes rows: "mset rows = mset rows'" and rec: "\<And>r. r \<in> set rows \<Longrightarrow> recorded r"
  shows "result_tables rows = result_tables rows'"
proof -
  have m: "\<And>r. r \<in> set rows \<Longrightarrow> measured r"
    using rec by (rule recorded_measured)
  have matrix: "matrix_table h (map table_row (of_experiment ''A'' rows)) metric short caption label =
      matrix_table h (map table_row (of_experiment ''A'' rows')) metric short caption label"
    if "metric \<in> set metrics" for h metric short caption label
    using rows rec that by (rule matrix_table_swap)
  have tree: "tree_table h (map table_row (of_experiment ''B'' rows)) short caption label =
      tree_table h (map table_row (of_experiment ''B'' rows')) short caption label" for h short caption label
    using rows rec by (rule tree_table_swap)
  have base: "baseline_table Out (map table_row rows) = baseline_table Out (map table_row rows')"
    using rows rec by (rule baseline_table_swap)
  have scenario: "scenario_table Out (map table_row rows) = scenario_table Out (map table_row rows')"
    using rows m by (rule scenario_table_swap)
  have sets: "set rows' = set rows"
    using rows by (metis mset_eq_setD)
  have empties: "map table_row (of_experiment e rows) = [] \<longleftrightarrow> map table_row (of_experiment e rows') = []" for e
    using filter_swap [OF rows] empty_swap unfolding of_experiment_def map_is_Nil_conv by metis
  have "''fanout_s'' \<in> set metrics"
    by (simp add: metrics_def)
  then show ?thesis
    by (simp only: result_tables_def Let_def matrix [OF propagation_metric] matrix tree base scenario sets empties)
qed

text \<open>The rows of the arms that are tabulated, and all \<open>tex_main\<close> prints before that last table.\<close>

definition kept_rows :: "pyrow list \<Rightarrow> pyrow list" where
  "kept_rows rows = filter (\<lambda>r. \<not> (row_str r ''system'' = ''bucketfs'' \<and> row_str r ''config'' = ''tuned'')) rows"

definition report_front :: "string option \<Rightarrow> pyrow list \<Rightarrow> (printed, unit) prog" where
  "report_front macro_file rows =
     (let kept = map table_row (kept_rows rows); defs = (if macro_file = None then Out else Defs) in
      pbind (environment_note defs kept (length rows - length kept)) (\<lambda>_.
      pbind (macros defs kept) (\<lambda>_.
      pbind (case macro_file of None \<Rightarrow> pret ()
        | Some f \<Rightarrow> emits Out [generated_line, ''% Macros for the prose are in '' @ f @ ''.'', []]) (\<lambda>_.
      result_tables (kept_rows rows)))))"

lemma kept_recorded: "\<lbrakk>\<And>r. r \<in> set rows \<Longrightarrow> recorded r\<rbrakk> \<Longrightarrow> r \<in> set (kept_rows rows) \<Longrightarrow> recorded r"
  by (simp add: kept_rows_def)

lemma kept_swap: "mset rows = mset rows' \<Longrightarrow> mset (kept_rows rows) = mset (kept_rows rows')"
  unfolding kept_rows_def by (rule filter_swap)

lemma report_front_swap:
  assumes rows: "mset rows = mset rows'" and rec: "\<And>r. r \<in> set rows \<Longrightarrow> recorded r"
  shows "report_front macro_file rows = report_front macro_file rows'"
proof -
  have rec': "recorded r" if "r \<in> set (kept_rows rows)" for r
    using rec that by (rule kept_recorded)
  have m: "\<And>r. r \<in> set (kept_rows rows) \<Longrightarrow> measured r"
    using rec' by (rule recorded_measured)
  have env: "environment_note h (map table_row (kept_rows rows)) n = environment_note h (map table_row (kept_rows rows')) n" for h n
    using kept_swap [OF rows] rec' by (rule environment_swap)
  have mac: "macros h (map table_row (kept_rows rows)) = macros h (map table_row (kept_rows rows'))" for h
    using kept_swap [OF rows] m by (rule macros_swap)
  have tabs: "result_tables (kept_rows rows) = result_tables (kept_rows rows')"
    using kept_swap [OF rows] rec' by (rule result_tables_swap)
  have lens: "length (map table_row (kept_rows rows)) = length (map table_row (kept_rows rows'))" "length rows = length rows'"
    using kept_swap [OF rows] rows by (metis length_map mset_eq_length)+
  show ?thesis
    by (simp only: report_front_def Let_def env mac tabs lens)
qed

lemma report_in_order:
  assumes rec: "\<And>r. r \<in> set (concat tables) \<Longrightarrow> recorded r" and "concat tables \<noteq> []"
  shows "tex_main (map results_file tables) macro_file =
    pbind (report_front macro_file (concat tables)) (\<lambda>_.
    pbind (nonconvergence_note Out (map table_row (kept_rows (concat tables)))) (\<lambda>_. pret 0))"
proof -
  let ?P = "\<lambda>r. row_str r ''system'' = ''bucketfs'' \<and> row_str r ''config'' = ''tuned''"
  have m: "\<And>r. r \<in> set (concat tables) \<Longrightarrow> measured r"
    using rec by (rule recorded_measured)
  have kept: "\<And>r. r \<in> set (kept_rows (concat tables)) \<Longrightarrow> measured r"
    using rec by (intro recorded_measured) (rule kept_recorded)
  have drop: "drop_arm (map table_row (concat tables)) =
      Inr (map table_row (kept_rows (concat tables)), map table_row (filter ?P (concat tables)))"
    unfolding kept_rows_def using m by (rule drop_arm_rows)
  have counts: "length (filter P rows) = length rows - length (filter (\<lambda>r. \<not> P r) rows)" for P :: "pyrow \<Rightarrow> bool" and rows
    using sum_length_filter_compl [of P rows] by linarith
  have dropped: "length (map table_row (filter ?P (concat tables))) =
      length (concat tables) - length (map table_row (kept_rows (concat tables)))"
    unfolding kept_rows_def length_map by (rule counts)
  have tabs: "tex_tables (map table_row (kept_rows (concat tables))) =
      pbind (result_tables (kept_rows (concat tables)))
        (\<lambda>_. nonconvergence_note Out (map table_row (kept_rows (concat tables))))"
    using kept by (rule tables_in_order)
  have ne: "map table_row (concat tables) \<noteq> []"
    using assms(2) by (simp del: concat_eq_Nil_conv)
  show ?thesis
    unfolding tex_main_def load_results Let_def if_not_P [OF ne] drop pbind_Inr prod.case dropped
      tabs report_front_def pbind_assoc ..
qed


text \<open>Two orders of the same lines that are both sorted differ among equal keys only.\<close>

lemma sorted_keys_agree:
  assumes "mset ks = mset ks'" and "sorted (map f ks)" and "sorted (map f ks')"
  shows "map f ks = map f ks'"
  by (rule properties_for_sort [symmetric, THEN trans, OF _ _ sorted_sort_id])
    (use assms in auto)

lemma rows_of_swap_count: "mset rows = mset rows' \<Longrightarrow> length (rows_of f k rows) = length (rows_of f k rows')"
  by (metis rows_of_permute mset_eq_length)

text \<open>The runs that missed their deadline, and the table of them with its lines in a given order.\<close>

definition missed_rows :: "pyrow list \<Rightarrow> pyrow list" where
  "missed_rows rows = filter (\<lambda>r. \<not> row_converged r) (kept_rows rows)"

definition missed_lines :: "pyrow list \<Rightarrow> outcome list \<Rightarrow> string list" where
  "missed_lines rows ks =
     (if missed_rows rows = [] then []
      else nonconvergence_head @ map (\<lambda>k. outcome_line k (length (rows_of outcome_row k (missed_rows rows)))) ks @
        nonconvergence_foot)"

lemma missed_swap: "mset rows = mset rows' \<Longrightarrow> mset (missed_rows rows) = mset (missed_rows rows')"
  unfolding missed_rows_def by (intro filter_swap kept_swap)

lemma missed_lines_swap:
  assumes "mset rows = mset rows'"
  shows "missed_lines rows = missed_lines rows'"
proof -
  have "length (rows_of outcome_row k (missed_rows rows)) = length (rows_of outcome_row k (missed_rows rows'))" for k
    using assms by (intro rows_of_swap_count missed_swap)
  moreover have "missed_rows rows = [] \<longleftrightarrow> missed_rows rows' = []"
    using assms by (intro empty_swap missed_swap)
  ultimately show ?thesis
    by (simp only: missed_lines_def fun_eq_iff) simp
qed

lemma report_front_returns:
  assumes rec: "\<And>r. r \<in> set (concat tables) \<Longrightarrow> recorded r" and ne: "concat tables \<noteq> []"
  shows "\<exists>q ks. report_front macro_file (concat tables) p = (Inr (), q) \<and>
    tex_main (map results_file tables) macro_file p = (Inr 0, q(Out := q Out @ missed_lines (concat tables) ks)) \<and>
    distinct ks \<and> set ks = outcome_row ` set (missed_rows (concat tables)) \<and> sorted (map outcome_order ks)"
proof -
  have main: "tex_main (map results_file tables) macro_file =
    pbind (report_front macro_file (concat tables)) (\<lambda>_.
    pbind (nonconvergence_note Out (map table_row (kept_rows (concat tables)))) (\<lambda>_. pret 0))"
    using rec ne by (rule report_in_order)
  obtain t where t: "tex_main (map results_file tables) macro_file p = (Inr 0, t)"
    using generator_total [OF rec, of tables macro_file p] ne by (auto simp del: concat_eq_Nil_conv)
  obtain q where q: "report_front macro_file (concat tables) p = (Inr (), q)"
    using t unfolding main by (elim pbindE) simp
  have kept: "recorded r" if "r \<in> set (kept_rows (concat tables))" for r
    using rec that by (rule kept_recorded)
  obtain ks where ks: "nonconvergence_note Out (map table_row (kept_rows (concat tables))) q =
      (Inr (), q(Out := q Out @ missed_lines (concat tables) ks))" "distinct ks"
    "set ks = outcome_row ` set (missed_rows (concat tables))" "sorted (map outcome_order ks)"
    using missed_runs [OF kept missed_rows_def, where h = Out and p = q] unfolding missed_lines_def by blast
  have "tex_main (map results_file tables) macro_file p = (Inr 0, q(Out := q Out @ missed_lines (concat tables) ks))"
    unfolding main by (simp add: pbind_def q ks(1))
  with q ks(2-4) show ?thesis by blast
qed

text \<open>
  C39. The report is a function of the measurements, but for the order of lines that tie. Given the same
  recorded rows in any order and any arrangement of files, the generator ends with the same exit status
  and prints the same report, character by character on all its outputs: the note on the environment,
  the macros, the results tables, the many-files table, the baseline table and the verdicts. What may
  differ is the last table, of the missed deadlines: it has the same lines, with the same counts of
  runs, and their experiment, system, node count and payload come in the same order, but lines that
  agree in those four keep the order of the rows they were read from. Where no two do, nothing differs.
\<close>

theorem report_order_free:
  assumes "\<And>r. r \<in> set (concat tables) \<Longrightarrow> recorded r" and "mset (concat tables) = mset (concat tables')"
  shows "\<exists>c q ks ks'. tex_main (map results_file tables) macro_file p = (Inr c, q(Out := q Out @ missed_lines (concat tables) ks)) \<and>
    tex_main (map results_file tables') macro_file p = (Inr c, q(Out := q Out @ missed_lines (concat tables) ks')) \<and>
    set ks = outcome_row ` set (missed_rows (concat tables)) \<and> mset ks = mset ks' \<and>
    map outcome_order ks = map outcome_order ks' \<and>
    (inj_on outcome_order (set ks) \<longrightarrow> ks = ks')"
proof (cases "concat tables = []")
  case True
  then have none: "concat tables' = []"
    using assms(2) empty_swap by blast
  have "tex_main (map results_file ts) macro_file p = (Inr 1, p(Err := p Err @ [''no rows'']))" if "concat ts = []" for ts
    unfolding tex_main_def load_results that by (simp add: pbind_def emit_def)
  from this [OF True] this [OF none] show ?thesis
    by (intro exI [of _ 1] exI [of _ "p(Err := p Err @ [''no rows''])"] exI [of _ "[]"] exI [of _ "[]"])
      (simp add: missed_lines_def missed_rows_def kept_rows_def True fun_eq_iff del: concat_eq_Nil_conv)
next
  case False
  have none: "concat tables' \<noteq> []"
    using False assms(2) empty_swap by blast
  have rec': "recorded r" if "r \<in> set (concat tables')" for r
    using assms that by (metis mset_eq_setD)
  obtain q ks where q: "report_front macro_file (concat tables) p = (Inr (), q)"
    "tex_main (map results_file tables) macro_file p = (Inr 0, q(Out := q Out @ missed_lines (concat tables) ks))"
    and ks: "distinct ks" "set ks = outcome_row ` set (missed_rows (concat tables))" "sorted (map outcome_order ks)"
    using report_front_returns [OF assms(1) False] by blast
  obtain q' ks' where q': "report_front macro_file (concat tables') p = (Inr (), q')"
    "tex_main (map results_file tables') macro_file p = (Inr 0, q'(Out := q' Out @ missed_lines (concat tables') ks'))"
    and ks': "distinct ks'" "set ks' = outcome_row ` set (missed_rows (concat tables'))" "sorted (map outcome_order ks')"
    using report_front_returns [OF rec' none] by blast
  have "q' = q"
    using q(1) q'(1) report_front_swap [OF assms(2,1)] by simp
  then have run: "tex_main (map results_file tables') macro_file p = (Inr 0, q(Out := q Out @ missed_lines (concat tables) ks'))"
    using q'(2) by (simp only: missed_lines_swap [OF assms(2)])
  have sets: "set ks = set ks'"
    using mset_eq_setD [OF missed_swap [OF assms(2)]] by (simp only: ks(2) ks'(2))
  then have same: "mset ks = mset ks'"
    using ks(1) ks'(1) by (simp add: set_eq_iff_mset_eq_distinct)
  have order: "map outcome_order ks = map outcome_order ks'"
    using same ks(3) ks'(3) by (rule sorted_keys_agree)
  then have "inj_on outcome_order (set ks) \<longrightarrow> ks = ks'"
    using sets by (metis map_inj_on Un_absorb)
  with q(2) run ks(2) same order show ?thesis by blast
qed

section \<open>Instances\<close>

theorem report_order_free_witness:
  "\<exists>c q ks ks'. tex_main (map results_file [[missed_cell, lost_cell], [lost_tree, plain_cell]]) None (\<lambda>_. []) =
      (Inr c, q(Out := q Out @ missed_lines [missed_cell, lost_cell, lost_tree, plain_cell] ks)) \<and>
    tex_main (map results_file [[plain_cell, lost_tree, lost_cell, missed_cell]]) None (\<lambda>_. []) =
      (Inr c, q(Out := q Out @ missed_lines [missed_cell, lost_cell, lost_tree, plain_cell] ks')) \<and>
    set ks = outcome_row ` set (missed_rows [missed_cell, lost_cell, lost_tree, plain_cell]) \<and> mset ks = mset ks' \<and>
    map outcome_order ks = map outcome_order ks' \<and>
    (inj_on outcome_order (set ks) \<longrightarrow> ks = ks')"
proof -
  let ?ts = "[[missed_cell, lost_cell], [lost_tree, plain_cell]]" and ?ts' = "[[plain_cell, lost_tree, lost_cell, missed_cell]]"
  have flat: "concat ?ts = [missed_cell, lost_cell, lost_tree, plain_cell]"
    by simp
  have rec: "recorded r" if "r \<in> set (concat ?ts)" for r
    using that missed_cell_recorded plain_cell_recorded lost_recorded by auto
  have perm: "mset (concat ?ts) = mset (concat ?ts')"
    by (simp add: add_mset_commute)
  show ?thesis
    using report_order_free [OF rec perm, of None "\<lambda>_. []"] unfolding flat by simp
qed

end
