(* ===== verification/MeasureTail.thy ===== *)
theory MeasureTail
  imports Experiments
begin

text \<open>
  \<open>tools/measure/bucketfs/measure_tail.py\<close>: single small writes on an idle mesh, one after the other,
  and how many of them miss the five seconds of SPEC.md V19.
\<close>

definition v19_deadline :: rat where
  "v19_deadline = 5"

definition tail_size :: int where
  "tail_size = 1024"

definition tail_name :: "nat \<Rightarrow> string" where
  "tail_name i = ''w'' @ zfill_left 3 (str_of_nat i) @ ''.bin''"

text \<open>
  The last arrival: the largest \<open>elapsed\<close> among the records with an arrival. A time of exactly 0 counts
  as none, as any false value does.
\<close>

definition tail_last :: "records \<Rightarrow> rat option" where
  "tail_last recs =
     (let vs = concat (map (\<lambda>(_, r). if arrived_at r \<in> {None, Some 0} then []
                                      else (case elapsed r of None \<Rightarrow> [] | Some x \<Rightarrow> [x])) recs)
      in if vs = [] then None else Some (Max (set vs)))"

definition tail_fast :: "rat option \<Rightarrow> bool" where
  "tail_fast v = (case v of None \<Rightarrow> False | Some x \<Rightarrow> x \<le> v19_deadline)"

definition tail_line :: "nat \<Rightarrow> rat option \<Rightarrow> string" where
  "tail_line i v =
     ''  write '' @ rjust 3 (str_of_nat i) @ '': '' @
     (case v of None \<Rightarrow> ''--'' | Some x \<Rightarrow> rjust 7 (fixed 3 x) @ '' s'') @
     (if tail_fast v then [] else ''   <-- past V19'')"

definition under :: "nodes \<Rightarrow> string \<Rightarrow> nodes" where
  "under dirs name = map (\<lambda>(n, d). (n, d @ [name])) dirs"

definition tail_clear :: "nat \<Rightarrow> env \<Rightarrow> nodes \<Rightarrow> string \<Rightarrow> string \<Rightarrow> (sys, unit) prog" where
  "tail_clear fuel env dirs writer previous =
     pbind (plift (dict_get dirs writer)) (\<lambda>d.
     pbind (unlink env (d @ [previous])) (\<lambda>_.
     pbind (watching_part (watch_absent fuel (world.truncate env) (under dirs previous) (1 / 5) 120)) (\<lambda>_.
     pret ())))"

definition tail_write ::
  "nat \<Rightarrow> env \<Rightarrow> (string \<Rightarrow> string) \<Rightarrow> nodes \<Rightarrow> string \<Rightarrow> path \<Rightarrow> nat \<Rightarrow> (sys, rat option) prog" where
  "tail_write fuel env sha dirs writer payload i =
     pbind (ask (clock env)) (\<lambda>t0.
     pbind (plift (dict_get dirs writer)) (\<lambda>d.
     pbind (io env (Copied payload (d @ [tail_name i]))) (\<lambda>_.
     pbind (watch_nodes fuel env sha (under dirs (tail_name i)) False tail_size 1 (1 / 20) 120 t0) (\<lambda>recs.
     pbind (say (tail_line i (tail_last recs))) (\<lambda>_.
     pret (tail_last recs))))))"

fun tail_writes ::
  "nat \<Rightarrow> env \<Rightarrow> (string \<Rightarrow> string) \<Rightarrow> nodes \<Rightarrow> string \<Rightarrow> path \<Rightarrow> bool \<Rightarrow> nat list \<Rightarrow> string option \<Rightarrow>
   (sys, rat option list) prog" where
  "tail_writes fuel env sha dirs writer payload deletes [] previous = pret []"
| "tail_writes fuel env sha dirs writer payload deletes (i # rest) previous =
     pbind (case previous of None \<Rightarrow> pret ()
            | Some p \<Rightarrow> if deletes then tail_clear fuel env dirs writer p else pret ()) (\<lambda>_.
     pbind (tail_write fuel env sha dirs writer payload i) (\<lambda>v.
     pbind (tail_writes fuel env sha dirs writer payload deletes rest (Some (tail_name i))) (\<lambda>vs.
     pret (v # vs))))"

definition tail_down :: "env \<Rightarrow> path \<Rightarrow> int \<Rightarrow> (sys, unit) prog" where
  "tail_down env base n =
     pbind (syncfs_down env base n) (\<lambda>_.
     pbind (shell env [''podman'', ''unshare'', ''rm'', ''-rf'', path_str base]) (\<lambda>_. pret ()))"

definition sweep ::
  "nat \<Rightarrow> env \<Rightarrow> (string \<Rightarrow> string) \<Rightarrow> path \<Rightarrow> int \<Rightarrow> int \<Rightarrow> bool \<Rightarrow> (sys, rat option list) prog" where
  "sweep fuel env sha base n writes deletes =
     pbind (syncfs_up fuel env base n 600 False None) (\<lambda>info.
     pbind (plift (rmap (\<lambda>(m, v). rbind (dict_get v ''data_dir'') (\<lambda>d. Inr (m, path_of_str d))) (ci_node info))) (\<lambda>dirs.
     pbind (plift (case ci_writer info of None \<Rightarrow> Inl (KeyError ''writer'') | Some w \<Rightarrow> Inr w)) (\<lambda>writer.
     let payload = base @ [''unit.bin''] in
     pbind (ask (\<lambda>k. random_at env k (nat tail_size))) (\<lambda>data.
     pbind (io env (Wrote payload data)) (\<lambda>_.
     pfinally (tail_writes fuel env sha dirs writer payload deletes [0..<nat writes] None)
       (tail_down env base n))))))"

text \<open>The middle one of the sorted values, the upper of two.\<close>

definition middle :: "rat list \<Rightarrow> rat" where
  "middle xs = sort xs ! (length xs div 2)"

definition tail_report :: "rat option list \<Rightarrow> string list" where
  "tail_report vs =
     (let good = filter tail_fast vs; slow = filter (\<lambda>v. \<not> tail_fast v) vs;
          finite = map the (filter (\<lambda>v. v \<noteq> None) slow)
      in [''  '' @ str_of_nat (length slow) @ ''/'' @ str_of_nat (length vs) @ '' past V19's 5.0 s deadline'']
         @ (if good = [] then [] else [''  fast writes: median '' @ fixed 3 (middle (map the good)) @ '' s''])
         @ (if finite = [] then [] else [''  slow writes: median '' @ fixed 3 (middle finite) @ '' s'']))"

definition tail_main ::
  "nat \<Rightarrow> env \<Rightarrow> (string \<Rightarrow> string) \<Rightarrow> path \<Rightarrow> int list \<Rightarrow> int \<Rightarrow> bool \<Rightarrow> (sys, int) prog" where
  "tail_main fuel env sha base ns writes deletes =
     pbind (pfor ns (\<lambda>n.
       pbind (say ([CHR 0x0A] @ str_of_int n @ '' nodes, '' @ str_of_int writes @ '' writes of 1024 B'' @
         (if deletes then '', deleting the previous file each time'' else []))) (\<lambda>_.
       pbind (sweep fuel env sha base n writes deletes) (\<lambda>vs.
       pfor (tail_report vs) say)))) (\<lambda>_. pret 0)"

section \<open>What a sweep measures\<close>

lemma tail_write_run:
  assumes "tail_write fuel env sha dirs writer payload i s = (Inr v, t)"
  shows "\<exists>j k recs out k'. watch fuel (world.truncate env) sha (under dirs (tail_name i)) False tail_size 1 (1 / 20) 120
      (clock env j) k = Inr (recs, out, k') \<and> io_at env (Suc j) = None \<and> k = j + 2 \<and> v = tail_last recs"
proof -
  obtain s1 t0 s2 and u1 u2 :: sys and d s3 x recs s4 y s5 where run:
    "ask (clock env) s1 = (Inr t0, s2)" "plift (dict_get dirs writer) s2 = (Inr d, u1)"
    "io env (Copied payload (d @ [tail_name i])) u1 = (Inr x, s3)"
    "watch_nodes fuel env sha (under dirs (tail_name i)) False tail_size 1 (1 / 20) 120 t0 s3 = (Inr recs, s4)"
    "pret (tail_last recs) s5 = (Inr v, t)"
    using assms unfolding tail_write_def by (elim pbindE) (rule that)
  have "t0 = clock env (obs s1)" "u1 = s1\<lparr>obs := Suc (obs s1)\<rparr>"
    using run(1,2) by (auto simp: ask_Inr_iff)
  moreover from this run(3) have "io_at env (Suc (obs s1)) = None" "obs s3 = obs s1 + 2"
    by (auto simp: io_def dest!: act_Inr split: option.splits)
  ultimately show ?thesis
    using watch_nodes_Inr [OF run(4)] run(5) by (metis pret_run prod.inject sum.inject(2))
qed

text \<open>Each value of a sweep is the last arrival of one watched write.\<close>

definition measured_write :: "nat \<Rightarrow> env \<Rightarrow> (string \<Rightarrow> string) \<Rightarrow> nodes \<Rightarrow> nat \<Rightarrow> rat option \<Rightarrow> bool" where
  "measured_write fuel env sha dirs i v \<longleftrightarrow>
     (\<exists>j recs out k'. watch fuel (world.truncate env) sha (under dirs (tail_name i)) False tail_size 1 (1 / 20) 120
        (clock env j) (j + 2) = Inr (recs, out, k') \<and> io_at env (Suc j) = None \<and> v = tail_last recs)"

lemma tail_writes_run:
  "tail_writes fuel env sha dirs writer payload deletes is previous s = (Inr vs, t) \<Longrightarrow>
   list_all2 (measured_write fuel env sha dirs) is vs"
proof (induction "is" arbitrary: previous s vs t)
  case (Cons i rest)
  obtain x s1 v s2 vs' s3 where run: "tail_write fuel env sha dirs writer payload i s1 = (Inr v, s2)"
    "tail_writes fuel env sha dirs writer payload deletes rest (Some (tail_name i)) s2 = (Inr vs', s3)"
    "pret (v # vs') s3 = (Inr vs, t)"
    using Cons.prems unfolding tail_writes.simps by (elim pbindE) (rule that)
  then show ?case
    using Cons.IH [OF run(2)] tail_write_run [OF run(1)] by (auto simp: measured_write_def)
qed simp

lemma tail_write_grows: "growth.climbs (tail_write fuel env sha dirs writer payload i)"
  unfolding tail_write_def watch_nodes_def by (intro climbing)

lemma tail_writes_grow: "growth.climbs (tail_writes fuel env sha dirs writer payload deletes is previous)"
proof (induction "is" arbitrary: previous)
  case (Cons i rest)
  have clear: "growth.climbs (case previous of None \<Rightarrow> pret ()
      | Some p \<Rightarrow> if deletes then tail_clear fuel env dirs writer p else pret ())"
    unfolding tail_clear_def by (cases previous) (simp_all add: growth.climbs_ret climbing del: pret_run)
  show ?case
    unfolding tail_writes.simps by (intro growth.climbs_bind clear tail_write_grows Cons.IH growth.climbs_ret)
qed (simp add: growth.climbs_ret del: pret_run)

lemma tail_down_ok:
  assumes "\<And>k args. \<exists>p. run_at env k args = Inr p"
  shows "\<exists>t. tail_down env base n s = (Inr (), t) \<and>
    trace t = trace s @ map (\<lambda>i. Ran (rm_args (syncfs_container base i))) (syncfs_node_ids n) @
      [Ran [''podman'', ''unshare'', ''rm'', ''-rf'', path_str base]]"
proof -
  obtain u where u: "syncfs_down env base n s = (Inr (), u)"
    "trace u = trace s @ map (\<lambda>i. Ran (rm_args (syncfs_container base i))) (syncfs_node_ids n)"
    using remove_containers_ok [OF assms] unfolding syncfs_down_def by blast
  obtain p where "shell env [''podman'', ''unshare'', ''rm'', ''-rf'', path_str base] u =
      (Inr p, u\<lparr>obs := Suc (obs u), trace := trace u @ [Ran [''podman'', ''unshare'', ''rm'', ''-rf'', path_str base]]\<rparr>)"
    using shell_ok [OF assms] by blast
  then show ?thesis
    using u by (simp add: tail_down_def pbind_def)
qed

text \<open>
  A sweep measures each write it was asked for: when it returns, there is one value per write, in
  order, each the last arrival of a watch of that write's file on every node's data directory, timed from
  the clock reading right before the copy that did not fail; and the mesh it started is gone, container
  by container, and its directory with it.
\<close>

theorem sweep_measures_every_write:
  assumes "sweep fuel env sha base n writes deletes s = (Inr vs, t)"
    and "path_ok base" and "base \<noteq> []" and "\<And>k args. \<exists>p. run_at env k args = Inr p"
  shows "list_all2 (measured_write fuel env sha (map (\<lambda>i. (syncfs_node_name i, data_dir base i)) (syncfs_node_ids n)))
      [0..<nat writes] vs \<and>
    (\<exists>did. trace t = did @ map (\<lambda>i. Ran (rm_args (syncfs_container base i))) (syncfs_node_ids n) @
      [Ran [''podman'', ''unshare'', ''rm'', ''-rf'', path_str base]])"
proof -
  let ?dirs = "map (\<lambda>i. (syncfs_node_name i, data_dir base i)) (syncfs_node_ids n)"
  obtain info s1 dirs and u1 u2 u3 u4 :: sys and writer data x s2 where run:
    "syncfs_up fuel env base n 600 False None s = (Inr info, s1)"
    "plift (rmap (\<lambda>(m, v). rbind (dict_get v ''data_dir'') (\<lambda>d. Inr (m, path_of_str d))) (ci_node info)) u1 = (Inr dirs, u2)"
    "pfinally (tail_writes fuel env sha dirs writer (base @ [''unit.bin'']) deletes [0..<nat writes] None)
       (tail_down env base n) s2 = (Inr vs, t)"
    using assms(1) unfolding sweep_def Let_def by (elim pbindE) (rule that)
  have sys: "ci_system info = ''syncfs''" and info: "info = syncfs_info base n (ci_nofile info)"
    using syncfs_up_result(2) [OF run(1)] by (auto simp: syncfs_info_def)
  have "target_dirs info = Inr dirs"
    using run(2) sys by (simp add: target_dirs_def dir_key_def)
  moreover have "target_dirs info = Inr ?dirs"
    using syncfs_target_dirs [OF assms(2,3)] info by metis
  ultimately have dirs: "dirs = ?dirs" by simp
  obtain u r where u: "tail_writes fuel env sha dirs writer (base @ [''unit.bin'']) deletes [0..<nat writes] None s2 = (r, u)"
    by (cases "tail_writes fuel env sha dirs writer (base @ [''unit.bin'']) deletes [0..<nat writes] None s2")
  obtain v where v: "tail_down env base n u = (Inr (), v)"
    "trace v = trace u @ map (\<lambda>i. Ran (rm_args (syncfs_container base i))) (syncfs_node_ids n) @
      [Ran [''podman'', ''unshare'', ''rm'', ''-rf'', path_str base]]"
    using tail_down_ok [OF assms(4)] by blast
  have "r = Inr vs" "t = v"
    using run(3) u v(1) by (auto simp: pfinally_def split: if_splits)
  then show ?thesis
    using tail_writes_run u v(2) dirs by blast
qed

text \<open>
  A write that some node never received can still count as a fast one: the value of a write is the
  last arrival among the nodes that did receive it, so if those, the writer among them, were quick, the
  write is reported below the deadline whatever happened on the others.
\<close>

theorem partial_arrival_counts_as_fast:
  assumes "watch fuel w sha nodes tree sz cnt interval deadline t0 k = Inr (recs, out, k')"
    and "distinct (dict_keys nodes)"
    and "map_of recs writer = Some r" and "arrived_at r = Some a" and "a \<noteq> 0"
    and "list_all (\<lambda>(_, q). case arrived_at q of None \<Rightarrow> True | Some b \<Rightarrow> b - t0 \<le> v19_deadline) recs"
    and "map_of recs other = Some q" and "arrived_at q = None"
  shows "tail_fast (tail_last recs)"
proof -
  let ?vs = "concat (map (\<lambda>(_, r). if arrived_at r \<in> {None, Some 0} then []
      else (case elapsed r of None \<Rightarrow> [] | Some x \<Rightarrow> [x])) recs)"
  have keys: "distinct (dict_keys recs)"
    using watch_keys [OF assms(1,2)] by simp
  have el: "elapsed r = Some (b - t0)" if "(n, r) \<in> set recs" "arrived_at r = Some b" for n r b
  proof -
    have "map_of recs n = Some r"
      using keys that(1) by simp
    from watch_record [OF assms(1,2) this] that(2) show ?thesis
      by (auto simp: record_ok_def)
  qed
  have "(writer, r) \<in> set recs"
    using assms(3) by (rule map_of_SomeD)
  then have "a - t0 \<in> set ?vs"
    using el [of writer r a] assms(4,5) by force
  then have ne: "?vs \<noteq> []"
    by (metis list.distinct(1) list.set_cases)
  have "x \<le> v19_deadline" if x: "x \<in> set ?vs" for x
  proof -
    obtain n q b where q: "(n, q) \<in> set recs" "arrived_at q = Some b" "elapsed q = Some x"
      using x by (fastforce split: if_splits option.splits)
    then have "x = b - t0"
      using el by simp
    then show ?thesis
      using assms(6) q by (auto simp: list_all_iff)
  qed
  then have "Max (set ?vs) \<le> v19_deadline"
    using ne Max_in [of "set ?vs"] by blast
  then show ?thesis
    using ne unfolding tail_fast_def tail_last_def Let_def by simp
qed

theorem partial_arrival_counts_as_fast_witness:
  "tail_fast (tail_last sample_records) \<and>
    (\<exists>q. map_of sample_records ''n2'' = Some q \<and> arrived_at q = None)"
proof -
  have "tail_fast (tail_last sample_records)"
    by (rule partial_arrival_counts_as_fast [OF sample_watch_run, where writer = "''n1''" and other = "''n2''"
          and r = "snd (sample_records ! 0)" and q = "snd (sample_records ! 1)" and a = 2])
      (simp_all add: sample_nodes_def sample_records_def v19_deadline_def)
  then show ?thesis
    by (simp add: sample_records_def)
qed

theorem sweep_measures_every_write_witness:
  "\<exists>vs t. sweep 5 (ready_env 1024) sample_sha [[], ''r''] 2 1 False fresh = (Inr vs, t) \<and>
    list_all2 (measured_write 5 (ready_env 1024) sample_sha
      (map (\<lambda>i. (syncfs_node_name i, data_dir [[], ''r''] i)) (syncfs_node_ids 2))) [0..<nat 1] vs \<and>
    (\<exists>did. trace t = did @ map (\<lambda>i. Ran (rm_args (syncfs_container [[], ''r''] i))) (syncfs_node_ids 2) @
      [Ran [''podman'', ''unshare'', ''rm'', ''-rf'', path_str [[], ''r'']]])"
proof -
  have ids: "syncfs_node_ids 2 = [1, 2]"
    by code_simp
  have dirs: "rmap (\<lambda>(m, v). rbind (dict_get v ''data_dir'') (\<lambda>d. Inr (m, path_of_str d)))
      (ci_node (syncfs_info [[], ''r''] 2 nofile)) =
    Inr [(syncfs_node_name 1, data_dir [[], ''r''] 1), (syncfs_node_name 2, data_dir [[], ''r''] 2)]" for nofile
    using syncfs_target_dirs [of "[[], ''r'']" 2 nofile] ids
    by (simp add: target_dirs_def dir_key_def syncfs_info_def path_ok_def component_ok_def)
  have "case syncfs_up 5 (ready_env 1024) [[], ''r''] 2 600 False None fresh of (r, u) \<Rightarrow> \<not> isl r \<and> obs u = 18"
  proof -
    have "contains ''Started libtorrent session'' ''Started libtorrent session''" "str_strip ''Started libtorrent session'' \<noteq> ''exited''"
      by code_simp+
    then show ?thesis
      by (simp add: syncfs_up_def Let_def ids step_defs ensure_network_def syncfs_start_node_def
          run_checked_def syncfs_wait_ready_def wait_ready_def syncfs_probe_def eval_nat_numeral observed_nofile_def
          ready_env_def fresh_def cong: outer_congs)
  qed
  then obtain info s1 where up: "syncfs_up 5 (ready_env 1024) [[], ''r''] 2 600 False None fresh = (Inr info, s1)"
    "obs s1 = 18"
    by (auto simp: isl_def split: prod.splits) (metis sum.exhaust)
  obtain nofile where info: "info = syncfs_info [[], ''r''] 2 nofile"
    using syncfs_up_result(2) [OF up(1)] by blast
  have ran: "\<exists>p. run_at (ready_env 1024) k args = Inr p" for k args
    by (simp add: ready_env_def)
  let ?m = "tail_writes 5 (ready_env 1024) sample_sha [(syncfs_node_name 1, data_dir [[], ''r''] 1),
    (syncfs_node_name 2, data_dir [[], ''r''] 2)] (syncfs_node_name 1) [[], ''r'', ''unit.bin''] False [0..<nat 1] None"
  have body: "\<not> isl (fst (?m \<lparr>obs = 20, trace = tr, out_file = f\<rparr>))" for tr f
    by code_simp
  let ?data = "random_at (ready_env 1024) 18 (nat tail_size)"
  have "sweep 5 (ready_env 1024) sample_sha [[], ''r''] 2 1 False fresh =
    pfinally ?m (tail_down (ready_env 1024) [[], ''r''] 2)
      \<lparr>obs = 20, trace = trace s1 @ [Wrote [[], ''r'', ''unit.bin''] ?data], out_file = out_file s1\<rparr>"
  proof -
    have p: "plift r s = (r, s)" for r :: "'b res" and s :: sys
      by (simp add: plift_def)
    have io: "io (ready_env 1024) ev s = (Inr (), s\<lparr>obs := Suc (obs s), trace := trace s @ [ev]\<rparr>)" for ev s
      by (simp add: io_def act_def ready_env_def)
    have w: "ci_writer info = Some (syncfs_node_name 1)"
      using info ids by (simp add: syncfs_info_def)
    have d: "rmap (\<lambda>(m, v). rbind (dict_get v ''data_dir'') (\<lambda>d. Inr (m, path_of_str d))) (ci_node info) =
        Inr [(syncfs_node_name 1, data_dir [[], ''r''] 1), (syncfs_node_name 2, data_dir [[], ''r''] 2)]"
      using dirs info by simp
    show ?thesis
      using up(2) by (cases s1) (simp add: sweep_def Let_def pbind_def up(1) d w ask_def io del: tail_writes.simps)
  qed
  moreover obtain vs u where "?m \<lparr>obs = 20, trace = trace s1 @ [Wrote [[], ''r'', ''unit.bin''] ?data], out_file = out_file s1\<rparr> = (Inr vs, u)"
    using body by (metis isl_def prod.collapse sum.collapse(2))
  moreover obtain v where "tail_down (ready_env 1024) [[], ''r''] 2 u = (Inr (), v)"
    using tail_down_ok [OF ran] by blast
  ultimately have "sweep 5 (ready_env 1024) sample_sha [[], ''r''] 2 1 False fresh = (Inr vs, v)"
    by (simp add: pfinally_def del: tail_writes.simps)
  then obtain vs t where run: "sweep 5 (ready_env 1024) sample_sha [[], ''r''] 2 1 False fresh = (Inr vs, t)"
    by blast
  then show ?thesis
    using sweep_measures_every_write [OF run _ _ ran] by (fastforce simp: path_ok_def component_ok_def)
qed

end
