(* ===== verification/Bench.thy ===== *)
theory Bench
  imports Cluster
begin

text \<open>
  What \<open>tools/measure/measure_peak.py\<close> and \<open>measure_digest.py\<close> share: they start the daemon itself, as
  a child process in a temporary directory, rather than containers. Child processes, the monotonic
  clock and temporary directories are observations like the others.
\<close>

section \<open>The environment of the two programs\<close>

text \<open>
  \<open>pid_at\<close> is the outcome of starting a process, \<open>status_at\<close> what \<open>poll()\<close> says of it, \<open>exits_at\<close>
  whether \<open>wait(timeout=20)\<close> sees it end in time; \<open>published_at\<close> is what is published at an endpoint in the
  second a socket is polled, and \<open>zmq_fails\<close> says which of the socket calls raise.
\<close>

record bench = env +
  mono :: "nat \<Rightarrow> rat"
  listdir_at :: "nat \<Rightarrow> string \<Rightarrow> os_error + string list"
  pid_at :: "nat \<Rightarrow> os_error + int"
  status_at :: "nat \<Rightarrow> int \<Rightarrow> int option"
  exits_at :: "nat \<Rightarrow> int \<Rightarrow> bool"
  is_file_at :: "nat \<Rightarrow> path \<Rightarrow> bool"
  tempdir_at :: "nat \<Rightarrow> path"
  published_at :: "nat \<Rightarrow> string \<Rightarrow> string list list"
  zmq_fails :: "nat \<Rightarrow> bool"

abbreviation outside :: "bench \<Rightarrow> env" where
  "outside b \<equiv> env.truncate b"

section \<open>Shared steps\<close>

text \<open>A comprehension whose element expression has effects.\<close>

fun pmap :: "('a \<Rightarrow> ('s, 'b) prog) \<Rightarrow> 'a list \<Rightarrow> ('s, 'b list) prog" where
  "pmap f [] = pret []"
| "pmap f (x # xs) = pbind (f x) (\<lambda>y. pbind (pmap f xs) (\<lambda>ys. pret (y # ys)))"

definition tempdir :: "bench \<Rightarrow> (sys, path) prog" where
  "tempdir b =
     pbind (ask (tempdir_at b)) (\<lambda>d. pbind (io (outside b) (MadeDir d)) (\<lambda>_. pret d))"

definition remove_tree :: "bench \<Rightarrow> path \<Rightarrow> (sys, unit) prog" where
  "remove_tree b d = io (outside b) (RemovedTree d)"

text \<open>\<open>with TemporaryDirectory() as d: body\<close>.\<close>

definition with_tempdir :: "bench \<Rightarrow> (path \<Rightarrow> (sys, 'a) prog) \<Rightarrow> (sys, 'a) prog" where
  "with_tempdir b body = pbind (tempdir b) (\<lambda>d. pfinally (body d) (remove_tree b d))"

text \<open>
  \<open>subprocess.Popen\<close> with a working directory and the file both output streams go to (\<open>None\<close> for
  \<open>DEVNULL\<close>); when it raises, no process was started.
\<close>

definition spawn :: "bench \<Rightarrow> string list \<Rightarrow> path \<Rightarrow> path option \<Rightarrow> (sys, int) prog" where
  "spawn b args cwd out s =
     (case pid_at b (obs s) of
        Inl e \<Rightarrow> (Inl (OSErr e), s\<lparr>obs := Suc (obs s)\<rparr>)
      | Inr p \<Rightarrow> (Inr p, s\<lparr>obs := Suc (obs s), trace := trace s @ [Spawned args cwd out p]\<rparr>))"

definition terminate_child :: "int \<Rightarrow> (sys, unit) prog" where
  "terminate_child p = act (Terminated p) (\<lambda>_. Inr ())"

text \<open>\<open>wait(timeout=20)\<close>, and \<open>kill()\<close> when the time is up.\<close>

definition reap :: "bench \<Rightarrow> int \<Rightarrow> (sys, unit) prog" where
  "reap b p =
     pbind (ask (\<lambda>k. exits_at b k p)) (\<lambda>ended. if ended then pret () else act (Killed p) (\<lambda>_. Inr ()))"

section \<open>The steps only add to the trace\<close>

lemma pmap_climbs [step_climbs]:
  "(\<And>x. growth.climbs (f x)) \<Longrightarrow> growth.climbs (pmap f xs)"
  "(\<And>x. filing.climbs (f x)) \<Longrightarrow> filing.climbs (pmap f xs)"
  by (induction xs) (simp_all add: growth.climbs_ret growth.climbs_bind filing.climbs_ret filing.climbs_bind
      del: pret_run)

lemma bench_climbs [step_climbs]:
  "growth.climbs (tempdir b)" "growth.climbs (remove_tree b d)" "growth.climbs (spawn b args d out)"
  "growth.climbs (terminate_child p)" "growth.climbs (reap b p)"
proof -
  show "growth.climbs (spawn b args d out)"
    by (simp add: growth.climbs_def grows_def spawn_def split: sum.splits)
qed (unfold tempdir_def remove_tree_def terminate_child_def reap_def, (intro growth.climbs_intros step_climbs)+)

lemma with_tempdir_climbs [step_climbs]:
  "(\<And>d. growth.climbs (body d)) \<Longrightarrow> growth.climbs (with_tempdir b body)"
  unfolding with_tempdir_def by (intro growth.climbs_intros step_climbs)

text \<open>A temporary directory that was entered is removed, whatever its body did.\<close>

lemma finally_ran:
  assumes "pfinally m fin s = (r, t)" and "r \<noteq> Inl OutOfFuel"
  shows "\<exists>r' u x. m s = (r', u) \<and> fin u = (x, t) \<and> (\<forall>v. r = Inr v \<longrightarrow> r' = Inr v)"
  using assms by (auto simp: pfinally_def split: prod.splits sum.splits if_splits)

lemma with_tempdir_removes:
  assumes "with_tempdir b body s = (Inr x, t)"
  shows "\<exists>d s1 u. tempdir b s = (Inr d, s1) \<and> body d s1 = (Inr x, u) \<and>
    trace t = trace u @ [RemovedTree d]"
proof -
  obtain d s1 where d: "tempdir b s = (Inr d, s1)" "pfinally (body d) (remove_tree b d) s1 = (Inr x, t)"
    using assms unfolding with_tempdir_def by (elim pbindE) (rule that)
  then obtain u where "body d s1 = (Inr x, u)" "remove_tree b d u = (Inr (), t)"
    by (auto simp: pfinally_def split: prod.splits sum.splits if_splits)
  then show ?thesis
    using d doesD [OF does_io] by (fastforce simp: remove_tree_def)
qed


section \<open>Programs that do not run out of fuel, and the observations they use\<close>

definition settled :: "(sys, 'a) prog \<Rightarrow> bool" where
  "settled m \<longleftrightarrow> (\<forall>s. fst (m s) \<noteq> Inl OutOfFuel)"

lemma settledD: "settled m \<Longrightarrow> m s = (r, t) \<Longrightarrow> r \<noteq> Inl OutOfFuel"
  by (metis fst_conv settled_def)

lemma settled_bind: "settled m \<Longrightarrow> (\<And>x. settled (f x)) \<Longrightarrow> settled (pbind m f)"
  by (auto simp: settled_def pbind_def split: prod.splits sum.splits) (metis fst_conv)

lemma settled_steps:
  "settled (pret x)" "settled (ask g)" "e \<noteq> OutOfFuel \<Longrightarrow> settled (praise e)" "r \<noteq> Inl OutOfFuel \<Longrightarrow> settled (plift r)"
  "(\<And>k. f k \<noteq> Inl OutOfFuel) \<Longrightarrow> settled (act ev f)"
  by (auto simp: settled_def ask_def act_def)

lemma settled_io: "settled (io env ev)"
  unfolding io_def by (rule settled_steps) (simp split: option.splits)

lemma settled_if: "settled m \<Longrightarrow> settled n \<Longrightarrow> settled (if c then m else n)"
  by simp

lemmas settling = settled_bind settled_steps settled_io settled_if

definition fewer_observed :: "sys \<Rightarrow> sys \<Rightarrow> bool" where
  "fewer_observed s t \<longleftrightarrow> obs s \<le> obs t"

interpretation ticking: effect_order fewer_observed
  by unfold_locales (auto simp: fewer_observed_def)

lemma ticking_steps: "ticking.climbs (ask f)" "ticking.climbs (act ev g)" "ticking.climbs (io env ev)"
  by (simp_all add: ticking.climbs_def fewer_observed_def ask_def act_def io_def)

lemma ticks_run: "m s = (r, t) \<Longrightarrow> ticking.climbs m \<Longrightarrow> obs s \<le> obs t"
  using ticking.climbs_result by (fastforce simp: fewer_observed_def)

lemmas ticks = ticking.climbs_intros ticking_steps

section \<open>A loop with a deadline\<close>

text \<open>
  \<open>while time.monotonic() < stop: body\<close>, where the body either breaks off with a result (\<open>Inl\<close>) or goes
  round again (\<open>Inr\<close>); the body gets the rest of the fuel, for a loop of its own.
\<close>

fun until_time ::
  "nat \<Rightarrow> (nat \<Rightarrow> rat) \<Rightarrow> rat \<Rightarrow> (nat \<Rightarrow> 'a \<Rightarrow> (sys, 'r + 'a) prog) \<Rightarrow> 'a \<Rightarrow> (sys, 'r + 'a) prog" where
  "until_time 0 clk stop body x = praise OutOfFuel"
| "until_time (Suc fuel) clk stop body x =
     pbind (ask clk) (\<lambda>now.
       if now < stop
       then pbind (body fuel x) (\<lambda>y. case y of Inl r \<Rightarrow> pret (Inl r) | Inr x' \<Rightarrow> until_time fuel clk stop body x')
       else pret (Inr x))"

lemma until_time_step:
  assumes "clk (obs s) < stop" and "body fuel x (s\<lparr>obs := Suc (obs s)\<rparr>) = (v, u)"
  shows "until_time (Suc fuel) clk stop body x s =
    (case v of Inl e \<Rightarrow> (Inl e, u) | Inr y \<Rightarrow>
       (case y of Inl r \<Rightarrow> (Inr (Inl r), u) | Inr x' \<Rightarrow> until_time fuel clk stop body x' u))"
  using assms by (simp add: pbind_def ask_def split: sum.splits)

lemma until_time_stop:
  "\<not> clk (obs s) < stop \<Longrightarrow> until_time (Suc fuel) clk stop body x s = (Inr (Inr x), s\<lparr>obs := Suc (obs s)\<rparr>)"
  by (simp add: pbind_def ask_def)

declare until_time.simps(2) [simp del]

text \<open>A clock that passes every deadline and stays past it.\<close>

definition passing :: "(nat \<Rightarrow> rat) \<Rightarrow> bool" where
  "passing clk \<longleftrightarrow> (\<forall>x. \<exists>N. \<forall>k \<ge> N. x \<le> clk k)"

text \<open>
  What a body owes the loop: it only moves on to later observations, more fuel does not change what it
  returns, and on a clock that passes it does return with enough of it.
\<close>

locale timed_body =
  fixes clk :: "nat \<Rightarrow> rat" and body :: "nat \<Rightarrow> 'a \<Rightarrow> (sys, 'r + 'a) prog"
  assumes body_ticks: "ticking.climbs (body fuel x)"
    and body_more: "body fuel x s = (r, t) \<Longrightarrow> r \<noteq> Inl OutOfFuel \<Longrightarrow> body (Suc fuel) x s = (r, t)"
    and body_returns: "passing clk \<Longrightarrow> \<exists>fuel. fst (body fuel x s) \<noteq> Inl OutOfFuel"
begin

lemma loop_ticks: "ticking.climbs (until_time fuel clk stop body x)"
proof (induction fuel arbitrary: x)
  case (Suc fuel)
  have "ticking.climbs (case y of Inl r \<Rightarrow> pret (Inl r) | Inr x' \<Rightarrow> until_time fuel clk stop body x')" for y
    by (cases y) (simp_all add: Suc ticking.climbs_ret del: pret_run)
  then show ?case
    unfolding until_time.simps by (intro ticks body_ticks)
qed (simp add: ticking.climbs_raise del: praise_run)

lemma loop_more:
  "until_time fuel clk stop body x s = (r, t) \<Longrightarrow> r \<noteq> Inl OutOfFuel \<Longrightarrow>
   until_time (Suc fuel) clk stop body x s = (r, t)"
proof (induction fuel arbitrary: x s)
  case (Suc fuel)
  obtain v u where b: "body fuel x (s\<lparr>obs := Suc (obs s)\<rparr>) = (v, u)"
    by (cases "body fuel x (s\<lparr>obs := Suc (obs s)\<rparr>)")
  show ?case
  proof (cases "clk (obs s) < stop")
    case True
    note run = until_time_step [where body = body and clk = clk and s = s, OF True]
    have v: "v \<noteq> Inl OutOfFuel"
      using Suc.prems run [OF b] by auto
    show ?thesis
      using Suc.prems Suc.IH unfolding run [OF b] run [OF body_more [OF b v]]
      by (auto simp del: until_time.simps split: sum.splits)
  next
    case False
    then show ?thesis
      using Suc.prems by (simp add: until_time_stop [where clk = clk and s = s, OF False])
  qed
qed simp

lemma enough:
  assumes "fst (until_time fuel clk stop body x s) \<noteq> Inl OutOfFuel"
  shows "until_time (fuel + n) clk stop body x s = until_time fuel clk stop body x s"
proof (induction n)
  case (Suc n)
  then show ?case
    using assms loop_more [of "fuel + n" stop x s] by (metis add_Suc_right prod.collapse)
qed simp

lemma body_enough:
  assumes "fst (body fuel x s) \<noteq> Inl OutOfFuel"
  shows "body (fuel + n) x s = body fuel x s"
proof (induction n)
  case (Suc n)
  then show ?case
    using assms body_more [of "fuel + n" x s] by (metis add_Suc_right prod.collapse)
qed simp

lemma loop_returns:
  assumes "passing clk"
  shows "\<exists>fuel. fst (until_time fuel clk stop body x s) \<noteq> Inl OutOfFuel"
proof -
  obtain N where N: "\<And>k. N \<le> k \<Longrightarrow> stop \<le> clk k"
    using assms by (auto simp: passing_def)
  show ?thesis
  proof (induction "N - obs s" arbitrary: x s rule: less_induct)
    case less
    show ?case
    proof (cases "clk (obs s) < stop")
      case True
      let ?s = "s\<lparr>obs := Suc (obs s)\<rparr>"
      obtain f where f: "fst (body f x ?s) \<noteq> Inl OutOfFuel"
        using body_returns [OF assms] by blast
      obtain v u where b: "body f x ?s = (v, u)"
        by (cases "body f x ?s")
      have "obs s < N"
        using True N [of "obs s"] by (meson leD not_le_imp_less)
      moreover have "Suc (obs s) \<le> obs u"
        using ticking.climbs_result [OF body_ticks b] by (simp add: fewer_observed_def)
      ultimately have "N - obs u < N - obs s"
        by simp
      note IH = less [OF this]
      show ?thesis
      proof (cases "\<exists>x'. v = Inr (Inr x')")
        case again: True
        then obtain x' where x': "v = Inr (Inr x')"
          by blast
        obtain g where g: "fst (until_time g clk stop body x' u) \<noteq> Inl OutOfFuel"
          using IH by blast
        have "body (f + g) x ?s = (v, u)" "until_time (f + g) clk stop body x' u = until_time g clk stop body x' u"
          using body_enough [OF f, of g] b enough [OF g, of f] by (simp_all add: add.commute)
        then have "fst (until_time (Suc (f + g)) clk stop body x s) \<noteq> Inl OutOfFuel"
          using True x' g by (simp add: until_time_step)
        then show ?thesis ..
      next
        case False
        then have "fst (until_time (Suc f) clk stop body x s) \<noteq> Inl OutOfFuel"
          using True b f by (auto simp: until_time_step split: sum.splits)
        then show ?thesis ..
      qed
    next
      case False
      then have "fst (until_time (Suc 0) clk stop body x s) \<noteq> Inl OutOfFuel"
        by (simp add: until_time_stop)
      then show ?thesis ..
    qed
  qed
qed

end

text \<open>
  How a loop ends: broken off by the body, or with the deadline passed. An invariant of the rounds and the
  state they run in.
\<close>

lemma until_time_result:
  assumes "until_time fuel clk stop body x s = (Inr y, t)" and "I x s"
    and "\<And>x s. I x s \<Longrightarrow> I x (s\<lparr>obs := Suc (obs s)\<rparr>)"
    and "\<And>fuel x s x' t. I x s \<Longrightarrow> body fuel x s = (Inr (Inr x'), t) \<Longrightarrow> I x' t"
  shows "case y of
      Inl r \<Rightarrow> \<exists>f z u. I z u \<and> body f z u = (Inr (Inl r), t)
    | Inr z \<Rightarrow> \<exists>u. I z u \<and> stop \<le> clk (obs u) \<and> t = u\<lparr>obs := Suc (obs u)\<rparr>"
  using assms(1,2)
proof (induction fuel arbitrary: x s)
  case (Suc fuel)
  obtain v u where b: "body fuel x (s\<lparr>obs := Suc (obs s)\<rparr>) = (v, u)"
    by (cases "body fuel x (s\<lparr>obs := Suc (obs s)\<rparr>)")
  note here = assms(3) [OF Suc.prems(2)]
  show ?case
  proof (cases "clk (obs s) < stop")
    case True
    note run = Suc.prems(1) [unfolded until_time_step [where body = body and clk = clk and s = s, OF True b]]
    show ?thesis
    proof (cases v)
      case (Inl e)
      then show ?thesis
        using run by simp
    next
      case (Inr z)
      show ?thesis
      proof (cases z)
        case (Inl r)
        then have "y = Inl r" "u = t"
          using run Inr by simp_all
        then show ?thesis
          using b Inr Inl here by auto
      next
        case again: (Inr x')
        have "I x' u"
          using assms(4) [OF here] b Inr again by simp
        then show ?thesis
          using Suc.IH run Inr again by simp
      qed
    qed
  next
    case False
    then show ?thesis
      using Suc.prems until_time_stop [where clk = clk and s = s, OF False, of fuel body x] by (auto simp: not_less)
  qed
qed simp

lemma settled_pmap: "(\<And>x. settled (f x)) \<Longrightarrow> settled (pmap f xs)"
  by (induction xs) (simp_all add: settling del: pret_run)

lemma settled_pfor: "(\<And>x. settled (f x)) \<Longrightarrow> settled (pfor xs f)"
  by (induction xs) (simp_all add: settling del: pret_run)

lemma settled_finally: "settled m \<Longrightarrow> settled f \<Longrightarrow> settled (pfinally m f)"
  by (auto simp: settled_def pfinally_def split: prod.splits sum.splits) (metis fst_conv)+

lemma ticks_pmap: "(\<And>x. ticking.climbs (f x)) \<Longrightarrow> ticking.climbs (pmap f xs)"
  by (induction xs) (simp_all add: ticking.climbs_ret ticking.climbs_bind del: pret_run)

lemma spawn_ticks: "ticking.climbs (spawn b args cwd out)"
  by (simp add: ticking.climbs_def fewer_observed_def spawn_def split: sum.splits)

lemma settled_bench:
  "settled (tempdir b)" "settled (remove_tree b d)" "settled (spawn b args d out)"
  "settled (terminate_child p)" "settled (reap b p)"
proof -
  show "settled (spawn b args d out)"
    by (simp add: settled_def spawn_def split: sum.splits)
qed (unfold tempdir_def remove_tree_def terminate_child_def reap_def, (intro settling; simp)+)

section \<open>Enough fuel\<close>

text \<open>A program that returns with enough fuel, whatever the state; what stands before and after it does not matter.\<close>

definition fuelled :: "(nat \<Rightarrow> (sys, 'a) prog) \<Rightarrow> bool" where
  "fuelled m \<longleftrightarrow> (\<forall>s. \<exists>fuel. fst (m fuel s) \<noteq> Inl OutOfFuel)"

lemma fuelled_settled: "settled m \<Longrightarrow> fuelled (\<lambda>_. m)"
  by (simp add: fuelled_def settled_def)

lemma fuelled_after:
  assumes "settled m" and "\<And>x. fuelled (\<lambda>fuel. f fuel x)"
  shows "fuelled (\<lambda>fuel. pbind m (f fuel))"
  unfolding fuelled_def
proof
  fix s
  show "\<exists>fuel. fst (pbind m (f fuel) s) \<noteq> Inl OutOfFuel"
  proof (cases "m s")
    case (Pair r u)
    then show ?thesis
      using assms(2) settledD [OF assms(1) Pair] by (cases r) (auto simp: pbind_def fuelled_def)
  qed
qed

lemma fuelled_before:
  assumes "fuelled m" and "\<And>x. settled (f x)"
  shows "fuelled (\<lambda>fuel. pbind (m fuel) f)"
  unfolding fuelled_def
proof
  fix s
  obtain fuel where "fst (m fuel s) \<noteq> Inl OutOfFuel"
    using assms(1) by (auto simp: fuelled_def)
  then have "fst (pbind (m fuel) f s) \<noteq> Inl OutOfFuel"
    using assms(2) by (cases "m fuel s"; cases "fst (m fuel s)") (auto simp: pbind_def settled_def)
  then show "\<exists>fuel. fst (pbind (m fuel) f s) \<noteq> Inl OutOfFuel" ..
qed

lemma fuelled_finally:
  assumes "fuelled m" and "settled f"
  shows "fuelled (\<lambda>fuel. pfinally (m fuel) f)"
  unfolding fuelled_def
proof
  fix s
  obtain fuel where fuel: "fst (m fuel s) \<noteq> Inl OutOfFuel"
    using assms(1) by (auto simp: fuelled_def)
  obtain r u where m: "m fuel s = (r, u)"
    by (cases "m fuel s")
  obtain x v where "f u = (x, v)"
    by (cases "f u")
  then have "fst (pfinally (m fuel) f s) \<noteq> Inl OutOfFuel"
    using fuel m settledD [OF assms(2)] by (cases x) (auto simp: pfinally_def)
  then show "\<exists>fuel. fst (pfinally (m fuel) f s) \<noteq> Inl OutOfFuel" ..
qed

lemma fuelled_if: "fuelled m \<Longrightarrow> fuelled n \<Longrightarrow> fuelled (\<lambda>fuel. if c then m fuel else n fuel)"
  by (cases c) simp_all

section \<open>What a program did\<close>

text \<open>Steps whose events depend on what they return.\<close>

lemma does_pmap:
  assumes "\<And>x. does (f x) (ev x)"
  shows "does (pmap f xs) (\<lambda>ys. concat (map2 ev xs ys))"
proof (induction xs)
  case (Cons x xs)
  show ?case
    unfolding does_def
  proof (intro allI impI)
    fix s zs u
    assume "pmap f (x # xs) s = (Inr zs, u)"
    then obtain y t ys where run: "f x s = (Inr y, t)" "pmap f xs t = (Inr ys, u)" "zs = y # ys"
      by (auto simp: pbind_Inr_iff)
    then show "trace u = trace s @ concat (map2 ev (x # xs) zs)"
      using doesD [OF assms run(1)] doesD [OF Cons.IH run(2)] by simp
  qed
qed (simp add: does_def)

lemma does_tempdir: "does (tempdir b) (\<lambda>d. [MadeDir d])"
  by (auto simp: does_def tempdir_def io_def act_def pbind_Inr_iff ask_Inr_iff split: option.splits)

lemma does_spawn: "does (spawn b args cwd out) (\<lambda>p. [Spawned args cwd out p])"
  by (auto simp: does_def spawn_def split: sum.splits)

lemma pmap_length: "pmap f xs s = (Inr ys, t) \<Longrightarrow> length ys = length xs"
  by (induction xs arbitrary: s ys t) (auto simp: pbind_Inr_iff)

lemma does_until_time:
  assumes "\<And>fuel x. does (body fuel x) (\<lambda>_. [])"
  shows "does (until_time fuel clk stop body x) (\<lambda>_. [])"
proof (induction fuel arbitrary: x)
  case (Suc fuel)
  have "does (case y of Inl r \<Rightarrow> pret (Inl r) | Inr x' \<Rightarrow> until_time fuel clk stop body x') (\<lambda>_. [])" for y
    by (cases y) (simp_all add: Suc does_ret del: pret_run)
  then have "does (if now < stop then pbind (body fuel x) (\<lambda>y. case y of Inl r \<Rightarrow> pret (Inl r)
      | Inr x' \<Rightarrow> until_time fuel clk stop body x') else pret (Inr x)) (\<lambda>_. [])" for now
    using does_bind [OF assms] does_ret by fastforce
  then show ?case
    using does_bind [OF does_ask] unfolding until_time.simps by fastforce
qed (simp add: does_def)

lemma does_quiet:
  "does m (\<lambda>_. []) \<Longrightarrow> (\<And>x. does (f x) (\<lambda>_. [])) \<Longrightarrow> does (pbind m f) (\<lambda>_. [])"
  using does_bind [of m "[]" f "[]"] by simp

lemma does_lift: "does (plift r) (\<lambda>_. [])"
  by (simp add: does_def)

lemma does_if: "does m ev \<Longrightarrow> does n ev \<Longrightarrow> does (if c then m else n) ev"
  by simp

lemmas quiet = does_quiet does_ask does_ret does_lift does_if

lemma reaped:
  "pfor pids (reap b) s = (Inr x, t) \<Longrightarrow> \<exists>slow. trace t = trace s @ map Killed slow \<and> subseq slow pids"
proof (induction pids arbitrary: s)
  case (Cons p pids)
  obtain u where u: "reap b p s = (Inr (), u)" "pfor pids (reap b) u = (Inr x, t)"
    using Cons.prems by (auto simp: pbind_Inr_iff)
  obtain slow where slow: "trace t = trace u @ map Killed slow" "subseq slow pids"
    using Cons.IH [OF u(2)] by blast
  have "trace u = trace s \<or> trace u = trace s @ [Killed p]"
    using u(1) by (auto simp: reap_def pbind_def ask_def act_def split: if_splits)
  then show ?case
  proof
    assume "trace u = trace s"
    then show ?thesis
      using slow by (intro exI [of _ slow]) auto
  next
    assume "trace u = trace s @ [Killed p]"
    then show ?thesis
      using slow by (intro exI [of _ "p # slow"]) simp
  qed
qed simp

lemma finally_Inr:
  assumes "pfinally m fin s = (Inr x, t)"
  obtains u where "m s = (Inr x, u)" "fin u = (Inr (), t)"
  using assms by (auto simp: pfinally_def split: prod.splits sum.splits if_splits)

text \<open>An outside where every call succeeds and every clock reading is a second after the last.\<close>

definition quiet_bench :: bench where
  "quiet_bench = env.extend (ready_env 3)
     \<lparr>mono = of_nat, listdir_at = (\<lambda>_ _. Inr [''0'', ''1'']), pid_at = (\<lambda>k. Inr (int k)), status_at = (\<lambda>_ _. None),
      exits_at = (\<lambda>_ _. True), is_file_at = (\<lambda>_ _. True), tempdir_at = (\<lambda>k. [[], ''tmp'', str_of_nat k]),
      published_at = (\<lambda>_ _. []), zmq_fails = (\<lambda>_. False)\<rparr>"

end
