(* ===== verification/PyRegex.thy ===== *)
theory PyRegex
  imports PyText
begin

text \<open>
  The part of Python's \<open>re\<close> that a pattern made of single-character classes needs: a match tries the
  longest repetition first and gives back one character at a time. \<open>rx\<close> follows that search; for
  patterns whose repetitions cannot run into what follows them it is plain splitting at a separator.
\<close>

section \<open>Patterns and the search\<close>

datatype rx_item =
    One "char \<Rightarrow> bool"
  | Star "char \<Rightarrow> bool"
  | Plus "char \<Rightarrow> bool"
  | Grp "char \<Rightarrow> bool"

text \<open>The first success among the repetition counts \<open>hi\<close>, \<open>hi - 1\<close>, down to \<open>lo\<close>.\<close>

fun greedy :: "nat \<Rightarrow> nat \<Rightarrow> (nat \<Rightarrow> 'a option) \<Rightarrow> 'a option" where
  "greedy lo 0 f = (if lo = 0 then f 0 else None)"
| "greedy lo (Suc hi) f =
     (if Suc hi < lo then None
      else case f (Suc hi) of Some x \<Rightarrow> Some x | None \<Rightarrow> greedy lo hi f)"

definition run_of :: "(char \<Rightarrow> bool) \<Rightarrow> string \<Rightarrow> nat" where
  "run_of P s = length (takeWhile P s)"

text \<open>
  \<open>match\<close> of the items followed by \<open>$\<close>, which also stands before a last newline; the captured groups
  are returned in order.
\<close>

primrec rx :: "rx_item list \<Rightarrow> string \<Rightarrow> string list option" where
  "rx [] s = (if s = [] \<or> s = [CHR 0x0A] then Some [] else None)"
| "rx (i # is) s =
     (case i of
        One P \<Rightarrow> (case s of [] \<Rightarrow> None | c # cs \<Rightarrow> if P c then rx is cs else None)
      | Star P \<Rightarrow> greedy 0 (run_of P s) (\<lambda>n. rx is (drop n s))
      | Plus P \<Rightarrow> greedy 1 (run_of P s) (\<lambda>n. rx is (drop n s))
      | Grp P \<Rightarrow> greedy 1 (run_of P s) (\<lambda>n. map_option ((#) (take n s)) (rx is (drop n s))))"

definition lit :: "char \<Rightarrow> rx_item" where
  "lit c = One (\<lambda>x. x = c)"

section \<open>Repetitions that end where a separator begins\<close>

lemma greedy_None: "(\<And>n. lo \<le> n \<Longrightarrow> n \<le> hi \<Longrightarrow> f n = None) \<Longrightarrow> greedy lo hi f = None"
  by (induction hi) (auto split: option.splits)

lemma greedy_top:
  assumes "\<And>n. n < hi \<Longrightarrow> f n = None"
  shows "greedy lo hi f = (if lo \<le> hi then f hi else None)"
  using assms by (cases hi) (auto split: option.splits intro: greedy_None)

text \<open>After fewer characters than there are in the run, the next one is still in the class.\<close>

lemma drop_in_run:
  assumes "n < run_of P s"
  obtains c cs where "drop n s = c # cs" "P c"
proof -
  have "n < length s"
    using assms length_takeWhile_le [of P s] by (simp add: run_of_def)
  then have "drop n s = s ! n # drop (Suc n) s"
    by (simp add: Cons_nth_drop_Suc)
  moreover have "P (s ! n)"
    using assms by (metis nth_mem run_of_def set_takeWhileD takeWhile_nth)
  ultimately show ?thesis
    using that by blast
qed

definition stops :: "(char \<Rightarrow> bool) \<Rightarrow> rx_item list \<Rightarrow> bool" where
  "stops P is \<longleftrightarrow> (\<forall>c cs. P c \<longrightarrow> rx is (c # cs) = None)"

lemma stops_lit: "\<not> P c \<Longrightarrow> stops P (lit c # is)"
  by (auto simp: stops_def lit_def)

lemma stops_end: "(\<And>c. P c \<Longrightarrow> c \<noteq> CHR 0x0A) \<Longrightarrow> stops P []"
  by (auto simp: stops_def)

lemma rx_run:
  assumes "stops P is"
  shows "rx (Star P # is) s = rx is (dropWhile P s)"
    and "rx (Plus P # is) s = (if takeWhile P s = [] then None else rx is (dropWhile P s))"
    and "rx (Grp P # is) s =
      (if takeWhile P s = [] then None else map_option ((#) (takeWhile P s)) (rx is (dropWhile P s)))"
proof -
  have none: "rx is (drop n s) = None" if "n < run_of P s" for n
    using drop_in_run [OF that] assms by (metis stops_def)
  have d: "drop (run_of P s) s = dropWhile P s" "take (run_of P s) s = takeWhile P s"
    by (simp_all add: run_of_def dropWhile_eq_drop takeWhile_eq_take [symmetric])
  have "(1 \<le> run_of P s) = (takeWhile P s \<noteq> [])"
    by (simp add: run_of_def Suc_le_eq)
  then show "rx (Star P # is) s = rx is (dropWhile P s)"
    "rx (Plus P # is) s = (if takeWhile P s = [] then None else rx is (dropWhile P s))"
    "rx (Grp P # is) s =
      (if takeWhile P s = [] then None else map_option ((#) (takeWhile P s)) (rx is (dropWhile P s)))"
    by (simp_all add: greedy_top none d)
qed

lemma rx_one: "rx (One P # is) s = (case s of [] \<Rightarrow> None | x # xs \<Rightarrow> if P x then rx is xs else None)"
  by simp

lemma rx_lit: "rx (lit c # is) s = (case s of [] \<Rightarrow> None | x # xs \<Rightarrow> if x = c then rx is xs else None)"
  by (simp add: lit_def)

declare rx.simps(2) [simp del]

end
