(* ===== verification/Statistics.thy ===== *)
theory Statistics
  imports PyNum
begin

text \<open>
  The statistics table of the daemon (\<open>src/syncfs.cpp\<close>: \<open>to_string\<close>, \<open>file_path\<close>,
  \<open>print_session_statistics\<close>), which the bench program \<open>measure_peak.py\<close> reads back. What libtorrent
  says of a torrent is a record; a table is the text handed to the logger.
\<close>

datatype torrent_state =
    CheckingFiles
  | DownloadingMetadata
  | Downloading
  | Finished
  | Seeding
  | CheckingResumeData
  | UnknownState int

record torrent =
  tor_file :: "string option"
  tor_progress :: rat
  tor_done :: int
  tor_seeds :: int
  tor_peers :: int
  tor_state :: torrent_state

fun state_string :: "torrent_state \<Rightarrow> string" where
  "state_string CheckingFiles = ''checking_files''"
| "state_string DownloadingMetadata = ''downloading_metadata''"
| "state_string Downloading = ''downloading''"
| "state_string Finished = ''finished''"
| "state_string Seeding = ''seeding''"
| "state_string CheckingResumeData = ''checking_resume_data''"
| "state_string (UnknownState n) = ''unknown('' @ str_of_int n @ '')''"

definition file_path :: "string option \<Rightarrow> string" where
  "file_path ti = (case ti of None \<Rightarrow> ''<gone>'' | Some p \<Rightarrow> p)"

definition tab :: char where
  "tab = CHR 0x09"

definition newline :: char where
  "newline = CHR 0x0A"

definition statistics_row :: "torrent \<Rightarrow> string" where
  "statistics_row t =
     file_path (tor_file t) @ [tab, tab] @ fixed 2 (tor_progress t) @ [tab, tab] @ str_of_int (tor_done t) @
     [tab, tab] @ str_of_int (tor_seeds t) @ [tab] @ str_of_int (tor_peers t) @ [tab] @ state_string (tor_state t)"

definition statistics_head :: string where
  "statistics_head =
     ''Name'' @ [tab, tab] @ ''Progr'' @ [tab, tab] @ ''Total'' @ [tab, tab] @ ''Seeds'' @ [tab] @ ''Peers'' @
     [tab] @ ''State''"

definition statistics_text :: "torrent list \<Rightarrow> string" where
  "statistics_text ts = newline # statistics_head @ concat (map (\<lambda>t. newline # statistics_row t) ts)"

text \<open>
  What libtorrent guarantees of the counters, and a path as files have them: no tab and no character
  that ends a line.
\<close>

definition plain_path :: "string \<Rightarrow> bool" where
  "plain_path p \<longleftrightarrow> list_all (\<lambda>c. c \<noteq> tab \<and> \<not> is_linebreak c) p"

definition torrent_ok :: "torrent \<Rightarrow> bool" where
  "torrent_ok t \<longleftrightarrow> plain_path (file_path (tor_file t)) \<and> 0 \<le> tor_progress t \<and> 0 \<le> tor_done t \<and>
     0 \<le> tor_seeds t \<and> 0 \<le> tor_peers t"

lemma str_of_int_word: "c \<in> set (str_of_int n) \<Longrightarrow> \<not> is_space c"
proof
  assume c: "c \<in> set (str_of_int n)" and "is_space c"
  then have "\<not> is_digit c"
    using is_digit_not_space by blast
  with c have "c = CHR ''-''"
    using str_of_int_free by blast
  with \<open>is_space c\<close> show False
    by (simp add: is_space_def)
qed

lemma state_string_word:
  "state_string s \<noteq> []" "c \<in> set (state_string s) \<Longrightarrow> \<not> is_space c"
proof -
  show "state_string s \<noteq> []"
    by (cases s) simp_all
  have "list_all (\<lambda>c. \<not> is_space c) (state_string s)"
  proof (cases s)
    case (UnknownState n)
    then show ?thesis
      by (simp add: list_all_iff str_of_int_word) (simp add: is_space_def)
  qed (simp_all add: is_space_def)
  then show "c \<in> set (state_string s) \<Longrightarrow> \<not> is_space c"
    by (simp add: list_all_iff)
qed

end
