(* ===== verification/MeasurePeak.thy ===== *)
theory MeasurePeak
  imports Bench PyRegex Statistics
begin

text \<open>
  \<open>tools/measure/measure_peak.py\<close>: how many peer connections, torrents and file descriptors a mesh of
  daemons holds at once. The connections are read out of the statistics tables in the daemons' logs,
  which \<open>Statistics\<close> models on the daemon's side.
\<close>

section \<open>Reading the log\<close>

definition row_pattern :: "rx_item list" where
  "row_pattern =
     [Star (\<lambda>c. c \<noteq> tab), lit tab, lit tab, Plus is_digit, lit CHR ''.'', One is_digit, One is_digit,
      lit tab, lit tab, Plus is_digit, lit tab, lit tab, Grp is_digit, lit tab, Grp is_digit, lit tab,
      Grp (\<lambda>c. \<not> is_space c)]"

fun count_rows :: "string list \<Rightarrow> int \<times> int \<Rightarrow> (int \<times> int) res" where
  "count_rows [] acc = Inr acc"
| "count_rows (l # ls) (tot, rows) =
     (case rx row_pattern l of
        None \<Rightarrow> count_rows ls (tot, rows)
      | Some g \<Rightarrow> rbind (int_of_str (g ! 1)) (\<lambda>v. count_rows ls (tot + v, rows + 1)))"

fun best_blocks :: "string list \<Rightarrow> int \<times> int \<Rightarrow> (int \<times> int) res" where
  "best_blocks [] best = Inr best"
| "best_blocks (b # bs) (peers, torrents) =
     rbind (count_rows (splitlines b) (0, 0)) (\<lambda>(tot, rows).
       best_blocks bs (max peers tot, max torrents rows))"

definition block_mark :: string where
  "block_mark = ''Name'' @ [tab, tab] @ ''Progr''"

definition peak_peers :: "string \<Rightarrow> (int \<times> int) res" where
  "peak_peers logged = best_blocks (split_sub block_mark logged) (0, 0)"

section \<open>One run\<close>

definition fd_count :: "bench \<Rightarrow> int \<Rightarrow> (sys, int) prog" where
  "fd_count b pid =
     pbind (ask (\<lambda>k. listdir_at b k (''/proc/'' @ str_of_int pid @ ''/fd''))) (\<lambda>names.
       plift (case names of
           Inr ns \<Rightarrow> Inr (int (length ns))
         | Inl e \<Rightarrow> if e = FileNotFound \<or> e = PermissionDenied then Inr (- 1) else Inl (OSErr e)))"

definition base_port :: nat where
  "base_port = 6200"

definition bench_addrs :: "nat \<Rightarrow> string list" where
  "bench_addrs n = map (\<lambda>i. ''localhost:'' @ str_of_nat (base_port + i)) [0..<n]"

text \<open>The peers file of one node: every address but its own, one on a line.\<close>

definition bench_peers_text :: "nat \<Rightarrow> string list \<Rightarrow> string" where
  "bench_peers_text i addrs =
     str_join [newline] (map (\<lambda>(j, a). ''tcp://'' @ a) (filter (\<lambda>(j, a). j \<noteq> i) (enumerate 0 addrs)))"

definition bench_peers_file :: "bench \<Rightarrow> path \<Rightarrow> nat \<Rightarrow> string list \<Rightarrow> (sys, string) prog" where
  "bench_peers_file b dir i addrs =
     (let p = dir @ [''peers'' @ zfill_left 2 (str_of_nat i)]
      in pbind (io (outside b) (Wrote p (bench_peers_text i addrs))) (\<lambda>_. pret (path_str p)))"

text \<open>A node's output, both streams of it, goes to its own log.\<close>

definition start_daemon :: "bench \<Rightarrow> path \<Rightarrow> string list \<Rightarrow> path list \<Rightarrow> nat \<times> path \<Rightarrow> (sys, int) prog" where
  "start_daemon b scratch addrs logs node =
     (case node of (i, d) \<Rightarrow>
        pbind (bench_peers_file b scratch i addrs) (\<lambda>peers.
          spawn b [''syncfs'', peers, addrs ! i] d (Some (logs ! i))))"

text \<open>The indices of the processes that have ended.\<close>

definition dead_nodes :: "bench \<Rightarrow> int list \<Rightarrow> (sys, int list) prog" where
  "dead_nodes b pids =
     pbind (pmap (\<lambda>p. ask (\<lambda>k. status_at b k p)) pids) (\<lambda>states.
       pret (map (int \<circ> fst) (filter (\<lambda>(i, st). st \<noteq> None) (enumerate 0 states))))"

text \<open>One look at the descriptors of every process.\<close>

fun fd_pass :: "bench \<Rightarrow> int list \<Rightarrow> int \<Rightarrow> (sys, int) prog" where
  "fd_pass b [] peak = pret peak"
| "fd_pass b (p # ps) peak = pbind (fd_count b p) (\<lambda>n. fd_pass b ps (max peak n))"

text \<open>\<open>all(...)\<close> stops at the first file that is not there.\<close>

fun all_present :: "bench \<Rightarrow> path list \<Rightarrow> (sys, bool) prog" where
  "all_present b [] = pret True"
| "all_present b (p # ps) =
     pbind (ask (\<lambda>k. is_file_at b k p)) (\<lambda>here. if here then all_present b ps else pret False)"

definition settle_body :: "bench \<Rightarrow> int list \<Rightarrow> nat \<Rightarrow> int \<Rightarrow> (sys, unit + int) prog" where
  "settle_body b pids fuel peak = pbind (fd_pass b pids peak) (\<lambda>p. pret (Inr p))"

text \<open>Four more seconds of counting, once every file is everywhere.\<close>

definition settle :: "nat \<Rightarrow> bench \<Rightarrow> int list \<Rightarrow> int \<Rightarrow> (sys, int) prog" where
  "settle fuel b pids peak =
     pbind (ask (mono b)) (\<lambda>now.
     pbind (until_time fuel (mono b) (now + 4) (settle_body b pids) peak) (\<lambda>y.
       pret (case y of Inl _ \<Rightarrow> peak | Inr p \<Rightarrow> p)))"

definition sample_body :: "bench \<Rightarrow> int list \<Rightarrow> path list \<Rightarrow> nat \<Rightarrow> int \<Rightarrow> (sys, int + int) prog" where
  "sample_body b pids expected fuel peak =
     pbind (fd_pass b pids peak) (\<lambda>p.
     pbind (all_present b expected) (\<lambda>there.
       if there then pbind (settle fuel b pids p) (\<lambda>q. pret (Inl q)) else pret (Inr p)))"

text \<open>Whether the files arrived everywhere in time, and the highest count of descriptors.\<close>

definition sample :: "nat \<Rightarrow> bench \<Rightarrow> int list \<Rightarrow> path list \<Rightarrow> rat \<Rightarrow> (sys, bool \<times> int) prog" where
  "sample fuel b pids expected budget =
     pbind (ask (mono b)) (\<lambda>now.
     pbind (until_time fuel (mono b) (now + budget) (sample_body b pids expected) 0) (\<lambda>y.
       pret (case y of Inl p \<Rightarrow> (True, p) | Inr p \<Rightarrow> (False, p))))"

definition stop_daemons :: "bench \<Rightarrow> int list \<Rightarrow> (sys, unit) prog" where
  "stop_daemons b pids = pbind (pfor pids terminate_child) (\<lambda>_. pfor pids (reap b))"

fun read_logs :: "bench \<Rightarrow> path list \<Rightarrow> int \<times> int \<Rightarrow> (sys, int \<times> int) prog" where
  "read_logs b [] best = pret best"
| "read_logs b (f # fs) best =
     pbind (ask (\<lambda>k. bytes_at b k f)) (\<lambda>r.
     pbind (plift (case r of Inl e \<Rightarrow> Inl (OSErr e) | Inr logged \<Rightarrow> peak_peers logged)) (\<lambda>(pk, tk).
       read_logs b fs (max (fst best) pk, max (snd best) tk)))"

record peak_result =
  pk_nodes :: nat
  pk_files :: nat
  pk_size :: nat
  pk_converged :: bool
  pk_fd :: int
  pk_peers :: int
  pk_torrents :: int
  pk_product :: int

definition unit_names :: "nat \<Rightarrow> string list" where
  "unit_names n = map (\<lambda>i. ''f'' @ zfill_left 4 (str_of_nat i)) [0..<n]"

definition expected_files :: "path list \<Rightarrow> nat \<Rightarrow> path list" where
  "expected_files dirs fs = concat (map (\<lambda>d. map (\<lambda>f. d @ [f]) (unit_names fs)) dirs)"

definition peak_body ::
  "nat \<Rightarrow> bench \<Rightarrow> path \<Rightarrow> path list \<Rightarrow> path list \<Rightarrow> nat \<Rightarrow> nat \<Rightarrow> nat \<Rightarrow> rat \<Rightarrow> (sys, peak_result) prog" where
  "peak_body fuel b scratch dirs logs n fs sz budget =
     pbind (pmap (start_daemon b scratch (bench_addrs n) logs) (enumerate 0 dirs)) (\<lambda>pids.
     pbind (dead_nodes b pids) (\<lambda>dead.
     if dead \<noteq> []
     then praise (RuntimeError (''nodes '' @ int_list_str dead @ '' exited before the run began''))
     else
     pbind (pfor (unit_names fs) (\<lambda>f.
       pbind (plift (case dirs of [] \<Rightarrow> Inl IndexError | d # _ \<Rightarrow> Inr d)) (\<lambda>d.
         io (outside b) (Wrote (d @ [f]) (replicate sz CHR ''x''))))) (\<lambda>_.
     pbind (sample fuel b pids (expected_files dirs fs) budget) (\<lambda>(converged, peak_fd).
     pbind (stop_daemons b pids) (\<lambda>_.
     pbind (read_logs b logs (0, 0)) (\<lambda>(best_peers, best_torrents).
     pret \<lparr>pk_nodes = n, pk_files = fs, pk_size = sz, pk_converged = converged, pk_fd = peak_fd,
           pk_peers = best_peers, pk_torrents = best_torrents, pk_product = int fs * (int n - 1)\<rparr>))))))"

definition log_path :: "path \<Rightarrow> nat \<Rightarrow> path" where
  "log_path scratch i = scratch @ [''log'' @ zfill_left 2 (str_of_nat i)]"

definition open_log :: "bench \<Rightarrow> path \<Rightarrow> nat \<Rightarrow> (sys, path) prog" where
  "open_log b scratch i =
     (let f = log_path scratch i in pbind (io (outside b) (Wrote f [])) (\<lambda>_. pret f))"

definition peak_run :: "nat \<Rightarrow> bench \<Rightarrow> nat \<Rightarrow> nat \<Rightarrow> nat \<Rightarrow> rat \<Rightarrow> (sys, peak_result) prog" where
  "peak_run fuel b n fs sz budget =
     with_tempdir b (\<lambda>scratch.
     pbind (pmap (\<lambda>_. tempdir b) [0..<n]) (\<lambda>dirs.
     pbind (pmap (open_log b scratch) [0..<n]) (\<lambda>logs.
     pfinally (peak_body fuel b scratch dirs logs n fs sz budget)
       (pbind (pfor logs (\<lambda>f. act (ClosedFile f) (\<lambda>_. Inr ()))) (\<lambda>_. pfor dirs (remove_tree b))))))"

section \<open>The program\<close>

definition peak_cases :: "(nat \<times> nat \<times> nat \<times> rat) list" where
  "peak_cases = [(2, 200, 256 * 1024, 240), (5, 200, 256 * 1024, 300), (5, 1000, 16 * 1024, 300), (10, 200, 64 * 1024, 300)]"

definition peak_line :: "peak_result \<Rightarrow> string" where
  "peak_line r =
     (let ratio = (if pk_product r \<noteq> 0 then of_int (pk_peers r) / of_int (pk_product r) else (0 :: rat))
      in rjust 5 (str_of_nat (pk_nodes r)) @ '' '' @ rjust 5 (str_of_nat (pk_files r)) @ '' '' @
         rjust 5 (str_of_nat (pk_size r div 1024)) @ ''K '' @ rjust 8 (str_of_int (pk_product r)) @ '' '' @
         rjust 14 (str_of_int (pk_torrents r)) @ '' '' @ rjust 11 (str_of_int (pk_peers r)) @ '' '' @
         rjust 8 (str_of_int (pk_fd r)) @ '' '' @ rjust 10 (if pk_converged r then ''True'' else ''False'') @ '' '' @
         rjust 14 (fixed 3 ratio))"

definition peak_main :: "nat \<Rightarrow> bench \<Rightarrow> int \<Rightarrow> (sys, unit) prog" where
  "peak_main fuel b soft =
     pbind (say (''RLIMIT_NOFILE soft='' @ str_of_int soft)) (\<lambda>_.
     pbind (say (''nodes files   size  product  peak_torrents  peak_peers  peak_fd  '' @ ''converged  peers/product'')) (\<lambda>_.
     pfor peak_cases (\<lambda>(n, fs, sz, budget).
       pbind (peak_run fuel b n fs sz budget) (\<lambda>r. say (peak_line r)))))"

section \<open>A row and its counters\<close>

lemma tab_facts: "\<not> is_digit tab" "is_space tab" "tab \<noteq> newline"
  by (simp_all add: tab_def newline_def is_space_def)

lemma fields_free:
  "0 \<le> i \<Longrightarrow> c \<in> set (str_of_int i) \<Longrightarrow> is_digit c"
  by (simp add: str_of_int_def str_of_nat_digits)

lemma takeWhile_digits:
  assumes "0 \<le> i" "ys = [] \<or> \<not> is_digit (hd ys)"
  shows "takeWhile is_digit (str_of_int i @ ys) = str_of_int i"
    and "dropWhile is_digit (str_of_int i @ ys) = ys"
  using span_append [of "str_of_int i" is_digit ys] assms fields_free by blast+

lemma rx_counters:
  assumes "0 \<le> d" "0 \<le> s" "0 \<le> p"
  shows "rx [Plus is_digit, lit tab, lit tab, Grp is_digit, lit tab, Grp is_digit, lit tab, Grp (\<lambda>c. \<not> is_space c)]
      (str_of_int d @ [tab, tab] @ str_of_int s @ [tab] @ str_of_int p @ [tab] @ state_string st) =
    Some [str_of_int s, str_of_int p, state_string st]"
proof -
  have w: "takeWhile (\<lambda>c. \<not> is_space c) (state_string st) = state_string st"
    "dropWhile (\<lambda>c. \<not> is_space c) (state_string st) = []"
    using state_string_word(2) by (simp_all add: takeWhile_all dropWhile_all)
  have st: "stops is_digit (lit tab # is)" for "is"
    by (rule stops_lit) (rule tab_facts)
  have se: "stops (\<lambda>c. \<not> is_space c) []"
    by (rule stops_end) (auto simp: is_space_def)
  show ?thesis
    using assms by (simp add: rx_run [OF st] rx_run [OF se] rx_lit takeWhile_digits tab_facts w state_string_word(1))
qed

lemma fixed_two:
  assumes "0 \<le> (x :: rat)"
  obtains a u v where "fixed 2 x = str_of_int a @ [CHR ''.'', u, v]" "0 \<le> a" "is_digit u" "is_digit v"
proof -
  let ?n = "nat (rhe (\<bar>x\<bar> * 10 ^ 2))"
  have f: "fixed 2 x = str_of_int (int (?n div 10 ^ 2)) @ ''.'' @ zfill_left 2 (str_of_nat (?n mod 10 ^ 2))"
    using assms by (simp add: fixed_def fixed_of_nat_def)
  let ?z = "zfill_left 2 (str_of_nat (?n mod 10 ^ 2))"
  have "length ?z = 2"
    by (rule length_zfill_str) simp_all
  then obtain u v where z: "?z = [u, v]"
    by (auto simp: numeral_2_eq_2 length_Suc_conv)
  moreover have "list_all is_digit ?z"
    using filter_digits_zfill [of 2 "?n mod 10 ^ 2"] by (simp add: filter_id_conv list_all_iff)
  ultimately show ?thesis
    using that [of "int (?n div 10 ^ 2)" u v] f by simp
qed

lemma rx_row:
  assumes "torrent_ok t"
  shows "rx row_pattern (statistics_row t) =
    Some [str_of_int (tor_seeds t), str_of_int (tor_peers t), state_string (tor_state t)]"
proof -
  have ok: "0 \<le> tor_progress t" "0 \<le> tor_done t" "0 \<le> tor_seeds t" "0 \<le> tor_peers t"
    and name: "\<And>c. c \<in> set (file_path (tor_file t)) \<Longrightarrow> c \<noteq> tab"
    using assms by (auto simp: torrent_ok_def plain_path_def list_all_iff)
  obtain a u v where f: "fixed 2 (tor_progress t) = str_of_int a @ [CHR ''.'', u, v]" "0 \<le> a" "is_digit u" "is_digit v"
    using fixed_two [OF ok(1)] .
  have s: "stops is_digit (lit CHR ''.'' # is)" "stops (\<lambda>c. c \<noteq> tab) (lit tab # is)" for "is"
    by (rule stops_lit, simp)+
  have n: "takeWhile (\<lambda>c. c \<noteq> tab) (file_path (tor_file t) @ tab # r) = file_path (tor_file t)"
    "dropWhile (\<lambda>c. c \<noteq> tab) (file_path (tor_file t) @ tab # r) = tab # r" for r
    using span_append [of "file_path (tor_file t)" "\<lambda>c. c \<noteq> tab" "tab # r"] name by auto
  show ?thesis
    using f rx_counters [OF ok(2-4), of "tor_state t"]
    by (simp add: row_pattern_def statistics_row_def rx_run [OF s(1)] rx_run [OF s(2)] rx_lit rx_one n takeWhile_digits)
qed


section \<open>The rows of a text\<close>

definition rows_in :: "string \<Rightarrow> string list list" where
  "rows_in s = List.map_filter (rx row_pattern) (splitlines s)"

lemma rx_row_empty: "rx row_pattern [] = None"
  by code_simp

lemma map_filter_nonempty:
  "f [] = None \<Longrightarrow> List.map_filter f (filter ((\<noteq>) []) xs) = List.map_filter f xs"
  by (induction xs) (auto simp: map_filter_simps split: option.splits)

lemma map_filter_both: "List.map_filter f (xs @ ys) = List.map_filter f xs @ List.map_filter f ys"
  by (simp add: List.map_filter_def)

lemma rows_in_newline: "rows_in (a @ newline # b) = rows_in a @ rows_in b"
proof -
  have e: "List.map_filter (rx row_pattern) (filter ((\<noteq>) []) xs) = List.map_filter (rx row_pattern) xs" for xs
    by (rule map_filter_nonempty) (rule rx_row_empty)
  show ?thesis
    unfolding rows_in_def newline_def
    by (metis e splitlines_newline map_filter_both)
qed

lemma rx_row_no_tab: "tab \<notin> set l \<Longrightarrow> rx row_pattern l = None"
proof -
  assume l: "tab \<notin> set l"
  have s: "stops (\<lambda>c. c \<noteq> tab) (lit tab # is)" for "is"
    by (rule stops_lit) simp
  have "dropWhile (\<lambda>c. c \<noteq> tab) l = []"
    using l by (intro dropWhile_all) auto
  then show ?thesis
    by (simp add: row_pattern_def rx_run [OF s] rx_lit del: dropWhile_eq_Nil_conv)
qed

lemma rows_in_no_tab: "tab \<notin> set s \<Longrightarrow> rows_in s = []"
  unfolding rows_in_def
  using splitlines_chars [of _ s] by (auto simp: map_filter_def filter_empty_conv intro!: rx_row_no_tab)

lemma rows_in_line:
  assumes "\<And>c. c \<in> set l \<Longrightarrow> \<not> is_linebreak c"
  shows "rows_in l = (case rx row_pattern l of None \<Rightarrow> [] | Some g \<Rightarrow> [g])"
  using splitlines_aux_last [of l "[]"] assms rx_row_empty
  by (auto simp: rows_in_def splitlines_def map_filter_simps split: option.splits)

definition counters :: "torrent \<Rightarrow> string list" where
  "counters t = [str_of_int (tor_seeds t), str_of_int (tor_peers t), state_string (tor_state t)]"

lemma not_space_linebreak: "\<not> is_space c \<Longrightarrow> \<not> is_linebreak c"
  by (auto simp: is_space_def is_linebreak_def Let_def)

lemma row_line_plain:
  assumes "torrent_ok t" "c \<in> set (statistics_row t)"
  shows "\<not> is_linebreak c"
proof -
  have "\<not> is_linebreak c" if "c \<in> set (fixed 2 (tor_progress t))"
  proof (rule ccontr)
    assume "\<not> \<not> is_linebreak c"
    then have "\<not> is_digit c" "c \<noteq> CHR ''.''" "c \<noteq> CHR ''-''"
      using is_digit_not_space not_space_linebreak by (blast, auto simp: is_linebreak_def)
    then show False
      using fixed_free that by blast
  qed
  moreover have "\<not> is_linebreak c" if "c \<in> set (str_of_int n)" for n
    using str_of_int_word [OF that] by (rule not_space_linebreak)
  moreover have "\<not> is_linebreak c" if "c \<in> set (state_string (tor_state t))"
    using state_string_word(2) [OF that] by (rule not_space_linebreak)
  moreover have "\<not> is_linebreak c" if "c \<in> set (file_path (tor_file t))"
    using assms(1) that by (simp add: torrent_ok_def plain_path_def list_all_iff)
  moreover have "\<not> is_linebreak tab"
    by (simp add: tab_def)
  ultimately show ?thesis
    using assms(2) unfolding statistics_row_def set_append by (elim UnE) auto
qed

lemma rows_in_row: "torrent_ok t \<Longrightarrow> rows_in (statistics_row t) = [counters t]"
  by (subst rows_in_line) (auto simp: row_line_plain rx_row counters_def)

definition table_block :: "torrent list \<Rightarrow> string" where
  "table_block ts =
     [tab, tab] @ ''Total'' @ [tab, tab] @ ''Seeds'' @ [tab] @ ''Peers'' @ [tab] @ ''State'' @
     concat (map (\<lambda>t. newline # statistics_row t) ts)"

lemma statistics_text_block: "statistics_text ts = newline # block_mark @ table_block ts"
  by (simp add: statistics_text_def statistics_head_def block_mark_def table_block_def)

lemma rows_in_rows:
  "list_all torrent_ok ts \<Longrightarrow> rows_in (h @ concat (map (\<lambda>t. newline # statistics_row t) ts)) = rows_in h @ map counters ts"
proof (induction ts arbitrary: h)
  case (Cons t ts)
  have "rows_in (h @ concat (map (\<lambda>t. newline # statistics_row t) (t # ts))) =
      rows_in ((h @ newline # statistics_row t) @ concat (map (\<lambda>t. newline # statistics_row t) ts))"
    by simp
  also have "\<dots> = rows_in h @ map counters (t # ts)"
    using Cons.prems by (subst Cons.IH) (simp_all add: rows_in_newline rows_in_row)
  finally show ?case .
qed simp

lemma rows_in_block: "list_all torrent_ok ts \<Longrightarrow> rows_in (table_block ts) = map counters ts"
proof -
  assume ts: "list_all torrent_ok ts"
  let ?h = "[tab, tab] @ ''Total'' @ [tab, tab] @ ''Seeds'' @ [tab] @ ''Peers'' @ [tab] @ ''State''"
  have "rows_in ?h = []"
    by code_simp
  then show ?thesis
    using rows_in_rows [OF ts, of ?h] by (simp add: table_block_def)
qed


section \<open>Cutting a log into its tables\<close>

text \<open>The mark of a table head is a field that ends in \<open>Name\<close>, an empty one, and one that starts with \<open>P\<close>.\<close>

lemma split_char_head:
  assumes "x \<noteq> c"
  obtains v w where "split_char c (x # xs) = v # w" "v \<noteq> []" "hd v = x"
  using assms that by (cases "split_char c xs") auto

lemma mark_fields:
  assumes "sublist block_mark s"
  obtains u v w where "split_char tab s = u @ [] # v # w" "v \<noteq> []" "hd v = CHR ''P''" "u \<noteq> []" "suffix ''Name'' (last u)"
proof -
  obtain a b where s: "s = a @ block_mark @ b"
    using assms by (auto simp: sublist_def)
  have "split_char tab s = split_char tab (a @ ''Name'') @ [] # split_char tab (''Progr'' @ b)"
    using split_char_both [of tab "a @ ''Name''" "tab # ''Progr'' @ b"] by (simp add: s block_mark_def)
  moreover obtain v w where v: "split_char tab (''Progr'' @ b) = v # w" "v \<noteq> []" "hd v = CHR ''P''"
    by (rule split_char_head [of "CHR ''P''" tab "''rogr'' @ b"]) (simp_all add: tab_def)
  moreover have "suffix ''Name'' (last (split_char tab (a @ ''Name'')))"
  proof (induction a)
    case Nil
    then show ?case
      by (simp add: tab_def)
  next
    case (Cons x a)
    then show ?case
      by (auto split: list.splits simp: suffix_ConsI)
  qed
  ultimately show ?thesis
    using that by simp
qed

lemma fields_row:
  assumes "torrent_ok t"
  shows "split_char tab (statistics_row t) =
    [file_path (tor_file t), [], fixed 2 (tor_progress t), [], str_of_int (tor_done t), [],
     str_of_int (tor_seeds t), str_of_int (tor_peers t), state_string (tor_state t)]"
proof -
  have t: "tab \<noteq> CHR ''.''" "tab \<noteq> CHR ''-''"
    by (simp_all add: tab_def)
  have f: "tab \<notin> set (file_path (tor_file t))" "tab \<notin> set (fixed p x)" "tab \<notin> set (str_of_int i)" for p x i
    using assms fixed_free [OF tab_facts(1) t] str_of_int_free [OF tab_facts(1) t(2)]
    by (auto simp: torrent_ok_def plain_path_def list_all_iff)
  have "tab \<notin> set (state_string (tor_state t))"
    using state_string_word(2) tab_facts(2) by blast
  then show ?thesis
    by (simp add: statistics_row_def split_char_append f split_char_free)
qed

lemma no_mark_in_row:
  assumes "torrent_ok t"
  shows "\<not> sublist block_mark (statistics_row t)"
proof
  assume "sublist block_mark (statistics_row t)"
  then obtain u v w where m: "split_char tab (statistics_row t) = u @ [] # v # w" "v \<noteq> []" "hd v = CHR ''P''" "u \<noteq> []" "suffix ''Name'' (last u)"
    by (rule mark_fields)
  have n: "hd (str_of_int i) \<noteq> CHR ''P''" for i
  proof -
    have "CHR ''P'' \<notin> set (str_of_int i)"
      by (rule str_of_int_free) (simp_all add: is_digit_def digit_val_def)
    then show ?thesis
      by (metis hd_in_set str_of_int_not_Nil)
  qed
  have p: "hd (fixed 2 (tor_progress t)) \<noteq> CHR ''P''"
    using fixed_free [of "CHR ''P''" 2 "tor_progress t"] hd_in_set [of "fixed 2 (tor_progress t)"]
    by (cases "fixed 2 (tor_progress t)") (auto simp: is_digit_def digit_val_def fixed_def)
  show False
    using m n p unfolding fields_row [OF assms]
    by (auto simp: Cons_eq_append_conv)
qed

lemma no_mark_in_head: "\<not> sublist block_mark ([tab, tab] @ ''Total'' @ [tab, tab] @ ''Seeds'' @ [tab] @ ''Peers'' @ [tab] @ ''State'')"
  unfolding find_sub_None_iff [symmetric] by code_simp

lemma newline_not_mark: "newline \<notin> set block_mark"
  by (simp add: newline_def block_mark_def tab_def)

lemma no_mark_in_rows:
  "list_all torrent_ok ts \<Longrightarrow> sublist block_mark (h @ concat (map (\<lambda>t. newline # statistics_row t) ts)) \<longleftrightarrow> sublist block_mark h"
proof (induction ts arbitrary: h)
  case (Cons t ts)
  have "sublist block_mark (h @ concat (map (\<lambda>t. newline # statistics_row t) (t # ts))) \<longleftrightarrow>
      sublist block_mark ((h @ newline # statistics_row t) @ concat (map (\<lambda>t. newline # statistics_row t) ts))"
    by simp
  also have "\<dots> \<longleftrightarrow> sublist block_mark h"
    using Cons.prems by (subst Cons.IH) (simp_all add: sublist_across [OF newline_not_mark] no_mark_in_row)
  finally show ?case .
qed simp

lemma no_mark_in_block: "list_all torrent_ok ts \<Longrightarrow> \<not> sublist block_mark (table_block ts)"
  using no_mark_in_rows [of ts "[tab, tab] @ ''Total'' @ [tab, tab] @ ''Seeds'' @ [tab] @ ''Peers'' @ [tab] @ ''State''"]
    no_mark_in_head by (simp add: table_block_def)

lemma no_mark_no_tab: "tab \<notin> set s \<Longrightarrow> \<not> sublist block_mark s"
  using set_mono_sublist [of block_mark s] by (auto simp: block_mark_def)

text \<open>
  A log: tables handed to the logger, which ends each with a newline, between other lines. What the
  logger writes of its own, and every other line, has no tab.
\<close>

definition session_log :: "(string \<times> torrent list) list \<Rightarrow> string \<Rightarrow> string" where
  "session_log entries rest =
     concat (map (\<lambda>(before, ts). before @ statistics_text ts @ [newline]) entries) @ rest"

definition log_ok :: "(string \<times> torrent list) list \<Rightarrow> string \<Rightarrow> bool" where
  "log_ok entries rest \<longleftrightarrow> tab \<notin> set rest \<and>
     list_all (\<lambda>(before, ts). tab \<notin> set before \<and> list_all torrent_ok ts) entries"

text \<open>The tables of a log are its blocks after the first, in order.\<close>

lemma split_log:
  assumes "log_ok entries rest" and "\<not> sublist block_mark w"
  shows "\<exists>first blocks. split_sub block_mark (w @ newline # session_log entries rest) = first # blocks \<and>
    rows_in first = rows_in w \<and> map rows_in blocks = map (\<lambda>(_, ts). map counters ts) entries"
  using assms
proof (induction entries arbitrary: w)
  case Nil
  then have r: "tab \<notin> set rest"
    by (simp add: log_ok_def)
  have "\<not> sublist block_mark (w @ newline # rest)"
    using Nil.prems(2) no_mark_no_tab [OF r] by (simp add: sublist_across [OF newline_not_mark])
  then show ?case
    using rows_in_no_tab [OF r] by (simp add: session_log_def split_sub_free rows_in_newline)
next
  case (Cons e entries)
  obtain before ts where e: "e = (before, ts)"
    by (cases e)
  have ok: "tab \<notin> set before" "list_all torrent_ok ts" "log_ok entries rest"
    using Cons.prems(1) by (auto simp: log_ok_def e)
  let ?w = "w @ newline # before @ [newline]"
  have "?w = w @ newline # (before @ newline # [])"
    by simp
  then have free: "\<not> sublist block_mark ?w"
    using Cons.prems(2) no_mark_no_tab [OF ok(1)] by (simp only: sublist_across [OF newline_not_mark])
      (simp add: block_mark_def)
  have rows: "rows_in ?w = rows_in w"
    using rows_in_newline [of w "before @ newline # []"] rows_in_newline [of before "[]"] rows_in_no_tab [OF ok(1)]
      rows_in_no_tab [of "[]"] by simp
  obtain first blocks where b: "split_sub block_mark (table_block ts @ newline # session_log entries rest) = first # blocks"
    "rows_in first = rows_in (table_block ts)" "map rows_in blocks = map (\<lambda>(_, ts). map counters ts) entries"
    using Cons.IH [OF ok(3) no_mark_in_block [OF ok(2)]] by blast
  have "w @ newline # session_log (e # entries) rest =
      ?w @ block_mark @ table_block ts @ newline # session_log entries rest"
    by (simp add: session_log_def e statistics_text_block)
  then have "split_sub block_mark (w @ newline # session_log (e # entries) rest) = ?w # first # blocks"
    using split_sub_after [OF _ free, of "table_block ts @ newline # session_log entries rest"] b(1) newline_not_mark
    by (simp add: block_mark_def)
  then show ?case
    using rows b rows_in_block [OF ok(2)] by (simp add: e)
qed


lemma count_rows_counters:
  "List.map_filter (rx row_pattern) ls = map counters ts \<Longrightarrow>
   count_rows ls (tot, n) = Inr (tot + sum_list (map tor_peers ts), n + int (length ts))"
proof (induction ls arbitrary: ts tot n)
  case (Cons l ls)
  show ?case
  proof (cases "rx row_pattern l")
    case None
    then show ?thesis
      using Cons by (simp add: map_filter_simps)
  next
    case (Some g)
    then obtain u us where "ts = u # us" "g = counters u" "List.map_filter (rx row_pattern) ls = map counters us"
      using Cons.prems by (cases ts) (auto simp: map_filter_simps)
    then show ?thesis
      using Cons.IH [of us] Some by (simp add: counters_def)
  qed
qed (simp add: map_filter_simps)

lemma best_blocks_counters:
  "map rows_in blocks = map (map counters) tss \<Longrightarrow>
   best_blocks blocks (p, q) =
     Inr (fold max (map (\<lambda>ts. sum_list (map tor_peers ts)) tss) p, fold max (map (\<lambda>ts. int (length ts)) tss) q)"
proof (induction blocks arbitrary: tss p q)
  case (Cons b blocks)
  then obtain ts rest where tss: "tss = ts # rest" "rows_in b = map counters ts" "map rows_in blocks = map (map counters) rest"
    by (cases tss) auto
  then have "count_rows (splitlines b) (0, 0) = Inr (sum_list (map tor_peers ts), int (length ts))"
    using count_rows_counters [of "splitlines b" ts 0 0] by (simp add: rows_in_def)
  then show ?case
    using Cons.IH [OF tss(3)] by (simp add: tss(1) max.commute)
qed simp

lemma fold_max_Max: "fold max xs (a :: int) = Max (insert a (set xs))"
  by (simp add: Max.set_eq_fold [symmetric])

lemma peak_peers_log:
  assumes "log_ok entries rest"
  shows "peak_peers (session_log entries rest) =
    Inr (Max (insert 0 (set (map (\<lambda>(_, ts). sum_list (map tor_peers ts)) entries))),
         Max (insert 0 (set (map (\<lambda>(_, ts). int (length ts)) entries))))"
proof -
  have "map rows_in (split_sub block_mark (session_log entries rest)) = map (map counters) ([] # map snd entries)"
  proof (cases entries)
    case Nil
    then have "tab \<notin> set rest"
      using assms by (simp add: log_ok_def)
    then show ?thesis
      using Nil by (simp add: session_log_def split_sub_free no_mark_no_tab rows_in_no_tab)
  next
    case (Cons e es)
    obtain before ts where e: "e = (before, ts)"
      by (cases e)
    have ok: "tab \<notin> set before" "list_all torrent_ok ts" "log_ok es rest"
      using assms by (auto simp: log_ok_def Cons e)
    obtain first blocks where b: "split_sub block_mark (table_block ts @ newline # session_log es rest) = first # blocks"
      "rows_in first = map counters ts" "map rows_in blocks = map (\<lambda>(_, ts). map counters ts) es"
      using split_log [OF ok(3) no_mark_in_block [OF ok(2)]] rows_in_block [OF ok(2)] by force
    have free: "\<not> sublist block_mark (before @ [newline])" "tab \<notin> set (before @ [newline])"
      using ok(1) tab_facts(3) by (auto intro!: no_mark_no_tab)
    have "session_log entries rest = (before @ [newline]) @ block_mark @ table_block ts @ newline # session_log es rest"
      by (simp add: session_log_def Cons e statistics_text_block)
    then have "split_sub block_mark (session_log entries rest) = (before @ [newline]) # first # blocks"
      using split_sub_after [OF _ free(1), of "table_block ts @ newline # session_log es rest"] b(1) newline_not_mark
      by (simp add: block_mark_def)
    then show ?thesis
      using b rows_in_no_tab [OF free(2)] by (simp add: Cons e case_prod_unfold comp_def)
  qed
  from best_blocks_counters [OF this, of 0 0] show ?thesis
    by (simp add: peak_peers_def fold_max_Max case_prod_unfold image_image)
qed

text \<open>
  C20. The bench reads back what the daemon printed: from a log that holds any number of statistics tables
  between lines without tabs, it takes the largest number of peer connections that one table lists and the
  largest number of torrents, whatever the paths, counters and states in the rows.
\<close>

theorem statistics_are_read_back:
  assumes "log_ok entries rest"
  shows "peak_peers (session_log entries rest) =
    Inr (Max (insert 0 (set (map (\<lambda>(_, ts). sum_list (map tor_peers ts)) entries))),
         Max (insert 0 (set (map (\<lambda>(_, ts). int (length ts)) entries))))"
  using assms by (rule peak_peers_log)

definition sample_torrent :: "string \<Rightarrow> int \<Rightarrow> torrent" where
  "sample_torrent f peers =
     \<lparr>tor_file = Some f, tor_progress = 1 / 3, tor_done = 4096, tor_seeds = 1, tor_peers = peers,
      tor_state = UnknownState 9\<rparr>"

definition sample_log :: "(string \<times> torrent list) list" where
  "sample_log =
     [(''[debug] '', [sample_torrent ''a'' 2, sample_torrent ''sub/b'' 3]), (''[debug] '', [sample_torrent ''Name'' 4])]"

theorem statistics_are_read_back_witness:
  "peak_peers (session_log sample_log ''[info] done'') = Inr (5, 2)"
proof -
  have "log_ok sample_log ''[info] done''"
    by code_simp
  from statistics_are_read_back [OF this] show ?thesis
    by (simp add: sample_log_def sample_torrent_def)
qed

end
