(* ===== verification/PeakRun.thy ===== *)
theory PeakRun
  imports MeasurePeak
begin

text \<open>
  What a run of \<open>measure_peak.py\<close> does: it ends, its numbers are what was seen, it cleans up, and it does
  not when a daemon died at the start.
\<close>

section \<open>The run ends\<close>

lemma fd_count_settled: "settled (fd_count b p)"
  unfolding fd_count_def by (intro settling) (simp split: sum.splits)

lemma fd_pass_settled: "settled (fd_pass b ps peak)"
  by (induction ps arbitrary: peak) (simp_all add: settling fd_count_settled del: pret_run)

lemma all_present_settled: "settled (all_present b ps)"
  by (induction ps) (simp_all add: settling del: pret_run)

lemma fd_pass_ticks: "ticking.climbs (fd_pass b ps peak)"
  by (induction ps arbitrary: peak) (simp_all add: fd_count_def ticks del: pret_run)

lemma all_present_ticks: "ticking.climbs (all_present b ps)"
  by (induction ps) (simp_all add: ticks del: pret_run)

interpretation settle_round: timed_body "mono b" "settle_body b pids" for b pids
proof
  show "ticking.climbs (settle_body b pids fuel x)" for fuel x
    unfolding settle_body_def by (intro ticks fd_pass_ticks)
  show "settle_body b pids fuel x s = (r, t) \<Longrightarrow> settle_body b pids (Suc fuel) x s = (r, t)" for fuel x s r t
    by (simp add: settle_body_def)
  have "settled (settle_body b pids fuel x)" for fuel x
    unfolding settle_body_def by (intro settling fd_pass_settled)
  then show "\<exists>fuel. fst (settle_body b pids fuel x s) \<noteq> Inl OutOfFuel" for x s
    by (simp add: settled_def)
qed

lemma settle_more:
  assumes "settle fuel b pids x s = (r, t)" and "r \<noteq> Inl OutOfFuel"
  shows "settle (Suc fuel) b pids x s = (r, t)"
proof -
  obtain v u where l: "until_time fuel (mono b) (mono b (obs s) + 4) (settle_body b pids) x (s\<lparr>obs := Suc (obs s)\<rparr>) = (v, u)"
    by (cases "until_time fuel (mono b) (mono b (obs s) + 4) (settle_body b pids) x (s\<lparr>obs := Suc (obs s)\<rparr>)")
  then have "v \<noteq> Inl OutOfFuel"
    using assms by (auto simp: settle_def pbind_def ask_def)
  from settle_round.loop_more [OF l this] show ?thesis
    using assms(1) l by (simp add: settle_def pbind_def ask_def)
qed

lemma settle_fuelled: "passing (mono b) \<Longrightarrow> fuelled (\<lambda>fuel. settle fuel b pids x)"
  unfolding settle_def
  by (intro fuelled_after fuelled_before settling) (simp add: fuelled_def settle_round.loop_returns)

interpretation sample_round: timed_body "mono b" "sample_body b pids expected" for b pids expected
proof
  have "ticking.climbs (settle fuel b pids p)" for fuel p
    unfolding settle_def by (intro ticks settle_round.loop_ticks)
  then show "ticking.climbs (sample_body b pids expected fuel x)" for fuel x
    unfolding sample_body_def by (intro ticks fd_pass_ticks all_present_ticks)
  show "sample_body b pids expected (Suc fuel) x s = (r, t)"
    if "sample_body b pids expected fuel x s = (r, t)" "r \<noteq> Inl OutOfFuel" for fuel x s r t
    using that settle_more by (auto simp: sample_body_def pbind_def split: prod.splits sum.splits if_splits)
  show "\<exists>fuel. fst (sample_body b pids expected fuel x s) \<noteq> Inl OutOfFuel" if "passing (mono b)" for x s
  proof -
    have "fuelled (\<lambda>fuel. sample_body b pids expected fuel x)"
      unfolding sample_body_def
      by (intro fuelled_after fuelled_before fuelled_if fuelled_settled settling fd_pass_settled all_present_settled
          settle_fuelled that)
    then show ?thesis
      by (simp add: fuelled_def)
  qed
qed


lemma count_rows_settled: "count_rows ls acc \<noteq> Inl OutOfFuel"
  by (induction ls acc rule: count_rows.induct)
    (auto simp: rbind_def int_of_str_def Let_def split: option.splits sum.splits)

lemma best_blocks_settled: "best_blocks bs best \<noteq> Inl OutOfFuel"
  by (induction bs best rule: best_blocks.induct) (auto simp: rbind_def count_rows_settled split: sum.splits)

lemma read_logs_settled: "settled (read_logs b fs best)"
proof (induction fs arbitrary: best)
  case (Cons f fs)
  then show ?case
    by (simp del: pret_run, intro settling)
      (auto simp: peak_peers_def best_blocks_settled split: sum.splits prod.splits)
qed (simp add: settling del: pret_run)

lemma sample_fuelled: "passing (mono b) \<Longrightarrow> fuelled (\<lambda>fuel. sample fuel b pids expected budget)"
  unfolding sample_def
  by (intro fuelled_after fuelled_before settling)
    (simp_all add: fuelled_def sample_round.loop_returns)

lemma start_settled: "settled (start_daemon b scratch addrs logs node)"
  unfolding start_daemon_def bench_peers_file_def Let_def
  by (cases node) (simp, intro settling settled_bench)

lemma dead_nodes_settled: "settled (dead_nodes b pids)"
  unfolding dead_nodes_def by (intro settling settled_pmap)

lemma stop_daemons_settled: "settled (stop_daemons b pids)"
  unfolding stop_daemons_def by (intro settling settled_pfor settled_bench)

lemma peak_body_fuelled:
  assumes "passing (mono b)"
  shows "fuelled (\<lambda>fuel. peak_body fuel b scratch dirs logs n fs sz budget)"
proof -
  have writes: "settled (pfor (unit_names fs) (\<lambda>f.
      pbind (plift (case dirs of [] \<Rightarrow> Inl IndexError | d # _ \<Rightarrow> Inr d)) (\<lambda>d.
        io (outside b) (Wrote (d @ [f]) (replicate sz CHR ''x'')))))"
    by (intro settled_pfor settling) (simp split: list.splits)
  have rest: "settled (case found of (converged, peak_fd) \<Rightarrow>
      pbind (stop_daemons b pids) (\<lambda>_. pbind (read_logs b logs (0, 0)) (\<lambda>(p, q). pret (h converged peak_fd p q))))"
    for found :: "bool \<times> int" and pids and h :: "bool \<Rightarrow> int \<Rightarrow> int \<Rightarrow> int \<Rightarrow> peak_result"
    by (cases found) (auto intro!: settling stop_daemons_settled read_logs_settled split: prod.splits)
  show ?thesis
    unfolding peak_body_def
    by (intro fuelled_after fuelled_if settled_pmap start_settled dead_nodes_settled writes
        fuelled_before [OF sample_fuelled [OF assms]] rest fuelled_settled settled_steps) simp_all
qed

text \<open>
  A run of the bench ends: on a monotonic clock that passes every deadline there is enough fuel for the
  sampling loop and for the seconds of settling inside it, whatever the processes, the disks and the
  temporary directories do, errors included.
\<close>

theorem peak_run_ends:
  assumes "passing (mono b)"
  shows "\<exists>fuel. fst (peak_run fuel b n fs sz budget s) \<noteq> Inl OutOfFuel"
proof -
  have "fuelled (\<lambda>fuel. peak_run fuel b n fs sz budget)"
    unfolding peak_run_def with_tempdir_def open_log_def Let_def
    by (intro fuelled_after fuelled_finally peak_body_fuelled assms settled_pmap settled_bench settled_pfor settling)
      simp
  then show ?thesis
    by (simp add: fuelled_def)
qed


section \<open>What a run did\<close>

lemma fd_pass_quiet: "does (fd_pass b ps peak) (\<lambda>_. [])"
  by (induction ps arbitrary: peak) (simp_all add: fd_count_def quiet del: pret_run plift_run)

lemma all_present_quiet: "does (all_present b ps) (\<lambda>_. [])"
  by (induction ps) (simp_all add: quiet del: pret_run)

lemma sample_quiet: "does (sample fuel b pids expected budget) (\<lambda>_. [])"
proof -
  have s: "does (settle fuel b pids x) (\<lambda>_. [])" for fuel x
    unfolding settle_def by (intro quiet does_until_time) (unfold settle_body_def, intro quiet fd_pass_quiet)
  show ?thesis
    unfolding sample_def
    by (intro quiet does_until_time) (unfold sample_body_def, intro quiet fd_pass_quiet all_present_quiet s)
qed

lemma read_logs_quiet: "does (read_logs b fs best) (\<lambda>_. [])"
proof (induction fs arbitrary: best)
  case (Cons f fs)
  have "does (case p of (pk, tk) \<Rightarrow> read_logs b fs (max (fst best) pk, max (snd best) tk)) (\<lambda>_. [])" for p
    using Cons by (cases p) simp
  then show ?case
    unfolding read_logs.simps by (intro quiet)
qed (simp add: does_ret del: pret_run)

lemma dead_nodes_quiet: "does (dead_nodes b pids) (\<lambda>_. [])"
proof -
  have none: "concat (map2 (\<lambda>_ _. []) xs ys) = ([] :: event list)" for xs :: "int list" and ys :: "int option list"
    by (induction xs ys rule: list_induct2') simp_all
  have "does (pmap (\<lambda>p. ask (\<lambda>k. status_at b k p)) pids) (\<lambda>ys. concat (map2 (\<lambda>_ _. []) pids ys))"
    by (rule does_pmap) (rule does_ask)
  then have "does (pmap (\<lambda>p. ask (\<lambda>k. status_at b k p)) pids) (\<lambda>_. [])"
    by (simp only: none)
  then show ?thesis
    unfolding dead_nodes_def by (intro quiet)
qed

definition start_events :: "path \<Rightarrow> string list \<Rightarrow> path list \<Rightarrow> nat \<times> path \<Rightarrow> int \<Rightarrow> event list" where
  "start_events scratch addrs logs node pid =
     (case node of (i, d) \<Rightarrow>
        let p = scratch @ [''peers'' @ zfill_left 2 (str_of_nat i)]
        in [Wrote p (bench_peers_text i addrs), Spawned [''syncfs'', path_str p, addrs ! i] d (Some (logs ! i)) pid])"

lemma does_start: "does (start_daemon b scratch addrs logs node) (start_events scratch addrs logs node)"
proof -
  obtain i d where n: "node = (i, d)"
    by (cases node)
  show ?thesis
    by (auto simp: does_def n start_daemon_def bench_peers_file_def start_events_def Let_def pbind_Inr_iff
        dest!: doesD [OF does_io] doesD [OF does_spawn])
qed

lemma start_ticks: "ticking.climbs (start_daemon b scratch addrs logs node)"
  unfolding start_daemon_def bench_peers_file_def Let_def
  by (cases node) (simp only: prod.case, intro ticks spawn_ticks)

lemma does_open_log: "does (open_log b scratch i) (\<lambda>f. [Wrote f []])"
  by (auto simp: does_def open_log_def Let_def pbind_Inr_iff dest!: doesD [OF does_io])

lemma opened_logs: "pmap (open_log b scratch) is s = (Inr logs, t) \<Longrightarrow> logs = map (log_path scratch) is"
  by (induction "is" arbitrary: s logs) (auto simp: pbind_Inr_iff open_log_def Let_def)

lemma concat_map2_second: "length ys = length xs \<Longrightarrow> concat (map2 (\<lambda>_ y. [g y]) xs ys) = map g ys"
  by (induction xs ys rule: list_induct2') auto

lemma all_present_seen:
  "all_present b ps s = (Inr True, t) \<Longrightarrow> p \<in> set ps \<Longrightarrow> \<exists>k \<ge> obs s. is_file_at b k p"
proof (induction ps arbitrary: s)
  case (Cons q ps)
  then have q: "is_file_at b (obs s) q" "all_present b ps (s\<lparr>obs := Suc (obs s)\<rparr>) = (Inr True, t)"
    by (auto simp: pbind_Inr_iff ask_Inr_iff split: if_splits)
  show ?case
    using Cons.IH [OF q(2)] Cons.prems(2) q(1) by (auto intro: Suc_leD)
qed simp

lemma sample_found:
  assumes "sample fuel b pids expected budget s = (Inr (found, peak), t)"
  shows "if found then \<forall>p \<in> set expected. \<exists>k \<ge> obs s. is_file_at b k p
    else \<exists>k \<ge> obs s. mono b (obs s) + budget \<le> mono b k"
proof -
  let ?s = "s\<lparr>obs := Suc (obs s)\<rparr>"
  obtain y u where y: "until_time fuel (mono b) (mono b (obs s) + budget) (sample_body b pids expected) 0
      ?s = (Inr y, u)" "found = isl y"
  proof -
    obtain y u where "until_time fuel (mono b) (mono b (obs s) + budget) (sample_body b pids expected) 0
        ?s = (Inr y, u)" "(case y of Inl p \<Rightarrow> (True, p) | Inr p \<Rightarrow> (False, p)) = (found, peak)"
      using assms by (auto simp: sample_def pbind_Inr_iff ask_Inr_iff)
    then show ?thesis
      using that by (cases y) auto
  qed
  have later: "obs ?s \<le> obs v'"
    if "obs ?s \<le> obs v" "sample_body b pids expected f z v = (Inr (Inr z'), v')" for f z v z' v'
    using ticks_run [OF that(2) sample_round.body_ticks] that(1) by simp
  have r: "case y of
      Inl r \<Rightarrow> \<exists>f z v. obs ?s \<le> obs v \<and> sample_body b pids expected f z v = (Inr (Inl r), u)
    | Inr z \<Rightarrow> \<exists>v. obs ?s \<le> obs v \<and> mono b (obs s) + budget \<le> mono b (obs v) \<and> u = v\<lparr>obs := Suc (obs v)\<rparr>"
    by (rule until_time_result [where I = "\<lambda>_ v. obs ?s \<le> obs v", OF y(1)]) (simp_all add: later [simplified])
  show ?thesis
  proof (cases y)
    case (Inl r)
    then obtain f z v w x where v: "obs ?s \<le> obs v" "fd_pass b pids z v = (Inr x, w)"
      "\<exists>w'. all_present b expected w = (Inr True, w')"
      using r by (auto simp: sample_body_def pbind_Inr_iff split: if_splits)
    have "obs s \<le> obs w"
      using ticks_run [OF v(2) fd_pass_ticks] v(1) by simp
    then show ?thesis
      using Inl y(2) v(3) all_present_seen order_trans by fastforce
  next
    case (Inr z)
    then show ?thesis
      using r y(2) by (auto intro: Suc_leD)
  qed
qed

lemma read_logs_peaks:
  "j \<le> obs s \<Longrightarrow> read_logs b fs best s = (Inr res, t) \<Longrightarrow>
   \<exists>peaks. list_all2 (\<lambda>f pk. \<exists>k \<ge> j. \<exists>logged. bytes_at b k f = Inr logged \<and> peak_peers logged = Inr pk) fs peaks \<and>
     res = (Max (insert (fst best) (set (map fst peaks))), Max (insert (snd best) (set (map snd peaks))))"
proof (induction fs arbitrary: best s)
  case Nil
  then show ?case
    by (cases best) simp
next
  case (Cons f fs)
  let ?s = "s\<lparr>obs := Suc (obs s)\<rparr>"
  obtain logged pk tk where f: "bytes_at b (obs s) f = Inr logged" "peak_peers logged = Inr (pk, tk)"
    "read_logs b fs (max (fst best) pk, max (snd best) tk) ?s = (Inr res, t)"
    using Cons.prems by (auto simp: pbind_Inr_iff ask_Inr_iff split: sum.splits)
  obtain peaks where peaks: "list_all2 (\<lambda>f pk. \<exists>k \<ge> j. \<exists>logged. bytes_at b k f = Inr logged \<and> peak_peers logged = Inr pk) fs peaks"
    "res = (Max (insert (max (fst best) pk) (set (map fst peaks))), Max (insert (max (snd best) tk) (set (map snd peaks))))"
    using Cons.IH [OF _ f(3)] Cons.prems(1) by auto
  have m: "Max (insert (max a c) S) = Max (insert a (insert c S))" if "finite S" for a c :: int and S
    using that by (cases "S = {}") (simp_all add: max.assoc)
  show ?case
    by (intro exI [of _ "(pk, tk) # peaks"]) (use peaks f m Cons.prems(1) in auto)
qed

lemma does_writes:
  "pfor fs (\<lambda>f. pbind (plift (case dirs of [] \<Rightarrow> Inl IndexError | d # _ \<Rightarrow> Inr d)) (\<lambda>d. io env (Wrote (d @ [f]) blob))) s =
     (Inr x, t) \<Longrightarrow> trace t = trace s @ map (\<lambda>f. Wrote (hd dirs @ [f]) blob) fs"
proof (cases dirs)
  case Nil
  then show "pfor fs (\<lambda>f. pbind (plift (case dirs of [] \<Rightarrow> Inl IndexError | d # _ \<Rightarrow> Inr d)) (\<lambda>d. io env (Wrote (d @ [f]) blob))) s =
     (Inr x, t) \<Longrightarrow> trace t = trace s @ map (\<lambda>f. Wrote (hd dirs @ [f]) blob) fs"
    by (cases fs) (auto simp: pbind_Inr_iff)
next
  case (Cons d ds)
  have "does (pfor fs (\<lambda>f. io env (Wrote (d @ [f]) blob))) (\<lambda>_. concat (map (\<lambda>f. [Wrote (d @ [f]) blob]) fs))"
    by (rule does_for) (rule does_io)
  moreover have "pbind (plift (Inr d)) (\<lambda>d. io env (Wrote (d @ [f]) blob)) = io env (Wrote (d @ [f]) blob)" for f
    by (simp add: pbind_def fun_eq_iff)
  ultimately show "pfor fs (\<lambda>f. pbind (plift (case dirs of [] \<Rightarrow> Inl IndexError | d # _ \<Rightarrow> Inr d)) (\<lambda>d. io env (Wrote (d @ [f]) blob))) s =
     (Inr x, t) \<Longrightarrow> trace t = trace s @ map (\<lambda>f. Wrote (hd dirs @ [f]) blob) fs"
    using doesD by (fastforce simp: Cons)
qed

text \<open>What the numbers say, of observations from \<open>j\<close> on.\<close>

definition peak_outcome ::
  "bench \<Rightarrow> nat \<Rightarrow> path list \<Rightarrow> path list \<Rightarrow> nat \<Rightarrow> nat \<Rightarrow> nat \<Rightarrow> rat \<Rightarrow> peak_result \<Rightarrow> bool" where
  "peak_outcome b j dirs logs n fs sz budget r \<longleftrightarrow>
     pk_nodes r = n \<and> pk_files r = fs \<and> pk_size r = sz \<and> pk_product r = int fs * (int n - 1) \<and>
     (if pk_converged r then \<forall>d \<in> set dirs. \<forall>f \<in> set (unit_names fs). \<exists>k \<ge> j. is_file_at b k (d @ [f])
      else \<exists>i \<ge> j. \<exists>k \<ge> i. mono b i + budget \<le> mono b k) \<and>
     (\<exists>peaks. list_all2 (\<lambda>f pk. \<exists>k \<ge> j. \<exists>logged. bytes_at b k f = Inr logged \<and> peak_peers logged = Inr pk) logs peaks \<and>
        pk_peers r = Max (insert 0 (set (map fst peaks))) \<and> pk_torrents r = Max (insert 0 (set (map snd peaks))))"

lemma peak_outcome_earlier:
  assumes "peak_outcome b j dirs logs n fs sz budget r" and "i \<le> j"
  shows "peak_outcome b i dirs logs n fs sz budget r"
proof -
  have "list_all2 (\<lambda>f pk. \<exists>k \<ge> i. \<exists>logged. bytes_at b k f = Inr logged \<and> peak_peers logged = Inr pk) logs peaks"
    if "list_all2 (\<lambda>f pk. \<exists>k \<ge> j. \<exists>logged. bytes_at b k f = Inr logged \<and> peak_peers logged = Inr pk) logs peaks" for peaks
    using that by (rule list_all2_mono) (use assms(2) in \<open>auto intro: order_trans\<close>)
  then show ?thesis
    using assms unfolding peak_outcome_def by (auto split: if_splits intro: order_trans; meson order_trans)
qed

text \<open>
  The daemons started, each node of \<open>dirs\<close> once and in order, with the process each start gave; the files
  written on the first node; the same processes told to stop.
\<close>

definition body_events :: "path \<Rightarrow> path list \<Rightarrow> path list \<Rightarrow> nat \<Rightarrow> nat \<Rightarrow> nat \<Rightarrow> int list \<Rightarrow> event list" where
  "body_events scratch dirs logs n fs sz pids =
     concat (map2 (start_events scratch (bench_addrs n) logs) (enumerate 0 dirs) pids) @
     map (\<lambda>f. Wrote (hd dirs @ [f]) (replicate sz CHR ''x'')) (unit_names fs) @ map Terminated pids"

lemma peak_body_run:
  assumes "peak_body fuel b scratch dirs logs n fs sz budget s = (Inr r, t)"
  shows "\<exists>pids slow j. length pids = length dirs \<and> subseq slow pids \<and> obs s \<le> j \<and>
    trace t = trace s @ body_events scratch dirs logs n fs sz pids @ map Killed slow \<and>
    peak_outcome b j dirs logs n fs sz budget r"
proof -
  obtain pids s1 s2 s3 found peak s4 s5 peers torrents s6 where run:
    "pmap (start_daemon b scratch (bench_addrs n) logs) (enumerate 0 dirs) s = (Inr pids, s1)"
    "dead_nodes b pids s1 = (Inr [], s2)"
    "pfor (unit_names fs) (\<lambda>f. pbind (plift (case dirs of [] \<Rightarrow> Inl IndexError | d # _ \<Rightarrow> Inr d)) (\<lambda>d.
       io (outside b) (Wrote (d @ [f]) (replicate sz CHR ''x'')))) s2 = (Inr (), s3)"
    "sample fuel b pids (expected_files dirs fs) budget s3 = (Inr (found, peak), s4)"
    "stop_daemons b pids s4 = (Inr (), s5)" "read_logs b logs (0, 0) s5 = (Inr (peers, torrents), s6)"
    and r: "r = \<lparr>pk_nodes = n, pk_files = fs, pk_size = sz, pk_converged = found, pk_fd = peak,
           pk_peers = peers, pk_torrents = torrents, pk_product = int fs * (int n - 1)\<rparr>" "s6 = t"
    using assms unfolding peak_body_def
    by (auto simp: pbind_Inr_iff split: if_splits simp del: plift_run)
  have len: "length pids = length dirs"
    using pmap_length [OF run(1)] by simp
  have starts: "trace s1 = trace s @ concat (map2 (start_events scratch (bench_addrs n) logs) (enumerate 0 dirs) pids)"
    using doesD [OF does_pmap [OF does_start] run(1)] .
  obtain u where u: "pfor pids terminate_child s4 = (Inr (), u)" "pfor pids (reap b) u = (Inr (), s5)"
    using run(5) by (auto simp: stop_daemons_def pbind_Inr_iff)
  have "does (pfor pids terminate_child) (\<lambda>_. concat (map (\<lambda>p. [Terminated p]) pids))"
    by (rule does_for) (simp add: terminate_child_def does_act)
  from doesD [OF this u(1)] have stops: "trace u = trace s4 @ map Terminated pids"
    by simp
  obtain slow where slow: "trace s5 = trace u @ map Killed slow" "subseq slow pids"
    using reaped [OF u(2)] by blast
  have "trace t = trace s @ body_events scratch dirs logs n fs sz pids @ map Killed slow"
    using starts stops slow(1) does_writes [OF run(3)] doesD [OF sample_quiet run(4)]
      doesD [OF dead_nodes_quiet run(2)] doesD [OF read_logs_quiet run(6)] r(2)
    by (simp add: body_events_def)
  moreover have "obs s \<le> obs s1"
    using run(1) by (rule ticks_run) (intro ticks_pmap start_ticks)
  moreover have "obs s1 \<le> obs s2"
    using run(2) by (rule ticks_run) (unfold dead_nodes_def, intro ticks ticks_pmap)
  moreover have "obs s2 \<le> obs s3"
    using run(3) by (rule ticks_run) (intro ticks)
  moreover have sampled: "obs s3 \<le> obs s4"
    using run(4) by (rule ticks_run) (unfold sample_def, intro ticks sample_round.loop_ticks)
  moreover have later: "obs s4 \<le> obs s5"
    using run(5) by (rule ticks_run) (unfold stop_daemons_def terminate_child_def reap_def, intro ticks)
  moreover have "peak_outcome b (obs s3) dirs logs n fs sz budget r"
    using sample_found [OF run(4)] read_logs_peaks [OF _ run(6), of "obs s3"]
    using sampled later by (auto simp: peak_outcome_def r expected_files_def)
  ultimately show ?thesis
    using len slow(2) by (intro exI [of _ pids] exI [of _ slow] exI [of _ "obs s3"]) simp
qed

lemma run_closes:
  assumes "pbind (pfor logs (\<lambda>f. act (ClosedFile f) (\<lambda>_. Inr ()))) (\<lambda>_. pfor dirs (remove_tree b)) s = (Inr (), t)"
  shows "trace t = trace s @ map ClosedFile logs @ map RemovedTree dirs"
proof -
  have "does (pfor logs (\<lambda>f. act (ClosedFile f) (\<lambda>_. Inr ()))) (\<lambda>_. concat (map (\<lambda>f. [ClosedFile f]) logs))"
    by (rule does_for) (rule does_act)
  moreover have "does (pfor dirs (remove_tree b)) (\<lambda>_. concat (map (\<lambda>d. [RemovedTree d]) dirs))"
    by (rule does_for) (simp add: remove_tree_def does_io)
  ultimately show ?thesis
    using doesD [OF does_bind assms] by (simp add: concat_map_singleton)
qed

lemma run_opens:
  assumes "tempdir b s = (Inr scratch, s1)" and "pmap (\<lambda>_. tempdir b) [0..<n] s1 = (Inr dirs, s2)"
    and "pmap (open_log b scratch) [0..<n] s2 = (Inr logs, t)"
  shows "trace t = trace s @ MadeDir scratch # map MadeDir dirs @ map (\<lambda>f. Wrote f []) logs" and "obs s \<le> obs t"
proof -
  show "trace t = trace s @ MadeDir scratch # map MadeDir dirs @ map (\<lambda>f. Wrote f []) logs"
    using doesD [OF does_tempdir assms(1)] doesD [OF does_pmap [OF does_tempdir] assms(2)]
      doesD [OF does_pmap [OF does_open_log] assms(3)] pmap_length [OF assms(2)] pmap_length [OF assms(3)]
    by (simp add: concat_map2_second)
  have dir: "ticking.climbs (tempdir b)"
    unfolding tempdir_def by (intro ticks)
  have log: "ticking.climbs (open_log b scratch i)" for i
    unfolding open_log_def Let_def by (intro ticks)
  show "obs s \<le> obs t"
    using ticks_run [OF assms(1) dir] ticks_run [OF assms(2) ticks_pmap [OF dir]]
      ticks_run [OF assms(3) ticks_pmap [OF log]] by simp
qed

text \<open>
  C32. A run that returns has done what its numbers say. Between making its directories and logs and
  removing them it did exactly this: for every node in turn it wrote a peers file of all the other
  addresses and started one daemon with it, on the node's own address, in the temporary directory made
  for the node, with its output going to the node's own log; it wrote the files on the first
  node; it told each of the processes started, and no other, to stop, and killed some of them; then
  the logs were closed and every directory, the logs' one last, was removed. It says converged
  only if each file was seen on each node, and otherwise the budget had passed; the peak counts are the
  maxima of what those logs hold.
\<close>

theorem peak_run_accounts:
  assumes "peak_run fuel b n fs sz budget s = (Inr r, t)"
  shows "\<exists>scratch dirs pids slow. length dirs = n \<and> length pids = n \<and>
    trace t = trace s @ MadeDir scratch # map MadeDir dirs @
      map (\<lambda>f. Wrote f []) (map (log_path scratch) [0..<n]) @
      body_events scratch dirs (map (log_path scratch) [0..<n]) n fs sz pids @ map Killed slow @
      map ClosedFile (map (log_path scratch) [0..<n]) @ map RemovedTree dirs @ [RemovedTree scratch] \<and>
    subseq slow pids \<and> peak_outcome b (obs s) dirs (map (log_path scratch) [0..<n]) n fs sz budget r"
proof -
  let ?close = "\<lambda>dirs logs. pbind (pfor logs (\<lambda>f. act (ClosedFile f) (\<lambda>_. Inr ()))) (\<lambda>_. pfor dirs (remove_tree b))"
  obtain scratch s1 s2 where outer: "tempdir b s = (Inr scratch, s1)"
    "pbind (pmap (\<lambda>_. tempdir b) [0..<n]) (\<lambda>dirs. pbind (pmap (open_log b scratch) [0..<n]) (\<lambda>logs.
     pfinally (peak_body fuel b scratch dirs logs n fs sz budget) (?close dirs logs))) s1 = (Inr r, s2)"
    "trace t = trace s2 @ [RemovedTree scratch]"
    using with_tempdir_removes [OF assms [unfolded peak_run_def]] by blast
  then obtain dirs s3 logs s4 where inner: "pmap (\<lambda>_. tempdir b) [0..<n] s1 = (Inr dirs, s3)"
    "pmap (open_log b scratch) [0..<n] s3 = (Inr logs, s4)"
    "pfinally (peak_body fuel b scratch dirs logs n fs sz budget) (?close dirs logs) s4 = (Inr r, s2)"
    by (elim pbindE) (rule that)
  obtain u where u: "peak_body fuel b scratch dirs logs n fs sz budget s4 = (Inr r, u)"
    "?close dirs logs u = (Inr (), s2)"
    using inner(3) by (rule finally_Inr)
  have logs: "logs = map (log_path scratch) [0..<n]" "length dirs = n"
    using opened_logs [OF inner(2)] pmap_length [OF inner(1)] by simp_all
  note up = run_opens [OF outer(1) inner(1,2)]
  obtain pids slow j where body: "length pids = length dirs" "subseq slow pids" "obs s4 \<le> j"
    "trace u = trace s4 @ body_events scratch dirs logs n fs sz pids @ map Killed slow"
    "peak_outcome b j dirs logs n fs sz budget r"
    using peak_body_run [OF u(1)] by blast
  have "peak_outcome b (obs s) dirs logs n fs sz budget r"
    by (rule peak_outcome_earlier [OF body(5)]) (use up(2) body(3) in simp)
  moreover have "trace t = trace s @ MadeDir scratch # map MadeDir dirs @ map (\<lambda>f. Wrote f []) logs @
      body_events scratch dirs logs n fs sz pids @ map Killed slow @
      map ClosedFile logs @ map RemovedTree dirs @ [RemovedTree scratch]"
    using outer(3) run_closes [OF u(2)] body(4) up(1) by simp
  ultimately show ?thesis
    using body(1,2) logs by blast
qed

text \<open>
  When a daemon died at the start, the run is given up and the others are left running: it raises before
  any of the started processes was told to stop, and nothing after it tells them.
\<close>

theorem abort_leaves_daemons:
  assumes "pmap (start_daemon b scratch (bench_addrs n) logs) (enumerate 0 dirs) s = (Inr pids, s1)"
    and "dead_nodes b pids s1 = (Inr dead, s2)" and "dead \<noteq> []"
  shows "\<exists>t. peak_body fuel b scratch dirs logs n fs sz budget s =
      (Inl (RuntimeError (''nodes '' @ int_list_str dead @ '' exited before the run began'')), t) \<and>
    trace t = trace s @ concat (map2 (start_events scratch (bench_addrs n) logs) (enumerate 0 dirs) pids) \<and>
    length pids = length dirs \<and>
    (\<forall>p. Terminated p \<notin> set (concat (map2 (start_events scratch (bench_addrs n) logs) (enumerate 0 dirs) pids)))"
proof -
  have "trace s2 = trace s @ concat (map2 (start_events scratch (bench_addrs n) logs) (enumerate 0 dirs) pids)"
    using doesD [OF does_pmap [OF does_start] assms(1)] doesD [OF dead_nodes_quiet assms(2)] by simp
  moreover have "Terminated p \<notin> set (concat (map2 (start_events scratch (bench_addrs n) logs) (enumerate 0 dirs) pids))" for p
    by (auto simp: start_events_def Let_def)
  moreover have "length pids = length dirs"
    using pmap_length [OF assms(1)] by simp
  ultimately show ?thesis
    using assms by (simp add: peak_body_def pbind_def)
qed

section \<open>Examples\<close>

theorem peak_run_ends_witness:
  "\<exists>fuel. fst (peak_run fuel quiet_bench 2 1 3 (240 :: rat) fresh) \<noteq> Inl OutOfFuel"
proof (rule peak_run_ends)
  have "x \<le> of_nat k" if "nat \<lceil>x\<rceil> \<le> k" for x :: rat and k
  proof -
    have "\<lceil>x\<rceil> \<le> int k"
      using that by simp
    then have "x \<le> of_int (int k)"
      by (simp only: ceiling_le_iff)
    then show ?thesis
      by simp
  qed
  then show "passing (mono quiet_bench)"
    by (auto simp: passing_def quiet_bench_def env.extend_def)
qed

theorem peak_run_accounts_witness:
  "\<exists>r t. peak_run 9 quiet_bench 2 1 3 (240 :: rat) fresh = (Inr r, t) \<and>
   (\<exists>scratch dirs pids slow. length dirs = 2 \<and> length pids = 2 \<and>
    trace t = trace fresh @ MadeDir scratch # map MadeDir dirs @
      map (\<lambda>f. Wrote f []) (map (log_path scratch) [0..<2]) @
      body_events scratch dirs (map (log_path scratch) [0..<2]) 2 1 3 pids @ map Killed slow @
      map ClosedFile (map (log_path scratch) [0..<2]) @ map RemovedTree dirs @ [RemovedTree scratch] \<and>
    subseq slow pids \<and>
    peak_outcome quiet_bench (obs fresh) dirs (map (log_path scratch) [0..<2]) 2 1 3 240 r)"
proof -
  have "unit_names 1 = [''f0000'']" "peak_peers ''data'' = Inr (0, 0)" "[0..<2] = [0, 1]" "enumerate 0 [d, e :: path] = [(0, d), (1, e)]" for d e
    by code_simp+
  then have "\<not> isl (fst (peak_run 9 quiet_bench 2 1 3 (240 :: rat) fresh))"
    by (simp add: peak_run_def with_tempdir_def tempdir_def open_log_def peak_body_def start_daemon_def bench_peers_file_def spawn_def
        dead_nodes_def sample_def sample_body_def settle_def settle_body_def fd_count_def expected_files_def stop_daemons_def
        terminate_child_def reap_def remove_tree_def Let_def step_defs eval_nat_numeral until_time.simps(2)
        quiet_bench_def env.extend_def env.truncate_def ready_env_def fresh_def cong: outer_congs)
  then obtain r t where "peak_run 9 quiet_bench 2 1 3 (240 :: rat) fresh = (Inr r, t)"
    by (metis isl_def prod.collapse sum.collapse(2))
  from this peak_run_accounts [OF this] show ?thesis
    by blast
qed

theorem abort_leaves_daemons_witness:
  "\<exists>t. peak_body 9 (quiet_bench\<lparr>status_at := (\<lambda>_ p. if p = 1 then Some 1 else None)\<rparr>) [''s''] [[''a''], [''b'']] [[''l''], [''m'']] 2 1 3 240 fresh =
      (Inl (RuntimeError (''nodes '' @ int_list_str [0] @ '' exited before the run began'')), t) \<and>
    trace t = trace fresh @ concat (map2 (start_events [''s''] (bench_addrs 2) [[''l''], [''m'']]) (enumerate 0 [[''a''], [''b'']]) [1, 3]) \<and>
    length [1, 3 :: int] = length [[''a''], [''b'']] \<and>
    (\<forall>p. Terminated p \<notin> set (concat (map2 (start_events [''s''] (bench_addrs 2) [[''l''], [''m'']]) (enumerate 0 [[''a''], [''b'']]) [1, 3])))"
proof -
  let ?b = "quiet_bench\<lparr>status_at := (\<lambda>_ p. if p = 1 then Some 1 else None)\<rparr>"
  have "fst (pmap (start_daemon ?b [''s''] (bench_addrs 2) [[''l''], [''m'']]) (enumerate 0 [[''a''], [''b'']]) fresh) = Inr [1, 3]"
    by (simp add: start_daemon_def bench_peers_file_def spawn_def Let_def step_defs quiet_bench_def env.extend_def
        env.truncate_def ready_env_def fresh_def cong: outer_congs)
  then obtain s1 where s1: "pmap (start_daemon ?b [''s''] (bench_addrs 2) [[''l''], [''m'']]) (enumerate 0 [[''a''], [''b'']]) fresh = (Inr [1, 3], s1)"
    by (metis prod.collapse)
  have "fst (dead_nodes ?b [1, 3] s1) = Inr [0]"
    by (simp add: dead_nodes_def pbind_def ask_def)
  then obtain s2 where "dead_nodes ?b [1, 3] s1 = (Inr [0], s2)"
    by (metis prod.collapse)
  from abort_leaves_daemons [OF s1 this] show ?thesis
    by simp
qed

end
