(* ===== verification/Wire.thy ===== *)
theory Wire
  imports PyText
begin

text \<open>
  What the daemon puts on the wire and what it asks of it (\<open>src/utils.cpp\<close>: \<open>address\<close>, \<open>verb_of\<close>;
  \<open>src/source.cpp\<close>: the four messages; \<open>src/protocol.cpp\<close>: \<open>subscribe\<close>, \<open>parts_for\<close> and the checks that
  open \<open>act\<close>). A message is the list of its parts. The bench program \<open>measure_digest.py\<close> speaks this
  protocol from the other side.
\<close>

section \<open>Framing and messages\<close>

definition nul :: char where
  "nul = CHR 0x00"

definition address :: "string \<Rightarrow> string \<Rightarrow> string" where
  "address verb dest = verb @ [nul] @ dest @ [nul]"

definition verb_of :: "string \<Rightarrow> string" where
  "verb_of part0 = takeWhile (\<lambda>c. c \<noteq> nul) part0"

definition create_message :: "string \<Rightarrow> int \<Rightarrow> string \<Rightarrow> string list" where
  "create_message torrent origin path = [''create'', torrent, str_of_int origin, path]"

definition remove_message :: "string \<Rightarrow> int \<Rightarrow> string list" where
  "remove_message path deleted = [''remove'', path, str_of_int deleted]"

definition state_message :: "string \<Rightarrow> string \<Rightarrow> string list" where
  "state_message hashes endpoint = [''state'', hashes, endpoint]"

definition digest_message :: "string \<Rightarrow> string \<Rightarrow> string \<Rightarrow> string list" where
  "digest_message target held deleted = [address ''digest'' target, held, deleted]"

section \<open>Subscriptions and the judgement of a message\<close>

definition subscriptions :: "string \<Rightarrow> string list" where
  "subscriptions endpoint = [''create'', ''remove'', ''state'', address ''digest'' endpoint]"

text \<open>A ZeroMQ publisher passes on a message when one of the subscriptions begins its first part.\<close>

definition delivered :: "string list \<Rightarrow> string list \<Rightarrow> bool" where
  "delivered subs msg \<longleftrightarrow> list_ex (\<lambda>s. prefix s (hd msg)) subs"

definition verbs :: "(string \<times> nat) list" where
  "verbs = [(''create'', 4), (''remove'', 3), (''state'', 3), (''digest'', 3)]"

definition parts_for :: "string \<Rightarrow> nat option" where
  "parts_for part0 = map_of verbs (verb_of part0)"

definition judge :: "string list \<Rightarrow> string + string" where
  "judge v =
     (case v of [] \<Rightarrow> Inl ''Wrong protocol length.''
      | part0 # _ \<Rightarrow>
          (case parts_for part0 of None \<Rightarrow> Inl ''Wrong protocol verb.''
           | Some n \<Rightarrow> if length v \<noteq> n then Inl ''Wrong protocol length.'' else Inr (verb_of part0)))"

text \<open>What a node publishes, and the parts it sends for it.\<close>

datatype message =
    Create string int string
  | Remove string int
  | State string string
  | Digest string string string

fun frames :: "message \<Rightarrow> string list" where
  "frames (Create torrent origin path) = create_message torrent origin path"
| "frames (Remove path deleted) = remove_message path deleted"
| "frames (State hashes endpoint) = state_message hashes endpoint"
| "frames (Digest target held deleted) = digest_message target held deleted"

fun verb_name :: "message \<Rightarrow> string" where
  "verb_name (Create _ _ _) = ''create''"
| "verb_name (Remove _ _) = ''remove''"
| "verb_name (State _ _) = ''state''"
| "verb_name (Digest _ _ _) = ''digest''"

text \<open>An endpoint is the text of a line of the peers file, so it holds no NUL.\<close>

fun message_ok :: "message \<Rightarrow> bool" where
  "message_ok (Digest target _ _) \<longleftrightarrow> nul \<notin> set target"
| "message_ok _ \<longleftrightarrow> True"

section \<open>Facts\<close>

declare nul_def [simp]

lemma verb_of_address [simp]: "nul \<notin> set verb \<Longrightarrow> verb_of (address verb dest) = verb"
  unfolding verb_of_def address_def by (subst span_append(1)) auto

lemma verb_of_plain [simp]: "nul \<notin> set verb \<Longrightarrow> verb_of verb = verb"
  by (auto simp: verb_of_def intro: takeWhile_all)

text \<open>Two framed addresses are prefixes of each other only when they are the same.\<close>

lemma prefix_closed:
  "nul \<notin> set a \<Longrightarrow> nul \<notin> set b \<Longrightarrow> prefix (a @ nul # x) (b @ nul # y) \<longleftrightarrow> a = b \<and> prefix x y"
proof (induction a arbitrary: b)
  case Nil
  then show ?case
    by (cases b) auto
next
  case (Cons c a)
  then show ?case
    by (cases b) auto
qed

lemma address_prefix:
  assumes "nul \<notin> set v" "nul \<notin> set e" "nul \<notin> set v'" "nul \<notin> set e'"
  shows "prefix (address v e) (address v' e') \<longleftrightarrow> v = v' \<and> e = e'"
proof -
  have "prefix (e @ nul # []) (e' @ nul # []) \<longleftrightarrow> e = e'"
    using prefix_closed [of e e' "[]" "[]"] assms by simp
  then show ?thesis
    using prefix_closed [of v v' "e @ [nul]" "e' @ [nul]"] assms by (auto simp: address_def)
qed

lemma plain_not_address:
  "\<not> prefix ''create'' (address ''digest'' e)" "\<not> prefix ''remove'' (address ''digest'' e)"
  "\<not> prefix ''state'' (address ''digest'' e)"
  "\<not> prefix (address ''digest'' e) ''create''" "\<not> prefix (address ''digest'' e) ''remove''"
  "\<not> prefix (address ''digest'' e) ''state''"
  by (simp_all add: address_def)

lemma digest_delivered:
  assumes "nul \<notin> set target" "nul \<notin> set endpoint"
  shows "delivered (subscriptions endpoint) (digest_message target held deleted) \<longleftrightarrow> target = endpoint"
  using address_prefix [of "''digest''" endpoint "''digest''" target] assms
  by (auto simp: delivered_def subscriptions_def digest_message_def plain_not_address)

lemmas message_defs = create_message_def remove_message_def state_message_def digest_message_def

lemma judge_frames: "judge (frames m) = Inr (verb_name m)"
  by (cases m) (simp_all add: judge_def parts_for_def verbs_def message_defs)

lemma delivered_frames:
  assumes "message_ok m" and "nul \<notin> set endpoint"
  shows "delivered (subscriptions endpoint) (frames m) \<longleftrightarrow>
    (case m of Digest target _ _ \<Rightarrow> target = endpoint | _ \<Rightarrow> True)"
  using assms digest_delivered
  by (cases m) (auto simp: delivered_def subscriptions_def create_message_def remove_message_def state_message_def)

text \<open>
  C40. A digest reaches the node it is addressed to and no other, while the other three kinds of message
  reach everyone: with the subscriptions a node makes for its endpoint, the publisher passes it every
  create, remove and state, and exactly those digests whose target is its endpoint; and whatever is
  published is judged well formed at the other end, under the verb it was sent with.
\<close>

theorem digests_reach_their_target_alone:
  assumes "message_ok m" and "nul \<notin> set endpoint"
  shows "(delivered (subscriptions endpoint) (frames m) \<longleftrightarrow>
      (case m of Digest target _ _ \<Rightarrow> target = endpoint | _ \<Rightarrow> True)) \<and>
    judge (frames m) = Inr (verb_name m)"
  using delivered_frames [OF assms] judge_frames by simp

theorem digests_reach_their_target_alone_witness:
  "(delivered (subscriptions ''tcp://b:1'') (frames (Digest ''tcp://a:1'' ''h'' ''d'')) \<longleftrightarrow>
      (case Digest ''tcp://a:1'' ''h'' ''d'' of Digest target _ _ \<Rightarrow> target = ''tcp://b:1'' | _ \<Rightarrow> True)) \<and>
    judge (frames (Digest ''tcp://a:1'' ''h'' ''d'')) = Inr (verb_name (Digest ''tcp://a:1'' ''h'' ''d''))"
  by (rule digests_reach_their_target_alone) (simp_all add: nul_def)

end
