(* ===== verification/MeasureDigest.thy ===== *)
theory MeasureDigest
  imports Bench Wire
begin

text \<open>
  \<open>tools/measure/measure_digest.py\<close>: how large the digest is that a daemon sends for a tree of a given
  number of files. The program poses as a peer: it publishes a root hash nobody has, and subscribes to the
  digest the daemon then addresses to it. The daemon's side of the protocol is \<open>Wire\<close>.
\<close>

section \<open>The probe\<close>

definition node_addr :: string where
  "node_addr = ''localhost:6100''"

definition probe_addr :: string where
  "probe_addr = ''localhost:6101''"

definition node_endpoint :: string where
  "node_endpoint = ''tcp://'' @ node_addr"

definition probe_endpoint :: string where
  "probe_endpoint = ''tcp://'' @ probe_addr"

definition bogus_hash :: string where
  "bogus_hash = replicate 32 CHR 0x00"

definition addressed :: "string \<Rightarrow> string \<Rightarrow> string" where
  "addressed verb endpoint = verb @ [CHR 0x00] @ endpoint @ [CHR 0x00]"

definition probe_state :: "string list" where
  "probe_state = [''state'', bogus_hash, probe_endpoint]"

definition digest_names :: "nat \<Rightarrow> bool \<Rightarrow> string list" where
  "digest_names n depth_one =
     map (\<lambda>i. let f = ''f'' @ zfill_left 4 (str_of_nat i)
              in if depth_one then str_of_nat (i mod 3) @ ''/'' @ f else f) [0..<n]"

text \<open>\<open>Path(tree) / name\<close>, its directory made and the file written.\<close>

definition place_file :: "bench \<Rightarrow> path \<Rightarrow> string \<Rightarrow> (sys, unit) prog" where
  "place_file b tree name =
     (let p = tree @ split_char CHR ''/'' name
      in pbind (io (outside b) (MadeDir (path_parent p))) (\<lambda>_.
         io (outside b) (Wrote p (replicate 64 CHR ''x''))))"

section \<open>One measurement\<close>

record digest_row =
  dg_files :: nat
  dg_depth_one :: bool
  dg_parts :: "nat list"
  dg_total :: nat
  dg_held :: nat
  dg_chars :: nat

definition zmq_call :: "bench \<Rightarrow> event \<Rightarrow> (sys, unit) prog" where
  "zmq_call b ev = act ev (\<lambda>k. if zmq_fails b k then Inl ZMQError else Inr ())"

definition row_of_reply :: "nat \<Rightarrow> bool \<Rightarrow> string list \<Rightarrow> digest_row res" where
  "row_of_reply n depth_one parts =
     (if length parts < 2 then Inl IndexError
      else Inr \<lparr>dg_files = n, dg_depth_one = depth_one, dg_parts = map length parts,
                dg_total = sum_list (map length parts), dg_held = length (parts ! 1),
                dg_chars = sum_list (map (\<lambda>name. length name + 2) (digest_names n depth_one))\<rparr>)"

text \<open>
  The subscriber socket as the events so far left it: its topics, and the endpoints it is connected to.
  A message published at one of those endpoints comes through when it begins with one of the topics; a
  poll returns the first that does.
\<close>

definition sub_step :: "event \<Rightarrow> string list \<times> string list \<Rightarrow> string list \<times> string list" where
  "sub_step ev = (\<lambda>(topics, ends). case ev of
       Subscribed topic \<Rightarrow> (topics @ [topic], ends)
     | Connected endpoint \<Rightarrow> (topics, ends @ [endpoint])
     | ClosedSockets \<Rightarrow> ([], [])
     | _ \<Rightarrow> (topics, ends))"

definition sub_socket :: "event list \<Rightarrow> string list \<times> string list" where
  "sub_socket evs = fold sub_step evs ([], [])"

definition received :: "bench \<Rightarrow> event list \<Rightarrow> nat \<Rightarrow> string list option" where
  "received b evs k =
     (case sub_socket evs of (topics, ends) \<Rightarrow>
        (case filter (delivered topics) (concat (map (published_at b k) ends)) of
           [] \<Rightarrow> None | parts # _ \<Rightarrow> Some parts))"

definition poll_sub :: "bench \<Rightarrow> (sys, string list option) prog" where
  "poll_sub b s = (Inr (received b (trace s) (obs s)), s\<lparr>obs := Suc (obs s)\<rparr>)"

definition probe_round :: "bench \<Rightarrow> nat \<Rightarrow> bool \<Rightarrow> nat \<Rightarrow> unit \<Rightarrow> (sys, digest_row + unit) prog" where
  "probe_round b n depth_one fuel x =
     pbind (zmq_call b (Published probe_state)) (\<lambda>_.
     pbind (poll_sub b) (\<lambda>reply.
       case reply of None \<Rightarrow> pret (Inr ())
       | Some parts \<Rightarrow> pbind (plift (row_of_reply n depth_one parts)) (\<lambda>row. pret (Inl row))))"

definition probe :: "nat \<Rightarrow> bench \<Rightarrow> nat \<Rightarrow> bool \<Rightarrow> rat \<Rightarrow> (sys, digest_row option) prog" where
  "probe fuel b n depth_one budget =
     pbind (ask (mono b)) (\<lambda>now.
     pbind (until_time fuel (mono b) (now + budget) (probe_round b n depth_one) ()) (\<lambda>y.
       pret (case y of Inl row \<Rightarrow> Some row | Inr _ \<Rightarrow> None)))"

text \<open>What the \<open>finally\<close> block does with the daemon and the sockets.\<close>

definition put_away :: "bench \<Rightarrow> int \<Rightarrow> (sys, unit) prog" where
  "put_away b node =
     pbind (terminate_child node) (\<lambda>_. pbind (reap b node) (\<lambda>_. act ClosedSockets (\<lambda>_. Inr ())))"

definition measure_in :: "nat \<Rightarrow> bench \<Rightarrow> nat \<Rightarrow> bool \<Rightarrow> rat \<Rightarrow> path \<Rightarrow> path \<Rightarrow> (sys, digest_row option) prog" where
  "measure_in fuel b n depth_one budget scratch tree =
     (let peers = scratch @ [''peers''] in
      pbind (io (outside b) (Wrote peers probe_endpoint)) (\<lambda>_.
      pbind (pfor (digest_names n depth_one) (place_file b tree)) (\<lambda>_.
      pbind (zmq_call b (Subscribed (addressed ''digest'' probe_endpoint))) (\<lambda>_.
      pbind (zmq_call b (Connected node_endpoint)) (\<lambda>_.
      pbind (zmq_call b (Bound (''tcp://'' @ probe_addr))) (\<lambda>_.
      pbind (spawn b [''syncfs'', path_str peers, node_addr] tree None) (\<lambda>node.
      pfinally (probe fuel b n depth_one budget) (put_away b node))))))))"

definition measure_digest :: "nat \<Rightarrow> bench \<Rightarrow> nat \<Rightarrow> bool \<Rightarrow> rat \<Rightarrow> (sys, digest_row option) prog" where
  "measure_digest fuel b n depth_one budget =
     with_tempdir b (\<lambda>scratch. with_tempdir b (\<lambda>tree. measure_in fuel b n depth_one budget scratch tree))"

section \<open>The program\<close>

definition digest_cases :: "(nat \<times> bool) list" where
  "digest_cases = [(0, False), (10, False), (100, False), (1000, False), (100, True), (1000, True)]"

definition bool_str :: "bool \<Rightarrow> string" where
  "bool_str c = (if c then ''True'' else ''False'')"

definition digest_line :: "nat \<Rightarrow> bool \<Rightarrow> digest_row option \<Rightarrow> string res" where
  "digest_line n depth_one r =
     (case r of
        None \<Rightarrow> Inr (rjust 5 (str_of_nat n) @ '' '' @ rjust 5 (bool_str depth_one) @ ''  no digest arrived'')
      | Some row \<Rightarrow>
          if length (dg_parts row) < 3 then Inl IndexError
          else let per = (if n \<noteq> 0 then of_nat (dg_held row) / of_nat n else (0 :: rat));
                   p = (\<lambda>i. str_of_nat (dg_parts row ! i))
               in Inr (rjust 5 (str_of_nat (dg_files row)) @ '' '' @ rjust 5 (bool_str (dg_depth_one row)) @ ''  '' @
                       rjust 5 (p 0) @ '' '' @ rjust 11 (p 1) @ '' '' @ rjust 11 (p 2) @ ''  '' @
                       rjust 6 (str_of_nat (dg_total row)) @ ''  '' @ rjust 10 (fixed 1 per)))"

definition digest_main :: "nat \<Rightarrow> bench \<Rightarrow> (sys, unit) prog" where
  "digest_main fuel b =
     pbind (say ''files depth  part0  part1(held) part2(tomb)  total  bytes/path'') (\<lambda>_.
     pfor digest_cases (\<lambda>(n, depth_one).
       pbind (measure_digest fuel b n depth_one 90) (\<lambda>r.
       pbind (plift (digest_line n depth_one r)) say)))"

section \<open>The loop\<close>

lemma poll_sub_steps: "settled (poll_sub b)" "ticking.climbs (poll_sub b)"
  by (simp_all add: settled_def ticking.climbs_def fewer_observed_def poll_sub_def)

lemma probe_round_settled: "settled (probe_round b n depth_one fuel x)"
  unfolding probe_round_def zmq_call_def
  by (intro settling poll_sub_steps) (auto simp: row_of_reply_def intro!: settling split: option.splits)

interpretation probing: timed_body "mono b" "probe_round b n depth_one" for b n depth_one
proof
  have "ticking.climbs (case reply of None \<Rightarrow> pret (Inr ())
       | Some parts \<Rightarrow> pbind (plift (row_of_reply n depth_one parts)) (\<lambda>row. pret (Inl row)))" for reply
    by (cases reply) (simp_all add: ticks del: pret_run plift_run)
  then show "ticking.climbs (probe_round b n depth_one fuel x)" for fuel x
    unfolding probe_round_def zmq_call_def by (intro ticks poll_sub_steps)
  show "probe_round b n depth_one fuel x s = (r, t) \<Longrightarrow> probe_round b n depth_one (Suc fuel) x s = (r, t)" for fuel x s r t
    by (simp add: probe_round_def)
  show "\<exists>fuel. fst (probe_round b n depth_one fuel x s) \<noteq> Inl OutOfFuel" for x s
    using probe_round_settled by (simp add: settled_def)
qed

text \<open>What a round adds to the trace is the root hash it publishes, when the socket takes it.\<close>

lemma probe_round_trace:
  assumes "probe_round b n depth_one fuel x s = (r, t)"
  shows "trace t = trace s @ [Published probe_state]"
  using assms
  by (auto simp: probe_round_def poll_sub_def zmq_call_def pbind_def act_def split: prod.splits sum.splits if_splits option.splits)

lemma sub_socket_append: "sub_socket (evs @ news) = fold sub_step news (sub_socket evs)"
  by (simp add: sub_socket_def)

lemma sub_step_other [simp]:
  "sub_step (Published ps) = id" "sub_step (MadeDir d) = id" "sub_step (Wrote p c) = id"
  "sub_step (Bound e) = id" "sub_step (Spawned args d out pid) = id"
  by (auto simp: sub_step_def)

section \<open>What is measured\<close>

lemma addressed_address: "addressed verb endpoint = address verb endpoint"
  by (simp add: addressed_def address_def)

lemma no_nul_probe [simp]: "CHR 0x00 \<notin> set probe_endpoint"
  by (simp add: probe_endpoint_def probe_addr_def)

text \<open>The one subscription of the probe lets through the digests addressed to it and nothing else.\<close>

lemma probe_hears:
  assumes "message_ok m" and "delivered [addressed ''digest'' probe_endpoint] (frames m)"
  shows "\<exists>held deleted. m = Digest probe_endpoint held deleted"
proof -
  have "prefix (address ''digest'' probe_endpoint) (hd (frames m))"
    using assms(2) by (simp add: delivered_def addressed_address)
  then show ?thesis
    using assms(1) address_prefix [of "''digest''" probe_endpoint "''digest''"]
    by (cases m) (auto simp: message_defs plain_not_address)
qed

text \<open>A probe that returns: the rounds it published in, and what was received in the last.\<close>

lemma probe_result:
  assumes "probe fuel b n depth_one budget s = (Inr r, t)"
  shows "\<exists>rounds. trace t = trace s @ replicate rounds (Published probe_state) \<and>
    (case r of
       Some row \<Rightarrow> \<exists>k parts. received b (trace t) k = Some parts \<and> row_of_reply n depth_one parts = Inr row
     | None \<Rightarrow> \<exists>j k. mono b j + budget \<le> mono b k)"
proof -
  obtain y where y: "until_time fuel (mono b) (mono b (obs s) + budget) (probe_round b n depth_one) ()
      (s\<lparr>obs := Suc (obs s)\<rparr>) = (Inr y, t)" "r = (case y of Inl row \<Rightarrow> Some row | Inr _ \<Rightarrow> None)"
    using assms by (auto simp: probe_def pbind_Inr_iff ask_Inr_iff)
  let ?I = "\<lambda>_ u. \<exists>rounds. trace u = trace s @ replicate rounds (Published probe_state)"
  have again: "?I x' t" if "?I x u" "probe_round b n depth_one f x u = (v, t)" for x u f v x' t
    using that(1) probe_round_trace [OF that(2)] by (auto simp flip: replicate_append_same intro: exI [of _ "Suc _"])
  have "case y of
      Inl r \<Rightarrow> \<exists>f z u. ?I z u \<and> probe_round b n depth_one f z u = (Inr (Inl r), t)
    | Inr z \<Rightarrow> \<exists>u. ?I z u \<and> mono b (obs s) + budget \<le> mono b (obs u) \<and> t = u\<lparr>obs := Suc (obs u)\<rparr>"
  proof (rule until_time_result [where I = ?I, OF y(1)])
    show "?I () (s\<lparr>obs := Suc (obs s)\<rparr>)"
      by (intro exI [of _ 0]) simp
  qed (simp, erule again)
  then show ?thesis
  proof (cases y)
    case (Inl row)
    then obtain f z u where u: "?I z u" "probe_round b n depth_one f z u = (Inr (Inl row), t)"
      using \<open>case y of Inl r \<Rightarrow> _ r | Inr z \<Rightarrow> _ z\<close> by auto
    then have "\<exists>k parts. received b (trace t) k = Some parts \<and> row_of_reply n depth_one parts = Inr row"
      by (fastforce simp: probe_round_def poll_sub_def zmq_call_def act_def pbind_Inr_iff split: option.splits if_splits)
    then show ?thesis
      using again [OF u] y(2) Inl by auto
  next
    case (Inr z)
    then show ?thesis
      using \<open>case y of Inl r \<Rightarrow> _ r | Inr z \<Rightarrow> _ z\<close> y(2) by auto
  qed
qed

text \<open>What a measurement does before it probes and after.\<close>

definition place_events :: "path \<Rightarrow> string list \<Rightarrow> event list" where
  "place_events tree names =
     concat (map (\<lambda>name. let p = tree @ split_char CHR ''/'' name
                         in [MadeDir (path_parent p), Wrote p (replicate 64 CHR ''x'')]) names)"

definition setup_events :: "path \<Rightarrow> path \<Rightarrow> string list \<Rightarrow> int \<Rightarrow> event list" where
  "setup_events scratch tree names node =
     [MadeDir scratch, MadeDir tree, Wrote (scratch @ [''peers'']) probe_endpoint] @ place_events tree names @
     [Subscribed (addressed ''digest'' probe_endpoint), Connected node_endpoint, Bound (''tcp://'' @ probe_addr),
      Spawned [''syncfs'', path_str (scratch @ [''peers'']), node_addr] tree None node]"

lemma does_place: "does (pfor names (place_file b tree)) (\<lambda>_. place_events tree names)"
  unfolding place_events_def
proof (rule does_for)
  fix name
  show "does (place_file b tree name) (\<lambda>_. let p = tree @ split_char CHR ''/'' name
      in [MadeDir (path_parent p), Wrote p (replicate 64 CHR ''x'')])"
    using does_bind [OF does_io does_io] by (simp add: place_file_def Let_def)
qed

lemma does_zmq: "does (zmq_call b ev) (\<lambda>_. [ev])"
  by (simp add: zmq_call_def does_act)

lemma put_away_trace:
  assumes "put_away b node s = (r, t)"
  shows "\<exists>killed. trace t = trace s @ [Terminated node] @ killed @ [ClosedSockets] \<and> set killed \<subseteq> {Killed node}"
  using assms by (cases "exits_at b (Suc (obs s)) node")
    (auto simp: put_away_def terminate_child_def reap_def pbind_def act_def ask_def)

lemma measure_runs:
  assumes "measure_digest fuel b n depth_one budget s = (Inr r, t)"
  shows "\<exists>scratch tree node u v killed.
    trace u = trace s @ setup_events scratch tree (digest_names n depth_one) node \<and>
    probe fuel b n depth_one budget u = (Inr r, v) \<and>
    trace t = trace v @ [Terminated node] @ killed @ [ClosedSockets, RemovedTree tree, RemovedTree scratch] \<and>
    set killed \<subseteq> {Killed node}"
proof -
  obtain scratch s1 u1 where a: "tempdir b s = (Inr scratch, s1)"
    "with_tempdir b (\<lambda>tree. measure_in fuel b n depth_one budget scratch tree) s1 = (Inr r, u1)"
    "trace t = trace u1 @ [RemovedTree scratch]"
    using with_tempdir_removes [OF assms [unfolded measure_digest_def]] by blast
  obtain tree s2 u2 where c: "tempdir b s1 = (Inr tree, s2)"
    "measure_in fuel b n depth_one budget scratch tree s2 = (Inr r, u2)" "trace u1 = trace u2 @ [RemovedTree tree]"
    using with_tempdir_removes [OF a(2)] by blast
  obtain x1 s3 x2 s4 x3 s5 x4 s6 x5 s7 node u where run: "io (outside b) (Wrote (scratch @ [''peers'']) probe_endpoint) s2 = (Inr x1, s3)"
    "pfor (digest_names n depth_one) (place_file b tree) s3 = (Inr x2, s4)"
    "zmq_call b (Subscribed (addressed ''digest'' probe_endpoint)) s4 = (Inr x3, s5)"
    "zmq_call b (Connected node_endpoint) s5 = (Inr x4, s6)"
    "zmq_call b (Bound (''tcp://'' @ probe_addr)) s6 = (Inr x5, s7)"
    "spawn b [''syncfs'', path_str (scratch @ [''peers'']), node_addr] tree None s7 = (Inr node, u)"
    "pfinally (probe fuel b n depth_one budget) (put_away b node) u = (Inr r, u2)"
    using c(2) unfolding measure_in_def Let_def by (elim pbindE) (rule that)
  obtain v where v: "probe fuel b n depth_one budget u = (Inr r, v)" "put_away b node v = (Inr (), u2)"
    using run(7) by (rule finally_Inr)
  have "trace u = trace s @ setup_events scratch tree (digest_names n depth_one) node"
    using doesD [OF does_tempdir a(1)] doesD [OF does_tempdir c(1)] doesD [OF does_io run(1)]
      doesD [OF does_place run(2)] doesD [OF does_zmq run(3)] doesD [OF does_zmq run(4)]
      doesD [OF does_zmq run(5)] doesD [OF does_spawn run(6)]
    by (simp add: setup_events_def)
  then show ?thesis
    using v(1) put_away_trace [OF v(2)] a(3) c(3) by fastforce
qed

lemma setup_socket:
  assumes "sub_socket evs = ([], [])"
  shows "sub_socket ((evs @ setup_events scratch tree names node) @ replicate rounds (Published probe_state)) =
    ([addressed ''digest'' probe_endpoint], [node_endpoint])"
proof -
  have p: "fold sub_step (place_events tree names) = id"
    by (rule fold_id) (auto simp: place_events_def Let_def)
  have "fold sub_step (replicate rounds (Published probe_state)) = id"
    by (rule fold_id) auto
  then show ?thesis
    unfolding sub_socket_append assms setup_events_def by (simp add: p sub_step_def)
qed

lemma received_for_probe:
  assumes "received b evs k = Some parts" and "sub_socket evs = ([addressed ''digest'' probe_endpoint], [node_endpoint])"
    and "list_all (\<lambda>parts. \<exists>m. message_ok m \<and> parts = frames m) (published_at b k node_endpoint)"
  shows "\<exists>held deleted. parts = frames (Digest probe_endpoint held deleted) \<and> parts \<in> set (published_at b k node_endpoint)"
proof -
  have "parts \<in> set (filter (delivered [addressed ''digest'' probe_endpoint]) (published_at b k node_endpoint))"
    using assms(1,2) unfolding received_def
    by (cases "filter (delivered [addressed ''digest'' probe_endpoint]) (published_at b k node_endpoint)") simp_all
  then obtain m where "message_ok m" "parts = frames m" "delivered [addressed ''digest'' probe_endpoint] parts"
    "parts \<in> set (published_at b k node_endpoint)"
    using assms(3) by (auto simp: list_all_iff)
  then show ?thesis
    using probe_hears by blast
qed

text \<open>
  C38. What the bench calls a digest is a digest addressed to it. A measurement that returns did exactly
  this: it wrote the peers file and the tree, subscribed to the digests addressed to it, connected to
  the daemon's endpoint, started one daemon on that address in that tree, published its root hash some
  times, stopped the daemon, and closed and removed everything. The root hash is a message the
  daemon accepts and subscribes to. If no socket was open before and what is published at the daemon's
  endpoint are messages of the protocol, of whatever kind and to whomever, then the measured
  message is a digest for the probe published there, the sizes reported are those of its address, its listing
  and its tombstones, their sum is the total, and the report prints without an error. No measurement
  means the budget had passed.
\<close>

theorem probe_measures_its_digest:
  assumes "measure_digest fuel b n depth_one budget s = (Inr r, t)"
    and "sub_socket (trace s) = ([], [])"
    and "\<And>k. list_all (\<lambda>parts. \<exists>m. message_ok m \<and> parts = frames m) (published_at b k node_endpoint)"
  shows "judge probe_state = Inr ''state'' \<and> delivered (subscriptions node_endpoint) probe_state \<and>
    (\<exists>scratch tree node rounds killed.
       trace t = trace s @ setup_events scratch tree (digest_names n depth_one) node @
         replicate rounds (Published probe_state) @ [Terminated node] @ killed @
         [ClosedSockets, RemovedTree tree, RemovedTree scratch] \<and> set killed \<subseteq> {Killed node}) \<and>
    (\<exists>line. digest_line n depth_one r = Inr line) \<and>
    (case r of
       None \<Rightarrow> \<exists>j k. mono b j + budget \<le> mono b k
     | Some row \<Rightarrow> \<exists>held deleted k. frames (Digest probe_endpoint held deleted) \<in> set (published_at b k node_endpoint) \<and>
         dg_parts row = [length (address ''digest'' probe_endpoint), length held, length deleted] \<and>
         dg_held row = length held \<and> dg_total row = sum_list (dg_parts row) \<and> dg_files row = n)"
proof -
  have state: "judge probe_state = Inr ''state''" "delivered (subscriptions node_endpoint) probe_state"
    by (simp_all add: judge_def probe_state_def parts_for_def verbs_def delivered_def subscriptions_def)
  obtain scratch tree node u v killed where run:
    "trace u = trace s @ setup_events scratch tree (digest_names n depth_one) node"
    "probe fuel b n depth_one budget u = (Inr r, v)"
    "trace t = trace v @ [Terminated node] @ killed @ [ClosedSockets, RemovedTree tree, RemovedTree scratch]"
    "set killed \<subseteq> {Killed node}"
    using measure_runs [OF assms(1)] by blast
  obtain rounds where p: "trace v = trace u @ replicate rounds (Published probe_state)"
    "case r of Some row \<Rightarrow> \<exists>k parts. received b (trace v) k = Some parts \<and> row_of_reply n depth_one parts = Inr row
     | None \<Rightarrow> \<exists>j k. mono b j + budget \<le> mono b k"
    using probe_result [OF run(2)] by blast
  have steps: "\<exists>scratch tree node rounds killed.
       trace t = trace s @ setup_events scratch tree (digest_names n depth_one) node @
         replicate rounds (Published probe_state) @ [Terminated node] @ killed @
         [ClosedSockets, RemovedTree tree, RemovedTree scratch] \<and> set killed \<subseteq> {Killed node}"
    using run p(1) by (metis append.assoc)
  show ?thesis
  proof (cases r)
    case None
    then show ?thesis
      using state p(2) steps by (simp add: digest_line_def)
  next
    case (Some row)
    then obtain k parts where k: "received b (trace v) k = Some parts" "row_of_reply n depth_one parts = Inr row"
      using p(2) by auto
    have "sub_socket (trace v) = ([addressed ''digest'' probe_endpoint], [node_endpoint])"
      unfolding p(1) run(1) by (rule setup_socket [OF assms(2)])
    then obtain held deleted where d: "parts = frames (Digest probe_endpoint held deleted)"
      "parts \<in> set (published_at b k node_endpoint)"
      using received_for_probe [OF k(1) _ assms(3)] by blast
    then have row: "dg_parts row = [length (address ''digest'' probe_endpoint), length held, length deleted]"
      "dg_held row = length held" "dg_total row = sum_list (dg_parts row)" "dg_files row = n"
      using k(2) by (auto simp: row_of_reply_def digest_message_def)
    then have "\<exists>line. digest_line n depth_one r = Inr line"
      by (simp add: Some digest_line_def Let_def)
    then show ?thesis
      using state steps row d unfolding Some option.case by blast
  qed
qed

section \<open>The daemon is stopped\<close>

lemma probe_quiet:
  assumes "probe fuel b n depth_one budget s = (r, t)"
  shows "\<exists>more. trace t = trace s @ more \<and> set more \<subseteq> {Published probe_state}"
proof -
  have round: "\<exists>more. trace t = trace s @ more \<and> set more \<subseteq> {Published probe_state}"
    if "probe_round b n depth_one fuel x s = (r, t)" for fuel x s r t
    using probe_round_trace [OF that] by simp
  have "\<exists>more. trace t = trace s @ more \<and> set more \<subseteq> {Published probe_state}"
    if "until_time fuel clk stop (probe_round b n depth_one) x s = (r, t)" for fuel clk stop x s r t
    using that
  proof (induction fuel arbitrary: x s)
    case (Suc fuel)
    obtain v u where v: "probe_round b n depth_one fuel x (s\<lparr>obs := Suc (obs s)\<rparr>) = (v, u)"
      by (cases "probe_round b n depth_one fuel x (s\<lparr>obs := Suc (obs s)\<rparr>)")
    obtain more where more: "trace u = trace s @ more" "set more \<subseteq> {Published probe_state}"
      using round [OF v] by auto
    show ?case
    proof (cases "clk (obs s) < stop")
      case True
      note run = Suc.prems [unfolded until_time_step [where body = "probe_round b n depth_one" and clk = clk and s = s, OF True v]]
      show ?thesis
      proof (cases "\<exists>x'. v = Inr (Inr x')")
        case True
        then obtain x' where "until_time fuel clk stop (probe_round b n depth_one) x' u = (r, t)"
          using run by auto
        from Suc.IH [OF this] more show ?thesis
          by fastforce
      next
        case False
        then have "t = u"
          using run by (auto split: sum.splits)
        then show ?thesis
          using more by blast
      qed
    next
      case False
      then show ?thesis
        using Suc.prems by (auto simp: until_time_stop [where clk = clk and s = s, OF False])
    qed
  qed simp
  then show ?thesis
    using assms by (fastforce simp: probe_def pbind_def ask_def split: prod.splits sum.splits)
qed

text \<open>
  The daemon the probe starts is stopped however the measurement ends: once the process is running, be it
  that a digest arrives, that none does, or that a socket call or a reply raises, it is told to stop, killed
  if it does not end in time, and the sockets are closed, in this order and before anything else happens.
\<close>

theorem probe_stops_its_daemon:
  assumes "pfinally (probe fuel b n depth_one budget) (put_away b node) s = (r, t)" and "r \<noteq> Inl OutOfFuel"
  shows "\<exists>mid killed. trace t = trace s @ mid @ [Terminated node] @ killed @ [ClosedSockets] \<and>
    set mid \<subseteq> {Published probe_state} \<and> set killed \<subseteq> {Killed node}"
proof -
  obtain r' u x where u: "probe fuel b n depth_one budget s = (r', u)" "put_away b node u = (x, t)"
    using finally_ran [OF assms] by blast
  have "\<exists>killed. trace t = trace u @ [Terminated node] @ killed @ [ClosedSockets] \<and> set killed \<subseteq> {Killed node}"
    by (rule put_away_trace [OF u(2)])
  then show ?thesis
    using probe_quiet [OF u(1)] by fastforce
qed

section \<open>Examples\<close>

definition probe_bench :: bench where
  "probe_bench = quiet_bench\<lparr>published_at := (\<lambda>_ e. if e = node_endpoint
     then [frames (State ''h'' node_endpoint), frames (Digest probe_endpoint ''held'' ''t'')] else [])\<rparr>"

theorem probe_measures_its_digest_witness:
  "\<exists>r t. measure_digest 3 probe_bench 1 True 90 fresh = (Inr r, t) \<and> r \<noteq> None \<and>
    judge probe_state = Inr ''state'' \<and> delivered (subscriptions node_endpoint) probe_state \<and>
    (\<exists>scratch tree node rounds killed.
       trace t = trace fresh @ setup_events scratch tree (digest_names 1 True) node @
         replicate rounds (Published probe_state) @ [Terminated node] @ killed @
         [ClosedSockets, RemovedTree tree, RemovedTree scratch] \<and> set killed \<subseteq> {Killed node}) \<and>
    (\<exists>line. digest_line 1 True r = Inr line) \<and>
    (case r of
       None \<Rightarrow> \<exists>j k. mono probe_bench j + 90 \<le> mono probe_bench k
     | Some row \<Rightarrow> \<exists>held deleted k. frames (Digest probe_endpoint held deleted) \<in> set (published_at probe_bench k node_endpoint) \<and>
         dg_parts row = [length (address ''digest'' probe_endpoint), length held, length deleted] \<and>
         dg_held row = length held \<and> dg_total row = sum_list (dg_parts row) \<and> dg_files row = 1)"
proof -
  have names: "digest_names (Suc 0) True = [''0/f0000'']"
    by code_simp
  have heard: "delivered [addressed ''digest'' probe_endpoint] (frames (Digest probe_endpoint ''held'' ''t''))"
    "\<not> delivered [addressed ''digest'' probe_endpoint] (frames (State ''h'' node_endpoint))"
    by code_simp+
  have "\<exists>row. fst (measure_digest 3 probe_bench 1 True 90 fresh) = Inr (Some row)"
    by (simp add: names measure_digest_def with_tempdir_def tempdir_def remove_tree_def measure_in_def place_file_def
        zmq_call_def spawn_def probe_def probe_round_def poll_sub_def received_def sub_socket_def sub_step_def
        put_away_def terminate_child_def reap_def Let_def step_defs heard
        row_of_reply_def digest_message_def eval_nat_numeral until_time.simps(2)
        probe_bench_def quiet_bench_def env.extend_def env.truncate_def ready_env_def fresh_def
        del: frames.simps cong: outer_congs) (simp add: digest_message_def)
  then obtain row t where run: "measure_digest 3 probe_bench 1 True 90 fresh = (Inr (Some row), t)"
    by (metis prod.collapse)
  have socket: "sub_socket (trace fresh) = ([], [])"
    by (simp add: fresh_def sub_socket_def)
  have "\<exists>m. message_ok m \<and> frames (State ''h'' node_endpoint) = frames m"
    "\<exists>m. message_ok m \<and> frames (Digest probe_endpoint ''held'' ''t'') = frames m"
    by (rule exI, rule conjI [OF _ refl], simp)+
  then have said: "list_all (\<lambda>parts. \<exists>m. message_ok m \<and> parts = frames m) (published_at probe_bench k node_endpoint)" for k
    unfolding probe_bench_def by (simp del: frames.simps)
  show ?thesis
    by (rule exI [of _ "Some row"], rule exI [of _ t], intro conjI [OF run] conjI [of "Some row \<noteq> None"])
      (simp, rule probe_measures_its_digest [OF run socket said])
qed

theorem probe_stops_its_daemon_witness:
  "\<exists>r t. pfinally (probe 3 (probe_bench\<lparr>zmq_fails := (\<lambda>_. True)\<rparr>) 1 True 90)
      (put_away (probe_bench\<lparr>zmq_fails := (\<lambda>_. True)\<rparr>) 7) fresh = (r, t) \<and> r = Inl ZMQError \<and>
    (\<exists>mid killed. trace t = trace fresh @ mid @ [Terminated 7] @ killed @ [ClosedSockets] \<and>
      set mid \<subseteq> {Published probe_state} \<and> set killed \<subseteq> {Killed 7})"
proof -
  let ?b = "probe_bench\<lparr>zmq_fails := (\<lambda>_. True)\<rparr>"
  obtain r t where run: "pfinally (probe 3 ?b 1 True 90) (put_away ?b 7) fresh = (r, t)"
    by (cases "pfinally (probe 3 ?b 1 True 90) (put_away ?b 7) fresh")
  have "fst (pfinally (probe 3 ?b 1 True 90) (put_away ?b 7) fresh) = Inl ZMQError"
    by (simp add: zmq_call_def probe_def probe_round_def put_away_def terminate_child_def reap_def step_defs
        eval_nat_numeral until_time.simps(2) probe_bench_def quiet_bench_def env.extend_def env.truncate_def ready_env_def
        fresh_def cong: outer_congs)
  then have r: "r = Inl ZMQError"
    unfolding run by simp
  then have "r \<noteq> Inl OutOfFuel"
    by simp
  from run r probe_stops_its_daemon [OF run this] show ?thesis
    by blast
qed

end
