(* ===== verification/Listen.thy ===== *)
theory Listen
  imports PyText "HOL-Library.Word"
begin

text \<open>
  The daemon's listen address (\<open>src/utils.cpp\<close>: \<open>parse_host_port\<close>, \<open>host_of\<close>, \<open>port_of\<close>,
  \<open>check_listen_address\<close>; the end of \<open>main\<close> in \<open>src/syncfs.cpp\<close>, where the port becomes an
  \<open>unsigned short\<close>; the first lines of \<open>sync_loop\<close>, where 2000 is added to it). Ports are kept at
  their width: an \<open>int\<close> while they are read, 16 bits from there on.
\<close>

section \<open>Reading numbers\<close>

datatype cpp_exn = InvalidArgument | OutOfRange

definition int_range :: "int \<Rightarrow> bool" where
  "int_range v \<longleftrightarrow> - (2 ^ 31) \<le> v \<and> v < 2 ^ 31"

definition signed_digits :: "bool \<Rightarrow> string \<Rightarrow> int option" where
  "signed_digits negative ds =
     (if ds = [] then None
      else map_option (\<lambda>n. if negative then - int n else int n) (nat_of_digits 0 ds))"

text \<open>
  \<open>std::from_chars\<close> into a signed type of the given range, wanted to use up the whole text: no space,
  no plus. \<open>from_chars_all\<close> reads an \<open>int\<close>.
\<close>

definition from_chars_in :: "(int \<Rightarrow> bool) \<Rightarrow> string \<Rightarrow> int option" where
  "from_chars_in in_range s =
     (case (if take 1 s = ''-'' then signed_digits True (drop 1 s) else signed_digits False s) of
        None \<Rightarrow> None
      | Some v \<Rightarrow> if in_range v then Some v else None)"

definition from_chars_all :: "string \<Rightarrow> int option" where
  "from_chars_all s = from_chars_in int_range s"

text \<open>\<open>std::stoi\<close>: leading space and a sign are allowed, and whatever follows the digits is left.\<close>

definition is_c_space :: "char \<Rightarrow> bool" where
  "is_c_space c \<longleftrightarrow> (let k = (of_char c :: nat) in 9 \<le> k \<and> k \<le> 13 \<or> k = 32)"

definition stoi :: "string \<Rightarrow> cpp_exn + int" where
  "stoi s0 =
     (let s = dropWhile is_c_space s0;
          negative = (take 1 s = ''-'');
          ds = takeWhile is_digit (if take 1 s = ''-'' \<or> take 1 s = ''+'' then drop 1 s else s)
      in case signed_digits negative ds of
           None \<Rightarrow> Inl InvalidArgument
         | Some v \<Rightarrow> if int_range v then Inr v else Inl OutOfRange)"

section \<open>Host and port\<close>

text \<open>What stands before and after the last colon.\<close>

definition rsplit_colon :: "string \<Rightarrow> (string \<times> string) option" where
  "rsplit_colon s =
     (if CHR '':'' \<in> set s
      then Some (rev (tl (dropWhile (\<lambda>c. c \<noteq> CHR '':'') (rev s))), rev (takeWhile (\<lambda>c. c \<noteq> CHR '':'') (rev s)))
      else None)"

definition host_of :: "string \<Rightarrow> string" where
  "host_of addr =
     (let host = (case rsplit_colon addr of None \<Rightarrow> addr | Some (h, _) \<Rightarrow> h);
          host1 = (if take 1 host = ''['' then drop 1 host else host)
      in if host1 \<noteq> [] \<and> last host1 = CHR '']'' then butlast host1 else host1)"

definition port_of :: "string \<Rightarrow> string option" where
  "port_of addr = map_option snd (rsplit_colon addr)"

definition quoted :: "string \<Rightarrow> string" where
  "quoted s = CHR 0x22 # s @ [CHR 0x22]"

definition anywhere :: "string \<Rightarrow> bool" where
  "anywhere host \<longleftrightarrow> host = ''*'' \<or> list_all (\<lambda>c. c = CHR ''0'' \<or> c = CHR ''.'' \<or> c = CHR '':'') host"

definition highest_port :: int where
  "highest_port = 65535 - 2000"

definition check_listen_address :: "string \<Rightarrow> string + unit" where
  "check_listen_address addr =
     (if anywhere (host_of addr)
      then Inl (quoted (host_of addr) @ '' names no one host, and this address is what peers address '' @
                ''their digests to as well as what the publisher binds'')
      else
        case port_of addr of
          None \<Rightarrow> Inl (quoted addr @ '' carries no port'')
        | Some port \<Rightarrow>
            if port = [] then Inl (quoted addr @ '' carries no port'')
            else
              case from_chars_all port of
                None \<Rightarrow> Inl (quoted port @ '' is not a port number'')
              | Some number \<Rightarrow>
                  if number < 1 \<or> number > highest_port
                  then Inl (''port '' @ str_of_int number @ '' is outside 1-'' @ str_of_int highest_port @
                            '', and libtorrent listens 2000 above it'')
                  else Inr ())"

text \<open>\<open>parse_host_port\<close> splits at every colon and reads the second piece.\<close>

definition parse_host_port :: "string \<Rightarrow> cpp_exn + (string \<times> int)" where
  "parse_host_port s =
     (let tokens = split_char CHR '':'' s
      in if hd tokens = [] then Inl InvalidArgument
         else if length tokens < 2 then Inl OutOfRange
         else case stoi (tokens ! 1) of Inl e \<Rightarrow> Inl e | Inr port \<Rightarrow> Inr (hd tokens, port))"

definition local_port :: "int \<Rightarrow> 16 word" where
  "local_port port = word_of_int port"

definition libtorrent_port :: "16 word \<Rightarrow> 16 word" where
  "libtorrent_port port = port + 2000"

section \<open>An accepted port keeps its value\<close>

lemma digits_of_signed:
  assumes "signed_digits False ds = Some v"
  shows "ds \<noteq> []" "list_all is_digit ds" "0 \<le> v"
proof -
  obtain n where n: "nat_of_digits 0 ds = Some n" "v = int n" "ds \<noteq> []"
    using assms by (auto simp: signed_digits_def split: if_splits)
  have "nat_of_digits a ds = Some n \<Longrightarrow> list_all is_digit ds" for a
    by (induction ds arbitrary: a) (auto simp: is_digit_def split: option.splits)
  with n show "ds \<noteq> []" "list_all is_digit ds" "0 \<le> v"
    by simp_all
qed

lemma is_digit_not_c_space: "is_digit c \<Longrightarrow> \<not> is_c_space c"
  by (auto simp: is_digit_def digit_val_def is_c_space_def Let_def split: if_splits)

lemma stoi_from_chars:
  assumes "from_chars_all s = Some v" and "1 \<le> v"
  shows "stoi s = Inr v"
proof -
  have minus: "take 1 s \<noteq> ''-''"
  proof
    assume "take 1 s = ''-''"
    then have "v \<le> 0"
      using assms(1) by (auto simp: from_chars_all_def from_chars_in_def signed_digits_def split: option.splits if_splits)
    then show False
      using assms(2) by simp
  qed
  then have v: "signed_digits False s = Some v" "int_range v"
    using assms(1) by (auto simp: from_chars_all_def from_chars_in_def split: option.splits if_splits)
  note d = digits_of_signed [OF v(1)]
  obtain c cs where c: "s = c # cs" "is_digit c"
    using d(1,2) by (cases s) auto
  then have "take 1 s \<noteq> ''+''" "dropWhile is_c_space s = s"
    by (auto simp: is_digit_not_c_space)
  moreover have tw: "takeWhile is_digit s = s"
    by (rule takeWhile_all) (use d(2) in \<open>simp add: list_all_iff\<close>)
  ultimately show ?thesis
    using minus v by (simp add: stoi_def tw)
qed

lemma from_chars_in_str_of_int:
  assumes "in_range v"
  shows "from_chars_in in_range (str_of_int v) = Some v"
proof (cases "v < 0")
  case True
  then have "str_of_int v = CHR ''-'' # str_of_nat (nat (- v))"
    by (simp add: str_of_int_def)
  then show ?thesis
    using assms True by (simp add: from_chars_in_def signed_digits_def)
next
  case False
  then have s: "str_of_int v = str_of_nat (nat v)"
    by (simp add: str_of_int_def)
  have "CHR ''-'' \<notin> set (str_of_nat (nat v))"
    by (simp add: str_of_nat_free)
  then have "take 1 (str_of_nat (nat v)) \<noteq> ''-''"
    by (metis in_set_takeD list.set_intros(1))
  then show ?thesis
    using assms False by (simp add: from_chars_in_def s signed_digits_def)
qed

lemma from_chars_port:
  assumes "1 \<le> port" and "port \<le> highest_port"
  shows "from_chars_all (str_of_int port) = Some port"
  using assms unfolding from_chars_all_def
  by (intro from_chars_in_str_of_int) (simp add: int_range_def highest_port_def)

text \<open>With a single colon the two ways of cutting an address agree.\<close>

lemma rsplit_single:
  assumes "CHR '':'' \<notin> set h" "CHR '':'' \<notin> set p"
  shows "rsplit_colon (h @ CHR '':'' # p) = Some (h, p)"
proof -
  have "takeWhile (\<lambda>c. c \<noteq> CHR '':'') (rev p @ CHR '':'' # rev h) = rev p"
    "dropWhile (\<lambda>c. c \<noteq> CHR '':'') (rev p @ CHR '':'' # rev h) = CHR '':'' # rev h"
    using span_append [of "rev p" "\<lambda>c. c \<noteq> CHR '':''" "CHR '':'' # rev h"] assms(2) by auto
  then show ?thesis
    by (simp add: rsplit_colon_def)
qed

lemma one_colon:
  assumes "count_list addr CHR '':'' = 1"
  obtains h p where "addr = h @ CHR '':'' # p" "CHR '':'' \<notin> set h" "CHR '':'' \<notin> set p"
proof -
  have "CHR '':'' \<in> set addr"
    using assms by (metis count_notin zero_neq_one)
  then obtain h p where "addr = h @ CHR '':'' # p" "CHR '':'' \<notin> set h"
    by (meson split_list_first)
  moreover from this have "CHR '':'' \<notin> set p"
    using assms by (simp add: count_list_0_iff)
  ultimately show ?thesis
    using that by blast
qed

lemmas listen_defs = check_listen_address_def host_of_def port_of_def rsplit_colon_def anywhere_def
  from_chars_all_def from_chars_in_def signed_digits_def int_range_def highest_port_def digit_val_def is_digit_def

text \<open>A name with a letter other than those of the wildcard is accepted with any port in range.\<close>

lemma check_named_host:
  assumes "CHR '':'' \<notin> set host" "1 \<le> port" "port \<le> highest_port"
    and "hd host \<notin> {CHR ''['', CHR '']'', CHR ''0'', CHR ''.'', CHR ''*''}" "host \<noteq> []" "last host \<noteq> CHR '']''"
  shows "check_listen_address (host @ '':'' @ str_of_int port) = Inr ()"
proof -
  have cut: "rsplit_colon (host @ CHR '':'' # str_of_int port) = Some (host, str_of_int port)"
    using assms(1) by (intro rsplit_single) (simp_all add: str_of_int_free)
  then have h: "host_of (host @ CHR '':'' # str_of_int port) = host"
    using assms(4-6) by (cases host) (auto simp: host_of_def)
  have "\<not> anywhere host"
    using assms(1,4,5) by (cases host) (auto simp: anywhere_def)
  then show ?thesis
    using h cut assms(2,3) by (simp add: check_listen_address_def port_of_def from_chars_port)
qed

text \<open>
  C33. A port that the check lets through is the port the daemon uses: for an address with one colon that
  \<open>check_listen_address\<close> accepts, \<open>parse_host_port\<close> does not throw, names a host, and gives the number
  after the colon; narrowing it to an \<open>unsigned short\<close> loses nothing, and neither does adding
  libtorrent's 2000, so the two listeners of a node never share a port.
\<close>

theorem accepted_port_survives:
  assumes "check_listen_address addr = Inr ()" and "count_list addr CHR '':'' = 1"
  shows "\<exists>host port. parse_host_port addr = Inr (host, port) \<and> host \<noteq> [] \<and>
    addr = host @ '':'' @ the (port_of addr) \<and> from_chars_all (the (port_of addr)) = Some port \<and>
    uint (local_port port) = port \<and> uint (libtorrent_port (local_port port)) = port + 2000 \<and>
    libtorrent_port (local_port port) \<noteq> local_port port"
proof -
  obtain h p where a: "addr = h @ CHR '':'' # p" "CHR '':'' \<notin> set h" "CHR '':'' \<notin> set p"
    using assms(2) by (rule one_colon)
  have cut: "rsplit_colon addr = Some (h, p)"
    using a rsplit_single by simp
  obtain port where port: "from_chars_all p = Some port" "1 \<le> port" "port \<le> 63535" "\<not> anywhere (host_of addr)"
    using assms(1) cut
    by (auto simp: check_listen_address_def port_of_def highest_port_def split: if_splits option.splits)
  have "h \<noteq> []"
    using port(4) cut by (auto simp: host_of_def anywhere_def)
  then have "parse_host_port addr = Inr (h, port)"
    using a stoi_from_chars [OF port(1,2)] by (simp add: parse_host_port_def split_char_append split_char_free)
  moreover have u: "uint (local_port port) = port"
    using port by (simp add: local_port_def uint_word_of_int take_bit_int_eq_self_iff)
  have "uint (local_port port + 2000) = port + 2000"
    using port u by (simp add: uint_word_ariths)
  then have "uint (libtorrent_port (local_port port)) = port + 2000"
    by (simp add: libtorrent_port_def)
  moreover from this u have "libtorrent_port (local_port port) \<noteq> local_port port"
    by auto
  ultimately show ?thesis
    using u a cut port(1) \<open>h \<noteq> []\<close> by (intro exI [of _ h] exI [of _ port]) (simp add: port_of_def)
qed

theorem accepted_port_survives_witness:
  "\<exists>host port. parse_host_port ''sfs2:63535'' = Inr (host, port) \<and> host \<noteq> [] \<and>
    ''sfs2:63535'' = host @ '':'' @ the (port_of ''sfs2:63535'') \<and>
    from_chars_all (the (port_of ''sfs2:63535'')) = Some port \<and>
    uint (local_port port) = port \<and> uint (libtorrent_port (local_port port)) = port + 2000 \<and>
    libtorrent_port (local_port port) \<noteq> local_port port"
  by (rule accepted_port_survives) (simp_all add: listen_defs)

text \<open>
  Two colons are another matter: the check reads the port after the last one, the daemon after the first.
\<close>

lemma two_colons_disagree:
  "check_listen_address ''fe80:1::2:5555'' = Inr () \<and> parse_host_port ''fe80:1::2:5555'' = Inr (''fe80'', 1)"
  by (simp add: listen_defs parse_host_port_def stoi_def is_c_space_def)

end
