(* ===== verification/Discovery.thy ===== *)
theory Discovery
  imports Listen Wire SyncfsCluster MeasurePeak
begin

text \<open>
  The peers file, as the daemon reads it (\<open>src/discovery.cpp\<close>: \<open>parse\<close>) and as the cluster script and the
  bench write it, and the checks \<open>main\<close> makes before it opens a socket (\<open>src/syncfs.cpp\<close>). The theorems
  compose the two sides: what the Python programs hand to a daemon makes it start, on the address its
  peers know it by.
\<close>

section \<open>Reading lines into a buffer\<close>

definition max_line_len :: nat where
  "max_line_len = length ''tcp://255.255.255.255:65535'' + 1"

text \<open>
  \<open>istream::getline\<close> into a buffer with room for \<open>n\<close> characters: it ends at the end of the file, at a
  newline, which it takes, or when the buffer is full, tested in this order.
\<close>

datatype line_end = AtEof | AtNewline | BufferFull

fun getline :: "nat \<Rightarrow> string \<Rightarrow> string \<times> string \<times> line_end" where
  "getline n [] = ([], [], AtEof)"
| "getline n (c # cs) =
     (if c = newline then ([], cs, AtNewline)
      else case n of 0 \<Rightarrow> ([], c # cs, BufferFull)
           | Suc m \<Rightarrow> (case getline m cs of (l, rest, e) \<Rightarrow> (c # l, rest, e)))"

lemma getline_shorter: "getline n s = (l, rest, AtNewline) \<Longrightarrow> length rest < length s"
  by (induction n s arbitrary: l rule: getline.induct) (fastforce split: if_splits nat.splits prod.splits)+

definition too_long :: "string \<Rightarrow> string" where
  "too_long name = ''Line longer than '' @ str_of_nat max_line_len @ '' characters in peers file '' @ quoted name"

function parse_lines :: "string \<Rightarrow> string \<Rightarrow> string + string list" where
  "parse_lines name text =
     (case getline (max_line_len - 1) text of (l, rest, e) \<Rightarrow>
        let address = takeWhile (\<lambda>c. c \<noteq> nul) l;
            found = (if address = [] then [] else [address])
        in case e of
             BufferFull \<Rightarrow> Inl (too_long name)
           | AtEof \<Rightarrow> Inr found
           | AtNewline \<Rightarrow> (case parse_lines name rest of Inl err \<Rightarrow> Inl err | Inr others \<Rightarrow> Inr (found @ others)))"
  by pat_completeness auto
termination
  by (relation "measure (\<lambda>(name, text). length text)") (auto dest: getline_shorter [OF sym])

declare parse_lines.simps [simp del]

text \<open>The file's contents are given, unless it cannot be opened.\<close>

definition parse :: "string \<Rightarrow> string option \<Rightarrow> string + string list" where
  "parse name content =
     (case content of None \<Rightarrow> Inl (''Cannot read peers file '' @ quoted name)
      | Some text \<Rightarrow> parse_lines name text)"

section \<open>Starting the daemon\<close>

datatype start_error = Refused string | Threw cpp_exn

definition my_address :: "string \<Rightarrow> string" where
  "my_address listen = ''tcp://'' @ listen"

text \<open>The peers it subscribes to, what it subscribes to, and the host and port it goes on with.\<close>

definition daemon_start ::
  "string \<Rightarrow> string option \<Rightarrow> string \<Rightarrow> start_error + (string list \<times> string list \<times> string \<times> 16 word)" where
  "daemon_start name content listen =
     (case parse name content of
        Inl e \<Rightarrow> Inl (Refused e)
      | Inr peers \<Rightarrow>
          if peers = [] then Inl (Refused (''No peers in '' @ quoted name))
          else case check_listen_address listen of
            Inl e \<Rightarrow> Inl (Refused (''Unusable listen address: '' @ e))
          | Inr _ \<Rightarrow>
              (case parse_host_port listen of
                 Inl e \<Rightarrow> Inl (Threw e)
               | Inr (host, port) \<Rightarrow>
                   Inr (peers @ [my_address listen], subscriptions (my_address listen), host, local_port port)))"

section \<open>What a peers file means\<close>

definition line_ok :: "string \<Rightarrow> bool" where
  "line_ok l \<longleftrightarrow> newline \<notin> set l \<and> nul \<notin> set l"

lemma getline_line:
  assumes "newline \<notin> set l"
  shows "length l \<le> n \<Longrightarrow> getline n (l @ newline # rest) = (l, rest, AtNewline)"
    and "length l \<le> n \<Longrightarrow> getline n l = (l, [], AtEof)"
    and "n < length l \<Longrightarrow> \<exists>x y. getline n (l @ rest) = (x, y, BufferFull)"
  using assms by (induction l arbitrary: n) (fastforce split: nat.splits prod.splits)+

lemma parse_step:
  assumes "getline (max_line_len - 1) text = (l, rest, e)" and "nul \<notin> set l"
  shows "parse_lines name text =
    (case e of
       BufferFull \<Rightarrow> Inl (too_long name)
     | AtEof \<Rightarrow> Inr (if l = [] then [] else [l])
     | AtNewline \<Rightarrow> (case parse_lines name rest of Inl err \<Rightarrow> Inl err
         | Inr others \<Rightarrow> Inr ((if l = [] then [] else [l]) @ others)))"
proof -
  have "takeWhile (\<lambda>c. c \<noteq> nul) l = l"
    using assms(2) by (auto intro: takeWhile_all)
  then show ?thesis
    by (subst parse_lines.simps) (simp only: assms(1) prod.case Let_def)
qed

lemma parse_full:
  assumes "newline \<notin> set l" "max_line_len \<le> length l"
  shows "parse_lines name (l @ rest) = Inl (too_long name)"
proof -
  have "max_line_len - 1 < length l"
    using assms(2) by (simp add: max_line_len_def)
  then obtain x y where "getline (max_line_len - 1) (l @ rest) = (x, y, BufferFull)"
    using getline_line(3) [OF assms(1)] by blast
  then show ?thesis
    by (subst parse_lines.simps) (simp add: Let_def)
qed

text \<open>Lines without a newline or a NUL: one that is too long is an error, the empty ones are skipped.\<close>

lemma parse_lines_join:
  assumes "list_all line_ok (l # ls)"
  shows "parse_lines name (str_join [newline] (l # ls)) =
    (if list_ex (\<lambda>l. max_line_len \<le> length l) (l # ls) then Inl (too_long name) else Inr (filter ((\<noteq>) []) (l # ls)))"
  using assms
proof (induction ls arbitrary: l)
  case Nil
  then have l: "newline \<notin> set l" "nul \<notin> set l"
    by (auto simp: line_ok_def)
  show ?case
  proof (cases "max_line_len \<le> length l")
    case True
    then show ?thesis
      using parse_full [OF l(1) True, of name "[]"] by simp
  next
    case False
    then have "length l \<le> max_line_len - 1"
      by simp
    from parse_step [OF getline_line(2) [OF l(1) this] l(2)] False show ?thesis
      by simp
  qed
next
  case (Cons m ls)
  then have "line_ok l" and ls: "list_all line_ok (m # ls)"
    by simp_all
  then have l: "newline \<notin> set l" "nul \<notin> set l"
    by (simp_all add: line_ok_def)
  let ?rest = "str_join [newline] (m # ls)"
  have join: "str_join [newline] (l # m # ls) = l @ newline # ?rest"
    by simp
  show ?case
  proof (cases "max_line_len \<le> length l")
    case True
    then show ?thesis
      using parse_full [OF l(1) True] unfolding join by simp
  next
    case False
    then have "length l \<le> max_line_len - 1"
      by simp
    from parse_step [OF getline_line(1) [OF l(1) this] l(2), of name ?rest] False show ?thesis
      unfolding join Cons.IH [OF ls] by simp
  qed
qed

section \<open>What the scripts write is what the daemon reads\<close>

definition mesh_listen :: "int \<Rightarrow> string" where
  "mesh_listen i = syncfs_node_name i @ '':'' @ str_of_int zmq_port"

lemma str_of_int_length: "0 \<le> i \<Longrightarrow> i < 10 ^ k \<Longrightarrow> 0 < k \<Longrightarrow> length (str_of_int i) \<le> k"
  by (simp add: str_of_int_def length_str_of_nat_bound nat_less_iff)

lemma plain_digits:
  "newline \<notin> set (str_of_int i)" "CHR 0x00 \<notin> set (str_of_int i)" "CHR '':'' \<notin> set (str_of_int i)"
  by (simp_all add: str_of_int_free newline_def)

lemma last_str_of_int: "last (str_of_int i) \<noteq> CHR '']''"
proof -
  have "CHR '']'' \<notin> set (str_of_int i)"
    by (rule str_of_int_free) (simp_all add: is_digit_def digit_val_def)
  then show ?thesis
    by (metis last_in_set str_of_int_not_Nil)
qed

lemma zmq_port_text: "str_of_int zmq_port = ''5555''"
  by (simp add: zmq_port_def str_of_int_def str_of_nat.simps digit_char_def)

lemma peers_text_lines:
  "peers_text ids i = str_join [newline] (map (\<lambda>j. my_address (mesh_listen j)) (filter (\<lambda>j. j \<noteq> i) ids) @ [[]])"
proof -
  have "str_join [newline] (map f xs @ [[]]) = concat (map (\<lambda>x. f x @ [newline]) xs)" for f :: "int \<Rightarrow> string" and xs
    by (induction xs) (simp_all add: str_join_Cons)
  then show ?thesis
    by (simp add: peers_text_def my_address_def mesh_listen_def newline_def)
qed

lemma parse_join:
  assumes "xs \<noteq> []" and "\<And>x. x \<in> set xs \<Longrightarrow> line_ok x \<and> length x < max_line_len"
  shows "parse name (Some (str_join [newline] xs)) = Inr (filter ((\<noteq>) []) xs)"
proof -
  obtain l ls where xs: "xs = l # ls"
    using assms(1) by (cases xs) auto
  have "list_all line_ok (l # ls)" "\<not> list_ex (\<lambda>l. max_line_len \<le> length l) (l # ls)"
    using assms(2) unfolding xs by (auto simp: list_all_iff list_ex_iff not_le)
  then show ?thesis
    using parse_lines_join by (simp only: parse_def option.case xs if_False)
qed

lemma start_accepted:
  assumes "parse name content = Inr peers" and "peers \<noteq> []"
    and "check_listen_address (host @ '':'' @ str_of_int port) = Inr ()"
    and "host \<noteq> []" "CHR '':'' \<notin> set host" "1 \<le> port" "port \<le> highest_port"
  shows "daemon_start name content (host @ '':'' @ str_of_int port) =
    Inr (peers @ [my_address (host @ '':'' @ str_of_int port)],
         subscriptions (my_address (host @ '':'' @ str_of_int port)), host, local_port port)"
proof -
  have "stoi (str_of_int port) = Inr port"
    using assms(6,7) by (intro stoi_from_chars) (simp_all add: from_chars_port)
  then have "parse_host_port (host @ '':'' @ str_of_int port) = Inr (host, port)"
    using assms(4,5) by (simp add: parse_host_port_def split_char_append split_char_free plain_digits)
  then show ?thesis
    using assms(1-3) by (simp add: daemon_start_def)
qed

lemma empty_line_ok: "line_ok []" "length ([] :: string) < max_line_len"
  by (simp_all add: line_ok_def max_line_len_def)

lemma mesh_node_starts:
  assumes "2 \<le> n" "n < 10 ^ 13" "i \<in> set (syncfs_node_ids n)"
  shows "daemon_start name (Some (peers_text (syncfs_node_ids n) i)) (mesh_listen i) =
    Inr (map (\<lambda>j. my_address (mesh_listen j)) (filter (\<lambda>j. j \<noteq> i) (syncfs_node_ids n)) @ [my_address (mesh_listen i)],
         subscriptions (my_address (mesh_listen i)), syncfs_node_name i, local_port zmq_port)"
proof -
  let ?others = "filter (\<lambda>j. j \<noteq> i) (syncfs_node_ids n)"
  let ?ls = "map (\<lambda>j. my_address (mesh_listen j)) ?others"
  have line: "line_ok (my_address (mesh_listen j))" "length (my_address (mesh_listen j)) < max_line_len"
    if "j \<in> set (syncfs_node_ids n)" for j
  proof -
    have "length (str_of_int j) \<le> 13"
      using that assms(2) by (intro str_of_int_length) (auto simp: set_syncfs_node_ids)
    then show "length (my_address (mesh_listen j)) < max_line_len"
      by (simp add: my_address_def mesh_listen_def syncfs_node_name_def zmq_port_text max_line_len_def)
    show "line_ok (my_address (mesh_listen j))"
      using plain_digits by (simp add: line_ok_def my_address_def mesh_listen_def syncfs_node_name_def newline_def)
  qed
  have "parse name (Some (peers_text (syncfs_node_ids n) i)) = Inr (filter ((\<noteq>) []) (?ls @ [[]]))"
    unfolding peers_text_lines by (rule parse_join) (use line empty_line_ok in auto)
  moreover have "filter ((\<noteq>) []) (?ls @ [[]]) = ?ls"
    by (simp add: filter_id_conv my_address_def)
  moreover have "?ls \<noteq> []"
  proof -
    have "(if i = 1 then 2 else 1) \<in> set (syncfs_node_ids n)" "(if i = 1 then 2 else 1) \<noteq> i"
      using assms(1) by (auto simp: set_syncfs_node_ids)
    then show ?thesis
      by (auto simp: filter_empty_conv)
  qed
  moreover have "check_listen_address (mesh_listen i) = Inr ()"
    unfolding mesh_listen_def
    using plain_digits by (intro check_named_host) (auto simp: syncfs_node_name_def zmq_port_def highest_port_def last_str_of_int)
  ultimately show ?thesis
    unfolding mesh_listen_def
    using plain_digits by (intro start_accepted) (simp_all add: syncfs_node_name_def zmq_port_def highest_port_def)
qed

lemma bench_addrs_nth: "i < n \<Longrightarrow> bench_addrs n ! i = ''localhost:'' @ str_of_int (6200 + int i)"
  using str_of_int_of_nat [of "base_port + i"] by (simp add: bench_addrs_def base_port_def)

lemma bench_peers_lines:
  "bench_peers_text i (bench_addrs n) =
    str_join [newline] (map (\<lambda>j. my_address (bench_addrs n ! j)) (filter (\<lambda>j. j \<noteq> i) [0..<n]))"
proof -
  have e: "enumerate 0 (bench_addrs n) = map (\<lambda>j. (j, bench_addrs n ! j)) [0..<n]"
    by (rule nth_equalityI) (simp_all add: nth_enumerate_eq bench_addrs_def)
  have "(\<lambda>(j, a). j \<noteq> i) \<circ> (\<lambda>j. (j, bench_addrs n ! j)) = (\<lambda>j. j \<noteq> i)"
    by (rule ext) simp
  then show ?thesis
    by (simp add: bench_peers_text_def e filter_map comp_def my_address_def)
qed

lemma bench_node_starts:
  assumes "2 \<le> n" "n \<le> 1000" "i < n"
  shows "daemon_start name (Some (bench_peers_text i (bench_addrs n))) (bench_addrs n ! i) =
    Inr (map (\<lambda>j. my_address (bench_addrs n ! j)) (filter (\<lambda>j. j \<noteq> i) [0..<n]) @ [my_address (bench_addrs n ! i)],
         subscriptions (my_address (bench_addrs n ! i)), ''localhost'', local_port (6200 + int i))"
proof -
  let ?ls = "map (\<lambda>j. my_address (bench_addrs n ! j)) (filter (\<lambda>j. j \<noteq> i) [0..<n])"
  have line: "line_ok (my_address (bench_addrs n ! j))" "length (my_address (bench_addrs n ! j)) < max_line_len"
    if "j < n" for j
  proof -
    have "length (str_of_int (6200 + int j)) \<le> 4"
      using that assms(2) by (intro str_of_int_length) auto
    then show "length (my_address (bench_addrs n ! j)) < max_line_len"
      using that by (simp add: my_address_def bench_addrs_nth max_line_len_def)
    show "line_ok (my_address (bench_addrs n ! j))"
      using that plain_digits by (simp add: line_ok_def my_address_def bench_addrs_nth newline_def)
  qed
  have "(if i = 0 then 1 else 0) \<in> set [0..<n]" "(if i = 0 then 1 else 0) \<noteq> i"
    using assms(1) by auto
  then have ne: "?ls \<noteq> []"
    by (auto simp: filter_empty_conv simp del: set_upt)
  have "parse name (Some (bench_peers_text i (bench_addrs n))) = Inr (filter ((\<noteq>) []) ?ls)"
    unfolding bench_peers_lines by (rule parse_join [OF ne]) (use line in auto)
  moreover have "filter ((\<noteq>) []) ?ls = ?ls"
    by (simp add: filter_id_conv my_address_def)
  moreover have "check_listen_address (''localhost'' @ '':'' @ str_of_int (6200 + int i)) = Inr ()"
    using assms by (intro check_named_host) (auto simp: highest_port_def)
  ultimately show ?thesis
    using assms start_accepted [of name "Some (bench_peers_text i (bench_addrs n))" ?ls "''localhost''" "6200 + int i"] ne
    by (simp add: bench_addrs_nth highest_port_def)
qed

lemma mesh_endpoints_differ: "my_address (mesh_listen j) = my_address (mesh_listen k) \<longleftrightarrow> j = k"
  by (simp add: my_address_def mesh_listen_def syncfs_node_name_def)

lemma mesh_endpoint_plain: "nul \<notin> set (my_address (mesh_listen j))"
  using plain_digits by (simp add: my_address_def mesh_listen_def syncfs_node_name_def)

text \<open>
  A peers file is read whole or refused: of a file whose lines hold no NUL, the daemon takes exactly the
  lines that are not empty, in order and each in full, if every line is at most 27 characters long; one line
  of 28 or more, wherever it stands, and the file is an error, never a shorter or a truncated list. A file
  that cannot be opened is an error as well.
\<close>

theorem peers_file_read_or_refused:
  assumes "list_all line_ok (l # ls)"
  shows "parse name (Some (str_join [newline] (l # ls))) =
      (if list_ex (\<lambda>l. 28 \<le> length l) (l # ls) then Inl (too_long name) else Inr (filter ((\<noteq>) []) (l # ls))) \<and>
    parse name None = Inl (''Cannot read peers file '' @ quoted name)"
proof -
  have "max_line_len = 28"
    by (simp add: max_line_len_def)
  then show ?thesis
    using parse_lines_join [OF assms, of name] by (simp only: parse_def option.case simp_thms)
qed

theorem peers_file_read_or_refused_witness:
  "parse ''p'' (Some (str_join [newline] [''tcp://a:1'', [], ''tcp://255.255.255.255:655350''])) =
      (if list_ex (\<lambda>l. 28 \<le> length l) [''tcp://a:1'', [], ''tcp://255.255.255.255:655350''] then Inl (too_long ''p'')
       else Inr (filter ((\<noteq>) []) [''tcp://a:1'', [], ''tcp://255.255.255.255:655350''])) \<and>
    parse ''p'' None = Inl (''Cannot read peers file '' @ quoted ''p'')"
  by (rule peers_file_read_or_refused) (simp add: line_ok_def newline_def)

text \<open>
  C21. The daemons of a measured mesh start, and know each other by the right names: with the peers file and
  the listen address the cluster script gives a container, and with those the bench gives a process, a
  daemon reads exactly the other nodes' addresses, in order and none cut short, accepts its own, and goes
  on with the port it was given; the address a node's peers have for it is the one it subscribes to
  digests at, so a digest that one of them addresses to it reaches it and no other node.
\<close>

theorem meshes_start_and_meet:
  assumes "2 \<le> n" "n < 10 ^ 13" "i \<in> set (syncfs_node_ids n)" and "2 \<le> m" "m \<le> 1000" "k < m"
  shows "daemon_start name (Some (peers_text (syncfs_node_ids n) i)) (mesh_listen i) =
      Inr (map (\<lambda>j. my_address (mesh_listen j)) (filter (\<lambda>j. j \<noteq> i) (syncfs_node_ids n)) @ [my_address (mesh_listen i)],
           subscriptions (my_address (mesh_listen i)), syncfs_node_name i, local_port zmq_port) \<and>
    last (syncfs_run_args env base debug source i) = mesh_listen i \<and>
    (\<forall>j h d. delivered (subscriptions (my_address (mesh_listen j))) (frames (Digest (my_address (mesh_listen i)) h d)) = (j = i)) \<and>
    daemon_start name (Some (bench_peers_text k (bench_addrs m))) (bench_addrs m ! k) =
      Inr (map (\<lambda>j. my_address (bench_addrs m ! j)) (filter (\<lambda>j. j \<noteq> k) [0..<m]) @ [my_address (bench_addrs m ! k)],
           subscriptions (my_address (bench_addrs m ! k)), ''localhost'', local_port (6200 + int k))"
proof -
  have "delivered (subscriptions (my_address (mesh_listen j))) (frames (Digest (my_address (mesh_listen i)) h d)) = (j = i)" for j h d
    using delivered_frames [of "Digest (my_address (mesh_listen i)) h d" "my_address (mesh_listen j)"]
      mesh_endpoint_plain mesh_endpoints_differ by auto
  moreover have "last (syncfs_run_args env base debug source i) = mesh_listen i"
    by (simp add: syncfs_run_args_def mesh_listen_def)
  ultimately show ?thesis
    using mesh_node_starts [OF assms(1-3)] bench_node_starts [OF assms(4-6)] by blast
qed

theorem meshes_start_and_meet_witness:
  "daemon_start ''/peers'' (Some (peers_text (syncfs_node_ids 3) 2)) (mesh_listen 2) =
      Inr (map (\<lambda>j. my_address (mesh_listen j)) (filter (\<lambda>j. j \<noteq> 2) (syncfs_node_ids 3)) @ [my_address (mesh_listen 2)],
           subscriptions (my_address (mesh_listen 2)), syncfs_node_name 2, local_port zmq_port) \<and>
    last (syncfs_run_args (ready_env 3) [[], ''r''] False None 2) = mesh_listen 2 \<and>
    (\<forall>j h d. delivered (subscriptions (my_address (mesh_listen j))) (frames (Digest (my_address (mesh_listen 2)) h d)) = (j = 2)) \<and>
    daemon_start ''/peers'' (Some (bench_peers_text 1 (bench_addrs 5))) (bench_addrs 5 ! 1) =
      Inr (map (\<lambda>j. my_address (bench_addrs 5 ! j)) (filter (\<lambda>j. j \<noteq> 1) [0..<5]) @ [my_address (bench_addrs 5 ! 1)],
           subscriptions (my_address (bench_addrs 5 ! 1)), ''localhost'', local_port (6200 + int 1))"
  by (rule meshes_start_and_meet) (simp_all add: set_syncfs_node_ids)

end
