(* ===== verification/Ticks.thy ===== *)
theory Ticks
  imports Listen
begin

text \<open>
  The times the daemon orders files and deletions by (\<open>src/utils.cpp\<close>: \<open>to_ticks\<close>, \<open>from_ticks\<close>,
  \<open>to_file_time\<close>). Both clocks count nanoseconds in 64 bits; the file clock starts in 2174. Where the
  sources subtract two times the model takes the value that wraps around, and the lemmas say in which
  range nothing does.
\<close>

section \<open>The two clocks\<close>

datatype sys_time = SysTime "64 word"

datatype file_time = FileTime "64 word"

definition file_epoch :: "64 word" where
  "file_epoch = 6437664000 * 1000000000"

fun to_sys :: "file_time \<Rightarrow> sys_time" where
  "to_sys (FileTime w) = SysTime (w + file_epoch)"

fun to_file_time :: "sys_time \<Rightarrow> file_time" where
  "to_file_time (SysTime w) = FileTime (w - file_epoch)"

fun to_ticks :: "sys_time \<Rightarrow> int" where
  "to_ticks (SysTime w) = sint w"

definition file_ticks :: "file_time \<Rightarrow> int" where
  "file_ticks t = to_ticks (to_sys t)"

definition tick_range :: "int \<Rightarrow> bool" where
  "tick_range v \<longleftrightarrow> - (2 ^ 63) \<le> v \<and> v < 2 ^ 63"

text \<open>A count that is not a decimal integer of 64 bits reads as the epoch.\<close>

definition from_ticks :: "string \<Rightarrow> sys_time" where
  "from_ticks s = (case from_chars_in tick_range s of None \<Rightarrow> SysTime 0 | Some v \<Rightarrow> SysTime (word_of_int v))"

fun ago :: "sys_time \<Rightarrow> sys_time \<Rightarrow> int" where
  "ago (SysTime now) (SysTime t) = sint (now - t)"

section \<open>Order\<close>

fun file_count_of :: "file_time \<Rightarrow> int" where
  "file_count_of (FileTime w) = sint w"

lemma sint_inj: "sint (a :: 64 word) = sint b \<Longrightarrow> a = b"
  by (rule word_uint_eqI) (simp add: uint_sint)

lemma to_ticks_inj [simp]: "to_ticks t = to_ticks u \<longleftrightarrow> t = u"
  by (cases t; cases u) (auto dest: sint_inj)

lemma file_count_inj: "file_count_of t = file_count_of u \<longleftrightarrow> t = u"
  by (cases t; cases u) (auto dest: sint_inj)

instantiation sys_time :: linorder
begin

definition less_eq_sys_time :: "sys_time \<Rightarrow> sys_time \<Rightarrow> bool" where
  "less_eq_sys_time t u \<longleftrightarrow> to_ticks t \<le> to_ticks u"

definition less_sys_time :: "sys_time \<Rightarrow> sys_time \<Rightarrow> bool" where
  "less_sys_time t u \<longleftrightarrow> to_ticks t < to_ticks u"

instance
  by standard (auto simp: less_eq_sys_time_def less_sys_time_def)

end

instantiation file_time :: linorder
begin

definition less_eq_file_time :: "file_time \<Rightarrow> file_time \<Rightarrow> bool" where
  "less_eq_file_time t u \<longleftrightarrow> file_count_of t \<le> file_count_of u"

definition less_file_time :: "file_time \<Rightarrow> file_time \<Rightarrow> bool" where
  "less_file_time t u \<longleftrightarrow> file_count_of t < file_count_of u"

instance
  by standard (auto simp: less_eq_file_time_def less_file_time_def file_count_inj)

end

section \<open>Conversions\<close>

lemma to_sys_to_file_time [simp]: "to_sys (to_file_time t) = t"
  by (cases t) simp

lemma to_file_time_to_sys [simp]: "to_file_time (to_sys f) = f"
  by (cases f) simp

lemma file_ticks_to_file_time [simp]: "file_ticks (to_file_time t) = to_ticks t"
  by (simp add: file_ticks_def)

lemma file_ticks_inj [simp]: "file_ticks t = file_ticks u \<longleftrightarrow> t = u"
  by (metis file_ticks_def to_file_time_to_sys to_ticks_inj)

lemma to_ticks_range: "tick_range (to_ticks t)"
proof (cases t)
  case (SysTime w)
  then show ?thesis
    using sint_ge [of w] sint_lt [of w] by (simp add: tick_range_def)
qed

lemma file_ticks_range: "tick_range (file_ticks t)"
  by (simp add: file_ticks_def to_ticks_range)

text \<open>What is written on the wire is read back, whatever the time.\<close>

lemma from_ticks_text [simp]: "from_ticks (str_of_int (to_ticks t)) = t"
  by (cases t) (use to_ticks_range [of t] in \<open>simp add: from_ticks_def from_chars_in_str_of_int\<close>)

lemma from_file_ticks_text [simp]: "to_file_time (from_ticks (str_of_int (file_ticks f))) = f"
  by (simp add: file_ticks_def)

text \<open>
  Two times less than 146 years from the epoch are as far apart as their counts; beyond that a
  difference may wrap around.
\<close>

definition near_epoch :: "sys_time \<Rightarrow> bool" where
  "near_epoch t \<longleftrightarrow> - (2 ^ 62) \<le> to_ticks t \<and> to_ticks t < 2 ^ 62"

lemma ago_near:
  assumes "near_epoch now" "near_epoch t"
  shows "ago now t = to_ticks now - to_ticks t"
proof (cases now; cases t)
  fix a b assume t: "now = SysTime a" "t = SysTime b"
  have "sint (a - b) = signed_take_bit 63 (sint a - sint b)"
    by (simp add: sint_word_ariths)
  also have "\<dots> = sint a - sint b"
    using assms t by (intro signed_take_bit_int_eq_self) (simp_all add: near_epoch_def)
  finally show ?thesis
    using t by simp
qed

lemma ago_wraps: "ago (SysTime 1) (SysTime (- (2 ^ 63))) < 0"
  by simp

end
