(* ===== verification/CppMap.thy ===== *)
theory CppMap
  imports PyText
begin

text \<open>
  \<open>std::map\<close> as the daemon uses it: a list of entries in the order of their keys, one for each class of
  equivalent keys. What the order compares is a function of the key: the whole text for the endpoints of
  the peers, and for a \<open>std::filesystem::path\<close> whether it has a root directory and then its elements, so
  that \<open>a//b\<close> and \<open>a/b\<close> are one key. An entry keeps the spelling it was first inserted with.
\<close>

section \<open>Operations\<close>

type_synonym ('k, 'v) cppmap = "('k \<times> 'v) list"

fun om_find :: "('k \<Rightarrow> 'o::linorder) \<Rightarrow> 'k \<Rightarrow> ('k, 'v) cppmap \<Rightarrow> 'v option" where
  "om_find key k [] = None"
| "om_find key k ((k', v) # m) = (if key k' = key k then Some v else om_find key k m)"

text \<open>\<open>try_emplace\<close> and \<open>emplace\<close> leave an entry that is there alone; \<open>insert_or_assign\<close> replaces its value.\<close>

fun om_emplace :: "('k \<Rightarrow> 'o::linorder) \<Rightarrow> 'k \<Rightarrow> 'v \<Rightarrow> ('k, 'v) cppmap \<Rightarrow> ('k, 'v) cppmap" where
  "om_emplace key k v [] = [(k, v)]"
| "om_emplace key k v ((k', v') # m) =
     (if key k < key k' then (k, v) # (k', v') # m
      else if key k = key k' then (k', v') # m
      else (k', v') # om_emplace key k v m)"

fun om_assign :: "('k \<Rightarrow> 'o::linorder) \<Rightarrow> 'k \<Rightarrow> 'v \<Rightarrow> ('k, 'v) cppmap \<Rightarrow> ('k, 'v) cppmap" where
  "om_assign key k v [] = [(k, v)]"
| "om_assign key k v ((k', v') # m) =
     (if key k < key k' then (k, v) # (k', v') # m
      else if key k = key k' then (k', v) # m
      else (k', v') # om_assign key k v m)"

definition om_erase :: "('k \<Rightarrow> 'o::linorder) \<Rightarrow> 'k \<Rightarrow> ('k, 'v) cppmap \<Rightarrow> ('k, 'v) cppmap" where
  "om_erase key k m = filter (\<lambda>(k', _). key k' \<noteq> key k) m"

definition om_erase_if :: "('k \<Rightarrow> 'v \<Rightarrow> bool) \<Rightarrow> ('k, 'v) cppmap \<Rightarrow> ('k, 'v) cppmap" where
  "om_erase_if bad m = filter (\<lambda>(k, v). \<not> bad k v) m"

definition om_ok :: "('k \<Rightarrow> 'o::linorder) \<Rightarrow> ('k, 'v) cppmap \<Rightarrow> bool" where
  "om_ok key m \<longleftrightarrow> sorted_wrt (\<lambda>x y. key (fst x) < key (fst y)) m"

section \<open>The contract of a map\<close>

text \<open>
  What a caller relies on: lookups see the last assignment to an equivalent key, and the order of the
  entries is kept.
\<close>

locale cpp_map =
  fixes find :: "'k \<Rightarrow> 'm \<Rightarrow> 'v option"
    and assign :: "'k \<Rightarrow> 'v \<Rightarrow> 'm \<Rightarrow> 'm"
    and emplace :: "'k \<Rightarrow> 'v \<Rightarrow> 'm \<Rightarrow> 'm"
    and erase :: "'k \<Rightarrow> 'm \<Rightarrow> 'm"
    and same :: "'k \<Rightarrow> 'k \<Rightarrow> bool"
    and invar :: "'m \<Rightarrow> bool"
  assumes same_refl: "same k k"
    and find_same: "same k k' \<Longrightarrow> find k m = find k' m"
    and find_assign: "invar m \<Longrightarrow> find k (assign k' v m) = (if same k k' then Some v else find k m)"
    and find_emplace: "invar m \<Longrightarrow>
      find k (emplace k' v m) = (if same k k' \<and> find k' m = None then Some v else find k m)"
    and find_erase: "find k (erase k' m) = (if same k k' then None else find k m)"
    and invar_assign: "invar m \<Longrightarrow> invar (assign k v m)"
    and invar_emplace: "invar m \<Longrightarrow> invar (emplace k v m)"
    and invar_erase: "invar m \<Longrightarrow> invar (erase k m)"
begin

lemma invar_fold_assign: "invar m \<Longrightarrow> invar (fold (\<lambda>(k, v). assign k v) kvs m)"
  by (induction kvs arbitrary: m) (auto simp: invar_assign)

lemma find_fold_assign_other:
  assumes "\<And>k' v. (k', v) \<in> set kvs \<Longrightarrow> \<not> same k k'" and "invar m"
  shows "find k (fold (\<lambda>(k, v). assign k v) kvs m) = find k m"
  using assms
proof (induction kvs arbitrary: m)
  case (Cons e kvs)
  have "find k (fold (\<lambda>(k, v). assign k v) kvs m') = find k m'" if "invar m'" for m'
    by (rule Cons.IH [OF _ that]) (use Cons.prems(1) in auto)
  moreover obtain a b where "e = (a, b)" "\<not> same k a"
    using Cons.prems(1) by (cases e) auto
  ultimately show ?case
    using Cons.prems(2) by (simp add: invar_assign find_assign)
qed simp

lemma invar_fold_erase: "invar m \<Longrightarrow> invar (fold erase ks m)"
  by (induction ks arbitrary: m) (auto simp: invar_erase)

lemma find_fold_erase: "find k (fold erase ks m) = (if \<exists>k' \<in> set ks. same k k' then None else find k m)"
  by (induction ks arbitrary: m) (auto simp: find_erase)

lemma erase_assign: "invar m \<Longrightarrow> find k (erase k (assign k v m)) = None"
  by (simp add: find_erase same_refl)

end

section \<open>The ordered list keeps it\<close>

abbreviation om_keys :: "('k \<Rightarrow> 'o) \<Rightarrow> ('k, 'v) cppmap \<Rightarrow> 'o set" where
  "om_keys key m \<equiv> (\<lambda>e. key (fst e)) ` set m"

lemma om_ok_Nil [simp]: "om_ok key []"
  by (simp add: om_ok_def)

lemma om_ok_Cons [simp]: "om_ok key (e # m) \<longleftrightarrow> (\<forall>x \<in> om_keys key m. key (fst e) < x) \<and> om_ok key m"
  by (auto simp: om_ok_def)

lemma om_ok_append1: "om_ok key (m @ n) \<Longrightarrow> om_ok key m"
  by (simp add: om_ok_def sorted_wrt_append)

lemma om_find_None_iff: "om_find key k m = None \<longleftrightarrow> key k \<notin> om_keys key m"
proof (induction m)
  case (Cons e m)
  then show ?case
    by (cases e; cases "key (fst e) = key k") auto
qed simp

lemma om_find_Some_in: "om_find key k m = Some v \<Longrightarrow> \<exists>k'. (k', v) \<in> set m \<and> key k' = key k"
  by (induction m) (auto split: if_splits)

lemma om_find_in:
  assumes "om_ok key m" and "(k, v) \<in> set m"
  shows "om_find key k m = Some v"
  using assms
proof (induction m)
  case (Cons e m)
  have "key (fst e) < key k" if "(k, v) \<in> set m"
    using Cons.prems(1) that by force
  then show ?case
    using Cons by (cases e) auto
qed simp

lemma om_find_same: "key k = key k' \<Longrightarrow> om_find key k m = om_find key k' m"
  by (induction m) auto

lemma om_keys_assign: "om_keys key (om_assign key k v m) = insert (key k) (om_keys key m)"
  by (induction key k v m rule: om_assign.induct) (auto simp: insert_commute)

lemma om_keys_emplace: "om_keys key (om_emplace key k v m) = insert (key k) (om_keys key m)"
  by (induction key k v m rule: om_emplace.induct) (auto simp: insert_commute)

lemma om_ok_assign: "om_ok key m \<Longrightarrow> om_ok key (om_assign key k v m)"
  by (induction key k v m rule: om_assign.induct)
    (auto simp: om_keys_assign simp del: image_iff ball_simps intro: less_trans)

lemma om_ok_emplace: "om_ok key m \<Longrightarrow> om_ok key (om_emplace key k v m)"
  by (induction key k v m rule: om_emplace.induct)
    (auto simp: om_keys_emplace simp del: image_iff ball_simps intro: less_trans)

lemma om_ok_filter: "om_ok key m \<Longrightarrow> om_ok key (filter P m)"
  by (simp add: om_ok_def sorted_wrt_filter)

lemma om_ok_erase: "om_ok key m \<Longrightarrow> om_ok key (om_erase key k m)"
  by (simp add: om_erase_def om_ok_filter)

lemma om_ok_erase_if: "om_ok key m \<Longrightarrow> om_ok key (om_erase_if bad m)"
  by (simp add: om_erase_if_def om_ok_filter)

lemma om_find_less: "\<forall>x \<in> om_keys key m. key k < x \<Longrightarrow> om_find key k m = None"
  by (auto simp: om_find_None_iff)

lemma om_find_assign:
  "om_ok key m \<Longrightarrow> om_find key k (om_assign key k' v m) = (if key k = key k' then Some v else om_find key k m)"
  by (induction key k' v m rule: om_assign.induct) auto

lemma om_find_emplace:
  "om_ok key m \<Longrightarrow> om_find key k (om_emplace key k' v m) =
     (if key k = key k' \<and> om_find key k' m = None then Some v else om_find key k m)"
proof (induction key k' v m rule: om_emplace.induct)
  case (2 key k' v a b m)
  have "om_find key k' ((a, b) # m) = None" if "key k' < key a"
    using 2(2) that by (auto simp: om_find_None_iff dest: less_trans)
  then show ?case
    using 2 by auto
qed simp

lemma om_find_erase: "om_find key k (om_erase key k' m) = (if key k = key k' then None else om_find key k m)"
  unfolding om_erase_def by (induction m) auto

interpretation endpoints: cpp_map "om_find id" "om_assign id" "om_emplace id" "om_erase id" "(=)" "om_ok id"
  by unfold_locales
    (simp_all add: om_find_assign om_find_emplace om_find_erase om_ok_assign om_ok_emplace om_ok_erase)

text \<open>\<open>std::erase_if\<close> with a predicate that takes equivalent keys alike.\<close>

lemma om_find_erase_if:
  assumes "om_ok key m" and "\<And>k'. key k' = key k \<Longrightarrow> bad k' = bad k"
  shows "om_find key k (om_erase_if bad m) =
    (case om_find key k m of None \<Rightarrow> None | Some v \<Rightarrow> if bad k v then None else Some v)"
  using assms(1)
proof (induction m)
  case (Cons e m)
  obtain k' v where e: "e = (k', v)" by (cases e)
  have IH: "om_find key k (om_erase_if bad m) =
    (case om_find key k m of None \<Rightarrow> None | Some v \<Rightarrow> if bad k v then None else Some v)"
    using Cons by simp
  have step: "om_erase_if bad ((k', v) # m) = (if bad k' v then [] else [(k', v)]) @ om_erase_if bad m"
    by (simp add: om_erase_if_def)
  show ?case
  proof (cases "key k' = key k")
    case True
    then have "om_find key k m = None"
      using Cons.prems e by (auto simp: om_find_None_iff)
    then show ?thesis
      using True assms(2) [OF True] IH by (simp add: step e)
  next
    case False
    then show ?thesis
      using IH by (simp add: step e)
  qed
qed (simp add: om_erase_if_def)

text \<open>
  A lookup depends on the class of its key alone. Stated over classes, the facts about filtered maps need
  no side condition on equivalent keys.
\<close>

definition om_at :: "('k \<Rightarrow> 'o) \<Rightarrow> ('k, 'v) cppmap \<Rightarrow> 'o \<Rightarrow> 'v option" where
  "om_at key m = map_of (map (\<lambda>(k, v). (key k, v)) m)"

lemma om_at_Nil [simp]: "om_at key [] x = None"
  by (simp add: om_at_def)

lemma om_at_Cons: "om_at key (e # m) x = (if key (fst e) = x then Some (snd e) else om_at key m x)"
  by (simp add: om_at_def case_prod_beta)

lemma om_find_at: "om_find key k m = om_at key m (key k)"
  by (induction m) (auto simp: om_at_Cons)

lemma om_at_None_iff: "om_at key m x = None \<longleftrightarrow> x \<notin> om_keys key m"
  by (induction m) (auto simp: om_at_Cons)

lemma om_at_in:
  assumes "om_ok key m" "e \<in> set m"
  shows "om_at key m (key (fst e)) = Some (snd e)"
  using om_find_in [OF assms(1), of "fst e" "snd e"] assms(2) by (simp add: om_find_at)

lemma om_at_filter:
  "om_ok key m \<Longrightarrow> om_at key (filter (\<lambda>e. Q (key (fst e)) (snd e)) m) x =
    (case om_at key m x of None \<Rightarrow> None | Some v \<Rightarrow> if Q x v then Some v else None)"
proof (induction m)
  case (Cons e m)
  have "om_at key (filter (\<lambda>e. Q (key (fst e)) (snd e)) m) x = None" if "key (fst e) = x"
    using that Cons.prems by (auto simp: om_at_None_iff)
  then show ?case
    using Cons by (auto simp: om_at_Cons)
qed simp

lemma om_at_above:
  fixes x :: "'o :: linorder"
  assumes "\<forall>y \<in> om_keys key m. x < y"
  shows "om_at key m x = None"
  unfolding om_at_None_iff
proof
  assume "x \<in> om_keys key m"
  with assms have "x < x" by (rule bspec)
  then show False by simp
qed

lemma om_at_assign:
  "om_ok key m \<Longrightarrow> om_at key (om_assign key k v m) x = (if x = key k then Some v else om_at key m x)"
  by (induction key k v m rule: om_assign.induct) (auto simp: om_at_Cons)

lemma om_at_emplace:
  "om_ok key m \<Longrightarrow> om_at key (om_emplace key k v m) x =
    (if x = key k \<and> om_at key m x = None then Some v else om_at key m x)"
proof (induction key k v m rule: om_emplace.induct)
  case (2 key k v a b m)
  have "om_at key m (key k) = None" if "key k < key a"
    using 2(2) that by (intro om_at_above) (auto dest: less_trans)
  then show ?case
    using 2 by (auto simp: om_at_Cons)
qed (simp add: om_at_Cons)

lemma om_at_erase: "om_at key (om_erase key k m) x = (if x = key k then None else om_at key m x)"
  unfolding om_erase_def by (induction m) (auto simp: om_at_Cons)

lemma om_at_erase_if:
  "om_ok key m \<Longrightarrow> om_at key (om_erase_if (\<lambda>k. bad (key k)) m) x =
    (case om_at key m x of None \<Rightarrow> None | Some v \<Rightarrow> if bad x v then None else Some v)"
  using om_at_filter [of key m "\<lambda>x v. \<not> bad x v" x] by (simp add: om_erase_if_def case_prod_unfold split: option.splits)

text \<open>Appending an entry above all the others is what \<open>insert_or_assign\<close> does with it.\<close>

lemma om_assign_last: "\<forall>x \<in> om_keys key m. x < key k \<Longrightarrow> om_assign key k v m = m @ [(k, v)]"
  by (induction m) (auto dest: less_not_sym)

lemma om_emplace_last: "\<forall>x \<in> om_keys key m. x < key k \<Longrightarrow> om_emplace key k v m = m @ [(k, v)]"
  by (induction m) (auto dest: less_not_sym)

lemma om_rebuild: "om_ok key (m @ n) \<Longrightarrow> fold (\<lambda>(k, v). om_assign key k v) n m = m @ n"
proof (induction n arbitrary: m)
  case (Cons e n)
  obtain k v where e: "e = (k, v)" by (cases e)
  have "\<forall>x \<in> om_keys key m. x < key k"
    using Cons.prems e by (auto simp: om_ok_def sorted_wrt_append)
  then show ?case
    using Cons.IH [of "m @ [e]"] Cons.prems e by (simp add: om_assign_last)
qed simp

text \<open>Two maps that answer every lookup alike have the same keys, and the same values at them.\<close>

definition agree :: "('k \<Rightarrow> 'o::linorder) \<Rightarrow> ('k, 'v) cppmap \<Rightarrow> ('k, 'v) cppmap \<Rightarrow> bool" where
  "agree key m n \<longleftrightarrow> (\<forall>k. om_find key k m = om_find key k n)"

lemma agree_keys_sub: "agree key m n \<Longrightarrow> om_keys key m \<subseteq> om_keys key n"
proof
  fix x assume "agree key m n" "x \<in> om_keys key m"
  then obtain e where "e \<in> set m" "x = key (fst e)" "om_find key (fst e) m = om_find key (fst e) n"
    by (auto simp: agree_def)
  then show "x \<in> om_keys key n"
    by (metis image_eqI om_find_None_iff)
qed

lemma agree_sym: "agree key m n \<Longrightarrow> agree key n m"
  by (simp add: agree_def)

lemma agree_keys: "agree key m n \<Longrightarrow> om_keys key m = om_keys key n"
  by (simp add: agree_keys_sub agree_sym subset_antisym)

lemma om_find_nth: "om_ok key l \<Longrightarrow> i < length l \<Longrightarrow> om_find key (fst (l ! i)) l = Some (snd (l ! i))"
  by (rule om_find_in) simp_all

lemma om_keys_sorted: "om_ok key l \<Longrightarrow> sorted_wrt (<) (map (\<lambda>e. key (fst e)) l)"
  by (simp add: om_ok_def sorted_wrt_map)

lemma agree_entries:
  assumes "agree key m n" "om_ok key m" "om_ok key n"
  shows "map (\<lambda>e. (key (fst e), snd e)) m = map (\<lambda>e. (key (fst e), snd e)) n"
proof -
  have keys: "map (\<lambda>e. key (fst e)) m = map (\<lambda>e. key (fst e)) n"
    using om_keys_sorted [OF assms(2)] om_keys_sorted [OF assms(3)] agree_keys [OF assms(1)]
    by (intro sorted_distinct_set_unique) (simp_all add: strict_sorted_iff)
  then have len: "length m = length n"
    by (rule map_eq_imp_length_eq)
  show ?thesis
  proof (rule nth_equalityI)
    fix i assume "i < length (map (\<lambda>e. (key (fst e), snd e)) m)"
    then have i: "i < length m" "i < length n"
      using len by simp_all
    have k: "key (fst (m ! i)) = key (fst (n ! i))"
      using keys i by (metis nth_map)
    then have "om_find key (fst (m ! i)) m = om_find key (fst (n ! i)) n"
      using assms(1) om_find_same [of key "fst (m ! i)" "fst (n ! i)"] by (simp add: agree_def)
    then show "map (\<lambda>e. (key (fst e), snd e)) m ! i = map (\<lambda>e. (key (fst e), snd e)) n ! i"
      using om_find_nth [OF assms(2) i(1)] om_find_nth [OF assms(3) i(2)] i k by simp
  qed (simp add: len)
qed

lemma om_ext:
  assumes "om_ok key m" "om_ok key n" "\<And>x. om_at key m x = om_at key n x"
    and "inj_on key (fst ` (set m \<union> set n))"
  shows "m = n"
proof -
  have "agree key m n"
    by (simp add: agree_def om_find_at assms(3))
  then have e: "map (\<lambda>e. (key (fst e), snd e)) m = map (\<lambda>e. (key (fst e), snd e)) n"
    using assms(1,2) by (rule agree_entries)
  have "inj_on (\<lambda>e. (key (fst e), snd e)) (set m \<union> set n)"
  proof (rule inj_onI)
    fix a b assume ab: "a \<in> set m \<union> set n" "b \<in> set m \<union> set n" "(key (fst a), snd a) = (key (fst b), snd b)"
    then have "fst a = fst b"
      using inj_onD [OF assms(4), of "fst a" "fst b"] by blast
    then show "a = b"
      using ab(3) by (simp add: prod_eq_iff)
  qed
  then show ?thesis
    using e by (rule map_inj_on [rotated]) 
qed

lemma om_ok_inj_on:
  assumes "om_ok key m"
  shows "inj_on key (fst ` set m)"
proof (rule inj_on_imageI)
  have "distinct (map (\<lambda>e. key (fst e)) m)"
    using om_keys_sorted [OF assms] by (simp add: strict_sorted_iff)
  then show "inj_on (key \<circ> fst) (set m)"
    by (simp add: distinct_map comp_def)
qed

lemma om_sub_ext:
  assumes "om_ok key m" "om_ok key n" "om_ok key l" "set m \<subseteq> set l" "set n \<subseteq> set l"
    and "\<And>x. om_at key m x = om_at key n x"
  shows "m = n"
  using assms(1,2,6)
proof (rule om_ext)
  show "inj_on key (fst ` (set m \<union> set n))"
    by (rule inj_on_subset [OF om_ok_inj_on [OF assms(3)]]) (use assms(4,5) in auto)
qed

end
