(* ===== verification/CppPath.thy ===== *)
theory CppPath
  imports CppMap
begin

text \<open>
  \<open>std::filesystem::path\<close> as far as the daemon compares paths: what the ordered maps compare
  (\<open>path::compare\<close>: no root directory before a root directory, then element by element) and
  \<open>lexically_normal\<close>.
\<close>

section \<open>Elements and order\<close>

definition slash :: char where
  "slash = CHR ''/''"

definition has_root :: "string \<Rightarrow> bool" where
  "has_root p \<longleftrightarrow> take 1 p = [slash]"

definition names_of :: "string \<Rightarrow> string list" where
  "names_of p = filter (\<lambda>n. n \<noteq> []) (split_char slash p)"

definition ends_in_slash :: "string \<Rightarrow> bool" where
  "ends_in_slash p \<longleftrightarrow> p \<noteq> [] \<and> last p = slash"

text \<open>A separator at the end of a relative part adds an empty element.\<close>

definition elements :: "string \<Rightarrow> string list" where
  "elements p = names_of p @ (if names_of p \<noteq> [] \<and> ends_in_slash p then [[]] else [])"

definition path_key :: "string \<Rightarrow> bool \<times> string list" where
  "path_key p = (has_root p, elements p)"

section \<open>Normal form\<close>

text \<open>
  Dots go, a name and the dot-dot after it go, and dot-dots at a root directory go. A path whose last
  element was a dot or a resolved dot-dot ends in a separator; nothing left of a relative path is a dot.
\<close>

fun resolve :: "bool \<Rightarrow> string list \<Rightarrow> string list \<Rightarrow> string list" where
  "resolve rooted done [] = rev done"
| "resolve rooted done (n # ns) =
     (if n = ''.'' then resolve rooted done ns
      else if n = ''..'' then
        (case done of
           [] \<Rightarrow> resolve rooted (if rooted then [] else [n]) ns
         | d # ds \<Rightarrow> if d = ''..'' then resolve rooted (n # done) ns else resolve rooted ds ns)
      else resolve rooted (n # done) ns)"

definition lexically_normal :: "string \<Rightarrow> string" where
  "lexically_normal p =
     (let ns = names_of p;
          rs = resolve (has_root p) [] ns;
          as_dir = (ends_in_slash p \<or> ns \<noteq> [] \<and> (last ns = ''.'' \<or> last ns = ''..''));
          tl_sep = (as_dir \<and> rs \<noteq> [] \<and> last rs \<noteq> ''..'')
      in if p = [] then []
         else if rs = [] \<and> \<not> has_root p then ''.''
         else (if has_root p then [slash] else []) @ str_join [slash] rs @ (if tl_sep then [slash] else []))"

abbreviation path_find :: "string \<Rightarrow> (string, 'v) cppmap \<Rightarrow> 'v option" where
  "path_find \<equiv> om_find path_key"

abbreviation path_ok_map :: "(string, 'v) cppmap \<Rightarrow> bool" where
  "path_ok_map \<equiv> om_ok path_key"

interpretation path_map: cpp_map path_find "om_assign path_key" "om_emplace path_key" "om_erase path_key"
    "\<lambda>p q. path_key p = path_key q" path_ok_map
proof unfold_locales
  show "path_find k m = path_find k' m" if "path_key k = path_key k'" for k k' and m :: "(string, 'v) cppmap"
    using that by (rule om_find_same)
qed (simp_all add: om_find_assign om_find_emplace om_find_erase om_ok_assign om_ok_emplace om_ok_erase)

section \<open>Paths of a listing\<close>

text \<open>
  A listing walks \<open>"."\<close>, so its paths are a dot and at least one name; no name is empty, a dot or a
  dot-dot, or holds a separator or a NUL. Such paths are one key each.
\<close>

definition plain_name :: "string \<Rightarrow> bool" where
  "plain_name n \<longleftrightarrow> n \<noteq> [] \<and> n \<noteq> ''.'' \<and> n \<noteq> ''..'' \<and> slash \<notin> set n \<and> CHR 0x00 \<notin> set n"

definition listed :: "string list \<Rightarrow> string" where
  "listed ns = str_join [slash] (''.'' # ns)"

definition listing_key :: "string \<Rightarrow> bool" where
  "listing_key p \<longleftrightarrow> (\<exists>ns. ns \<noteq> [] \<and> list_all plain_name ns \<and> p = listed ns)"

lemma dot_no_slash [simp]: "slash \<notin> set ''.''"
  by (simp add: slash_def)

lemma plain_no_slash: "list_all plain_name ns \<Longrightarrow> w \<in> set ns \<Longrightarrow> slash \<notin> set w"
  by (simp add: list_all_iff plain_name_def)

lemma split_join_plain: "list_all plain_name ns \<Longrightarrow> ns \<noteq> [] \<Longrightarrow> split_char slash (str_join [slash] ns) = ns"
  by (intro split_char_join) (auto dest: plain_no_slash)

lemma split_listed:
  assumes "list_all plain_name ns"
  shows "split_char slash (listed ns) = ''.'' # ns"
  unfolding listed_def
proof (rule split_char_join)
  show "slash \<notin> set w" if "w \<in> set (''.'' # ns)" for w
    using that plain_no_slash [OF assms] dot_no_slash by (metis set_ConsD)
qed simp

lemma names_of_listed:
  assumes "list_all plain_name ns"
  shows "names_of (listed ns) = ''.'' # ns"
proof -
  have "filter (\<lambda>n. n \<noteq> []) ns = ns"
    using assms by (simp add: filter_id_conv list_all_iff plain_name_def)
  then show ?thesis
    by (simp add: names_of_def split_listed [OF assms])
qed

lemma listed_not_rooted [simp]: "\<not> has_root (listed ns)"
  by (cases ns) (simp_all add: has_root_def listed_def slash_def)

lemma str_join_not_Nil: "ws \<noteq> [] \<Longrightarrow> last ws \<noteq> [] \<Longrightarrow> str_join sep ws \<noteq> []"
  by (induction sep ws rule: str_join.induct) auto

lemma last_join: "ws \<noteq> [] \<Longrightarrow> last ws \<noteq> [] \<Longrightarrow> last (str_join sep ws) = last (last ws)"
  by (induction sep ws rule: str_join.induct) (auto simp: str_join_not_Nil)

lemma listed_no_end_slash:
  assumes "list_all plain_name ns"
  shows "\<not> ends_in_slash (listed ns)"
proof -
  have l: "last (''.'' # ns) \<noteq> []" "slash \<notin> set (last (''.'' # ns))"
    using assms by (cases ns rule: rev_cases; simp add: list_all_iff plain_name_def slash_def)+
  then have "last (listed ns) = last (last (''.'' # ns))"
    unfolding listed_def by (intro last_join) simp_all
  then show ?thesis
    using l last_in_set [OF l(1)] by (metis ends_in_slash_def)
qed

lemma path_key_listed: "list_all plain_name ns \<Longrightarrow> path_key (listed ns) = (False, ''.'' # ns)"
  by (simp add: path_key_def elements_def names_of_listed listed_no_end_slash)

lemma listing_key_inj: "listing_key p \<Longrightarrow> listing_key q \<Longrightarrow> path_key p = path_key q \<longleftrightarrow> p = q"
  by (auto simp: listing_key_def path_key_listed)

lemma listing_key_nul_free: "listing_key p \<Longrightarrow> CHR 0x00 \<notin> set p"
proof -
  have "CHR 0x00 \<notin> set (str_join [slash] ws)" if "\<forall>w \<in> set ws. CHR 0x00 \<notin> set w" for ws
    using that by (induction "[slash]" ws rule: str_join.induct) (auto simp: slash_def)
  then show "listing_key p \<Longrightarrow> CHR 0x00 \<notin> set p"
    by (auto simp: listing_key_def listed_def list_all_iff plain_name_def)
qed

lemma resolve_plain: "list_all plain_name ns \<Longrightarrow> resolve rooted done ns = rev done @ ns"
  by (induction ns arbitrary: "done") (auto simp: plain_name_def)

lemma lexically_normal_listed:
  assumes "ns \<noteq> []" "list_all plain_name ns"
  shows "lexically_normal (listed ns) = str_join [slash] ns"
proof -
  have "last ns \<noteq> ''.''" "last ns \<noteq> ''..''"
    using assms last_in_set [OF assms(1)] by (auto simp: list_all_iff plain_name_def)
  moreover have "listed ns \<noteq> []"
    using assms(1) by (cases ns) (simp_all add: listed_def)
  ultimately show ?thesis
    using assms by (simp add: lexically_normal_def Let_def names_of_listed resolve_plain listed_no_end_slash)
qed

lemma lexically_normal_inj:
  assumes "listing_key p" "listing_key q" "lexically_normal p = lexically_normal q"
  shows "p = q"
proof -
  obtain ns ms where p: "ns \<noteq> []" "list_all plain_name ns" "p = listed ns"
    and q: "ms \<noteq> []" "list_all plain_name ms" "q = listed ms"
    using assms(1,2) by (auto simp: listing_key_def)
  have "str_join [slash] ns = str_join [slash] ms"
    using p q assms(3) by (simp add: lexically_normal_listed)
  then have "ns = ms"
    using p(1,2) q(1,2) by (metis split_join_plain)
  then show ?thesis
    using p(3) q(3) by simp
qed

end
