(* ===== verification/Reconcile.thy ===== *)
theory Reconcile
  imports Framing Ticks CppPath
begin

text \<open>
  The daemon's reconciliation (\<open>src/reconcile.cpp\<close>, \<open>src/include/protocol/reconcile.h\<close>): tombstones, the
  pinned form of a digest and the root hash over it, what a node adopts from a peer's digest and what it
  repairs, the record of the peers' hashes and the draw over it, and the pacing of repairs. SHA-256 is an
  argument. Moments of the steady clock are integers (nanoseconds); moments of files and deletions are
  the 64-bit times of \<open>Ticks\<close>.
\<close>

section \<open>Constants and maps\<close>

definition seconds :: "int \<Rightarrow> int" where
  "seconds n = n * 1000000000"

definition period :: int where "period = seconds 5"

definition quiescence_window :: int where "quiescence_window = seconds 10"

definition state_ceiling :: int where "state_ceiling = seconds 60"

definition tombstone_ttl :: int where "tombstone_ttl = seconds 3600"

definition peer_silence :: int where "peer_silence = state_ceiling * 3"

definition pace :: int where "pace = 20 * 1000000"

type_synonym file_map = "(string, file_time) cppmap"

type_synonym tombstone_map = "(string, sys_time) cppmap"

type_synonym pending_map = "(string, int) cppmap"

record heard =
  hashes :: string
  heard_at :: int

type_synonym state_map = "(string, heard) cppmap"

section \<open>Tombstones\<close>

definition beats :: "sys_time \<Rightarrow> file_time \<Rightarrow> bool" where
  "beats deleted written \<longleftrightarrow> to_ticks deleted > file_ticks written"

definition mark :: "tombstone_map \<Rightarrow> string \<Rightarrow> sys_time \<Rightarrow> tombstone_map" where
  "mark tombstones p deleted =
     (case path_find p tombstones of
        None \<Rightarrow> om_emplace path_key p deleted tombstones
      | Some entry \<Rightarrow> om_assign path_key p (max entry deleted) tombstones)"

definition expire :: "tombstone_map \<Rightarrow> sys_time \<Rightarrow> tombstone_map" where
  "expire tombstones now = om_erase_if (\<lambda>_ t. ago now t > tombstone_ttl) tombstones"

section \<open>The pinned form\<close>

definition held_entry :: "string \<times> file_time \<Rightarrow> string \<times> string" where
  "held_entry e = (fst e, str_of_int (file_ticks (snd e)))"

definition grave_entry :: "string \<times> sys_time \<Rightarrow> string \<times> string" where
  "grave_entry e = (fst e, str_of_int (to_ticks (snd e)))"

definition encode_held :: "file_map \<Rightarrow> string" where
  "encode_held held = frame (map held_entry held)"

definition encode_tombstones :: "tombstone_map \<Rightarrow> string" where
  "encode_tombstones deleted = frame (map grave_entry deleted)"

definition decode_held :: "string \<Rightarrow> file_map" where
  "decode_held form =
     fold (\<lambda>(p, ticks). om_assign path_key p (to_file_time (from_ticks ticks))) (unframe form) []"

definition decode_tombstones :: "string \<Rightarrow> tombstone_map" where
  "decode_tombstones form = fold (\<lambda>(p, ticks). om_assign path_key p (from_ticks ticks)) (unframe form) []"

text \<open>A hasher takes its updates one after the other; an empty form is no update.\<close>

definition hasher256 :: "(string \<Rightarrow> string) \<Rightarrow> string list \<Rightarrow> string" where
  "hasher256 sha updates = sha (concat updates)"

definition digest_of :: "(string \<Rightarrow> string) \<Rightarrow> string \<Rightarrow> string" where
  "digest_of sha form = hasher256 sha (if form = [] then [] else [form])"

definition root_hash :: "(string \<Rightarrow> string) \<Rightarrow> file_map \<Rightarrow> tombstone_map \<Rightarrow> string" where
  "root_hash sha held deleted =
     hasher256 sha [digest_of sha (encode_held held), digest_of sha (encode_tombstones deleted)]"

section \<open>What a digest asks for\<close>

definition worth_adopting :: "file_map \<Rightarrow> tombstone_map \<Rightarrow> sys_time \<Rightarrow> string \<times> sys_time \<Rightarrow> bool" where
  "worth_adopting held mine now e = (case e of (p, t) \<Rightarrow>
     if (case path_find p mine of None \<Rightarrow> False | Some ours \<Rightarrow> ours \<ge> t) then False
     else if ago now t > tombstone_ttl then False
     else case path_find p held of None \<Rightarrow> True | Some written \<Rightarrow> beats t written)"

definition adoptable :: "tombstone_map \<Rightarrow> file_map \<Rightarrow> tombstone_map \<Rightarrow> sys_time \<Rightarrow> tombstone_map" where
  "adoptable theirs held mine now =
     fold (\<lambda>(p, t) adopt. if worth_adopting held mine now (p, t) then om_emplace path_key p t adopt else adopt)
       theirs []"

definition is_gap :: "tombstone_map \<Rightarrow> file_map \<Rightarrow> string \<times> file_time \<Rightarrow> bool" where
  "is_gap tombstones theirs e = (case e of (p, written) \<Rightarrow>
     if (case path_find p tombstones of None \<Rightarrow> False | Some grave \<Rightarrow> beats grave written) then False
     else case path_find p theirs of None \<Rightarrow> True | Some peer \<Rightarrow> file_ticks peer < file_ticks written)"

definition gaps :: "file_map \<Rightarrow> tombstone_map \<Rightarrow> file_map \<Rightarrow> string list" where
  "gaps mine tombstones theirs = map fst (filter (is_gap tombstones theirs) mine)"

section \<open>Whom to ask\<close>

definition forget_silent :: "state_map \<Rightarrow> int \<Rightarrow> state_map" where
  "forget_silent peers now = om_erase_if (\<lambda>_ h. now - heard_at h > peer_silence) peers"

text \<open>The draw is an argument: given the number of candidates, the index of one.\<close>

definition pick :: "(nat \<Rightarrow> nat) \<Rightarrow> state_map \<Rightarrow> string \<Rightarrow> string option" where
  "pick draw peers mine =
     (let candidates = map fst (filter (\<lambda>(_, h). hashes h \<noteq> mine) peers)
      in if candidates = [] then None else Some (candidates ! draw (length candidates)))"

section \<open>Pacing\<close>

definition next_free :: "pending_map \<Rightarrow> int \<Rightarrow> int" where
  "next_free waiting now = fold (\<lambda>(_, t) nxt. max nxt (t + pace)) waiting now"

fun arm_from :: "string list \<Rightarrow> pending_map \<Rightarrow> int \<Rightarrow> pending_map" where
  "arm_from [] waiting nxt = waiting"
| "arm_from (p # ps) waiting nxt =
     (if path_find p waiting = None then arm_from ps (om_emplace path_key p nxt waiting) (nxt + pace)
      else arm_from ps waiting nxt)"

definition arm_missing :: "pending_map \<Rightarrow> string list \<Rightarrow> int \<Rightarrow> pending_map" where
  "arm_missing waiting missing now = arm_from missing waiting (next_free waiting now)"

definition due :: "pending_map \<Rightarrow> int \<Rightarrow> string list \<times> pending_map" where
  "due waiting now =
     (let ready = map fst (filter (\<lambda>(_, t). t \<le> now) waiting)
      in (ready, fold (om_erase path_key) ready waiting))"

section \<open>Facts about tombstones\<close>

lemma mark_ok [simp]: "path_ok_map m \<Longrightarrow> path_ok_map (mark m p t)"
  by (simp add: mark_def om_ok_emplace om_ok_assign split: option.splits)

definition later :: "sys_time option \<Rightarrow> sys_time \<Rightarrow> sys_time" where
  "later x t = (case x of None \<Rightarrow> t | Some u \<Rightarrow> max u t)"

lemma find_mark:
  assumes "path_ok_map m"
  shows "path_find q (mark m p t) = (if path_key q = path_key p then Some (later (path_find p m) t) else path_find q m)"
  using assms om_find_same [of path_key q p m]
  by (auto simp: mark_def later_def om_find_emplace om_find_assign split: option.splits)

lemma expire_ok [simp]: "path_ok_map m \<Longrightarrow> path_ok_map (expire m now)"
  by (simp add: expire_def om_ok_erase_if)

lemma find_expire:
  "path_ok_map m \<Longrightarrow> path_find p (expire m now) =
     (case path_find p m of None \<Rightarrow> None | Some t \<Rightarrow> if ago now t > tombstone_ttl then None else Some t)"
  by (simp add: expire_def om_find_erase_if)

lemma fold_mark_ok [simp]: "path_ok_map m \<Longrightarrow> path_ok_map (fold (\<lambda>(p, t) m. mark m p t) es m)"
  by (induction es arbitrary: m) auto

lemma max_option_comm: "later (Some (later x t)) u = later (Some (later x u)) t"
  by (cases x) (auto simp: later_def max.commute max.left_commute max.assoc)

text \<open>Adopting or hearing deletions in any order ends with the latest moment of each path.\<close>

lemma find_fold_mark:
  assumes "path_ok_map m"
  shows "path_find q (fold (\<lambda>(p, t) m. mark m p t) es m) =
    fold (\<lambda>(_, t) x. Some (later x t)) (filter (\<lambda>(p, _). path_key p = path_key q) es) (path_find q m)"
  using assms
proof (induction es arbitrary: m)
  case (Cons e es)
  obtain p t where e: "e = (p, t)" by (cases e)
  show ?case
    using Cons.IH [of "mark m p t"] Cons.prems e om_find_same [of path_key q p m] by (auto simp: find_mark)
qed simp

section \<open>A digest is read back\<close>

definition digest_keys :: "(string, 'v) cppmap \<Rightarrow> bool" where
  "digest_keys m \<longleftrightarrow> path_ok_map m \<and> list_all (\<lambda>e. nul \<notin> set (fst e)) m"

lemma digest_keys_take: "digest_keys m \<Longrightarrow> digest_keys (take k m)"
  unfolding digest_keys_def
  by (metis append_take_drop_id list_all_append om_ok_append1)

lemma entries_nul_free:
  "digest_keys m \<Longrightarrow> list_all nul_free (map held_entry m)"
  "digest_keys n \<Longrightarrow> list_all nul_free (map grave_entry n)"
  by (auto simp: digest_keys_def list_all_iff nul_free_def held_entry_def grave_entry_def str_of_int_free)

lemma fold_held: "fold (\<lambda>(p, ticks). om_assign path_key p (to_file_time (from_ticks ticks))) (map held_entry m) a =
    fold (\<lambda>(p, w). om_assign path_key p w) m a"
  by (induction m arbitrary: a) (auto simp: held_entry_def)

lemma fold_graves: "fold (\<lambda>(p, ticks). om_assign path_key p (from_ticks ticks)) (map grave_entry m) a =
    fold (\<lambda>(p, w). om_assign path_key p w) m a"
  by (induction m arbitrary: a) (auto simp: grave_entry_def)

lemma decode_held_entries:
  "path_ok_map m \<Longrightarrow> unframe form = map held_entry m \<Longrightarrow> decode_held form = m"
  using om_rebuild [of path_key "[]" m] by (simp add: decode_held_def fold_held)

lemma decode_tombstones_entries:
  "path_ok_map m \<Longrightarrow> unframe form = map grave_entry m \<Longrightarrow> decode_tombstones form = m"
  using om_rebuild [of path_key "[]" m] by (simp add: decode_tombstones_def fold_graves)

interpretation held_form: codec encode_held "\<lambda>s. Some (decode_held s)" digest_keys
  by unfold_locales
    (simp add: encode_held_def decode_held_entries unframe_frame entries_nul_free digest_keys_def)

interpretation grave_form: codec encode_tombstones "\<lambda>s. Some (decode_tombstones s)" digest_keys
  by unfold_locales
    (simp add: encode_tombstones_def decode_tombstones_entries unframe_frame entries_nul_free digest_keys_def)

lemma cut_entries:
  assumes "list_all nul_free (map f m)"
  obtains k where "unframe (take n (frame (map f m))) = map f (take k m)"
  using unframe_cut [OF assms, of n] by (metis prefixE append_eq_conv_conj take_map)

text \<open>
  C16. A digest is read back as what it was made from, held files and tombstones alike, whatever bytes other
  than NUL the names hold; and a digest cut off anywhere is read as the first entries of what it was made
  from, so that no path and no time is invented.
\<close>

theorem digest_read_back:
  assumes "digest_keys held" "digest_keys deleted"
  shows "decode_held (encode_held held) = held \<and> decode_tombstones (encode_tombstones deleted) = deleted \<and>
    (\<exists>k. decode_held (take n (encode_held held)) = take k held) \<and>
    (\<exists>k. decode_tombstones (take n (encode_tombstones deleted)) = take k deleted)"
proof -
  obtain k where "unframe (take n (encode_held held)) = map held_entry (take k held)"
    unfolding encode_held_def using cut_entries entries_nul_free(1) [OF assms(1)] by blast
  then have "decode_held (take n (encode_held held)) = take k held"
    using digest_keys_take [OF assms(1), of k] by (intro decode_held_entries) (simp_all add: digest_keys_def)
  moreover obtain j where "unframe (take n (encode_tombstones deleted)) = map grave_entry (take j deleted)"
    unfolding encode_tombstones_def using cut_entries entries_nul_free(2) [OF assms(2)] by blast
  then have "decode_tombstones (take n (encode_tombstones deleted)) = take j deleted"
    using digest_keys_take [OF assms(2), of j] by (intro decode_tombstones_entries) (simp_all add: digest_keys_def)
  ultimately show ?thesis
    using held_form.dec_enc [OF assms(1)] grave_form.dec_enc [OF assms(2)] by auto
qed

theorem digest_read_back_witness:
  "decode_held (encode_held [(''./a'' @ [CHR 0x0A] @ ''b'', FileTime 7)]) = [(''./a'' @ [CHR 0x0A] @ ''b'', FileTime 7)] \<and>
    (\<exists>k. decode_tombstones (take 3 (encode_tombstones [(''./g'', SysTime 3)])) = take k [(''./g'', SysTime 3)])"
proof -
  have "digest_keys [(''./a'' @ [CHR 0x0A] @ ''b'', FileTime 7)]" "digest_keys [(''./g'', SysTime 3)]"
    by (simp_all add: digest_keys_def)
  from digest_read_back [OF this, of 3] show ?thesis
    by blast
qed

section \<open>The root hash\<close>

lemma encode_inj:
  "digest_keys h \<Longrightarrow> digest_keys h' \<Longrightarrow> encode_held h = encode_held h' \<longleftrightarrow> h = h'"
  "digest_keys d \<Longrightarrow> digest_keys d' \<Longrightarrow> encode_tombstones d = encode_tombstones d' \<longleftrightarrow> d = d'"
  by (simp_all add: held_form.enc_inj grave_form.enc_inj)

lemma root_hash_sha:
  "root_hash sha held deleted = sha (sha (encode_held held) @ sha (encode_tombstones deleted))"
  by (simp add: root_hash_def digest_of_def hasher256_def)

text \<open>
  C17. Two nodes whose root hashes are the same hold the same files written at the same times and remember the
  same deletions, as long as SHA-256 tells apart the six texts that are hashed and answers 32 bytes for
  each.
\<close>

theorem root_hash_tells_apart:
  assumes "digest_keys h" "digest_keys h'" "digest_keys d" "digest_keys d'"
    and "inj_on sha {encode_held h, encode_held h', encode_tombstones d, encode_tombstones d',
      sha (encode_held h) @ sha (encode_tombstones d), sha (encode_held h') @ sha (encode_tombstones d')}"
    and "length (sha (encode_held h)) = 32" "length (sha (encode_held h')) = 32"
  shows "root_hash sha h d = root_hash sha h' d' \<longleftrightarrow> h = h' \<and> d = d'"
proof
  assume "root_hash sha h d = root_hash sha h' d'"
  then have "sha (encode_held h) @ sha (encode_tombstones d) = sha (encode_held h') @ sha (encode_tombstones d')"
    using assms(5) by (simp add: root_hash_sha inj_on_eq_iff)
  then have "sha (encode_held h) = sha (encode_held h')" "sha (encode_tombstones d) = sha (encode_tombstones d')"
    using assms(6,7) by (simp_all add: append_eq_append_conv)
  then have "encode_held h = encode_held h'" "encode_tombstones d = encode_tombstones d'"
    using assms(5) by (simp_all add: inj_on_eq_iff)
  then show "h = h' \<and> d = d'"
    using encode_inj assms(1-4) by blast
qed auto

text \<open>A stand-in for SHA-256 that tells the texts of one case apart.\<close>

definition toy_sha :: "string \<Rightarrow> string" where
  "toy_sha s = replicate 31 CHR ''x'' @
     [if s = [] then CHR ''0'' else if length s < 64 then CHR ''1'' else if s ! 31 = CHR ''1'' then CHR ''2'' else CHR ''3'']"

lemma toy_sha_length: "length (toy_sha s) = 32"
  by (simp add: toy_sha_def)

theorem root_hash_tells_apart_witness:
  "root_hash toy_sha [(''./f'', to_file_time (SysTime 7))] [] \<noteq> root_hash toy_sha [] [(''./f'', SysTime 7)]"
proof -
  let ?h = "[(''./f'', to_file_time (SysTime 7))]" and ?d = "[(''./f'', SysTime 7)]"
  have e: "encode_held [] = []" "encode_tombstones [] = []" "encode_tombstones ?d = encode_held ?h"
    by (simp_all add: encode_held_def encode_tombstones_def held_entry_def grave_entry_def file_ticks_def)
  have f: "encode_held ?h \<noteq> []" "length (encode_held ?h) < 64"
    by (simp_all add: encode_held_def held_entry_def frame1_def file_ticks_def str_of_int_def str_of_nat.simps)
  obtain x where x: "x = encode_held ?h" "x \<noteq> []" "length x < 64"
    using f by blast
  have "inj_on toy_sha {x, [], toy_sha x @ toy_sha [], toy_sha [] @ toy_sha x}"
    using x(2,3) by (simp add: inj_on_def toy_sha_def nth_append)
  then have "inj_on toy_sha {encode_held ?h, encode_held [], encode_tombstones [], encode_tombstones ?d,
      toy_sha (encode_held ?h) @ toy_sha (encode_tombstones []), toy_sha (encode_held []) @ toy_sha (encode_tombstones ?d)}"
    unfolding e x(1) [symmetric] by (simp add: insert_commute)
  then show ?thesis
    using root_hash_tells_apart [of ?h "[]" "[]" ?d toy_sha] by (simp add: digest_keys_def toy_sha_length)
qed

text \<open>
  The forms themselves have no boundary between them: a node that holds a path and one that remembers it
  deleted at that very tick have the same two forms in a row.
\<close>

lemma forms_alone_collide:
  "encode_held [(p, to_file_time t)] @ encode_tombstones [] = encode_held [] @ encode_tombstones [(p, t)]"
  by (simp add: encode_held_def encode_tombstones_def held_entry_def grave_entry_def)

section \<open>Adopting and repairing\<close>

lemma adoptable_filter:
  assumes "path_ok_map theirs"
  shows "adoptable theirs held mine now = filter (worth_adopting held mine now) theirs"
proof -
  have "fold (\<lambda>(p, t) adopt. if worth_adopting held mine now (p, t) then om_emplace path_key p t adopt else adopt) es m =
      m @ filter (worth_adopting held mine now) es"
    if "path_ok_map (m @ es)" for es m :: tombstone_map
    using that
  proof (induction es arbitrary: m)
    case (Cons e es)
    obtain p t where e: "e = (p, t)" by (cases e)
    have "path_ok_map (m @ es)"
      using Cons.prems by (auto simp: om_ok_def sorted_wrt_append)
    moreover have "\<forall>x \<in> om_keys path_key m. x < path_key p"
      using Cons.prems e by (auto simp: om_ok_def sorted_wrt_append)
    ultimately show ?case
      using Cons.IH [of m] Cons.IH [of "m @ [e]"] Cons.prems e by (simp add: om_emplace_last)
  qed simp
  then show ?thesis
    using assms by (simp add: adoptable_def)
qed

lemma worth_adopting_key: "path_key p = path_key q \<Longrightarrow> worth_adopting held mine now (p, t) = worth_adopting held mine now (q, t)"
  using om_find_same [of path_key p q mine] om_find_same [of path_key p q held]
  by (simp add: worth_adopting_def)

lemma is_gap_key: "path_key p = path_key q \<Longrightarrow> is_gap tombstones theirs (p, w) = is_gap tombstones theirs (q, w)"
  using om_find_same [of path_key p q tombstones] om_find_same [of path_key p q theirs]
  by (simp add: is_gap_def)

end
