(* ===== verification/Pacing.thy ===== *)
theory Pacing
  imports Reconcile
begin

text \<open>
  How a node paces its repairs (\<open>src/reconcile.cpp\<close>: \<open>arm\<close>, \<open>due\<close>): what waits keeps its moment, what is
  new comes after it, one pace apart, and no stretch of time makes more of them due than it has paces.
\<close>

section \<open>Moments a pace apart\<close>

definition apart :: "string \<times> int \<Rightarrow> string \<times> int \<Rightarrow> bool" where
  "apart x y \<longleftrightarrow> pace \<le> \<bar>snd x - snd y\<bar>"

definition spaced :: "pending_map \<Rightarrow> bool" where
  "spaced m \<longleftrightarrow> sorted_wrt apart m"

lemma apart_sym: "apart x y \<longleftrightarrow> apart y x"
  by (simp add: apart_def abs_minus_commute)

lemma pace_pos: "0 < pace"
  by (simp add: pace_def)

lemma spaced_filter: "spaced m \<Longrightarrow> spaced (filter P m)"
  by (simp add: spaced_def sorted_wrt_filter)

lemma set_om_emplace: "set (om_emplace key k v m) \<subseteq> insert (k, v) (set m)"
  by (induction key k v m rule: om_emplace.induct) auto

lemma spaced_emplace:
  assumes "spaced m" and "\<And>e. e \<in> set m \<Longrightarrow> apart (k, v) e"
  shows "spaced (om_emplace path_key k v m)"
  using assms
proof (induction m)
  case (Cons e m)
  obtain a b where e: "e = (a, b)" by (cases e)
  have IH: "spaced (om_emplace path_key k v m)"
    using Cons by (simp add: spaced_def)
  have "apart (a, b) x" if "x \<in> set (om_emplace path_key k v m)" for x
    using that set_om_emplace [of path_key k v m] Cons.prems e apart_sym by (auto simp: spaced_def)
  then show ?case
    using IH Cons.prems e by (simp add: spaced_def)
qed (simp add: spaced_def)

lemma next_free_above:
  shows "now \<le> next_free m now" and "e \<in> set m \<Longrightarrow> snd e + pace \<le> next_free m now"
proof -
  have up: "a \<le> fold (\<lambda>(_, t) nxt. max nxt (t + pace)) m a" for a :: int and m :: pending_map
  proof (induction m arbitrary: a)
    case (Cons x m)
    then show ?case
      using order_trans [OF max.cobounded1 Cons.IH [of "max a (snd x + pace)"]] by (cases x) simp
  qed simp
  then show "now \<le> next_free m now"
    by (simp add: next_free_def)
  have "snd e + pace \<le> fold (\<lambda>(_, t) nxt. max nxt (t + pace)) m a" if "e \<in> set m" for a
    using that
  proof (induction m arbitrary: a)
    case (Cons x m)
    then show ?case
      using up [of "max a (snd x + pace)" m] by (cases x) auto
  qed simp
  then show "e \<in> set m \<Longrightarrow> snd e + pace \<le> next_free m now"
    by (simp add: next_free_def)
qed

text \<open>A waiting list that new moments from \<open>nxt\<close> on can be added to.\<close>

definition open_from :: "pending_map \<Rightarrow> int \<Rightarrow> bool" where
  "open_from m nxt \<longleftrightarrow> path_ok_map m \<and> spaced m \<and> (\<forall>e \<in> set m. snd e + pace \<le> nxt)"

lemma open_from_emplace:
  assumes "open_from m nxt"
  shows "open_from (om_emplace path_key p nxt m) (nxt + pace)"
proof -
  have "apart (p, nxt) e" if "e \<in> set m" for e
    using assms that by (auto simp: apart_def open_from_def)
  moreover have "snd e + pace \<le> nxt + pace" if "e \<in> set (om_emplace path_key p nxt m)" for e
  proof (cases "e = (p, nxt)")
    case False
    then have "snd e + pace \<le> nxt"
      using that assms set_om_emplace [of path_key p nxt m] by (auto simp: open_from_def)
    then show ?thesis
      using pace_pos by linarith
  qed simp
  ultimately show ?thesis
    using assms by (simp add: open_from_def om_ok_emplace spaced_emplace)
qed

lemma open_from_arm: "open_from m nxt \<Longrightarrow> path_ok_map (arm_from ps m nxt) \<and> spaced (arm_from ps m nxt)"
  by (induction ps m nxt rule: arm_from.induct) (auto simp: open_from_emplace, auto simp: open_from_def)

lemma find_open_emplace:
  "open_from m nxt \<Longrightarrow> path_find q (om_emplace path_key p nxt m) =
    (if path_key q = path_key p \<and> path_find p m = None then Some nxt else path_find q m)"
  by (simp add: open_from_def om_find_emplace)

lemma arm_from_old:
  "open_from m nxt \<Longrightarrow> path_find q m = Some t \<Longrightarrow> path_find q (arm_from ps m nxt) = Some t"
proof (induction ps m nxt rule: arm_from.induct)
  case (2 p ps m nxt)
  show ?case
  proof (cases "path_find p m")
    case None
    then have "path_key q \<noteq> path_key p"
      using om_find_same [of path_key q p m] 2(4) by auto
    then show ?thesis
      using 2(1) [OF None open_from_emplace [OF 2(3)]] 2(3,4) None by (simp add: find_open_emplace)
  next
    case Some
    then show ?thesis
      using 2(2-4) by simp
  qed
qed simp

lemma arm_from_new:
  "open_from m nxt \<Longrightarrow> q \<in> set ps \<Longrightarrow> path_find q m = None \<Longrightarrow>
    \<exists>t. path_find q (arm_from ps m nxt) = Some t \<and> nxt \<le> t \<and> t < nxt + pace * int (length ps)"
proof (induction ps m nxt rule: arm_from.induct)
  case (2 p ps m nxt)
  let ?m = "om_emplace path_key p nxt m"
  show ?case
  proof (cases "path_find p m")
    case None
    show ?thesis
    proof (cases "path_key q = path_key p")
      case True
      then have "path_find q ?m = Some nxt"
        using 2(3) None by (simp add: find_open_emplace)
      then have "path_find q (arm_from ps ?m (nxt + pace)) = Some nxt"
        using arm_from_old open_from_emplace [OF 2(3)] by blast
      then show ?thesis
        using None by (simp add: pace_def)
    next
      case False
      then have "path_find q ?m = None" "q \<in> set ps"
        using 2(3,4,5) by (auto simp: find_open_emplace)
      then show ?thesis
        using 2(1) [OF None open_from_emplace [OF 2(3)]] None pace_pos by (auto simp: distrib_left)
    qed
  next
    case (Some u)
    then have "q \<in> set ps"
      using 2(4,5) by auto
    then show ?thesis
      using 2(2) Some 2(3,5) pace_pos by (force simp: distrib_left)
  qed
qed simp

lemma arm_from_only:
  "open_from m nxt \<Longrightarrow> path_find q (arm_from ps m nxt) = Some t \<Longrightarrow> path_find q m = Some t \<or> nxt \<le> t"
proof (induction ps m nxt rule: arm_from.induct)
  case (2 p ps m nxt)
  show ?case
  proof (cases "path_find p m")
    case None
    have "path_find q (om_emplace path_key p nxt m) = Some t \<or> nxt + pace \<le> t"
      using 2(1) [OF None open_from_emplace [OF 2(3)]] 2(4) None by simp
    then show ?thesis
      using 2(3) pace_pos by (auto simp: find_open_emplace split: if_splits)
  next
    case Some
    then show ?thesis
      using 2(2-4) by simp
  qed
qed simp

section \<open>What becomes due\<close>

lemma find_fold_erase_filter: "fold (om_erase key) ks m = filter (\<lambda>(k, _). key k \<notin> key ` set ks) m"
proof (induction ks arbitrary: m)
  case (Cons k ks)
  then show ?case
    by (auto simp: om_erase_def intro!: filter_cong)
qed simp

lemma due_rest:
  assumes "path_ok_map m"
  shows "snd (due m now) = filter (\<lambda>(_, t). \<not> t \<le> now) m"
proof -
  have "path_key p \<in> path_key ` fst ` set (filter (\<lambda>(_, t). t \<le> now) m) \<longleftrightarrow> t \<le> now" if "(p, t) \<in> set m" for p t
  proof
    assume "path_key p \<in> path_key ` fst ` set (filter (\<lambda>(_, t). t \<le> now) m)"
    then obtain q u where q: "(q, u) \<in> set m" "u \<le> now" "path_key p = path_key q"
      by auto
    then have "path_find q m = Some u" "path_find p m = Some t"
      using om_find_in [OF assms] that by blast+
    then show "t \<le> now"
      using q om_find_same [of path_key p q m] by simp
  qed (use that in force)
  then show ?thesis
    by (auto simp: due_def find_fold_erase_filter intro!: filter_cong)
qed

lemma steps_of_sorted:
  fixes xs :: "int list"
  shows "sorted_wrt (\<lambda>x y. x + d \<le> y) xs \<Longrightarrow> xs \<noteq> [] \<Longrightarrow> 0 \<le> d \<Longrightarrow> d * (int (length xs) - 1) \<le> last xs - hd xs"
proof (induction xs)
  case (Cons x xs)
  show ?case
  proof (cases xs)
    case (Cons y ys)
    then have "x + d \<le> hd xs" "d * (int (length xs) - 1) \<le> last xs - hd xs"
      using Cons.IH Cons.prems by simp_all
    then show ?thesis
      using Cons by (simp add: algebra_simps)
  qed simp
qed simp

lemma spaced_moments:
  assumes "spaced m"
  shows "\<forall>x \<in> set (map snd m). \<forall>y \<in> set (map snd m). x \<noteq> y \<longrightarrow> pace \<le> \<bar>x - y\<bar>" and "distinct (map snd m)"
proof -
  have "(\<forall>x \<in> set (map snd m). \<forall>y \<in> set (map snd m). x \<noteq> y \<longrightarrow> pace \<le> \<bar>x - y\<bar>) \<and> distinct (map snd m)"
    using assms
  proof (induction m)
    case (Cons e m)
    then have IH: "\<forall>x \<in> set (map snd m). \<forall>y \<in> set (map snd m). x \<noteq> y \<longrightarrow> pace \<le> \<bar>x - y\<bar>" "distinct (map snd m)"
      and e: "\<forall>x \<in> set (map snd m). pace \<le> \<bar>snd e - x\<bar>"
      by (simp_all add: spaced_def apart_def)
    have "snd e \<notin> set (map snd m)"
      using e pace_pos by (metis abs_zero diff_self linorder_not_less)
    then show ?case
      using IH e by (simp add: abs_minus_commute)
  qed simp
  then show "\<forall>x \<in> set (map snd m). \<forall>y \<in> set (map snd m). x \<noteq> y \<longrightarrow> pace \<le> \<bar>x - y\<bar>" "distinct (map snd m)"
    by blast+
qed

lemma spaced_count:
  assumes "spaced m" "\<And>e. e \<in> set m \<Longrightarrow> a \<le> snd e \<and> snd e \<le> b" "m \<noteq> []"
  shows "pace * (int (length m) - 1) \<le> b - a"
proof -
  let ?ts = "map snd m"
  note far = spaced_moments(1) [OF assms(1)] and dist = spaced_moments(2) [OF assms(1)]
  let ?s = "sort ?ts"
  have "sorted_wrt (<) ?s"
    using dist by (simp add: strict_sorted_iff)
  then have "sorted_wrt (\<lambda>x y. x + pace \<le> y) ?s"
    by (rule sorted_wrt_mono_rel [rotated]) (use far in \<open>fastforce simp del: set_map\<close>)
  then have "pace * (int (length ?s) - 1) \<le> last ?s - hd ?s"
    using assms(3) pace_pos by (intro steps_of_sorted) (simp_all add: less_imp_le, metis length_0_conv length_sort length_map)
  moreover have "last ?s \<in> set ?ts" "hd ?s \<in> set ?ts"
    using assms(3) by (metis length_0_conv length_map length_sort last_in_set hd_in_set set_sort)+
  ultimately show ?thesis
    using assms(2) by (smt (verit) imageE length_map length_sort set_map)
qed

lemma arm_opens: "path_ok_map m \<Longrightarrow> spaced m \<Longrightarrow> open_from m (next_free m now)"
  by (simp add: open_from_def next_free_above)

text \<open>
  C18. Taking on gaps keeps the moments of what waits, gives each new path a moment within a pace for each gap
  after what waits, and leaves all moments a pace apart; then in any stretch of time at most one repair
  more than it has paces becomes due, all that are due are handed out, and the others go on waiting.
\<close>

theorem repairs_are_paced:
  assumes "path_ok_map m" "spaced m"
    and "armed = arm_missing m missing now"
    and "\<And>p t. (p, t) \<in> set armed \<Longrightarrow> start \<le> t" and "start \<le> stop"
  shows "path_ok_map armed \<and> spaced armed \<and>
    (\<forall>p t. path_find p m = Some t \<longrightarrow> path_find p armed = Some t) \<and>
    (\<forall>p \<in> set missing. path_find p m = None \<longrightarrow> (\<exists>t. path_find p armed = Some t \<and>
       next_free m now \<le> t \<and> t < next_free m now + pace * int (length missing))) \<and>
    fst (due armed stop) = map fst (filter (\<lambda>(_, t). t \<le> stop) armed) \<and>
    snd (due armed stop) = filter (\<lambda>(_, t). \<not> t \<le> stop) armed \<and>
    pace * (int (length (fst (due armed stop))) - 1) \<le> stop - start"
proof -
  note o = arm_opens [OF assms(1,2), of now]
  have armed: "path_ok_map armed" "spaced armed"
    using open_from_arm [OF o] by (simp_all add: assms(3) arm_missing_def)
  let ?now = "filter (\<lambda>(_, t). t \<le> stop) armed"
  have "pace * (int (length ?now) - 1) \<le> stop - start"
  proof (cases "?now = []")
    case True
    then show ?thesis
      using assms(5) pace_pos by simp
  next
    case False
    then show ?thesis
      using spaced_filter [OF armed(2)] assms(4) by (intro spaced_count) auto
  qed
  then have burst: "pace * (int (length (fst (due armed stop))) - 1) \<le> stop - start"
    by (simp add: due_def Let_def)
  moreover have "path_find p armed = Some t" if "path_find p m = Some t" for p t
    using arm_from_old [OF o that] by (simp add: assms(3) arm_missing_def)
  moreover have "\<exists>t. path_find p armed = Some t \<and> next_free m now \<le> t \<and> t < next_free m now + pace * int (length missing)"
    if "p \<in> set missing" "path_find p m = None" for p
    using arm_from_new [OF o that] by (simp add: assms(3) arm_missing_def)
  ultimately show ?thesis
    using armed due_rest [OF armed(1)] by (simp add: due_def Let_def)
qed

theorem repairs_are_paced_witness:
  "\<exists>armed. armed = arm_missing [(''./a'', 5)] [''./b'', ''./a''] 7 \<and> path_find ''./a'' armed = Some 5 \<and>
    fst (due armed 30000000) = [''./a'', ''./b''] \<and>
    pace * (int (length (fst (due armed 30000000))) - 1) \<le> 30000000 - 5"
proof -
  have armed: "arm_missing [(''./a'', 5)] [''./b'', ''./a''] 7 = [(''./a'', 5), (''./b'', 20000005)]"
    by (simp add: arm_missing_def next_free_def pace_def path_key_def elements_def names_of_def has_root_def ends_in_slash_def slash_def)
  have "path_ok_map [(''./a'', 5 :: int)]" "spaced [(''./a'', 5)]"
    by (simp_all add: spaced_def)
  moreover have "5 \<le> t" if "(p, t) \<in> set (arm_missing [(''./a'', 5)] [''./b'', ''./a''] 7)" for p t
    using that unfolding armed by auto
  ultimately have "pace * (int (length (fst (due (arm_missing [(''./a'', 5)] [''./b'', ''./a''] 7) 30000000))) - 1) \<le> 30000000 - 5"
    using repairs_are_paced [OF _ _ refl, of "[(''./a'', 5)]" "[''./b'', ''./a'']" 7 5 30000000] by force
  moreover have "fst (due (arm_missing [(''./a'', 5)] [''./b'', ''./a''] 7) 30000000) = [''./a'', ''./b'']"
    unfolding armed by (simp add: due_def Let_def)
  ultimately show ?thesis
    by (simp add: armed)
qed

end
