(* ===== verification/FileDiff.thy ===== *)
theory FileDiff
  imports Reconcile
begin

text \<open>
  Comparing two listings (\<open>src/files.cpp\<close>: \<open>diff\<close>, \<open>diff_name\<close>, \<open>intersection_name\<close>, with the two standard
  algorithms they call; \<open>create_diff\<close> of \<open>src/syncfs.cpp\<close>). The algorithms walk two sorted ranges at
  once; the lemmas bring them to lookups.
\<close>

section \<open>The algorithms\<close>

fun set_difference :: "('a \<Rightarrow> 'a \<Rightarrow> bool) \<Rightarrow> 'a list \<Rightarrow> 'a list \<Rightarrow> 'a list" where
  "set_difference lt [] ys = []"
| "set_difference lt (x # xs) [] = x # xs"
| "set_difference lt (x # xs) (y # ys) =
     (if lt x y then x # set_difference lt xs (y # ys)
      else if lt y x then set_difference lt (x # xs) ys
      else set_difference lt xs ys)"

fun set_intersection :: "('a \<Rightarrow> 'a \<Rightarrow> bool) \<Rightarrow> 'a list \<Rightarrow> 'a list \<Rightarrow> 'a list" where
  "set_intersection lt [] ys = []"
| "set_intersection lt (x # xs) [] = []"
| "set_intersection lt (x # xs) (y # ys) =
     (if lt x y then set_intersection lt xs (y # ys)
      else if lt y x then set_intersection lt (x # xs) ys
      else x # set_intersection lt xs ys)"

definition name_less :: "string \<times> file_time \<Rightarrow> string \<times> file_time \<Rightarrow> bool" where
  "name_less l r \<longleftrightarrow> path_key (fst l) < path_key (fst r)"

text \<open>The order of pairs: by path, and by time where neither path is before the other.\<close>

definition entry_less :: "string \<times> file_time \<Rightarrow> string \<times> file_time \<Rightarrow> bool" where
  "entry_less l r \<longleftrightarrow> name_less l r \<or> \<not> name_less r l \<and> snd l < snd r"

definition diff :: "file_map \<Rightarrow> file_map \<Rightarrow> file_map" where
  "diff left right = set_difference entry_less left right"

definition diff_name :: "file_map \<Rightarrow> file_map \<Rightarrow> file_map" where
  "diff_name left right = set_difference name_less left right"

definition intersection_name :: "file_map \<Rightarrow> file_map \<Rightarrow> file_map" where
  "intersection_name left right = set_intersection name_less left right"

record diff_t =
  removed :: file_map
  created :: file_map
  modified :: file_map

definition create_diff :: "file_map \<Rightarrow> file_map \<Rightarrow> diff_t" where
  "create_diff former current =
     (let gone = diff former current;
          come = diff current former;
          changed = intersection_name gone come
      in \<lparr>removed = diff_name gone changed, created = diff_name come changed, modified = changed\<rparr>)"

section \<open>Sorted ranges\<close>

text \<open>What the two algorithms ask of the order they are given.\<close>

locale range_order =
  fixes lt :: "'a \<Rightarrow> 'a \<Rightarrow> bool"
  assumes irrefl: "\<not> lt x x"
    and trans: "lt x y \<Longrightarrow> lt y z \<Longrightarrow> lt x z"
    and tie_left: "\<not> lt x y \<Longrightarrow> \<not> lt y x \<Longrightarrow> lt x z = lt y z"
    and tie_right: "\<not> lt x y \<Longrightarrow> \<not> lt y x \<Longrightarrow> lt z x = lt z y"
begin

definition tied :: "'a \<Rightarrow> 'a \<Rightarrow> bool" where
  "tied x y \<longleftrightarrow> \<not> lt x y \<and> \<not> lt y x"

lemma not_tied: "lt x y \<Longrightarrow> \<not> tied x y" "lt x y \<Longrightarrow> \<not> tied y x"
  by (auto simp: tied_def)

lemma below_all: "lt x y \<Longrightarrow> sorted_wrt lt (y # ys) \<Longrightarrow> z \<in> set (y # ys) \<Longrightarrow> lt x z"
  using trans by auto

lemma tied_below: "tied x y \<Longrightarrow> sorted_wrt lt (x # xs) \<Longrightarrow> z \<in> set xs \<Longrightarrow> lt y z"
  using tie_left by (auto simp: tied_def)

lemma in_tied:
  assumes "sorted_wrt lt (x # xs)" "sorted_wrt lt (y # ys)"
  shows "lt x y \<Longrightarrow> \<not> (\<exists>z \<in> set (y # ys). tied x z)"
    and "lt y x \<Longrightarrow> z \<in> set (x # xs) \<Longrightarrow> (\<exists>w \<in> set (y # ys). tied z w) \<longleftrightarrow> (\<exists>w \<in> set ys. tied z w)"
    and "\<not> lt x y \<Longrightarrow> \<not> lt y x \<Longrightarrow> tied x y"
    and "\<not> lt x y \<Longrightarrow> \<not> lt y x \<Longrightarrow> z \<in> set xs \<Longrightarrow> (\<exists>w \<in> set (y # ys). tied z w) \<longleftrightarrow> (\<exists>w \<in> set ys. tied z w)"
proof -
  show "lt x y \<Longrightarrow> \<not> (\<exists>z \<in> set (y # ys). tied x z)"
    using below_all [OF _ assms(2)] not_tied by blast
  show "lt y x \<Longrightarrow> z \<in> set (x # xs) \<Longrightarrow> (\<exists>w \<in> set (y # ys). tied z w) \<longleftrightarrow> (\<exists>w \<in> set ys. tied z w)"
    using below_all [OF _ assms(1)] not_tied by (metis list.set_intros(2) set_ConsD)
  show t: "\<not> lt x y \<Longrightarrow> \<not> lt y x \<Longrightarrow> tied x y"
    by (simp add: tied_def)
  show "\<not> lt x y \<Longrightarrow> \<not> lt y x \<Longrightarrow> z \<in> set xs \<Longrightarrow> (\<exists>w \<in> set (y # ys). tied z w) \<longleftrightarrow> (\<exists>w \<in> set ys. tied z w)"
    using tied_below [OF t assms(1)] not_tied by (metis list.set_intros(2) set_ConsD)
qed

lemma difference_filter:
  "lt' = lt \<Longrightarrow> sorted_wrt lt xs \<Longrightarrow> sorted_wrt lt ys \<Longrightarrow>
    set_difference lt' xs ys = filter (\<lambda>x. \<not> (\<exists>y \<in> set ys. tied x y)) xs"
proof (induction lt' xs ys rule: set_difference.induct)
  case step: (3 lt' x xs y ys)
  note s = in_tied [OF step(5,6)]
  consider "lt x y" | "\<not> lt x y" "lt y x" | "\<not> lt x y" "\<not> lt y x" by blast
  then show ?case
  proof cases
    case 1
    then show ?thesis
      using step(1) step(4-6) s(1) by simp
  next
    case 2
    have "set_difference lt' (x # xs) (y # ys) = filter (\<lambda>x. \<not> (\<exists>y \<in> set ys. tied x y)) (x # xs)"
      using 2 step(2) step(4-6) by simp
    also have "\<dots> = filter (\<lambda>x. \<not> (\<exists>y \<in> set (y # ys). tied x y)) (x # xs)"
      using s(2) [OF 2(2)] by (intro filter_cong) blast+
    finally show ?thesis .
  next
    case 3
    have "set_difference lt' (x # xs) (y # ys) = filter (\<lambda>x. \<not> (\<exists>y \<in> set ys. tied x y)) xs"
      using 3 step(3) step(4-6) by simp
    also have "\<dots> = filter (\<lambda>x. \<not> (\<exists>y \<in> set (y # ys). tied x y)) xs"
      using s(4) [OF 3] by (intro filter_cong) blast+
    finally show ?thesis
      using s(3) [OF 3] by simp
  qed
qed (simp_all add: filter_id_conv)

lemma intersection_filter:
  "lt' = lt \<Longrightarrow> sorted_wrt lt xs \<Longrightarrow> sorted_wrt lt ys \<Longrightarrow>
    set_intersection lt' xs ys = filter (\<lambda>x. \<exists>y \<in> set ys. tied x y) xs"
proof (induction lt' xs ys rule: set_intersection.induct)
  case step: (3 lt' x xs y ys)
  note s = in_tied [OF step(5,6)]
  consider "lt x y" | "\<not> lt x y" "lt y x" | "\<not> lt x y" "\<not> lt y x" by blast
  then show ?case
  proof cases
    case 1
    then show ?thesis
      using step(1) step(4-6) s(1) by simp
  next
    case 2
    have "set_intersection lt' (x # xs) (y # ys) = filter (\<lambda>x. \<exists>y \<in> set ys. tied x y) (x # xs)"
      using 2 step(2) step(4-6) by simp
    also have "\<dots> = filter (\<lambda>x. \<exists>y \<in> set (y # ys). tied x y) (x # xs)"
      using s(2) [OF 2(2)] by (intro filter_cong) blast+
    finally show ?thesis .
  next
    case 3
    have "set_intersection lt' (x # xs) (y # ys) = x # filter (\<lambda>x. \<exists>y \<in> set ys. tied x y) xs"
      using 3 step(3) step(4-6) by simp
    also have "\<dots> = x # filter (\<lambda>x. \<exists>y \<in> set (y # ys). tied x y) xs"
      using s(4) [OF 3] by (simp only: list.inject, intro conjI filter_cong refl) blast
    finally show ?thesis
      using s(3) [OF 3] by simp
  qed
qed simp_all

end

interpretation by_name: range_order name_less
  by unfold_locales (auto simp: name_less_def)

interpretation by_entry: range_order entry_less
  by unfold_locales (auto simp: entry_less_def name_less_def)

lemma tied_name: "by_name.tied x y \<longleftrightarrow> path_key (fst x) = path_key (fst y)"
  by (auto simp: by_name.tied_def name_less_def)

lemma tied_entry: "by_entry.tied x y \<longleftrightarrow> path_key (fst x) = path_key (fst y) \<and> snd x = snd y"
  by (auto simp: by_entry.tied_def entry_less_def name_less_def)

lemma sorted_name: "path_ok_map m \<Longrightarrow> sorted_wrt name_less m"
  by (simp add: om_ok_def name_less_def [abs_def])

lemma sorted_entry: "path_ok_map m \<Longrightarrow> sorted_wrt entry_less m"
  by (rule sorted_wrt_mono_rel [OF _ sorted_name]) (simp add: entry_less_def)

section \<open>By lookups\<close>

abbreviation path_at :: "(string, 'v) cppmap \<Rightarrow> bool \<times> string list \<Rightarrow> 'v option" where
  "path_at \<equiv> om_at path_key"

lemma tied_name_iff: "(\<exists>y \<in> set m. by_name.tied x y) \<longleftrightarrow> path_at m (path_key (fst x)) \<noteq> None"
  by (auto simp: tied_name om_at_None_iff)

lemma tied_entry_iff:
  assumes "path_ok_map m"
  shows "(\<exists>y \<in> set m. by_entry.tied x y) \<longleftrightarrow> path_at m (path_key (fst x)) = Some (snd x)"
proof
  assume "\<exists>y \<in> set m. by_entry.tied x y"
  then obtain y where "y \<in> set m" "path_key (fst x) = path_key (fst y)" "snd x = snd y"
    by (auto simp: tied_entry)
  then show "path_at m (path_key (fst x)) = Some (snd x)"
    using om_at_in [OF assms] by simp
next
  assume a: "path_at m (path_key (fst x)) = Some (snd x)"
  then obtain y where y: "y \<in> set m" "path_key (fst y) = path_key (fst x)"
    by (metis imageE om_at_None_iff option.distinct(1))
  then have "snd y = snd x"
    using om_at_in [OF assms y(1)] a by simp
  then show "\<exists>y \<in> set m. by_entry.tied x y"
    using y by (intro bexI [of _ y]) (simp_all add: tied_entry)
qed

lemma diff_eq:
  assumes "path_ok_map left" "path_ok_map right"
  shows "diff left right = filter (\<lambda>e. path_at right (path_key (fst e)) \<noteq> Some (snd e)) left"
  unfolding diff_def by_entry.difference_filter [OF refl sorted_entry [OF assms(1)] sorted_entry [OF assms(2)]]
  by (simp add: tied_entry_iff [OF assms(2)])

lemma diff_name_eq:
  assumes "path_ok_map left" "path_ok_map right"
  shows "diff_name left right = filter (\<lambda>e. path_at right (path_key (fst e)) = None) left"
  unfolding diff_name_def by_name.difference_filter [OF refl sorted_name [OF assms(1)] sorted_name [OF assms(2)]]
  by (simp add: tied_name_iff)

lemma intersection_name_eq:
  assumes "path_ok_map left" "path_ok_map right"
  shows "intersection_name left right = filter (\<lambda>e. path_at right (path_key (fst e)) \<noteq> None) left"
  unfolding intersection_name_def by_name.intersection_filter [OF refl sorted_name [OF assms(1)] sorted_name [OF assms(2)]]
  by (simp add: tied_name_iff)

lemma change_of_listings:
  assumes "path_ok_map former" "path_ok_map current"
  shows "removed (create_diff former current) = filter (\<lambda>(p, _). path_find p current = None) former \<and>
    created (create_diff former current) = filter (\<lambda>(p, _). path_find p former = None) current \<and>
    modified (create_diff former current) =
      filter (\<lambda>(p, w). path_find p current \<noteq> None \<and> path_find p current \<noteq> Some w) former"
proof -
  let ?gone = "diff former current" and ?come = "diff current former"
  define changed where "changed = intersection_name ?gone ?come"
  have ok: "path_ok_map ?gone" "path_ok_map ?come"
    using assms by (simp_all add: diff_eq om_ok_filter)
  have gone: "path_at ?gone x = (case path_at former x of None \<Rightarrow> None
      | Some w \<Rightarrow> if path_at current x \<noteq> Some w then Some w else None)" for x
    using om_at_filter [OF assms(1), of "\<lambda>x w. path_at current x \<noteq> Some w" x] by (simp add: diff_eq [OF assms])
  have come: "path_at ?come x = (case path_at current x of None \<Rightarrow> None
      | Some w \<Rightarrow> if path_at former x \<noteq> Some w then Some w else None)" for x
    using om_at_filter [OF assms(2), of "\<lambda>x w. path_at former x \<noteq> Some w" x] by (simp add: diff_eq [OF assms(2,1)])
  have former: "path_at former (path_key (fst e)) = Some (snd e)" if "e \<in> set former" for e
    using that om_at_in [OF assms(1)] by blast
  have current: "path_at current (path_key (fst e)) = Some (snd e)" if "e \<in> set current" for e
    using that om_at_in [OF assms(2)] by blast
  have changed_eq: "changed = filter (\<lambda>e. path_at current (path_key (fst e)) \<noteq> None \<and>
      path_at current (path_key (fst e)) \<noteq> Some (snd e)) former"
    unfolding changed_def intersection_name_eq [OF ok] unfolding diff_eq [OF assms] filter_filter
    by (intro filter_cong refl) (auto simp: come former split: option.splits)
  have chg_at: "path_at changed x = (case path_at former x of None \<Rightarrow> None
      | Some w \<Rightarrow> if path_at current x \<noteq> None \<and> path_at current x \<noteq> Some w then Some w else None)" for x
    using om_at_filter [OF assms(1), of "\<lambda>x w. path_at current x \<noteq> None \<and> path_at current x \<noteq> Some w" x]
    by (simp add: changed_eq)
  have ok3: "path_ok_map changed"
    using assms(1) by (simp add: changed_eq om_ok_filter)
  have "diff_name ?gone changed = filter (\<lambda>e. path_at current (path_key (fst e)) = None) former"
    unfolding diff_name_eq [OF ok(1) ok3] unfolding diff_eq [OF assms] filter_filter
    by (intro filter_cong refl) (auto simp: chg_at former split: option.splits)
  moreover have "diff_name ?come changed = filter (\<lambda>e. path_at former (path_key (fst e)) = None) current"
    unfolding diff_name_eq [OF ok(2) ok3] unfolding diff_eq [OF assms(2,1)] filter_filter
    by (intro filter_cong refl) (auto simp: chg_at current split: option.splits)
  ultimately show ?thesis
    using changed_eq changed_def by (simp add: create_diff_def Let_def om_find_at case_prod_unfold)
qed

text \<open>
  C19. What the daemon reads off two listings is the whole change and nothing else: the paths that are gone with
  the times they had, the paths that are new with the times they have, and the paths whose time is another
  one, with the time from before. The merges of the sorted ranges agree with the lookups.
\<close>

theorem create_diff_is_the_change:
  assumes "path_ok_map former" "path_ok_map current"
  shows "removed (create_diff former current) = filter (\<lambda>(p, _). path_find p current = None) former \<and>
    created (create_diff former current) = filter (\<lambda>(p, _). path_find p former = None) current \<and>
    modified (create_diff former current) =
      filter (\<lambda>(p, w). path_find p current \<noteq> None \<and> path_find p current \<noteq> Some w) former"
  by (rule change_of_listings [OF assms])

theorem create_diff_is_the_change_witness:
  "removed (create_diff [(''./a'', FileTime 1), (''./b'', FileTime 1)] [(''./b'', FileTime 2), (''./c'', FileTime 3)]) =
      filter (\<lambda>(p, _). path_find p [(''./b'', FileTime 2), (''./c'', FileTime 3)] = None) [(''./a'', FileTime 1), (''./b'', FileTime 1)]"
proof -
  have "path_ok_map [(''./a'', FileTime 1), (''./b'', FileTime 1)]" "path_ok_map [(''./b'', FileTime 2), (''./c'', FileTime 3)]"
    by (simp_all add: path_key_def elements_def names_of_def has_root_def ends_in_slash_def slash_def)
  from create_diff_is_the_change [OF this] show ?thesis
    by blast
qed

end
