(* ===== verification/Node.thy ===== *)
theory Node
  imports Pacing FileDiff Wire
begin

text \<open>
  One daemon's state and what it does with a message, a change on disk and a finished transfer
  (\<open>src/protocol.cpp\<close>; the handlers of \<open>src/syncfs.cpp\<close>). The disk is the tree below the sync root: its
  regular files, by the path a listing gives them. The libtorrent session is the list of its torrents, each
  by the normal form of the place its file is written to and its info hash; making the bytes of an
  announcement out of a file and loading them is libtorrent's and an argument. What is logged is left out.
\<close>

section \<open>State\<close>

record disk_file =
  df_time :: file_time
  df_bytes :: string

record lt_torrent =
  tor_at :: string
  tor_content :: string

record applied_t =
  app_origin :: file_time
  app_content :: string

record node =
  disk :: "(string, disk_file) cppmap"
  session :: "lt_torrent list"
  former :: file_map
  tombstones :: tombstone_map
  origins :: file_map
  seen_written :: file_map
  waiting :: pending_map
  applied :: "(string, applied_t) cppmap"
  announcements :: "(string, string) cppmap"
  peers :: state_map
  sent :: "message list"

text \<open>
  \<open>lt_encode\<close> is the announcement made of a path and a file's bytes; \<open>lt_load\<close> reads one back as the path
  the torrent still names and its info hash, or throws.
\<close>

record libtorrent =
  lt_encode :: "string \<Rightarrow> string \<Rightarrow> string"
  lt_load :: "string \<Rightarrow> (string \<times> string) option"

definition on_disk :: "node \<Rightarrow> string \<Rightarrow> disk_file option" where
  "on_disk s p = om_find lexically_normal p (disk s)"

definition last_write_time :: "node \<Rightarrow> string \<Rightarrow> file_time option" where
  "last_write_time s p = map_option df_time (on_disk s p)"

section \<open>Torrents and places\<close>

definition same_place :: "string \<Rightarrow> lt_torrent \<Rightarrow> bool" where
  "same_place p t \<longleftrightarrow> path_key (tor_at t) = path_key (lexically_normal p)"

definition torrents_at :: "node \<Rightarrow> string \<Rightarrow> lt_torrent list" where
  "torrents_at s p = filter (same_place p) (session s)"

definition strip_slashes :: "string \<Rightarrow> string" where
  "strip_slashes d = rev (dropWhile (\<lambda>c. c = slash) (rev d))"

definition save_path_for :: "string \<Rightarrow> string \<Rightarrow> string" where
  "save_path_for announced in_torrent =
     (let whole = lexically_normal announced;
          tl = lexically_normal in_torrent
      in if length whole < length tl \<or> \<not> suffix tl whole then ''.''
         else let dir = strip_slashes (take (length whole - length tl) whole)
              in if dir = [] then ''.'' else dir)"

definition joined_place :: "string \<Rightarrow> string \<Rightarrow> string" where
  "joined_place save_path in_torrent = lexically_normal (save_path @ [slash] @ in_torrent)"

text \<open>The torrents of the path go unless they are this very content; whether one was is the answer.\<close>

definition remove_stale_torrents :: "node \<Rightarrow> string \<Rightarrow> string \<Rightarrow> bool \<times> node" where
  "remove_stale_torrents s announced content =
     (list_ex (\<lambda>t. tor_content t = content) (torrents_at s announced),
      s\<lparr>session := filter (\<lambda>t. \<not> (same_place announced t \<and> tor_content t \<noteq> content)) (session s)\<rparr>)"

text \<open>A session holds an info hash once: adding it again gives the torrent that is there.\<close>

definition add_torrent :: "node \<Rightarrow> string \<Rightarrow> string \<Rightarrow> node" where
  "add_torrent s place content =
     (if list_ex (\<lambda>t. tor_content t = content) (session s) then s
      else s\<lparr>session := session s @ [\<lparr>tor_at = place, tor_content = content\<rparr>]\<rparr>)"

text \<open>
  Whether an announced copy replaces what is at its path. The answer of \<open>std::filesystem::last_write_time\<close> is an
  argument of \<open>wins_at\<close>: it has one for a directory as for a file. The disk of a node is the regular files
  below its root, and \<open>wins\<close> takes its answer; so a create for a path that is a directory here, which the
  code measures against the directory's time, is decided by \<open>wins_at\<close> and not followed by \<open>act_create\<close>.
\<close>

definition wins_at :: "file_time option \<Rightarrow> node \<Rightarrow> string \<Rightarrow> file_time \<Rightarrow> string \<Rightarrow> bool" where
  "wins_at written s announced origin content =
     (case written of
        None \<Rightarrow> True
      | Some here \<Rightarrow>
          if file_ticks origin \<noteq> file_ticks here then file_ticks origin > file_ticks here
          else case path_find announced (applied s) of
            None \<Rightarrow> True
          | Some known \<Rightarrow>
              if file_ticks (app_origin known) \<noteq> file_ticks here then True
              else \<not> app_content known < content)"

definition wins :: "node \<Rightarrow> string \<Rightarrow> file_time \<Rightarrow> string \<Rightarrow> bool" where
  "wins s announced origin content = wins_at (last_write_time s announced) s announced origin content"

section \<open>Acting on a message\<close>

text \<open>
  \<open>std::filesystem::remove\<close> takes a file away, does nothing where there is none, and throws for the root of the
  walk and for a directory that is not empty, by which time the torrents of the path are gone.
\<close>

datatype act_error = Rejected string | LoadThrows | RemoveThrows

definition below :: "string \<Rightarrow> string \<Rightarrow> bool" where
  "below p q \<longleftrightarrow>
     (let ps = names_of (lexically_normal p); qs = names_of (lexically_normal q)
      in p \<noteq> [] \<and> has_root p = has_root q \<and> length ps < length qs \<and> take (length ps) qs = ps)"

definition remove_throws :: "(string, disk_file) cppmap \<Rightarrow> string \<Rightarrow> bool" where
  "remove_throws d p \<longleftrightarrow> lexically_normal p = ''.'' \<or> list_ex (\<lambda>e. below p (fst e)) d"

definition drop_torrents :: "node \<Rightarrow> string \<Rightarrow> node" where
  "drop_torrents s p = s\<lparr>session := filter (\<lambda>t. \<not> same_place p t) (session s)\<rparr>"

definition erased :: "node \<Rightarrow> string \<Rightarrow> node" where
  "erased s p = (drop_torrents s p)\<lparr>disk := om_erase lexically_normal p (disk s)\<rparr>"

definition erase :: "node \<Rightarrow> string \<Rightarrow> act_error option \<times> node" where
  "erase s p = (if remove_throws (disk s) p then (Some RemoveThrows, drop_torrents s p) else (None, erased s p))"

definition removed_path :: "string list \<Rightarrow> string option" where
  "removed_path v = (if length v \<noteq> 3 \<or> verb_of (v ! 0) \<noteq> ''remove'' then None else Some (v ! 1))"

record outcome =
  oc_verb :: string
  oc_created :: "string option"
  oc_origin :: file_time
  oc_content :: string
  oc_held :: bool

definition plain_outcome :: "string \<Rightarrow> outcome" where
  "plain_outcome verb = \<lparr>oc_verb = verb, oc_created = None, oc_origin = FileTime 0, oc_content = [], oc_held = False\<rparr>"

definition act_create :: "libtorrent \<Rightarrow> string \<Rightarrow> string \<Rightarrow> string \<Rightarrow> node \<Rightarrow> (act_error + outcome) \<times> node" where
  "act_create lib torrent ticks announced s =
     (let origin = to_file_time (from_ticks ticks)
      in if (case path_find announced (tombstones s) of None \<Rightarrow> False | Some grave \<Rightarrow> beats grave origin)
         then (Inr (plain_outcome ''create''), s)
         else let s1 = s\<lparr>tombstones := om_erase path_key announced (tombstones s)\<rparr>
              in case lt_load lib torrent of
                   None \<Rightarrow> (Inl LoadThrows, s1)
                 | Some (in_torrent, content) \<Rightarrow>
                     if \<not> wins s1 announced origin content then (Inr (plain_outcome ''create''), s1)
                     else let (held, s2) = remove_stale_torrents s1 announced content;
                              s3 = add_torrent s2 (joined_place (save_path_for announced in_torrent) in_torrent) content
                          in (Inr \<lparr>oc_verb = ''create'', oc_created = Some announced, oc_origin = origin,
                                   oc_content = content, oc_held = held\<rparr>, s3))"

definition act :: "libtorrent \<Rightarrow> string list \<Rightarrow> node \<Rightarrow> (act_error + outcome) \<times> node" where
  "act lib v s =
     (case judge v of
        Inl e \<Rightarrow> (Inl (Rejected e), s)
      | Inr verb \<Rightarrow>
          (case removed_path v of
             Some p \<Rightarrow>
               (case erase s p of
                  (Some e, s1) \<Rightarrow> (Inl e, s1)
                | (None, s1) \<Rightarrow>
                    (Inr (plain_outcome verb), s1\<lparr>tombstones := mark (tombstones s1) p (from_ticks (v ! 2))\<rparr>))
           | None \<Rightarrow>
               if verb = ''create'' then act_create lib (v ! 1) (v ! 2) (v ! 3) s
               else (Inr (plain_outcome verb), s)))"

definition forget :: "node \<Rightarrow> string \<Rightarrow> node" where
  "forget s p = s\<lparr>announcements := om_erase path_key p (announcements s),
     applied := om_erase path_key p (applied s), waiting := om_erase path_key p (waiting s)\<rparr>"

fun adopt_all :: "tombstone_map \<Rightarrow> node \<Rightarrow> (act_error + string list) \<times> node" where
  "adopt_all [] s = (Inr [], s)"
| "adopt_all ((p, t) # es) s =
     (let s1 = s\<lparr>tombstones := mark (tombstones s) p t\<rparr>
      in if path_find p (former s1) = None then adopt_all es s1
         else (case erase (s1\<lparr>former := om_erase path_key p (former s1)\<rparr>) p of
                 (Some e, s2) \<Rightarrow> (Inl e, s2)
               | (None, s2) \<Rightarrow>
                   (case adopt_all es (forget s2 p) of
                      (Inl e, s3) \<Rightarrow> (Inl e, s3)
                    | (Inr ps, s3) \<Rightarrow> (Inr (p # ps), s3))))"

definition adopt :: "tombstone_map \<Rightarrow> sys_time \<Rightarrow> node \<Rightarrow> (act_error + string list) \<times> node" where
  "adopt theirs now s = adopt_all (adoptable theirs (former s) (tombstones s) now) s"

section \<open>A received file\<close>

text \<open>The flag says whether the time could be set; the code does not look at it.\<close>

definition set_disk_time :: "bool \<Rightarrow> string \<Rightarrow> file_time \<Rightarrow> node \<Rightarrow> node" where
  "set_disk_time ok p t s =
     (if ok then s\<lparr>disk := map (\<lambda>(q, f). if lexically_normal q = lexically_normal p then (q, f\<lparr>df_time := t\<rparr>) else (q, f)) (disk s)\<rparr>
      else s)"

definition stamp_and_remember :: "bool \<Rightarrow> string \<Rightarrow> file_time \<Rightarrow> node \<Rightarrow> node" where
  "stamp_and_remember ok p written_by s =
     (case last_write_time s p of
        None \<Rightarrow> s
      | Some before_stamp \<Rightarrow>
          if before_stamp > written_by then s\<lparr>origins := om_erase path_key p (origins s)\<rparr>
          else let s1 = (case path_find p (origins s) of
                 None \<Rightarrow> s
               | Some origin \<Rightarrow> (set_disk_time ok p origin s)\<lparr>origins := om_erase path_key p (origins s)\<rparr>)
          in case last_write_time s1 p of
               None \<Rightarrow> s1
             | Some t \<Rightarrow> s1\<lparr>seen_written := om_assign path_key p t (seen_written s1),
                             former := om_assign path_key p t (former s1)\<rparr>)"

section \<open>Changes on disk\<close>

definition is_echo :: "file_map \<Rightarrow> file_map \<Rightarrow> string \<Rightarrow> bool" where
  "is_echo written current p =
     (case (path_find p written, path_find p current) of (Some a, Some b) \<Rightarrow> a = b | _ \<Rightarrow> False)"

text \<open>Goes over the entries in order; a file that is no older than its deletion cancels it.\<close>

fun drop_losing :: "file_map \<Rightarrow> file_map \<Rightarrow> tombstone_map \<Rightarrow> file_map \<times> tombstone_map" where
  "drop_losing current [] graves = ([], graves)"
| "drop_losing current ((p, w) # es) graves =
     (case path_find p graves of
        None \<Rightarrow> (let (kept, g) = drop_losing current es graves in ((p, w) # kept, g))
      | Some grave \<Rightarrow>
          (case path_find p current of
             Some now \<Rightarrow>
               if \<not> beats grave now
               then (let (kept, g) = drop_losing current es (om_erase path_key p graves) in ((p, w) # kept, g))
               else drop_losing current es graves
           | None \<Rightarrow> drop_losing current es graves))"

definition local_changes :: "file_map \<Rightarrow> sys_time \<Rightarrow> node \<Rightarrow> diff_t \<times> node" where
  "local_changes current noticed s =
     (let d = create_diff (former s) current;
          fresh1 = om_erase_if (\<lambda>p _. is_echo (seen_written s) current p) (created d);
          fresh2 = om_erase_if (\<lambda>p _. is_echo (seen_written s) current p) (modified d);
          (made, g1) = drop_losing current fresh1 (tombstones s);
          (changed, g2) = drop_losing current fresh2 g1;
          gone = om_erase_if (\<lambda>p _. path_find p g2 \<noteq> None) (removed d);
          g3 = fold (\<lambda>(p, _) g. mark g p noticed) gone g2
      in (\<lparr>removed = gone, created = made, modified = changed\<rparr>, s\<lparr>tombstones := g3\<rparr>))"

definition forget_spent_marks :: "sys_time \<Rightarrow> node \<Rightarrow> node" where
  "forget_spent_marks now s =
     s\<lparr>seen_written := om_erase_if (\<lambda>p _. path_find p (former s) = None) (seen_written s),
       tombstones := expire (tombstones s) now\<rparr>"

section \<open>What goes out\<close>

text \<open>
  A create is made of the bytes on disk; a file that is gone by then is not announced. A file that is there
  is taken to be readable: \<open>Building\<close> has the operations with the exception \<open>torrent_from_file\<close> throws otherwise.
\<close>

definition publish_create :: "libtorrent \<Rightarrow> string \<times> file_time \<Rightarrow> node \<Rightarrow> node" where
  "publish_create lib e s =
     (case on_disk s (fst e) of
        None \<Rightarrow> s
      | Some f \<Rightarrow> s\<lparr>sent := sent s @ [Create (lt_encode lib (lexically_normal (fst e)) (df_bytes f)) (file_ticks (snd e)) (fst e)]\<rparr>)"

text \<open>A remove carries the moment it is sent; the argument says which that is for each path.\<close>

definition publish_remove :: "(string \<Rightarrow> sys_time) \<Rightarrow> string \<times> file_time \<Rightarrow> node \<Rightarrow> node" where
  "publish_remove sent_at e s = s\<lparr>sent := sent s @ [Remove (fst e) (to_ticks (sent_at (fst e)))]\<rparr>"

definition with_current :: "file_map \<Rightarrow> file_map \<Rightarrow> file_map" where
  "with_current current m = map (\<lambda>(p, w). (p, case path_find p current of None \<Rightarrow> w | Some t \<Rightarrow> t)) m"

definition send_diff :: "libtorrent \<Rightarrow> (string \<Rightarrow> sys_time) \<Rightarrow> diff_t \<Rightarrow> file_map \<Rightarrow> node \<Rightarrow> node" where
  "send_diff lib sent_at d current s =
     fold (publish_create lib) (with_current current (modified d))
       (fold (publish_create lib) (with_current current (created d))
         (fold (publish_remove sent_at) (removed d) s))"

fun publish_due :: "libtorrent \<Rightarrow> string list \<Rightarrow> bool \<Rightarrow> node \<Rightarrow> string list \<times> node" where
  "publish_due lib [] rebuilt s = ([], s)"
| "publish_due lib (p # ps) rebuilt s =
     (case path_find p (former s) of
        None \<Rightarrow> publish_due lib ps rebuilt s
      | Some t \<Rightarrow>
          (case path_find p (announcements s) of
             Some a \<Rightarrow> publish_due lib ps rebuilt (s\<lparr>sent := sent s @ [Create a (file_ticks t) p]\<rparr>)
           | None \<Rightarrow>
               if rebuilt then (let (later_on, s') = publish_due lib ps rebuilt s in (p # later_on, s'))
               else publish_due lib ps True (publish_create lib (p, t) s)))"

definition publish_repairs :: "libtorrent \<Rightarrow> int \<Rightarrow> node \<Rightarrow> node" where
  "publish_repairs lib now s =
     (let (ready, rest) = due (waiting s) now;
          (postponed, s1) = publish_due lib ready False (s\<lparr>waiting := rest\<rparr>)
      in s1\<lparr>waiting := arm_missing (waiting s1) postponed now\<rparr>)"

text \<open>A turn of the loop in which the monitor saw a change.\<close>

definition relist :: "libtorrent \<Rightarrow> (string \<Rightarrow> sys_time) \<Rightarrow> file_map \<Rightarrow> sys_time \<Rightarrow> sys_time \<Rightarrow> node \<Rightarrow> node" where
  "relist lib sent_at current noticed forgot_at s =
     (let (d, s1) = local_changes current noticed s;
          s2 = send_diff lib sent_at d current s1
      in forget_spent_marks forgot_at (s2\<lparr>former := current\<rparr>))"

section \<open>Rounds\<close>

definition answer_gaps :: "file_map \<Rightarrow> int \<Rightarrow> node \<Rightarrow> node" where
  "answer_gaps held steady s =
     (let missing = gaps (former s) (tombstones s) held
      in if missing \<noteq> [] then s\<lparr>waiting := arm_missing (waiting s) missing steady\<rparr> else s)"

definition read_digest :: "string list \<Rightarrow> sys_time \<Rightarrow> int \<Rightarrow> node \<Rightarrow> act_error option \<times> node" where
  "read_digest v now steady s =
     (case adopt (decode_tombstones (v ! 2)) now s of
        (Inl e, s1) \<Rightarrow> (Some e, s1)
      | (Inr _, s1) \<Rightarrow> (None, answer_gaps (decode_held (v ! 1)) steady s1))"

definition reconcile_message ::
  "string \<Rightarrow> string list \<Rightarrow> string \<Rightarrow> sys_time \<Rightarrow> int \<Rightarrow> node \<Rightarrow> act_error option \<times> node" where
  "reconcile_message verb v own now steady s =
     (if verb = ''state''
      then (None, if v ! 2 \<noteq> own
        then s\<lparr>peers := om_assign id (v ! 2) \<lparr>hashes = v ! 1, heard_at = steady\<rparr> (peers s)\<rparr> else s)
      else if verb = ''digest'' then read_digest v now steady s
      else (None, s))"

record quiescence =
  q_now :: int
  last_state :: int
  last_change :: int
  settled :: bool

definition state_due :: "quiescence \<Rightarrow> bool" where
  "state_due q =
     (let since_state = q_now q - last_state q;
          quiescent = (settled q \<and> q_now q - last_change q \<ge> quiescence_window)
      in since_state \<ge> state_ceiling \<or> quiescent \<and> since_state \<ge> period)"

text \<open>A round: the root hash goes out, silent peers go, and one peer that differs is sent the digest.\<close>

definition run_round :: "(string \<Rightarrow> string) \<Rightarrow> (nat \<Rightarrow> nat) \<Rightarrow> string \<Rightarrow> int \<Rightarrow> node \<Rightarrow> node" where
  "run_round sha draw own now s =
     (let mine = root_hash sha (former s) (tombstones s);
          s1 = s\<lparr>sent := sent s @ [State mine own], peers := forget_silent (peers s) now\<rparr>
      in case pick draw (peers s1) mine of
           None \<Rightarrow> s1
         | Some asked \<Rightarrow>
             s1\<lparr>sent := sent s1 @ [Digest asked (encode_held (former s1)) (encode_tombstones (tombstones s1))]\<rparr>)"

definition note_created :: "bool \<Rightarrow> outcome \<Rightarrow> string \<Rightarrow> string \<Rightarrow> node \<Rightarrow> node" where
  "note_created stamp_ok r p torrent s =
     (let s1 = s\<lparr>origins := om_assign path_key p (oc_origin r) (origins s)\<rparr>;
          s2 = (if oc_held r then stamp_and_remember stamp_ok p (oc_origin r) s1 else s1)
      in s2\<lparr>announcements := om_assign path_key p torrent (announcements s2),
            applied := om_assign path_key p \<lparr>app_origin = oc_origin r, app_content = oc_content r\<rparr> (applied s2),
            waiting := om_erase path_key p (waiting s2)\<rparr>)"

text \<open>One inbound message; \<open>None\<close> stands for one that could not be received whole.\<close>

definition receive_one ::
  "libtorrent \<Rightarrow> bool \<Rightarrow> string \<Rightarrow> sys_time \<Rightarrow> int \<Rightarrow> string list option \<Rightarrow> node \<Rightarrow> act_error option \<times> node" where
  "receive_one lib stamp_ok own now steady received s =
     (case received of
        None \<Rightarrow> (None, s)
      | Some v \<Rightarrow>
          (case act lib v s of
             (Inl (Rejected _), s1) \<Rightarrow> (None, s1)
           | (Inl e, s1) \<Rightarrow> (Some e, s1)
           | (Inr r, s1) \<Rightarrow>
               let s2 = (case removed_path v of None \<Rightarrow> s1 | Some gone \<Rightarrow> forget s1 gone);
                   s3 = (case oc_created r of None \<Rightarrow> s2 | Some p \<Rightarrow> note_created stamp_ok r p (v ! 1) s2)
               in reconcile_message (oc_verb r) v own now steady s3))"

end
