(* ===== verification/Exchange.thy ===== *)
theory Exchange
  imports Node
begin

text \<open>
  What two daemons make of each other's digests, path by path. The abstract replica of a path is a file
  time, a deletion time, both or neither; reading a digest and taking a repair are two functions on it.
  The lemmas show that the daemon's handlers, which walk ordered maps, do this at every path, and the
  theorems that two replicas agree after one digest each way.
\<close>

section \<open>A path of a replica\<close>

record replica =
  held_at :: "file_time option"
  grave_at :: "sys_time option"

definition replica_of :: "node \<Rightarrow> bool \<times> string list \<Rightarrow> replica" where
  "replica_of s x = \<lparr>held_at = path_at (former s) x, grave_at = path_at (tombstones s) x\<rparr>"

definition adopts :: "sys_time \<Rightarrow> replica \<Rightarrow> replica \<Rightarrow> bool" where
  "adopts now theirs mine \<longleftrightarrow>
     (case grave_at theirs of None \<Rightarrow> False
      | Some t \<Rightarrow> (case grave_at mine of None \<Rightarrow> True | Some u \<Rightarrow> u < t) \<and> \<not> ago now t > tombstone_ttl \<and>
          (case held_at mine of None \<Rightarrow> True | Some w \<Rightarrow> beats t w))"

definition hear :: "sys_time \<Rightarrow> replica \<Rightarrow> replica \<Rightarrow> replica" where
  "hear now theirs mine = (if adopts now theirs mine then \<lparr>held_at = None, grave_at = grave_at theirs\<rparr> else mine)"

definition owes :: "replica \<Rightarrow> replica \<Rightarrow> bool" where
  "owes mine theirs \<longleftrightarrow>
     (case held_at mine of None \<Rightarrow> False
      | Some w \<Rightarrow> \<not> (case grave_at mine of None \<Rightarrow> False | Some t \<Rightarrow> beats t w) \<and>
          (case held_at theirs of None \<Rightarrow> True | Some v \<Rightarrow> file_ticks v < file_ticks w))"

text \<open>The file of a repair arrives, unless this side remembers a later deletion.\<close>

definition take_repair :: "replica \<Rightarrow> replica \<Rightarrow> replica" where
  "take_repair theirs mine =
     (if owes theirs mine \<and> \<not> (case (grave_at mine, held_at theirs) of (Some t, Some w) \<Rightarrow> beats t w | _ \<Rightarrow> False)
      then \<lparr>held_at = held_at theirs, grave_at = None\<rparr> else mine)"

section \<open>Reading a digest does this at every path\<close>

definition maps_ok :: "node \<Rightarrow> bool" where
  "maps_ok s \<longleftrightarrow> path_ok_map (former s) \<and> path_ok_map (tombstones s)"

lemma at_mark:
  assumes "path_ok_map m"
  shows "path_at (mark m p t) x = (if x = path_key p then Some (later (path_at m x) t) else path_at m x)"
  using assms by (auto simp: mark_def later_def om_find_at om_at_emplace om_at_assign split: option.splits)

lemma worth_adopting_at:
  "worth_adopting (former s) (tombstones s) now e \<longleftrightarrow>
    adopts now \<lparr>held_at = None, grave_at = Some (snd e)\<rparr> (replica_of s (path_key (fst e)))"
  by (cases e) (auto simp: worth_adopting_def adopts_def replica_of_def om_find_at not_le split: option.splits)

lemma at_adoptable:
  assumes "path_ok_map theirs"
  shows "path_at (adoptable theirs (former s) (tombstones s) now) x =
    (case path_at theirs x of None \<Rightarrow> None
     | Some t \<Rightarrow> if adopts now \<lparr>held_at = None, grave_at = Some t\<rparr> (replica_of s x) then Some t else None)"
proof -
  have "worth_adopting (former s) (tombstones s) now =
      (\<lambda>e. adopts now \<lparr>held_at = None, grave_at = Some (snd e)\<rparr> (replica_of s (path_key (fst e))))"
    by (rule ext) (rule worth_adopting_at)
  then show ?thesis
    using om_at_filter [OF assms, of "\<lambda>x t. adopts now \<lparr>held_at = None, grave_at = Some t\<rparr> (replica_of s x)" x]
    by (simp add: adoptable_filter [OF assms])
qed

lemma erased_maps [simp]:
  "former (erased s p) = former s" "tombstones (erased s p) = tombstones s" "waiting (erased s p) = waiting s"
  "disk (erased s p) = om_erase lexically_normal p (disk s)"
  "former (drop_torrents s p) = former s" "tombstones (drop_torrents s p) = tombstones s"
  by (simp_all add: erased_def drop_torrents_def)

lemma erase_maps [simp]:
  "former (snd (erase s p)) = former s" "tombstones (snd (erase s p)) = tombstones s"
  by (simp_all add: erase_def)

lemma forget_maps [simp]:
  "former (forget s p) = former s" "tombstones (forget s p) = tombstones s" "disk (forget s p) = disk s"
  "session (forget s p) = session s"
  by (simp_all add: forget_def)

text \<open>What one adopted deletion does.\<close>

definition adopt_one :: "string \<times> sys_time \<Rightarrow> node \<Rightarrow> node" where
  "adopt_one e s =
     (let s1 = s\<lparr>tombstones := mark (tombstones s) (fst e) (snd e)\<rparr>
      in if path_find (fst e) (former s1) = None then s1
         else forget (erased (s1\<lparr>former := om_erase path_key (fst e) (former s1)\<rparr>) (fst e)) (fst e))"

text \<open>Every path that a map would have this node erase is a file or gone, so nothing throws.\<close>

definition removable :: "(string, 'v) cppmap \<Rightarrow> node \<Rightarrow> bool" where
  "removable m s \<longleftrightarrow> list_all (\<lambda>e. path_find (fst e) (former s) = None \<or> \<not> remove_throws (disk s) (fst e)) m"

lemma remove_throws_less: "remove_throws (filter P d) p \<Longrightarrow> remove_throws d p"
  by (force simp: remove_throws_def list_ex_iff)

lemma removable_adopt_one: "removable m s \<Longrightarrow> removable m (adopt_one e s)"
proof -
  have "disk (adopt_one e s) = disk s \<or> disk (adopt_one e s) = om_erase lexically_normal (fst e) (disk s)"
    by (simp add: adopt_one_def Let_def)
  then have "remove_throws (disk (adopt_one e s)) p \<Longrightarrow> remove_throws (disk s) p" for p
    by (auto simp: om_erase_def dest: remove_throws_less)
  moreover have "path_find p (former s) = None \<Longrightarrow> path_find p (former (adopt_one e s)) = None" for p
    by (simp add: adopt_one_def Let_def om_find_erase)
  ultimately show "removable m s \<Longrightarrow> removable m (adopt_one e s)"
    unfolding removable_def list_all_iff by blast
qed

lemma adopt_all_fold: "removable es s \<Longrightarrow> \<exists>ps. adopt_all es s = (Inr ps, fold adopt_one es s)"
proof (induction es arbitrary: s)
  case (Cons e es)
  obtain p t where e: "e = (p, t)" by (cases e)
  have "removable es (adopt_one e s)"
    using removable_adopt_one [OF Cons.prems] by (simp add: removable_def)
  then obtain ps where "adopt_all es (adopt_one e s) = (Inr ps, fold adopt_one es (adopt_one e s))"
    using Cons.IH by blast
  moreover have "adopt_one (p, t) s = (let s1 = s\<lparr>tombstones := mark (tombstones s) p t\<rparr>
      in if path_find p (former s) = None then s1 else forget (erased (s1\<lparr>former := om_erase path_key p (former s)\<rparr>) p) p)"
    by (simp add: adopt_one_def Let_def)
  ultimately show ?case
    using Cons.prems by (auto simp: e Let_def removable_def erase_def)
qed simp

lemma adopt_one_maps:
  assumes "maps_ok s"
  shows "maps_ok (adopt_one e s)"
    and "path_at (former (adopt_one e s)) x = (if x = path_key (fst e) then None else path_at (former s) x)"
    and "path_at (tombstones (adopt_one e s)) x =
      (if x = path_key (fst e) then Some (later (path_at (tombstones s) x) (snd e)) else path_at (tombstones s) x)"
  using assms
  by (auto simp: adopt_one_def Let_def maps_ok_def om_ok_erase om_at_erase at_mark om_find_at)

lemma fold_adopt_maps: "maps_ok s \<Longrightarrow> maps_ok (fold adopt_one es s)"
  by (induction es arbitrary: s) (simp_all add: adopt_one_maps)

lemma fold_adopt_other:
  "maps_ok s \<Longrightarrow> x \<notin> om_keys path_key es \<Longrightarrow>
    path_at (former (fold adopt_one es s)) x = path_at (former s) x \<and>
    path_at (tombstones (fold adopt_one es s)) x = path_at (tombstones s) x"
  by (induction es arbitrary: s) (simp_all add: adopt_one_maps)

lemma fold_adopt_at:
  "maps_ok s \<Longrightarrow> path_ok_map es \<Longrightarrow>
    path_at (former (fold adopt_one es s)) x = (if path_at es x = None then path_at (former s) x else None) \<and>
    path_at (tombstones (fold adopt_one es s)) x =
      (case path_at es x of None \<Rightarrow> path_at (tombstones s) x | Some t \<Rightarrow> Some (later (path_at (tombstones s) x) t))"
proof (induction es arbitrary: s)
  case (Cons e es)
  show ?case
  proof (cases "x = path_key (fst e)")
    case True
    then have "x \<notin> om_keys path_key es"
      using Cons.prems(2) by auto
    then show ?thesis
      using True fold_adopt_other [OF adopt_one_maps(1) [OF Cons.prems(1)], of x es e] Cons.prems(1)
      by (simp add: adopt_one_maps om_at_Cons)
  next
    case False
    then show ?thesis
      using Cons.IH [OF adopt_one_maps(1) [OF Cons.prems(1)]] Cons.prems
      by (simp add: adopt_one_maps om_at_Cons split: option.split)
  qed
qed simp

text \<open>Where an entry throws, those before it are adopted and the maps are in order all the same.\<close>

lemma adopt_all_maps:
  "maps_ok s \<Longrightarrow> maps_ok (snd (adopt_all es s)) \<and>
    (\<forall>x. x \<notin> om_keys path_key es \<longrightarrow> replica_of (snd (adopt_all es s)) x = replica_of s x)"
proof (induction es arbitrary: s)
  case (Cons e es)
  obtain p t where e: "e = (p, t)" by (cases e)
  let ?s1 = "s\<lparr>tombstones := mark (tombstones s) p t\<rparr>"
  let ?s2 = "?s1\<lparr>former := om_erase path_key p (former s)\<rparr>"
  let ?s3 = "snd (erase ?s2 p)"
  have ok: "maps_ok ?s1" "maps_ok ?s3" "maps_ok (forget ?s3 p)"
    using Cons.prems by (simp_all add: maps_ok_def om_ok_erase)
  have same: "replica_of ?s1 x = replica_of s x" "replica_of ?s3 x = replica_of s x"
      "replica_of (forget ?s3 p) x = replica_of s x" if "x \<noteq> path_key p" for x
    using that Cons.prems by (simp_all add: replica_of_def at_mark maps_ok_def om_at_erase)
  have "snd (adopt_all (e # es) s) \<in> {snd (adopt_all es ?s1), ?s3, snd (adopt_all es (forget ?s3 p))}"
    by (cases "erase ?s2 p") (auto simp: e Let_def split: option.split sum.split prod.split)
  then show ?case
    using Cons.IH [OF ok(1)] Cons.IH [OF ok(3)] ok(2) same by (auto simp: e)
qed simp

text \<open>What each of its steps keeps, an adoption keeps.\<close>

lemma adopt_keeps:
  assumes "P s" "\<And>s p t. P s \<Longrightarrow> P (s\<lparr>tombstones := mark (tombstones s) p t\<rparr>)"
    and "\<And>s p. P s \<Longrightarrow> P (s\<lparr>former := om_erase path_key p (former s)\<rparr>)"
    and "\<And>s p. P s \<Longrightarrow> P (snd (erase s p))" "\<And>s p. P s \<Longrightarrow> P (forget s p)"
  shows "P (snd (adopt theirs now s))"
proof -
  have "P (snd (adopt_all es s))" if "P s" for es
    using that
  proof (induction es arbitrary: s)
    case (Cons e es)
    obtain p t where e: "e = (p, t)" by (cases e)
    let ?s1 = "s\<lparr>tombstones := mark (tombstones s) p t\<rparr>"
    let ?s3 = "snd (erase (?s1\<lparr>former := om_erase path_key p (former ?s1)\<rparr>) p)"
    have ok: "P ?s1" "P ?s3"
      by (intro Cons.prems assms)+
    have "snd (adopt_all (e # es) s) \<in> {snd (adopt_all es ?s1), ?s3, snd (adopt_all es (forget ?s3 p))}"
      by (simp add: e Let_def case_prod_beta split: option.split sum.split)
    then show ?case
      using Cons.IH [OF ok(1)] Cons.IH [OF assms(5) [OF ok(2)]] ok(2) by auto
  qed simp
  then show ?thesis
    using assms(1) by (simp add: adopt_def)
qed

lemma adopt_maps: "maps_ok s \<Longrightarrow> maps_ok (snd (adopt theirs now s))"
  using adopt_all_maps by (simp add: adopt_def)

lemma adopt_fold:
  assumes "removable theirs s" "path_ok_map theirs"
  obtains ps where "adopt theirs now s = (Inr ps, fold adopt_one (adoptable theirs (former s) (tombstones s) now) s)"
proof -
  have "removable (adoptable theirs (former s) (tombstones s) now) s"
    using assms by (auto simp: adoptable_filter removable_def list_all_iff)
  then show thesis
    using adopt_all_fold that by (auto simp: adopt_def)
qed

lemma adopt_hears:
  assumes "maps_ok s" "path_ok_map theirs" "removable theirs s"
  shows "replica_of (snd (adopt theirs now s)) x = hear now \<lparr>held_at = h, grave_at = path_at theirs x\<rparr> (replica_of s x)"
proof -
  let ?es = "adoptable theirs (former s) (tombstones s) now"
  have ok: "path_ok_map ?es"
    using assms(2) by (simp add: adoptable_filter om_ok_filter)
  have "later (path_at (tombstones s) x) t = t" if "adopts now \<lparr>held_at = None, grave_at = Some t\<rparr> (replica_of s x)" for t
    using that by (auto simp: adopts_def replica_of_def later_def split: option.splits)
  moreover obtain ps where "adopt theirs now s = (Inr ps, fold adopt_one ?es s)"
    using adopt_fold [OF assms(3,2)] by blast
  ultimately show ?thesis
    using fold_adopt_at [OF assms(1) ok, of x]
    by (auto simp: at_adoptable [OF assms(2)] hear_def replica_of_def adopts_def split: option.splits)
qed

section \<open>What is owed for a digest\<close>

lemma is_gap_at:
  "is_gap (tombstones s) theirs e \<longleftrightarrow>
    owes \<lparr>held_at = Some (snd e), grave_at = path_at (tombstones s) (path_key (fst e))\<rparr>
         \<lparr>held_at = path_at theirs (path_key (fst e)), grave_at = g\<rparr>"
  by (cases e) (auto simp: is_gap_def owes_def om_find_at split: option.splits)

lemma gap_keys:
  assumes "path_ok_map (former s)"
  shows "x \<in> path_key ` set (gaps (former s) (tombstones s) theirs) \<longleftrightarrow>
    owes (replica_of s x) \<lparr>held_at = path_at theirs x, grave_at = g\<rparr>"
proof
  assume "x \<in> path_key ` set (gaps (former s) (tombstones s) theirs)"
  then obtain e where e: "e \<in> set (former s)" "is_gap (tombstones s) theirs e" "x = path_key (fst e)"
    by (auto simp: gaps_def)
  then show "owes (replica_of s x) \<lparr>held_at = path_at theirs x, grave_at = g\<rparr>"
    using om_at_in [OF assms e(1)] by (simp add: replica_of_def is_gap_at [where g = g])
next
  assume o: "owes (replica_of s x) \<lparr>held_at = path_at theirs x, grave_at = g\<rparr>"
  then obtain w where w: "path_at (former s) x = Some w"
    by (auto simp: owes_def replica_of_def split: option.splits)
  then have "x \<in> om_keys path_key (former s)"
    by (metis om_at_None_iff option.distinct(1))
  then obtain e where e: "e \<in> set (former s)" "x = path_key (fst e)"
    by blast
  moreover have "is_gap (tombstones s) theirs e"
    using o e om_at_in [OF assms e(1)] by (simp add: replica_of_def is_gap_at [where g = g])
  ultimately show "x \<in> path_key ` set (gaps (former s) (tombstones s) theirs)"
    by (auto simp: gaps_def intro!: image_eqI [of _ _ "fst e"])
qed

definition digest_for :: "string \<Rightarrow> node \<Rightarrow> string list" where
  "digest_for target s = digest_message target (encode_held (former s)) (encode_tombstones (tombstones s))"

definition keys_ok :: "node \<Rightarrow> bool" where
  "keys_ok s \<longleftrightarrow> digest_keys (former s) \<and> digest_keys (tombstones s)"

lemma keys_ok_maps: "keys_ok s \<Longrightarrow> maps_ok s"
  by (simp add: keys_ok_def maps_ok_def digest_keys_def)

lemma answer_gaps_maps [simp]:
  "former (answer_gaps held now s) = former s" "tombstones (answer_gaps held now s) = tombstones s"
  "disk (answer_gaps held now s) = disk s"
  by (simp_all add: answer_gaps_def Let_def)

lemma replica_answer [simp]: "replica_of (answer_gaps held now s) = replica_of s"
  by (simp add: replica_of_def fun_eq_iff)

lemma replica_waiting [simp]: "replica_of (s\<lparr>waiting := w\<rparr>) = replica_of s"
  by (simp add: replica_of_def fun_eq_iff)

lemma read_digest_adopts:
  assumes "keys_ok a"
  shows "read_digest (digest_for target a) now steady s =
    (case adopt (tombstones a) now s of (Inl e, s1) \<Rightarrow> (Some e, s1) | (Inr _, s1) \<Rightarrow> (None, answer_gaps (former a) steady s1))"
  using assms held_form.dec_enc [of "former a"] grave_form.dec_enc [of "tombstones a"]
  by (simp add: read_digest_def digest_for_def digest_message_def keys_ok_def numeral_2_eq_2 split: prod.split sum.split)

lemma read_digest_for:
  assumes "keys_ok a" "removable (tombstones a) s"
  shows "read_digest (digest_for target a) now steady s =
    (None, answer_gaps (former a) steady (fold adopt_one (adoptable (tombstones a) (former s) (tombstones s) now) s))"
proof -
  have "path_ok_map (tombstones a)"
    using keys_ok_maps [OF assms(1)] by (simp add: maps_ok_def)
  from adopt_fold [OF assms(2) this] show ?thesis
    by (metis (no_types, lifting) assms(1) read_digest_adopts case_prod_conv sum.case(2))
qed

lemma read_digest_replica:
  assumes "keys_ok a" "maps_ok s" "removable (tombstones a) s"
  shows "replica_of (snd (read_digest (digest_for target a) now steady s)) x = hear now (replica_of a x) (replica_of s x)"
proof -
  have ok: "path_ok_map (tombstones a)"
    using keys_ok_maps [OF assms(1)] by (simp add: maps_ok_def)
  obtain ps where "adopt (tombstones a) now s =
      (Inr ps, fold adopt_one (adoptable (tombstones a) (former s) (tombstones s) now) s)"
    using adopt_fold [OF assms(3) ok] by blast
  then show ?thesis
    using adopt_hears [OF assms(2) ok assms(3), of now x "path_at (former a) x"]
    by (simp add: read_digest_for [OF assms(1,3)]) (simp add: replica_of_def)
qed

text \<open>A path whose deletion is no news is as it was, even where another path makes the adoption throw.\<close>

lemma read_digest_keeps:
  assumes "keys_ok a" "maps_ok s" "t = snd (read_digest (digest_for target a) now steady s)"
  shows "maps_ok t" and "\<not> adopts now (replica_of a x) (replica_of s x) \<Longrightarrow> replica_of t x = replica_of s x"
proof -
  let ?es = "adoptable (tombstones a) (former s) (tombstones s) now"
  have t: "former t = former (snd (adopt_all ?es s))" "tombstones t = tombstones (snd (adopt_all ?es s))"
    using assms(3) by (auto simp: read_digest_adopts [OF assms(1)] adopt_def split: prod.split sum.split)
  show "maps_ok t"
    using adopt_all_maps [OF assms(2)] by (simp add: maps_ok_def t)
  assume no: "\<not> adopts now (replica_of a x) (replica_of s x)"
  have "path_at ?es x = None"
    using no keys_ok_maps [OF assms(1)] by (auto simp: at_adoptable maps_ok_def adopts_def replica_of_def split: option.splits)
  then have "x \<notin> om_keys path_key ?es"
    by (simp add: om_at_None_iff)
  then have "replica_of (snd (adopt_all ?es s)) x = replica_of s x"
    using adopt_all_maps [OF assms(2)] by blast
  then show "replica_of t x = replica_of s x"
    by (simp add: replica_of_def t)
qed

section \<open>One digest each way\<close>

definition tidy :: "replica \<Rightarrow> bool" where
  "tidy r \<longleftrightarrow> held_at r = None \<or> grave_at r = None"

definition lasting :: "sys_time \<Rightarrow> replica \<Rightarrow> bool" where
  "lasting now r \<longleftrightarrow> (case grave_at r of None \<Rightarrow> True | Some t \<Rightarrow> \<not> ago now t > tombstone_ttl)"

lemma ticks_total:
  "\<not> file_ticks v < file_ticks w \<Longrightarrow> \<not> file_ticks w < file_ticks v \<Longrightarrow> v = w"
  "\<not> to_ticks t < to_ticks u \<Longrightarrow> \<not> to_ticks u < to_ticks t \<Longrightarrow> t = u"
  by (metis file_ticks_inj linorder_less_linear) (metis to_ticks_inj linorder_less_linear)

lemmas exchange_defs = hear_def adopts_def take_repair_def owes_def tidy_def lasting_def beats_def less_sys_time_def

lemma replicas_agree:
  assumes "tidy a" "tidy b" "lasting now a" "lasting now' a" "lasting now' b"
    and "b1 = hear now a b" "a1 = take_repair b1 a" "a2 = hear now' b1 a1" "b2 = take_repair a2 b1"
  shows "a2 = b2 \<and> tidy a2"
proof -
  obtain ha ga where a: "a = \<lparr>held_at = ha, grave_at = ga\<rparr>" by (cases a)
  obtain hb gb where b: "b = \<lparr>held_at = hb, grave_at = gb\<rparr>" by (cases b)
  show ?thesis
    using assms unfolding a b
    by (cases ha; cases ga; cases hb; cases gb) (auto simp: exchange_defs intro: ticks_total)
qed

definition listed_keys :: "(string, 'v) cppmap \<Rightarrow> bool" where
  "listed_keys m \<longleftrightarrow> (\<forall>k \<in> fst ` set m. listing_key k)"

definition clean :: "node \<Rightarrow> bool" where
  "clean s \<longleftrightarrow> maps_ok s \<and> listed_keys (former s) \<and> listed_keys (tombstones s)"

lemma listed_digest_keys: "path_ok_map m \<Longrightarrow> listed_keys m \<Longrightarrow> digest_keys m"
  by (auto simp: digest_keys_def listed_keys_def list_all_iff dest: listing_key_nul_free)

lemma clean_keys_ok: "clean s \<Longrightarrow> keys_ok s"
  by (simp add: clean_def keys_ok_def maps_ok_def listed_digest_keys)

lemma listed_ext:
  assumes "path_ok_map m" "path_ok_map n" "listed_keys m" "listed_keys n" "\<And>x. path_at m x = path_at n x"
  shows "m = n"
proof (rule om_ext [OF assms(1,2,5)])
  show "inj_on path_key (fst ` (set m \<union> set n))"
  proof (rule inj_onI)
    fix p q assume "p \<in> fst ` (set m \<union> set n)" "q \<in> fst ` (set m \<union> set n)" "path_key p = path_key q"
    moreover from this have "listing_key p" "listing_key q"
      using assms(3,4) unfolding listed_keys_def by blast+
    ultimately show "p = q"
      using listing_key_inj by blast
  qed
qed

lemma fst_om_emplace: "fst ` set (om_emplace key k v m) \<subseteq> insert k (fst ` set m)"
  by (induction key k v m rule: om_emplace.induct) auto

lemma fst_om_assign: "fst ` set (om_assign key k v m) \<subseteq> insert k (fst ` set m)"
  by (induction key k v m rule: om_assign.induct) auto

lemma listed_emplace: "listed_keys m \<Longrightarrow> listing_key k \<Longrightarrow> listed_keys (om_emplace path_key k v m)"
  using fst_om_emplace [of path_key k v m] unfolding listed_keys_def by blast

lemma listed_assign: "listed_keys m \<Longrightarrow> listing_key k \<Longrightarrow> listed_keys (om_assign path_key k v m)"
  using fst_om_assign [of path_key k v m] unfolding listed_keys_def by blast

lemma listed_filter: "listed_keys m \<Longrightarrow> listed_keys (filter P m)"
  by (auto simp: listed_keys_def)

lemma listed_mark: "listed_keys m \<Longrightarrow> listing_key k \<Longrightarrow> listed_keys (mark m k t)"
  by (simp add: mark_def listed_emplace listed_assign split: option.split)

lemma adopt_one_listed:
  assumes "clean s" "listing_key (fst e)"
  shows "clean (adopt_one e s)"
  using assms adopt_one_maps(1) [of s e] listed_mark [of "tombstones s" "fst e" "snd e"]
  by (simp add: clean_def adopt_one_def Let_def om_erase_def listed_filter)

lemma fold_adopt_listed: "clean s \<Longrightarrow> listed_keys es \<Longrightarrow> clean (fold adopt_one es s)"
  by (induction es arbitrary: s) (simp_all add: adopt_one_listed listed_keys_def)

lemma clean_waiting [simp]: "clean (s\<lparr>waiting := w\<rparr>) = clean s"
  by (simp add: clean_def maps_ok_def)

lemma read_digest_clean:
  assumes "clean a" "clean s" "removable (tombstones a) s"
  shows "clean (snd (read_digest (digest_for target a) now steady s))"
proof -
  have "path_ok_map (tombstones a)" "listed_keys (tombstones a)"
    using assms(1) by (simp_all add: clean_def maps_ok_def)
  then have "clean (fold adopt_one (adoptable (tombstones a) (former s) (tombstones s) now) s)"
    using assms(2) by (simp add: fold_adopt_listed adoptable_filter listed_filter)
  then show ?thesis
    by (simp add: read_digest_for [OF clean_keys_ok [OF assms(1)] assms(3)] clean_def maps_ok_def)
qed

text \<open>
  C1. Two daemons whose files and deletions differ agree after one digest each way: one reads the other's
  digest and answers with the repairs it owes, and then the other way round. Wherever no path is both
  held and deleted at either, no deletion is older than the time to live, and no path to be deleted has
  become a directory with files in it, both hold the same files at the same times and remember the same
  deletions, so their root hashes are the same and the round asks neither of them again.
\<close>

theorem digests_each_way_agree:
  assumes "clean a" "clean b" "\<And>x. tidy (replica_of a x)" "\<And>x. tidy (replica_of b x)"
    and "\<And>x. lasting now (replica_of a x)" "\<And>x. lasting now' (replica_of a x)" "\<And>x. lasting now' (replica_of b x)"
    and b1: "(e, b1) = read_digest (digest_for to_b a) now steady b" "removable (tombstones a) b"
    and a1: "clean a1" "\<And>x. replica_of a1 x = take_repair (replica_of b1 x) (replica_of a x)"
    and a2: "(e', a2) = read_digest (digest_for to_a b1) now' steady' a1" "removable (tombstones b1) a1"
    and b2: "clean b2" "\<And>x. replica_of b2 x = take_repair (replica_of a2 x) (replica_of b1 x)"
  shows "e = None \<and> e' = None \<and> former a2 = former b2 \<and> tombstones a2 = tombstones b2 \<and>
    root_hash sha (former a2) (tombstones a2) = root_hash sha (former b2) (tombstones b2) \<and>
    pick draw [(endpoint, \<lparr>hashes = root_hash sha (former b2) (tombstones b2), heard_at = t\<rparr>)]
      (root_hash sha (former a2) (tombstones a2)) = None"
proof -
  note sb1 = arg_cong [OF b1(1), of snd, simplified] and sa2 = arg_cong [OF a2(1), of snd, simplified]
  have cb1: "clean b1"
    using read_digest_clean [OF assms(1,2) b1(2)] by (simp add: sb1)
  have ca2: "clean a2"
    using read_digest_clean [OF cb1 a1(1) a2(2)] by (simp add: sa2)
  have ok: "maps_ok b" "maps_ok a1"
    using assms(2) a1(1) by (simp_all add: clean_def)
  have rb1: "replica_of b1 x = hear now (replica_of a x) (replica_of b x)" for x
    using read_digest_replica [OF clean_keys_ok [OF assms(1)] ok(1) b1(2)] by (simp add: sb1)
  have ra2: "replica_of a2 x = hear now' (replica_of b1 x) (replica_of a1 x)" for x
    using read_digest_replica [OF clean_keys_ok [OF cb1] ok(2) a2(2)] by (simp add: sa2)
  have eq: "replica_of a2 x = replica_of b2 x" for x
    using replicas_agree [OF assms(3,4,5,6,7) rb1 a1(2) ra2 b2(2)] by blast
  have "former a2 = former b2" "tombstones a2 = tombstones b2"
    using eq ca2 b2(1) by (auto simp: replica_of_def clean_def maps_ok_def intro!: listed_ext)
  moreover have "e = None" "e' = None"
    using b1 a2 read_digest_for [OF clean_keys_ok [OF assms(1)]] read_digest_for [OF clean_keys_ok [OF cb1]] by simp_all
  ultimately show ?thesis
    by (simp add: pick_def)
qed

definition node0 :: node where
  "node0 = \<lparr>disk = [], session = [], former = [], tombstones = [], origins = [], seen_written = [],
     waiting = [], applied = [], announcements = [], peers = [], sent = []\<rparr>"

lemma listing_key1: "plain_name n \<Longrightarrow> listing_key (''./'' @ n)"
  unfolding listing_key_def by (intro exI [of _ "[n]"]) (simp add: listed_def slash_def)

lemma clean_nil [simp]: "listed_keys []"
  by (simp add: listed_keys_def)

theorem digests_each_way_agree_witness:
  "\<exists>(a2 :: node) (b2 :: node). former a2 = [(''./a'', FileTime 9)] \<and> tombstones b2 = [(''./d'', SysTime 5)] \<and>
     former a2 = former b2 \<and> tombstones a2 = tombstones b2"
proof -
  let ?a = "node0\<lparr>former := [(''./a'', FileTime 9)]\<rparr>" and ?b = "node0\<lparr>tombstones := [(''./d'', SysTime 5)]\<rparr>"
  obtain e b1 where rb: "(e, b1) = read_digest (digest_for ''b'' ?a) (SysTime 6) 0 ?b"
    by (metis surj_pair)
  obtain e' a2 where ra: "(e', a2) = read_digest (digest_for ''a'' b1) (SysTime 7) 0 ?a"
    by (metis surj_pair)
  let ?b2 = "?b\<lparr>former := [(''./a'', FileTime 9)]\<rparr>"
  have key: "path_key ''./a'' = (False, [''.'', ''a''])" "path_key ''./d'' = (False, [''.'', ''d''])"
    by (simp_all add: path_key_def elements_def names_of_def has_root_def ends_in_slash_def slash_def)
  have lk: "listing_key ''./a''" "listing_key ''./d''"
    using listing_key1 [of "''a''"] listing_key1 [of "''d''"] by (simp_all add: plain_name_def slash_def)
  have clean: "clean ?a" "clean ?b" "clean ?b2"
    using lk by (simp_all add: clean_def maps_ok_def node0_def listed_keys_def)
  have rep: "replica_of ?a x = \<lparr>held_at = if x = path_key ''./a'' then Some (FileTime 9) else None, grave_at = None\<rparr>"
    "replica_of ?b x = \<lparr>held_at = None, grave_at = if x = path_key ''./d'' then Some (SysTime 5) else None\<rparr>"
    "replica_of ?b2 x = \<lparr>held_at = if x = path_key ''./a'' then Some (FileTime 9) else None,
        grave_at = if x = path_key ''./d'' then Some (SysTime 5) else None\<rparr>" for x
    by (auto simp: replica_of_def node0_def om_at_Cons)
  have rem: "removable (tombstones ?a) ?b"
    by (simp add: removable_def node0_def)
  have b1: "b1 = snd (read_digest (digest_for ''b'' ?a) (SysTime 6) 0 ?b)"
    by (simp add: rb [symmetric])
  have rb1: "replica_of b1 x = replica_of ?b x" for x
    using read_digest_replica [OF clean_keys_ok [OF clean(1)] _ rem] clean(2)
    by (simp add: b1 clean_def rep hear_def adopts_def)
  have cb1: "clean b1"
    unfolding b1 by (rule read_digest_clean [OF clean(1,2) rem])
  have "tombstones b1 = tombstones ?b"
    using rb1 cb1 clean(2) by (auto simp: replica_of_def clean_def maps_ok_def intro!: listed_ext)
  then have rem1: "removable (tombstones b1) ?a"
    by (simp add: removable_def remove_throws_def node0_def key)
  have a2: "replica_of a2 x = \<lparr>held_at = if x = path_key ''./a'' then Some (FileTime 9) else None,
        grave_at = if x = path_key ''./d'' then Some (SysTime 5) else None\<rparr>" for x
    using read_digest_replica [OF clean_keys_ok [OF cb1] _ rem1, of "''a''" "SysTime 7" 0 x] clean(1)
    by (auto simp: ra [symmetric] clean_def rb1 rep hear_def adopts_def key tombstone_ttl_def seconds_def)
  have e: "former a2 = former ?b2 \<and> tombstones a2 = tombstones ?b2"
    using digests_each_way_agree [OF clean(1,2) _ _ _ _ _ rb rem clean(1) _ ra rem1 clean(3), of id id]
    by (simp add: a2 rb1 rep tidy_def lasting_def take_repair_def owes_def key tombstone_ttl_def seconds_def)
  have "former ?b2 = [(''./a'', FileTime 9)]" and t: "tombstones ?b2 = [(''./d'', SysTime 5)]"
    by simp_all
  with e have "former a2 = [(''./a'', FileTime 9)]"
    by (simp only: e)
  with e t show ?thesis
    by blast
qed

end
