(* ===== verification/Changes.thy ===== *)
theory Changes
  imports Exchange
begin

text \<open>
  What a daemon makes of a change on its own disk (\<open>src/syncfs.cpp\<close>: \<open>local_changes\<close>, \<open>forget_spent_marks\<close>,
  \<open>send\<close>), path by path.
\<close>

section \<open>Losing to a deletion\<close>

definition dead_at :: "file_map \<Rightarrow> tombstone_map \<Rightarrow> bool \<times> string list \<Rightarrow> bool" where
  "dead_at current graves x \<longleftrightarrow>
     (case path_at graves x of None \<Rightarrow> False
      | Some t \<Rightarrow> (case path_at current x of None \<Rightarrow> True | Some v \<Rightarrow> beats t v))"

lemma dead_at_erase: "x \<noteq> path_key p \<Longrightarrow> dead_at current (om_erase path_key p graves) x = dead_at current graves x"
  by (simp add: dead_at_def om_at_erase)

lemma drop_losing_kept:
  "path_ok_map es \<Longrightarrow> fst (drop_losing current es graves) = filter (\<lambda>e. \<not> dead_at current graves (path_key (fst e))) es"
proof (induction current es graves rule: drop_losing.induct)
  case (2 current p w es graves)
  have other: "filter (\<lambda>e. \<not> dead_at current (om_erase path_key p graves) (path_key (fst e))) es =
      filter (\<lambda>e. \<not> dead_at current graves (path_key (fst e))) es"
    using 2(5) by (intro filter_cong refl) (auto simp: dead_at_erase)
  show ?case
    using 2 other by (auto simp: dead_at_def om_find_at case_prod_beta split: option.splits)
qed simp

lemma drop_losing_graves:
  "path_ok_map es \<Longrightarrow> path_at (snd (drop_losing current es graves)) x =
    (if x \<in> om_keys path_key es \<and> \<not> dead_at current graves x then None else path_at graves x)"
proof (induction current es graves rule: drop_losing.induct)
  case (2 current p w es graves)
  have "path_key p \<notin> om_keys path_key es"
    using 2(5) by auto
  then show ?case
    using 2 by (auto simp: dead_at_def om_find_at om_at_erase case_prod_beta split: option.splits)
qed simp

lemma drop_losing_at:
  assumes "path_ok_map es"
  shows "path_at (fst (drop_losing current es graves)) x =
      (if dead_at current graves x then None else path_at es x)"
    and "path_ok_map (fst (drop_losing current es graves))"
  using om_at_filter [OF assms, of "\<lambda>x _. \<not> dead_at current graves x" x] assms
  by (simp_all add: drop_losing_kept om_ok_filter split: option.split)

lemma drop_losing_ok: "path_ok_map graves \<Longrightarrow> path_ok_map (snd (drop_losing current es graves))"
  by (induction current es graves rule: drop_losing.induct)
    (auto simp: om_ok_erase case_prod_beta split: option.splits)

section \<open>What is announced\<close>

text \<open>The change of one path, as the specification has it.\<close>

definition echo_at :: "node \<Rightarrow> file_map \<Rightarrow> bool \<times> string list \<Rightarrow> bool" where
  "echo_at s current x \<longleftrightarrow> path_at current x \<noteq> None \<and> path_at (seen_written s) x = path_at current x"

definition appears :: "node \<Rightarrow> file_map \<Rightarrow> bool \<times> string list \<Rightarrow> bool" where
  "appears s current x \<longleftrightarrow> path_at (former s) x = None \<and> path_at current x \<noteq> None \<and>
     \<not> echo_at s current x \<and> \<not> dead_at current (tombstones s) x"

definition moves :: "node \<Rightarrow> file_map \<Rightarrow> bool \<times> string list \<Rightarrow> bool" where
  "moves s current x \<longleftrightarrow> path_at (former s) x \<noteq> None \<and> path_at current x \<noteq> None \<and>
     path_at (former s) x \<noteq> path_at current x \<and> \<not> echo_at s current x \<and> \<not> dead_at current (tombstones s) x"

definition goes :: "node \<Rightarrow> file_map \<Rightarrow> bool \<times> string list \<Rightarrow> bool" where
  "goes s current x \<longleftrightarrow> path_at (former s) x \<noteq> None \<and> path_at current x = None \<and> path_at (tombstones s) x = None"

lemma is_echo_at: "is_echo written current p \<longleftrightarrow> path_at current (path_key p) \<noteq> None \<and>
    path_at written (path_key p) = path_at current (path_key p)"
  by (auto simp: is_echo_def om_find_at split: option.splits)

lemma create_diff_at:
  assumes "path_ok_map left" "path_ok_map right"
  shows "path_at (removed (create_diff left right)) x = (if path_at right x = None then path_at left x else None)"
    and "path_at (created (create_diff left right)) x = (if path_at left x = None then path_at right x else None)"
    and "path_at (modified (create_diff left right)) x =
      (if path_at right x \<noteq> None \<and> path_at right x \<noteq> path_at left x then path_at left x else None)"
    and "path_ok_map (removed (create_diff left right))" "path_ok_map (created (create_diff left right))"
      "path_ok_map (modified (create_diff left right))"
proof -
  note c = change_of_listings [OF assms]
  show "path_at (removed (create_diff left right)) x = (if path_at right x = None then path_at left x else None)"
    using om_at_filter [OF assms(1), of "\<lambda>x _. path_at right x = None" x]
    by (simp add: c om_find_at case_prod_unfold split: option.split)
  show "path_at (created (create_diff left right)) x = (if path_at left x = None then path_at right x else None)"
    using om_at_filter [OF assms(2), of "\<lambda>x _. path_at left x = None" x]
    by (simp add: c om_find_at case_prod_unfold split: option.split)
  show "path_at (modified (create_diff left right)) x =
      (if path_at right x \<noteq> None \<and> path_at right x \<noteq> path_at left x then path_at left x else None)"
    using om_at_filter [OF assms(1), of "\<lambda>x w. path_at right x \<noteq> None \<and> path_at right x \<noteq> Some w" x]
    by (auto simp: c om_find_at case_prod_unfold split: option.split)
  show "path_ok_map (removed (create_diff left right))" "path_ok_map (created (create_diff left right))"
      "path_ok_map (modified (create_diff left right))"
    using assms by (simp_all add: c om_ok_filter)
qed

lemma fold_mark_at:
  "path_ok_map m \<Longrightarrow> (\<forall>x \<in> om_keys path_key es. path_at m x = None) \<Longrightarrow>
    path_ok_map (fold (\<lambda>(p, _) g. mark g p t) es m) \<and>
    path_at (fold (\<lambda>(p, _) g. mark g p t) es m) x = (if x \<in> om_keys path_key es then Some t else path_at m x)"
proof (induction es rule: rev_induct)
  case (snoc e es)
  obtain p w where e: "e = (p, w)" by (cases e)
  define m' where "m' = fold (\<lambda>(p, _) g. mark g p t) es m"
  have IH: "path_ok_map m'" "path_at m' x = (if x \<in> om_keys path_key es then Some t else path_at m x)"
    using snoc by (simp_all add: m'_def)
  have "fold (\<lambda>(p, _) g. mark g p t) (es @ [e]) m = mark m' p t"
    by (simp add: m'_def e)
  then show ?case
    using IH snoc.prems by (auto simp: at_mark e later_def)
qed simp

lemma not_echo_at:
  fixes m :: file_map
  assumes "path_ok_map m"
  shows "path_at (om_erase_if (\<lambda>p _. is_echo written current p) m) x =
      (if path_at current x \<noteq> None \<and> path_at written x = path_at current x then None else path_at m x)"
proof -
  have eq: "(\<lambda>p (_ :: file_time). is_echo written current p) =
      (\<lambda>k. (\<lambda>x _. path_at current x \<noteq> None \<and> path_at written x = path_at current x) (path_key k))"
    by (simp add: fun_eq_iff is_echo_at)
  show ?thesis
    unfolding eq
    using om_at_erase_if [OF assms, of "\<lambda>x _. path_at current x \<noteq> None \<and> path_at written x = path_at current x" x]
    by (auto split: option.splits)
qed

lemma not_known_at:
  assumes "path_ok_map m"
  shows "path_at (om_erase_if (\<lambda>p _. path_find p g \<noteq> None) m) x = (if path_at g x \<noteq> None then None else path_at m x)"
  using om_at_erase_if [OF assms, of "\<lambda>x _. path_at g x \<noteq> None" x]
  by (simp add: om_find_at split: option.split)

lemma in_keys_iff: "x \<in> om_keys key m \<longleftrightarrow> om_at key m x \<noteq> None"
  by (simp add: om_at_None_iff)

lemma local_changes_at:
  assumes "maps_ok s" "path_ok_map current" "local_changes current noticed s = (d, s')"
  shows "path_at (created d) x = (if appears s current x then path_at current x else None)"
    and "path_at (modified d) x = (if moves s current x then path_at (former s) x else None)"
    and "path_at (removed d) x = (if goes s current x then path_at (former s) x else None)"
    and "path_at (tombstones s') x =
      (if goes s current x then Some noticed
       else if appears s current x \<or> moves s current x then None else path_at (tombstones s) x)"
    and "path_ok_map (created d)" "path_ok_map (modified d)" "path_ok_map (removed d)" "path_ok_map (tombstones s')"
    and "s' = s\<lparr>tombstones := tombstones s'\<rparr>"
proof -
  define d0 where "d0 = create_diff (former s) current"
  define f1 where "f1 = om_erase_if (\<lambda>p _. is_echo (seen_written s) current p) (created d0)"
  define f2 where "f2 = om_erase_if (\<lambda>p _. is_echo (seen_written s) current p) (modified d0)"
  define g1 where "g1 = snd (drop_losing current f1 (tombstones s))"
  define g2 where "g2 = snd (drop_losing current f2 g1)"
  define gone where "gone = om_erase_if (\<lambda>p _. path_find p g2 \<noteq> None) (removed d0)"
  have d: "created d = fst (drop_losing current f1 (tombstones s))" "modified d = fst (drop_losing current f2 g1)"
    "removed d = gone" "tombstones s' = fold (\<lambda>(p, _) g. mark g p noticed) gone g2"
    "s' = s\<lparr>tombstones := tombstones s'\<rparr>"
    using assms(3)
    by (auto simp: local_changes_def Let_def case_prod_beta d0_def f1_def f2_def g1_def g2_def gone_def)
  have ok0: "path_ok_map (former s)" "path_ok_map (tombstones s)"
    using assms(1) by (simp_all add: maps_ok_def)
  note c = create_diff_at [OF ok0(1) assms(2), folded d0_def]
  have ok: "path_ok_map f1" "path_ok_map f2" "path_ok_map g1" "path_ok_map g2" "path_ok_map gone"
    using c(4-6) ok0 by (simp_all add: f1_def f2_def g1_def g2_def gone_def om_ok_erase_if drop_losing_ok)
  have f: "path_at f1 y = (if echo_at s current y then None else path_at (created d0) y)"
    "path_at f2 y = (if echo_at s current y then None else path_at (modified d0) y)" for y
    using c(5,6) by (simp_all add: f1_def f2_def not_echo_at echo_at_def)
  have g: "path_at g1 y = (if path_at f1 y \<noteq> None \<and> \<not> dead_at current (tombstones s) y then None else path_at (tombstones s) y)"
    "path_at g2 y = (if path_at f2 y \<noteq> None \<and> \<not> dead_at current g1 y then None else path_at g1 y)" for y
    using drop_losing_graves [OF ok(1)] drop_losing_graves [OF ok(2)] by (simp_all add: g1_def g2_def in_keys_iff)
  have dead1: "dead_at current g1 y = dead_at current (tombstones s) y" if "path_at f2 y \<noteq> None" for y
  proof -
    have "path_at f1 y = None"
      using that by (auto simp: f c split: if_splits)
    then show ?thesis
      by (simp add: dead_at_def g)
  qed
  have gone_at: "path_at gone y = (if path_at g2 y \<noteq> None then None else path_at (removed d0) y)" for y
    by (simp only: gone_def not_known_at [OF c(4)])
  show "path_at (created d) x = (if appears s current x then path_at current x else None)"
    using drop_losing_at(1) [OF ok(1)] by (auto simp: d f c appears_def)
  show "path_at (modified d) x = (if moves s current x then path_at (former s) x else None)"
    using drop_losing_at(1) [OF ok(2)] dead1 [of x]
    by (cases "path_at (former s) x") (auto simp: d f c moves_def split: if_splits)
  have kept: "path_at g2 y = (if appears s current y \<or> moves s current y then None else path_at (tombstones s) y)" for y
    using dead1 [of y] by (auto simp: g f c appears_def moves_def split: if_splits)
  have gone_iff: "path_at gone y = (if goes s current y then path_at (former s) y else None)" for y
    by (auto simp: gone_at kept c goes_def appears_def moves_def)
  then show "path_at (removed d) x = (if goes s current x then path_at (former s) x else None)"
    by (simp add: d)
  have none: "\<forall>y \<in> om_keys path_key gone. path_at g2 y = None"
  proof
    fix y assume "y \<in> om_keys path_key gone"
    then have "path_at gone y \<noteq> None"
      by (simp only: in_keys_iff not_False_eq_True)
    then show "path_at g2 y = None"
      by (simp add: gone_at split: if_splits)
  qed
  have marks: "path_ok_map (tombstones s')" "path_at (tombstones s') x = (if x \<in> om_keys path_key gone then Some noticed else path_at g2 x)"
    using fold_mark_at [OF ok(4) none, of noticed x] by (simp_all add: d(4))
  then show "path_at (tombstones s') x =
      (if goes s current x then Some noticed
       else if appears s current x \<or> moves s current x then None else path_at (tombstones s) x)"
    by (auto simp: in_keys_iff gone_iff kept goes_def)
  show "path_ok_map (created d)" "path_ok_map (modified d)" "path_ok_map (removed d)" "path_ok_map (tombstones s')"
    using drop_losing_at(2) ok marks(1) by (simp_all add: d(1-3))
  show "s' = s\<lparr>tombstones := tombstones s'\<rparr>"
    by (rule d(5))
qed

lemma set_drop_losing: "set (fst (drop_losing current es graves)) \<subseteq> set es"
proof (induction es arbitrary: graves)
  case (Cons e es)
  have sub: "x \<in> set es" if "x \<in> set (fst (drop_losing current es g))" for x g
    using Cons.IH [of g] that by blast
  obtain p w where e: "e = (p, w)" by (cases e)
  show ?case
    unfolding e by (auto simp: case_prod_beta dest: sub split: option.splits)
qed simp

lemma set_erase_if: "set (om_erase_if bad m) \<subseteq> set m"
  by (auto simp: om_erase_if_def)

lemma local_changes_sub:
  assumes "maps_ok s" "path_ok_map current" "local_changes current noticed s = (d, s')"
  shows "set (created d) \<subseteq> set current" "set (modified d) \<subseteq> set (former s)" "set (removed d) \<subseteq> set (former s)"
proof -
  let ?d0 = "create_diff (former s) current"
  have "path_ok_map (former s)"
    using assms(1) by (simp add: maps_ok_def)
  then have c: "set (created ?d0) \<subseteq> set current" "set (modified ?d0) \<subseteq> set (former s)" "set (removed ?d0) \<subseteq> set (former s)"
    using change_of_listings [OF _ assms(2)] by auto
  obtain b1 b2 b3 g1 g2 where "created d = fst (drop_losing current (om_erase_if b1 (created ?d0)) g1)"
    "modified d = fst (drop_losing current (om_erase_if b2 (modified ?d0)) g2)"
    "removed d = om_erase_if b3 (removed ?d0)"
    using assms(3) by (auto simp: local_changes_def Let_def case_prod_beta)
  then show "set (created d) \<subseteq> set current" "set (modified d) \<subseteq> set (former s)" "set (removed d) \<subseteq> set (former s)"
    using c by (metis order_trans set_drop_losing set_erase_if)+
qed

lemma filtered_at:
  assumes "path_ok_map m"
  shows "path_at (filter (\<lambda>e. P (path_key (fst e))) m) x = (if P x then path_at m x else None)"
  using om_at_filter [OF assms, of "\<lambda>x _. P x" x] by (simp split: option.split)

lemma local_changes_lists:
  assumes "maps_ok s" "path_ok_map current" "local_changes current noticed s = (d, s')"
  shows "created d = filter (\<lambda>e. appears s current (path_key (fst e))) current"
    and "modified d = filter (\<lambda>e. moves s current (path_key (fst e))) (former s)"
    and "removed d = filter (\<lambda>e. goes s current (path_key (fst e))) (former s)"
proof -
  note at = local_changes_at [OF assms] and sub = local_changes_sub [OF assms]
  have ok: "path_ok_map (former s)"
    using assms(1) by (simp add: maps_ok_def)
  show "created d = filter (\<lambda>e. appears s current (path_key (fst e))) current"
    by (rule om_sub_ext [OF at(5) om_ok_filter [OF assms(2)] assms(2) sub(1)]) (simp_all add: at(1) filtered_at [OF assms(2)])
  show "modified d = filter (\<lambda>e. moves s current (path_key (fst e))) (former s)"
    by (rule om_sub_ext [OF at(6) om_ok_filter [OF ok] ok sub(2)]) (simp_all add: at(2) filtered_at [OF ok])
  show "removed d = filter (\<lambda>e. goes s current (path_key (fst e))) (former s)"
    by (rule om_sub_ext [OF at(7) om_ok_filter [OF ok] ok sub(3)]) (simp_all add: at(3) filtered_at [OF ok])
qed

section \<open>What goes out\<close>

definition create_of :: "libtorrent \<Rightarrow> node \<Rightarrow> string \<times> file_time \<Rightarrow> message list" where
  "create_of lib s e = (case on_disk s (fst e) of None \<Rightarrow> []
     | Some f \<Rightarrow> [Create (lt_encode lib (lexically_normal (fst e)) (df_bytes f)) (file_ticks (snd e)) (fst e)])"

lemma fold_publish_create:
  "fold (publish_create lib) es s = s\<lparr>sent := sent s @ concat (map (create_of lib s) es)\<rparr>"
proof (induction es arbitrary: s)
  case (Cons e es)
  have "publish_create lib e s = s\<lparr>sent := sent s @ create_of lib s e\<rparr>"
    by (simp add: publish_create_def create_of_def split: option.split)
  moreover have "create_of lib (s\<lparr>sent := ms\<rparr>) = create_of lib s" for ms
    by (simp add: create_of_def on_disk_def fun_eq_iff)
  ultimately show ?case
    by (simp add: Cons.IH)
qed simp

lemma fold_publish_remove:
  "fold (publish_remove sent_at) es s =
    s\<lparr>sent := sent s @ map (\<lambda>e. Remove (fst e) (to_ticks (sent_at (fst e)))) es\<rparr>"
  by (induction es arbitrary: s) (simp_all add: publish_remove_def)

lemma send_diff_sent:
  "send_diff lib sent_at d current s = s\<lparr>sent := sent s @
     map (\<lambda>e. Remove (fst e) (to_ticks (sent_at (fst e)))) (removed d) @
     concat (map (create_of lib s) (with_current current (created d))) @
     concat (map (create_of lib s) (with_current current (modified d)))\<rparr>"
proof -
  have "create_of lib (s\<lparr>sent := ms\<rparr>) = create_of lib s" for ms
    by (simp add: create_of_def on_disk_def fun_eq_iff)
  then show ?thesis
    by (simp add: send_diff_def fold_publish_create fold_publish_remove)
qed

lemma change_announced:
  assumes "maps_ok s" "path_ok_map current" "t = relist lib sent_at current noticed forgot_at s"
  shows "former t = current \<and>
    sent t = sent s @
      map (\<lambda>e. Remove (fst e) (to_ticks (sent_at (fst e)))) (filter (\<lambda>e. goes s current (path_key (fst e))) (former s)) @
      concat (map (create_of lib s) (filter (\<lambda>e. appears s current (path_key (fst e))) current)) @
      concat (map (create_of lib s)
        (with_current current (filter (\<lambda>e. moves s current (path_key (fst e))) (former s)))) \<and>
    (\<forall>x. path_at (tombstones t) x =
      (case if goes s current x then Some noticed
            else if appears s current x \<or> moves s current x then None else path_at (tombstones s) x of
         None \<Rightarrow> None | Some g \<Rightarrow> if ago forgot_at g > tombstone_ttl then None else Some g))"
proof -
  obtain d s' where l: "local_changes current noticed s = (d, s')" by fastforce
  note at = local_changes_at [OF assms(1,2) l] and ls = local_changes_lists [OF assms(1,2) l]
  have keep: "create_of lib s' = create_of lib s" "sent s' = sent s"
    by (subst at(9), simp add: create_of_def on_disk_def fun_eq_iff)+
  have "with_current current (created d) = created d"
  proof -
    have "path_at current (path_key (fst e)) = Some (snd e)" if "e \<in> set (created d)" for e
      using om_at_in [OF assms(2)] local_changes_sub(1) [OF assms(1,2) l] that by blast
    then show ?thesis
      by (simp add: with_current_def om_find_at case_prod_beta map_idI)
  qed
  moreover have "path_at (expire g forgot_at) x =
      (case path_at g x of None \<Rightarrow> None | Some t \<Rightarrow> if ago forgot_at t > tombstone_ttl then None else Some t)"
    if "path_ok_map g" for g x
    using om_at_erase_if [OF that, of "\<lambda>_ t. ago forgot_at t > tombstone_ttl" x] by (simp add: expire_def)
  ultimately show ?thesis
    using at(4,8) keep
    by (simp add: assms(3) relist_def l send_diff_sent forget_spent_marks_def ls)
qed

lemma relist_maps:
  assumes "maps_ok s" "path_ok_map current"
  shows "maps_ok (relist lib sent_at current noticed forgot_at s)"
proof -
  obtain d s' where l: "local_changes current noticed s = (d, s')" by fastforce
  show ?thesis
    using local_changes_at(8) [OF assms l] assms(2)
    by (simp add: relist_def l send_diff_sent forget_spent_marks_def maps_ok_def)
qed

text \<open>
  C6. When the monitor reports a change, the daemon announces every path that appeared or whose time moved,
  with the time it has now, and every path that went, once each and nothing else: not a file that still
  carries the write libtorrent gave it, not a path that is no newer than the deletion it remembers, and not
  a deletion it already knows. What it deleted itself it remembers from that moment, and a file that is no
  older than its deletion cancels it.
\<close>

theorem a_change_is_announced_once:
  assumes "maps_ok s" "path_ok_map current" "t = relist lib sent_at current noticed forgot_at s"
  shows "former t = current \<and>
    sent t = sent s @
      map (\<lambda>e. Remove (fst e) (to_ticks (sent_at (fst e)))) (filter (\<lambda>e. goes s current (path_key (fst e))) (former s)) @
      concat (map (create_of lib s) (filter (\<lambda>e. appears s current (path_key (fst e))) current)) @
      concat (map (create_of lib s)
        (with_current current (filter (\<lambda>e. moves s current (path_key (fst e))) (former s)))) \<and>
    (\<forall>x. path_at (tombstones t) x =
      (case if goes s current x then Some noticed
            else if appears s current x \<or> moves s current x then None else path_at (tombstones s) x of
         None \<Rightarrow> None | Some g \<Rightarrow> if ago forgot_at g > tombstone_ttl then None else Some g))"
  by (rule change_announced [OF assms])

lemma ab_keys:
  "path_key ''./a'' = (False, [''.'', ''a''])" "path_key ''./b'' = (False, [''.'', ''b''])"
  "path_key ''./c'' = (False, [''.'', ''c''])" "path_key ''./d'' = (False, [''.'', ''d''])"
  by (simp_all add: path_key_def elements_def names_of_def has_root_def ends_in_slash_def slash_def)

theorem a_change_is_announced_once_witness:
  "\<exists>t :: node. path_at (tombstones t) (path_key ''./b'') = Some (SysTime 5) \<and> sent t = [Remove ''./b'' 6]"
proof -
  let ?s = "node0\<lparr>former := [(''./a'', FileTime 1), (''./b'', FileTime 1)], seen_written := [(''./a'', FileTime 2)]\<rparr>"
  let ?c = "[(''./a'', FileTime 2)]"
  have "maps_ok ?s" "path_ok_map ?c"
    by (simp_all add: maps_ok_def node0_def ab_keys)
  from a_change_is_announced_once [OF this refl, of "\<lparr>lt_encode = (\<lambda>p b. b), lt_load = (\<lambda>_. None)\<rparr>" "\<lambda>_. SysTime 6" "SysTime 5" "SysTime 7"]
  show ?thesis
    by (intro exI [of _ "relist \<lparr>lt_encode = (\<lambda>p b. b), lt_load = (\<lambda>_. None)\<rparr> (\<lambda>_. SysTime 6) ?c (SysTime 5) (SysTime 7) ?s"])
      (simp add: node0_def goes_def appears_def moves_def echo_at_def om_at_Cons ab_keys with_current_def
        tombstone_ttl_def seconds_def)
qed

section \<open>A copy older than its deletion\<close>

fun hear_all :: "string \<Rightarrow> (node \<times> sys_time \<times> int) list \<Rightarrow> node \<Rightarrow> node" where
  "hear_all own [] s = s"
| "hear_all own ((a, now, steady) # ds) s =
     (case read_digest (digest_for own a) now steady s of (None, s') \<Rightarrow> hear_all own ds s' | (Some e, s') \<Rightarrow> s')"

lemma dead_copy_kept:
  assumes "maps_ok s" "replica_of s x = \<lparr>held_at = Some w, grave_at = Some t\<rparr>"
    and "\<forall>(a, now, steady) \<in> set ds.
      keys_ok a \<and> (case path_at (tombstones a) x of None \<Rightarrow> True | Some u \<Rightarrow> u \<le> t)"
  shows "replica_of (hear_all own ds s) x = \<lparr>held_at = Some w, grave_at = Some t\<rparr>"
  using assms
proof (induction ds arbitrary: s)
  case (Cons e ds)
  obtain a now steady where e: "e = (a, now, steady)" by (cases e)
  obtain x' s' where r: "read_digest (digest_for own a) now steady s = (x', s')" by fastforce
  have a: "keys_ok a" "case path_at (tombstones a) x of None \<Rightarrow> True | Some u \<Rightarrow> u \<le> t"
    using Cons.prems(3) e by auto
  then have "\<not> adopts now (replica_of a x) (replica_of s x)"
    using Cons.prems(2) by (auto simp: adopts_def replica_of_def split: option.splits)
  then have s': "maps_ok s'" "replica_of s' x = \<lparr>held_at = Some w, grave_at = Some t\<rparr>"
    using read_digest_keeps [OF a(1) Cons.prems(1), of s' own now steady] r Cons.prems(2) by simp_all
  then have "replica_of (hear_all own ds s') x = \<lparr>held_at = Some w, grave_at = Some t\<rparr>"
    by (rule Cons.IH) (use Cons.prems(3) in auto)
  then show ?case
    using s' by (simp add: e r split: option.split)
qed simp

text \<open>
  C25. A file put back with a time older than the deletion this node remembers is not announced, and no digest
  of a peer that remembers no later deletion ever takes it away or asks for it: it stays in the listing and
  so in the root hash, and the node differs from every peer without it for as long as the deletion is
  remembered. (SPEC.md V37 has the peers repair such a file away.)
\<close>

theorem a_dead_copy_stays:
  assumes "maps_ok s" "path_ok_map current" "path_at current x = Some w"
    and "path_at (tombstones s) x = Some t" "beats t w" "\<not> ago forgot_at t > tombstone_ttl"
    and "s1 = relist lib sent_at current noticed forgot_at s"
    and "\<forall>(a, now, steady) \<in> set ds.
      keys_ok a \<and> (case path_at (tombstones a) x of None \<Rightarrow> True | Some u \<Rightarrow> u \<le> t)"
    and "s2 = hear_all own ds s1"
  shows "\<not> appears s current x \<and> \<not> moves s current x \<and> \<not> goes s current x \<and>
    path_at (former s2) x = Some w \<and> path_at (tombstones s2) x = Some t \<and>
    \<not> owes (replica_of s2 x) r \<and> (\<forall>a :: node. path_at (former a) x = None \<longrightarrow> former a \<noteq> former s2)"
proof -
  note c = change_announced [OF assms(1,2,7)]
  note graves = c [THEN conjunct2, THEN conjunct2, rule_format, of x]
  have still: "\<not> appears s current x" "\<not> moves s current x" "\<not> goes s current x"
    using assms(3-5) by (simp_all add: appears_def moves_def goes_def dead_at_def)
  then have "replica_of s1 x = \<lparr>held_at = Some w, grave_at = Some t\<rparr>"
    using c graves assms(3,4,6) by (simp add: replica_of_def)
  moreover have "maps_ok s1"
    using assms(1,2) relist_maps by (simp add: assms(7))
  ultimately have r: "replica_of s2 x = \<lparr>held_at = Some w, grave_at = Some t\<rparr>"
    using dead_copy_kept assms(8) by (simp add: assms(9))
  then have "path_at (former s2) x = Some w" "path_at (tombstones s2) x = Some t"
    by (simp_all add: replica_of_def)
  moreover have "\<not> owes (replica_of s2 x) r"
    using assms(5) by (simp add: r owes_def)
  ultimately show ?thesis
    using still by auto
qed

theorem a_dead_copy_stays_witness:
  "\<exists>s2 :: node. path_at (former s2) (path_key ''./a'') = Some (to_file_time (SysTime 3)) \<and>
    path_at (tombstones s2) (path_key ''./a'') = Some (SysTime 5) \<and> former node0 \<noteq> former s2"
proof -
  let ?s = "node0\<lparr>tombstones := [(''./a'', SysTime 5)]\<rparr>" and ?c = "[(''./a'', to_file_time (SysTime 3))]"
  have s: "keys_ok ?s" "maps_ok ?s" "path_ok_map ?c" "path_at ?c (path_key ''./a'') = Some (to_file_time (SysTime 3))"
    "path_at (tombstones ?s) (path_key ''./a'') = Some (SysTime 5)" "beats (SysTime 5) (to_file_time (SysTime 3))"
    "\<not> ago (SysTime 7) (SysTime 5) > tombstone_ttl"
    by (simp_all add: keys_ok_def maps_ok_def digest_keys_def node0_def tombstone_ttl_def seconds_def beats_def
        file_ticks_def om_at_Cons)
  have ds: "\<forall>(a, now :: sys_time, steady :: int) \<in> set [(?s, SysTime 7, 0)].
      keys_ok a \<and> (case path_at (tombstones a) (path_key ''./a'') of None \<Rightarrow> True | Some u \<Rightarrow> u \<le> SysTime 5)"
    using s(1,5) by simp
  note r = a_dead_copy_stays [where ds = "[(?s, SysTime 7, 0)]" and own = "''a''" and lib = "\<lparr>lt_encode = (\<lambda>p b. b), lt_load = (\<lambda>_. None)\<rparr>"
      and sent_at = "\<lambda>_. SysTime 6" and noticed = "SysTime 6", OF s(2-7) refl ds refl]
  have "path_at (former node0) (path_key ''./a'') = None"
    by (simp add: node0_def)
  then show ?thesis
    using r by blast
qed

section \<open>A remove\<close>

lemma a_normal: "lexically_normal ''./a'' = ''a''"
  by (simp add: lexically_normal_def names_of_def has_root_def ends_in_slash_def slash_def)

lemma act_remove:
  "act lib (remove_message p ticks) s =
    (Inr (plain_outcome ''remove''),
     (erased s p)\<lparr>tombstones := mark (tombstones s) p (from_ticks (str_of_int ticks))\<rparr>)"
  if "\<not> remove_throws (disk s) p"
  using that by (simp add: act_def remove_message_def judge_def parts_for_def verbs_def removed_path_def erase_def)

text \<open>
  C26. A remove takes away whatever copy is there: the file and its torrents go without their time being looked
  at, even where the file was written after the deletion; and the change on disk that follows is not
  announced, so if nobody else has that newer copy it is lost. (The header of the reconciliation has a
  deletion beat a file only if it is strictly newer.)
\<close>

theorem a_remove_takes_a_newer_file:
  assumes "maps_ok s" "on_disk s p = Some f" "\<not> remove_throws (disk s) p" "\<not> beats t (df_time f)"
    and "(r, s1) = act lib (remove_message p (to_ticks t)) s"
    and "path_ok_map current" "path_at current (path_key p) = None"
    and "s2 = relist lib sent_at current noticed forgot_at s1"
  shows "r = Inr (plain_outcome ''remove'') \<and> on_disk s1 p = None \<and> torrents_at s1 p = [] \<and>
    path_find p (tombstones s1) = Some (later (path_find p (tombstones s)) t) \<and>
    \<not> goes s1 current (path_key p) \<and> path_find p (former s2) = None"
proof -
  have s1: "r = Inr (plain_outcome ''remove'')" "s1 = (erased s p)\<lparr>tombstones := mark (tombstones s) p t\<rparr>"
    using assms(5) by (simp_all add: act_remove [OF assms(3)])
  have "path_find p (tombstones s1) = Some (later (path_find p (tombstones s)) t)"
    using assms(1) by (simp add: s1 find_mark maps_ok_def)
  moreover from this have "\<not> goes s1 current (path_key p)"
    by (simp add: goes_def om_find_at)
  moreover have "maps_ok s1"
    using assms(1) by (simp add: s1 maps_ok_def)
  then have "former s2 = current"
    using change_announced [OF _ assms(6,8)] by blast
  ultimately show ?thesis
    using assms(7) by (simp add: s1 on_disk_def torrents_at_def erased_def drop_torrents_def om_at_erase om_find_at filter_empty_conv)
qed

theorem a_remove_takes_a_newer_file_witness:
  "\<exists>s1 :: node. on_disk s1 ''./a'' = None \<and> path_find ''./a'' (tombstones s1) = Some (SysTime 5) \<and>
    \<not> goes s1 [] (path_key ''./a'')"
proof -
  let ?lib = "\<lparr>lt_encode = (\<lambda>p b. b), lt_load = (\<lambda>_. None)\<rparr>"
  let ?s = "node0\<lparr>disk := [(''./a'', \<lparr>df_time = to_file_time (SysTime 9), df_bytes = ''new''\<rparr>)],
      former := [(''./a'', to_file_time (SysTime 9))]\<rparr>"
  let ?x = "act ?lib (remove_message ''./a'' (to_ticks (SysTime 5))) ?s"
  have "maps_ok ?s" "on_disk ?s ''./a'' = Some \<lparr>df_time = to_file_time (SysTime 9), df_bytes = ''new''\<rparr>"
    "\<not> remove_throws (disk ?s) ''./a''"
    "\<not> beats (SysTime 5) (df_time \<lparr>df_time = to_file_time (SysTime 9), df_bytes = ''new''\<rparr>)" "(fst ?x, snd ?x) = ?x"
    by (simp_all add: maps_ok_def node0_def on_disk_def beats_def file_ticks_def remove_throws_def below_def a_normal)
  from a_remove_takes_a_newer_file [OF this, of "[]" _ undefined undefined undefined]
  have "on_disk (snd ?x) ''./a'' = None \<and> path_find ''./a'' (tombstones (snd ?x)) = Some (later (path_find ''./a'' (tombstones ?s)) (SysTime 5)) \<and>
      \<not> goes (snd ?x) [] (path_key ''./a'')"
    by simp
  moreover have "path_find ''./a'' (tombstones ?s) = None"
    by (simp add: node0_def)
  ultimately show ?thesis
    by (intro exI [of _ "snd ?x"]) (simp add: later_def)
qed

end
