(* ===== verification/Repair.thy ===== *)
theory Repair
  imports Changes
begin

text \<open>
  What becomes of a digest and of a create (\<open>src/protocol.cpp\<close>: \<open>act\<close>, \<open>wins\<close>; \<open>src/syncfs.cpp\<close>:
  \<open>read_digest\<close>, \<open>receive_one\<close>, \<open>stamp_and_remember\<close>): the handlers refine the replica of \<open>Exchange\<close>.
\<close>

section \<open>Digests\<close>

lemma waiting_adopt_one: "waiting (adopt_one e s) = filter (\<lambda>x. x \<in> set (waiting (adopt_one e s))) (waiting s)"
proof (cases "path_find (fst e) (former s) = None")
  case True
  then have "waiting (adopt_one e s) = waiting s"
    by (simp add: adopt_one_def)
  then show ?thesis
    by (simp add: filter_id_conv)
next
  case False
  then show ?thesis
    by (auto simp: adopt_one_def Let_def forget_def om_erase_def intro!: filter_cong)
qed

lemma waiting_fold_adopt:
  "path_ok_map (waiting s) \<Longrightarrow> spaced (waiting s) \<Longrightarrow>
    path_ok_map (waiting (fold adopt_one es s)) \<and> spaced (waiting (fold adopt_one es s))"
proof (induction es arbitrary: s)
  case (Cons e es)
  have "path_ok_map (waiting (adopt_one e s))" "spaced (waiting (adopt_one e s))"
    using Cons.prems by (metis waiting_adopt_one om_ok_filter spaced_filter)+
  then show ?case
    using Cons.IH by simp
qed simp

text \<open>
  C7. Where no path it deletes has become a directory with files in it, reading a peer's digest returns and does
  at every path what the replica of that path asks for: it takes on the peer's deletion where that is news, in
  force and later than the copy here, and then the path leaves the listing; nothing else changes; and every
  file the peer lacks or has an older copy of is waiting to be repaired afterwards.
\<close>

theorem a_digest_is_heard:
  assumes "keys_ok a" "maps_ok s" "path_ok_map (waiting s)" "spaced (waiting s)"
    and "removable (tombstones a) s" "(e, t) = read_digest (digest_for target a) now steady s"
  shows "e = None \<and> replica_of t x = hear now (replica_of a x) (replica_of s x) \<and>
    (owes (replica_of t x) (replica_of a x) \<longrightarrow> path_at (waiting t) x \<noteq> None) \<and> spaced (waiting t)"
proof -
  define s1 where "s1 = fold adopt_one (adoptable (tombstones a) (former s) (tombstones s) now) s"
  define missing where "missing = gaps (former s1) (tombstones s1) (former a)"
  have t: "e = None" "t = (if missing \<noteq> [] then s1\<lparr>waiting := arm_missing (waiting s1) missing steady\<rparr> else s1)"
    using assms(6) by (simp_all add: read_digest_for [OF assms(1,5)] s1_def missing_def answer_gaps_def)
  then have r: "replica_of t = replica_of s1"
    by simp
  have ok: "path_ok_map (waiting s1)" "spaced (waiting s1)"
    using waiting_fold_adopt [OF assms(3,4)] by (simp_all add: s1_def)
  note o = arm_opens [OF ok, of steady]
  have "spaced (waiting t)"
    using open_from_arm [OF o, of missing] ok by (simp add: t arm_missing_def)
  moreover have "path_at (waiting t) x \<noteq> None" if "owes (replica_of t x) (replica_of a x)"
  proof -
    have "path_ok_map (former s1)"
      using fold_adopt_maps [OF assms(2)] by (simp add: s1_def maps_ok_def)
    then have "x \<in> path_key ` set missing"
      using gap_keys [of s1 x "former a" "path_at (tombstones a) x"] that r by (simp add: missing_def replica_of_def)
    then obtain p where p: "p \<in> set missing" "x = path_key p"
      by blast
    have "path_find p (arm_missing (waiting s1) missing steady) \<noteq> None"
      using arm_from_new [OF o p(1)] arm_from_old [OF o, of p] by (cases "path_find p (waiting s1)") (auto simp: arm_missing_def)
    then show ?thesis
      using p by (auto simp: t om_find_at)
  qed
  ultimately show ?thesis
    using read_digest_replica [OF assms(1,2,5), of target now steady x] t(1) by (simp add: assms(6) [symmetric])
qed

theorem a_digest_is_heard_witness:
  "\<exists>t :: node. path_at (former t) (path_key ''./a'') = None \<and> path_at (tombstones t) (path_key ''./a'') = Some (SysTime 5) \<and>
    path_at (waiting t) (path_key ''./b'') \<noteq> None"
proof -
  let ?a = "node0\<lparr>tombstones := [(''./a'', SysTime 5)]\<rparr>"
  let ?s = "node0\<lparr>former := [(''./a'', to_file_time (SysTime 3)), (''./b'', to_file_time (SysTime 4))]\<rparr>"
  obtain e t where t: "(e, t) = read_digest (digest_for ''x'' ?a) (SysTime 7) 0 ?s"
    by (metis surj_pair)
  have ok: "keys_ok ?a" "maps_ok ?s" "path_ok_map (waiting ?s)" "spaced (waiting ?s)" "removable (tombstones ?a) ?s"
    by (simp_all add: keys_ok_def maps_ok_def digest_keys_def node0_def spaced_def ab_keys removable_def remove_throws_def a_normal)
  have "replica_of t (path_key ''./a'') = \<lparr>held_at = None, grave_at = Some (SysTime 5)\<rparr>"
    using a_digest_is_heard [OF ok t, of "path_key ''./a''"]
    by (simp add: replica_of_def node0_def om_at_Cons hear_def adopts_def beats_def file_ticks_def tombstone_ttl_def seconds_def)
  moreover have "path_at (waiting t) (path_key ''./b'') \<noteq> None"
    using a_digest_is_heard [OF ok t, of "path_key ''./b''"]
    by (simp add: replica_of_def node0_def om_at_Cons hear_def adopts_def owes_def ab_keys)
  ultimately show ?thesis
    by (intro exI [of _ t]) (simp add: replica_of_def)
qed

section \<open>Two creates of one path\<close>

text \<open>
  Two nodes that hold different contents of a path under the same time, and know which announcements they
  came from, settle it one way: of the two announcements exactly one is applied by the other side, the one
  with the lower hash, so the two never swap copies.
\<close>

theorem a_tie_settles_one_way:
  assumes "last_write_time a p = Some w" "last_write_time b p = Some w"
    and "path_find p (applied a) = Some \<lparr>app_origin = w, app_content = ha\<rparr>"
    and "path_find p (applied b) = Some \<lparr>app_origin = w, app_content = hb\<rparr>" and "ha \<noteq> hb"
  shows "(wins a p w hb \<longleftrightarrow> \<not> wins b p w ha) \<and> (wins a p w hb \<longleftrightarrow> hb < ha)"
  using assms by (auto simp: wins_def wins_at_def)

theorem a_tie_settles_one_way_witness:
  "\<exists>a b :: node. wins a ''./a'' (FileTime 3) ''h1'' \<and> \<not> wins b ''./a'' (FileTime 3) ''h2''"
proof -
  let ?n = "\<lambda>h. node0\<lparr>disk := [(''./a'', \<lparr>df_time = FileTime 3, df_bytes = h\<rparr>)],
      applied := [(''./a'', \<lparr>app_origin = FileTime 3, app_content = h\<rparr>)]\<rparr>"
  have "last_write_time (?n h) ''./a'' = Some (FileTime 3)"
    "path_find ''./a'' (applied (?n h)) = Some \<lparr>app_origin = FileTime 3, app_content = h\<rparr>" for h
    by (simp_all add: last_write_time_def on_disk_def)
  then have "(wins (?n ''h2'') ''./a'' (FileTime 3) ''h1'' \<longleftrightarrow> \<not> wins (?n ''h1'') ''./a'' (FileTime 3) ''h2'') \<and>
      (wins (?n ''h2'') ''./a'' (FileTime 3) ''h1'' \<longleftrightarrow> ''h1'' < ''h2'')"
    by (intro a_tie_settles_one_way) simp_all
  moreover have "''h1'' < ''h2''"
    by (simp add: less_char_def)
  ultimately show ?thesis
    by blast
qed

section \<open>A create that wins, and the file it brings\<close>

text \<open>The disk is in order: its paths are those of a listing.\<close>

definition disk_ok :: "node \<Rightarrow> bool" where
  "disk_ok s \<longleftrightarrow> path_ok_map (disk s) \<and> listed_keys (disk s)"

lemma find_by_place:
  assumes "listed_keys m" "listing_key p"
  shows "om_find lexically_normal p m = path_find p m"
  using assms(1)
proof (induction m)
  case (Cons e m)
  obtain k v where e: "e = (k, v)" by (cases e)
  have "listing_key k" "listed_keys m"
    using Cons.prems e by (simp_all add: listed_keys_def)
  then show ?case
    using Cons.IH e lexically_normal_inj [OF _ assms(2)] listing_key_inj [OF _ assms(2)] by auto
qed simp

text \<open>The torrent's file is written: libtorrent puts it where the torrent says, with the clock of this side.\<close>

definition arrive :: "string \<Rightarrow> disk_file \<Rightarrow> node \<Rightarrow> node" where
  "arrive p f s = s\<lparr>disk := om_assign path_key p f (disk s)\<rparr>"

lemma write_time_arrive:
  assumes "disk_ok s" "listing_key p"
  shows "last_write_time (arrive p f s) p = Some (df_time f)"
  using assms listed_assign [of "disk s" p f]
  by (simp add: last_write_time_def on_disk_def arrive_def disk_ok_def find_by_place om_find_assign)

lemma find_set_time:
  fixes m :: "(string, disk_file) cppmap"
  shows "om_find lexically_normal p (map (\<lambda>(q, f). if lexically_normal q = lexically_normal p then (q, f\<lparr>df_time := w\<rparr>) else (q, f)) m)
    = map_option (\<lambda>f. f\<lparr>df_time := w\<rparr>) (om_find lexically_normal p m)"
  by (induction m) auto

lemma write_time_set: "last_write_time s p = Some t \<Longrightarrow> last_write_time (set_disk_time True p w s) p = Some w"
  by (auto simp: last_write_time_def on_disk_def set_disk_time_def find_set_time)

lemma stamp_lands:
  assumes "last_write_time s p = Some t" "\<not> t > written_by" "path_find p (origins s) = Some w"
    and "s' = stamp_and_remember True p written_by s"
  shows "former s' = om_assign path_key p w (former s)" "seen_written s' = om_assign path_key p w (seen_written s)"
    "tombstones s' = tombstones s" "last_write_time s' p = Some w" "path_find p (origins s') = None"
proof -
  let ?s1 = "(set_disk_time True p w s)\<lparr>origins := om_erase path_key p (origins s)\<rparr>"
  have l: "last_write_time ?s1 p = Some w"
    using write_time_set [OF assms(1)] by (simp add: last_write_time_def on_disk_def)
  have s': "s' = ?s1\<lparr>seen_written := om_assign path_key p w (seen_written ?s1), former := om_assign path_key p w (former ?s1)\<rparr>"
    using assms(1-3) l by (simp add: assms(4) stamp_and_remember_def Let_def)
  show "former s' = om_assign path_key p w (former s)" "seen_written s' = om_assign path_key p w (seen_written s)"
    "tombstones s' = tombstones s" "path_find p (origins s') = None"
    by (simp_all add: s' set_disk_time_def om_find_erase)
  show "last_write_time s' p = Some w"
    using l by (simp add: s' last_write_time_def on_disk_def)
qed

lemma judge_create: "judge (create_message torrent ticks p) = Inr ''create''"
  by (simp add: create_message_def judge_def parts_for_def verbs_def)

lemma removed_path_create: "removed_path (create_message torrent ticks p) = None"
  by (simp add: create_message_def removed_path_def)

lemma create_parts:
  "create_message torrent ticks p ! Suc 0 = torrent" "create_message torrent ticks p ! 1 = torrent"
  "create_message torrent ticks p ! 2 = str_of_int ticks" "create_message torrent ticks p ! 3 = p"
  by (simp_all add: create_message_def numeral_2_eq_2 numeral_3_eq_3)

definition holds_content :: "node \<Rightarrow> string \<Rightarrow> string \<Rightarrow> bool" where
  "holds_content s p content \<longleftrightarrow> list_ex (\<lambda>t. tor_content t = content) (torrents_at s p)"

lemma wins_tombstones [simp]: "wins (s\<lparr>tombstones := g\<rparr>) = wins s"
proof -
  have "last_write_time (s\<lparr>tombstones := g\<rparr>) = last_write_time s" "applied (s\<lparr>tombstones := g\<rparr>) = applied s"
    by (simp_all add: last_write_time_def on_disk_def fun_eq_iff)
  then show ?thesis
    by (simp only: wins_def [abs_def] wins_at_def)
qed

lemma act_create_wins:
  assumes "\<not> (case path_find p (tombstones s) of None \<Rightarrow> False | Some g \<Rightarrow> beats g w)"
    and "lt_load lib torrent = Some (tl_path, content)" "wins s p w content"
  obtains ses where "act lib (create_message torrent (file_ticks w) p) s =
    (Inr \<lparr>oc_verb = ''create'', oc_created = Some p, oc_origin = w, oc_content = content, oc_held = holds_content s p content\<rparr>,
     s\<lparr>tombstones := om_erase path_key p (tombstones s), session := ses\<rparr>)"
proof -
  let ?s1 = "s\<lparr>tombstones := om_erase path_key p (tombstones s)\<rparr>"
  obtain s2 where s2: "s2 = snd (remove_stale_torrents ?s1 p content)" by blast
  let ?s3 = "add_torrent s2 (joined_place (save_path_for p tl_path) tl_path) content"
  have "act lib (create_message torrent (file_ticks w) p) s =
    (Inr \<lparr>oc_verb = ''create'', oc_created = Some p, oc_origin = w, oc_content = content, oc_held = holds_content s p content\<rparr>, ?s3)"
    using assms
    by (simp add: act_def judge_create removed_path_create act_create_def create_parts Let_def s2
        remove_stale_torrents_def holds_content_def torrents_at_def)
  moreover have "?s3 = ?s1\<lparr>session := session ?s3\<rparr>"
    by (simp add: s2 add_torrent_def remove_stale_torrents_def)
  ultimately show thesis
    by (intro that [of "session ?s3"]) simp
qed

lemma gap_wins:
  assumes "last_write_time s p = path_find p (former s)"
    and "owes \<lparr>held_at = Some w, grave_at = g\<rparr> (replica_of s (path_key p))"
  shows "wins s p w content"
  using assms by (auto simp: wins_def wins_at_def owes_def replica_of_def om_find_at split: option.splits)

lemma repair_lands:
  assumes "maps_ok s" "path_ok_map (seen_written s)" "path_ok_map (origins s)" "disk_ok s" "listing_key p"
    and "last_write_time s p = path_find p (former s)"
    and "owes \<lparr>held_at = Some w, grave_at = g\<rparr> (replica_of s (path_key p))"
    and "\<not> (case path_find p (tombstones s) of None \<Rightarrow> False | Some d \<Rightarrow> beats d w)"
    and "lt_load lib torrent = Some (tl_path, content)"
    and "(r, s1) = receive_one lib True own now steady (Some (create_message torrent (file_ticks w) p)) s"
    and "holds_content s p content \<Longrightarrow> \<exists>u. path_find p (former s) = Some u \<and> u \<le> w"
    and "df_time f \<le> written_by"
    and "landed = (if holds_content s p content then s1 else stamp_and_remember True p written_by (arrive p f s1))"
  shows "r = None \<and> replica_of landed (path_key p) = \<lparr>held_at = Some w, grave_at = None\<rparr> \<and>
    last_write_time landed p = Some w \<and> path_find p (seen_written landed) = Some w \<and>
    path_find p (waiting landed) = None \<and> path_find p (origins landed) = None \<and>
    (\<forall>x. x \<noteq> path_key p \<longrightarrow> replica_of landed x = replica_of s x)"
proof -
  obtain ses where act: "act lib (create_message torrent (file_ticks w) p) s =
    (Inr \<lparr>oc_verb = ''create'', oc_created = Some p, oc_origin = w, oc_content = content, oc_held = holds_content s p content\<rparr>,
     s\<lparr>tombstones := om_erase path_key p (tombstones s), session := ses\<rparr>)"
    using act_create_wins [OF assms(8,9) gap_wins [OF assms(6,7)]] .
  define s0 where "s0 = s\<lparr>tombstones := om_erase path_key p (tombstones s), session := ses,
      origins := om_assign path_key p w (origins s)\<rparr>"
  define s2 where "s2 = (if holds_content s p content then stamp_and_remember True p w s0 else s0)"
  have r: "r = None" and s1: "s1 = s2\<lparr>announcements := om_assign path_key p torrent (announcements s2),
      applied := om_assign path_key p \<lparr>app_origin = w, app_content = content\<rparr> (applied s2),
      waiting := om_erase path_key p (waiting s2)\<rparr>"
    using assms(10)
    by (simp_all add: receive_one_def act removed_path_create note_created_def Let_def s0_def s2_def
        reconcile_message_def create_parts)
  have origin: "path_find p (origins s0) = Some w"
    using assms(3) by (simp add: s0_def om_find_assign)
  have key: "replica_of s' (path_key p) = \<lparr>held_at = Some w, grave_at = None\<rparr> \<and> path_find p (seen_written s') = Some w \<and>
      (\<forall>x. x \<noteq> path_key p \<longrightarrow> replica_of s' x = replica_of s x)"
    if "former s' = om_assign path_key p w (former s)" "seen_written s' = om_assign path_key p w (seen_written s)"
      "tombstones s' = om_erase path_key p (tombstones s)" for s' :: node
    using assms(1,2) that by (auto simp: replica_of_def maps_ok_def om_at_assign om_at_erase om_find_assign)
  show ?thesis
  proof (cases "holds_content s p content")
    case True
    then obtain u where u: "last_write_time s0 p = Some u" "\<not> u > w"
      using assms(6,11) by (auto simp: s0_def last_write_time_def on_disk_def)
    have landed: "landed = s1" "s2 = stamp_and_remember True p w s0"
      using True assms(13) by (simp_all add: s2_def)
    note st = stamp_lands [OF u origin landed(2)]
    have "replica_of s2 = replica_of s1" "last_write_time s1 p = last_write_time s2 p" "seen_written s1 = seen_written s2"
      "origins s1 = origins s2" "path_find p (waiting s1) = None"
      by (simp_all add: s1 replica_of_def last_write_time_def on_disk_def fun_eq_iff om_find_erase)
    then show ?thesis
      using r st key [of s2] by (simp add: landed(1) s0_def)
  next
    case False
    define s3 where "s3 = arrive p f s1"
    have landed: "landed = stamp_and_remember True p written_by s3" and s2: "s2 = s0"
      using False assms(13) by (simp_all add: s2_def s3_def)
    have "disk_ok s1"
      using assms(4) by (simp add: s1 s2 s0_def disk_ok_def)
    then have w: "last_write_time s3 p = Some (df_time f)" "\<not> df_time f > written_by"
      using write_time_arrive assms(5,12) by (simp_all add: s3_def)
    have "path_find p (origins s3) = Some w"
      using origin by (simp add: s3_def arrive_def s1 s2)
    note st = stamp_lands [OF w this landed]
    have "waiting landed = waiting s3"
      by (simp add: landed stamp_and_remember_def set_disk_time_def Let_def split: option.splits)
    moreover have "path_find p (waiting s3) = None"
      by (simp add: s3_def arrive_def s1 om_find_erase)
    ultimately show ?thesis
      using r st key [of landed] by (simp add: s3_def arrive_def s1 s2 s0_def)
  qed
qed

text \<open>
  C10. A repair lands. Where the disk is what the listing says, a create that a peer owes this node, and that no
  deletion known here beats, is applied, never mind what its torrent was called; once its file has arrived and
  been flushed, or at once where the session has that content already, the file carries the time of its
  origin, on disk and in the listing, the deletion is forgotten, the write is remembered as libtorrent's own,
  and no repair of the path is waiting; other paths are as they were.
\<close>

theorem a_repair_lands:
  assumes "maps_ok s" "path_ok_map (seen_written s)" "path_ok_map (origins s)" "disk_ok s" "listing_key p"
    and "last_write_time s p = path_find p (former s)"
    and "owes \<lparr>held_at = Some w, grave_at = g\<rparr> (replica_of s (path_key p))"
    and "\<not> (case path_find p (tombstones s) of None \<Rightarrow> False | Some d \<Rightarrow> beats d w)"
    and "lt_load lib torrent = Some (tl_path, content)"
    and "(r, s1) = receive_one lib True own now steady (Some (create_message torrent (file_ticks w) p)) s"
    and "holds_content s p content \<Longrightarrow> \<exists>u. path_find p (former s) = Some u \<and> u \<le> w"
    and "df_time f \<le> written_by"
    and "landed = (if holds_content s p content then s1 else stamp_and_remember True p written_by (arrive p f s1))"
  shows "r = None \<and> replica_of landed (path_key p) = \<lparr>held_at = Some w, grave_at = None\<rparr> \<and>
    last_write_time landed p = Some w \<and> path_find p (seen_written landed) = Some w \<and>
    path_find p (waiting landed) = None \<and> path_find p (origins landed) = None \<and>
    (\<forall>x. x \<noteq> path_key p \<longrightarrow> replica_of landed x = replica_of s x)"
  by (rule repair_lands [OF assms])

theorem a_repair_lands_witness:
  "\<exists>landed :: node. replica_of landed (path_key ''./a'') = \<lparr>held_at = Some (FileTime 7), grave_at = None\<rparr> \<and>
    last_write_time landed ''./a'' = Some (FileTime 7)"
proof -
  let ?lib = "\<lparr>lt_encode = (\<lambda>p b. b), lt_load = (\<lambda>b. Some (''a'', b))\<rparr>"
  let ?f = "\<lparr>df_time = FileTime 8, df_bytes = ''t''\<rparr>"
  obtain r s1 where x: "(r, s1) = receive_one ?lib True ''me'' (SysTime 0) 0 (Some (create_message ''t'' (file_ticks (FileTime 7)) ''./a'')) node0"
    by (metis surj_pair)
  have listing: "listing_key ''./a''"
    using listing_key1 [of "''a''"] by (simp add: plain_name_def slash_def)
  have empty: "maps_ok node0" "path_ok_map (seen_written node0)" "path_ok_map (origins node0)" "disk_ok node0"
    by (simp_all add: node0_def maps_ok_def disk_ok_def listed_keys_def)
  have new: "last_write_time node0 ''./a'' = path_find ''./a'' (former node0)"
    "owes \<lparr>held_at = Some (FileTime 7), grave_at = None\<rparr> (replica_of node0 (path_key ''./a''))"
    "\<not> (case path_find ''./a'' (tombstones node0) of None \<Rightarrow> False | Some d \<Rightarrow> beats d (FileTime 7))"
    by (simp_all add: node0_def last_write_time_def on_disk_def owes_def replica_of_def)
  have load: "lt_load ?lib ''t'' = Some (''a'', ''t'')" and lacks: "\<not> holds_content node0 ''./a'' ''t''"
    by (simp_all add: holds_content_def torrents_at_def node0_def)
  have time: "df_time ?f \<le> FileTime 9"
    by (simp add: less_eq_file_time_def)
  show ?thesis
    using a_repair_lands [OF empty listing new load x _ time refl] lacks by blast
qed

end
