(* ===== verification/SyncLoop.thy ===== *)
theory SyncLoop
  imports Repair Statistics
begin

text \<open>
  The loop of the daemon (\<open>src/syncfs.cpp\<close>: \<open>drain_alerts\<close>, \<open>all_settled\<close>, \<open>sync_loop\<close>; \<open>src/files.cpp\<close>:
  \<open>list\<close>; \<open>src/protocol.cpp\<close>: \<open>held_path\<close>). What the calls into the kernel, the sockets and libtorrent answer
  in one turn is a record; a run is a sequence of turns, between which the disk is written by others. The
  lemmas show what every reachable state satisfies and how the rounds are timed.
\<close>

section \<open>The listing\<close>

text \<open>What a walk says of an entry; a question that fails has no answer. A walk ends at its first error.\<close>

record dir_entry =
  de_path :: string
  de_regular :: "bool option"
  de_symlink :: "bool option"
  de_time :: "file_time option"

definition list_filter :: "dir_entry \<Rightarrow> bool" where
  "list_filter e \<longleftrightarrow> de_regular e = Some True \<and> de_symlink e = Some False \<and> de_time e \<noteq> None"

definition files_list :: "dir_entry list \<Rightarrow> file_map" where
  "files_list walk = fold (\<lambda>e m. om_emplace path_key (de_path e) (the (de_time e)) m) (filter list_filter walk) []"

section \<open>Alerts\<close>

text \<open>A handle names its torrent by the info hash and is valid while the session has it.\<close>

datatype alert =
    TorrentFinished string
  | CacheFlushed string int
  | OtherAlert

definition handle_torrent :: "node \<Rightarrow> string \<Rightarrow> lt_torrent option" where
  "handle_torrent s h = find (\<lambda>t. tor_content t = h) (session s)"

definition held_path :: "lt_torrent \<Rightarrow> string" where
  "held_path t = (if has_root (tor_at t) then tor_at t else ''.'' @ [slash] @ tor_at t)"

fun alert_time :: "sys_time \<Rightarrow> int \<Rightarrow> file_time" where
  "alert_time (SysTime now) age = to_file_time (SysTime (now - word_of_int age))"

text \<open>Each alert comes with the time it is read at and whether its stamp works; the answer is the flushes asked for.\<close>

fun drain_alerts :: "(alert \<times> sys_time \<times> bool) list \<Rightarrow> node \<Rightarrow> string list \<times> node" where
  "drain_alerts [] s = ([], s)"
| "drain_alerts ((a, now, ok) # more_alerts) s =
     (case a of
        TorrentFinished h \<Rightarrow>
          (case handle_torrent s h of
             None \<Rightarrow> drain_alerts more_alerts s
           | Some _ \<Rightarrow> (let (flushes, s') = drain_alerts more_alerts s in (h # flushes, s')))
      | CacheFlushed h age \<Rightarrow>
          (case handle_torrent s h of
             None \<Rightarrow> drain_alerts more_alerts s
           | Some t \<Rightarrow> drain_alerts more_alerts (stamp_and_remember ok (held_path t) (alert_time now age) s))
      | OtherAlert \<Rightarrow> drain_alerts more_alerts s)"

definition all_settled :: "torrent_state list \<Rightarrow> bool" where
  "all_settled ts \<longleftrightarrow> list_all (\<lambda>t. t = Seeding \<or> t = Finished) ts"

section \<open>A turn of the loop\<close>

record loop_setup =
  su_lib :: libtorrent
  su_sha :: "string \<Rightarrow> string"
  su_own :: string

text \<open>
  What one turn meets: the steady clock at its start, the states of the torrents, the alerts if the flag is
  up, whether the monitor woke and what the walk then lists, the wall clock where it is read, the draw of the
  partner, and the inbound message if one is ready.
\<close>

record outside =
  steady_now :: int
  torrents_seen :: "torrent_state list"
  alerts_popped :: "(alert \<times> sys_time \<times> bool) list option"
  woken :: bool
  walk :: "dir_entry list"
  noticed_at :: sys_time
  removed_at :: "string \<Rightarrow> sys_time"
  pruned_at :: sys_time
  draw_of :: "nat \<Rightarrow> nat"
  inbound_msg :: "string list option option"
  acted_at :: sys_time
  heard_now :: int
  stamp_works :: bool

record sync_state =
  sy_node :: node
  last_stats :: int
  sy_last_state :: int
  sy_last_change :: int
  sy_settled :: bool

definition stats_interval :: int where
  "stats_interval = seconds 2"

definition read_stats :: "outside \<Rightarrow> sync_state \<Rightarrow> sync_state" where
  "read_stats i l =
     (if steady_now i - last_stats l \<ge> stats_interval
      then l\<lparr>last_stats := last_stats l + stats_interval, sy_settled := all_settled (torrents_seen i)\<rparr> else l)"

definition read_alerts :: "outside \<Rightarrow> sync_state \<Rightarrow> sync_state" where
  "read_alerts i l = (case alerts_popped i of None \<Rightarrow> l | Some popped \<Rightarrow> l\<lparr>sy_node := snd (drain_alerts popped (sy_node l))\<rparr>)"

definition read_changes :: "loop_setup \<Rightarrow> outside \<Rightarrow> sync_state \<Rightarrow> sync_state" where
  "read_changes c i l =
     (if woken i
      then l\<lparr>sy_last_change := steady_now i,
             sy_node := relist (su_lib c) (removed_at i) (files_list (walk i)) (noticed_at i) (pruned_at i) (sy_node l)\<rparr>
      else l)"

definition round_due :: "outside \<Rightarrow> sync_state \<Rightarrow> bool" where
  "round_due i l = state_due \<lparr>q_now = steady_now i, last_state = sy_last_state l, last_change = sy_last_change l,
     settled = sy_settled l\<rparr>"

definition hold_round :: "loop_setup \<Rightarrow> outside \<Rightarrow> sync_state \<Rightarrow> sync_state" where
  "hold_round c i l =
     (if round_due i l
      then l\<lparr>sy_last_state := steady_now i,
             sy_node := run_round (su_sha c) (draw_of i) (su_own c) (steady_now i) (sy_node l)\<rparr>
      else l)"

definition before_message :: "loop_setup \<Rightarrow> outside \<Rightarrow> sync_state \<Rightarrow> sync_state" where
  "before_message c i l =
     (let l' = hold_round c i (read_changes c i (read_alerts i (read_stats i l)))
      in l'\<lparr>sy_node := publish_repairs (su_lib c) (steady_now i) (sy_node l')\<rparr>)"

definition turn :: "loop_setup \<Rightarrow> outside \<Rightarrow> sync_state \<Rightarrow> act_error option \<times> sync_state" where
  "turn c i l =
     (let l' = before_message c i l
      in case inbound_msg i of
           None \<Rightarrow> (None, l')
         | Some received \<Rightarrow>
             (let (e, n) = receive_one (su_lib c) (stamp_works i) (su_own c) (acted_at i) (heard_now i) received (sy_node l')
              in (e, l'\<lparr>sy_node := n\<rparr>)))"

text \<open>The loop ends when a stop is asked for, which is the end of the list, or by an exception of a turn.\<close>

fun sync_loop :: "loop_setup \<Rightarrow> outside list \<Rightarrow> sync_state \<Rightarrow> act_error option \<times> sync_state" where
  "sync_loop c [] l = (None, l)"
| "sync_loop c (i # turns) l =
     (case turn c i l of (None, l') \<Rightarrow> sync_loop c turns l' | (Some e, l') \<Rightarrow> (Some e, l'))"

definition loop_start :: "dir_entry list \<Rightarrow> (string, disk_file) cppmap \<Rightarrow> int \<Rightarrow> int \<Rightarrow> int \<Rightarrow> sync_state" where
  "loop_start w d t1 t2 t3 =
     \<lparr>sy_node = \<lparr>disk = d, session = [], former = files_list w, tombstones = [], origins = [], seen_written = [],
        waiting = [], applied = [], announcements = [], peers = [], sent = []\<rparr>,
      last_stats = t1, sy_last_state = t3, sy_last_change = t2, sy_settled = True\<rparr>"

text \<open>Between turns users and libtorrent write to the disk.\<close>

inductive step :: "loop_setup \<Rightarrow> sync_state \<Rightarrow> sync_state \<Rightarrow> bool" for c where
  writes: "step c l (l\<lparr>sy_node := (sy_node l)\<lparr>disk := d\<rparr>\<rparr>)"
| turns: "turn c i l = (None, l') \<Longrightarrow> step c l l'"

inductive reachable :: "loop_setup \<Rightarrow> sync_state \<Rightarrow> bool" for c where
  starts: "reachable c (loop_start w d t1 t2 t3)"
| steps: "reachable c l \<Longrightarrow> step c l l' \<Longrightarrow> reachable c l'"

inductive_cases stepE: "step c l l'"

section \<open>What every reachable state satisfies\<close>

definition node_ok :: "string \<Rightarrow> node \<Rightarrow> bool" where
  "node_ok own s \<longleftrightarrow>
     path_ok_map (former s) \<and> path_ok_map (tombstones s) \<and> path_ok_map (origins s) \<and> path_ok_map (seen_written s) \<and>
     path_ok_map (applied s) \<and> path_ok_map (announcements s) \<and> path_ok_map (waiting s) \<and> spaced (waiting s) \<and>
     om_keys path_key (applied s) = om_keys path_key (announcements s) \<and>
     om_ok id (peers s) \<and> om_find id own (peers s) = None \<and> distinct (map tor_content (session s))"

lemma om_keys_erase: "om_keys key (om_erase key k m) = om_keys key m - {key k}"
  by (auto simp: om_erase_def)

lemma distinct_map_filter': "distinct (map f xs) \<Longrightarrow> distinct (map f (filter P xs))"
  by (rule distinct_map_filter)

lemmas node_ok_simps = node_ok_def om_ok_erase om_ok_assign om_ok_emplace om_ok_filter om_ok_erase_if om_keys_erase
  om_keys_assign distinct_map_filter

lemma spaced_erase: "spaced m \<Longrightarrow> spaced (om_erase path_key p m)"
  by (simp add: om_erase_def spaced_filter)

lemma node_ok_disk [simp]: "node_ok own (s\<lparr>disk := d\<rparr>) = node_ok own s"
  and node_ok_sent [simp]: "node_ok own (s\<lparr>sent := ms\<rparr>) = node_ok own s"
  by (simp_all add: node_ok_def)

lemma node_ok_tombstones: "node_ok own s \<Longrightarrow> path_ok_map g \<Longrightarrow> node_ok own (s\<lparr>tombstones := g\<rparr>)"
  and node_ok_former: "node_ok own s \<Longrightarrow> path_ok_map f \<Longrightarrow> node_ok own (s\<lparr>former := f\<rparr>)"
  and node_ok_waiting: "node_ok own s \<Longrightarrow> path_ok_map w \<Longrightarrow> spaced w \<Longrightarrow> node_ok own (s\<lparr>waiting := w\<rparr>)"
  by (simp_all add: node_ok_def)

lemma node_okD:
  assumes "node_ok own s"
  shows "path_ok_map (former s)" "path_ok_map (tombstones s)" "path_ok_map (waiting s)" "spaced (waiting s)"
  using assms by (simp_all add: node_ok_def)

lemmas node_ok_steps = node_ok_tombstones node_ok_former node_ok_waiting node_okD om_ok_erase om_ok_filter om_ok_erase_if

lemma node_ok_erase: "node_ok own s \<Longrightarrow> node_ok own (snd (erase s p))"
  by (simp add: erase_def erased_def drop_torrents_def node_ok_simps)

lemma node_ok_forget: "node_ok own s \<Longrightarrow> node_ok own (forget s p)"
  by (simp add: forget_def node_ok_simps spaced_erase)

lemma node_ok_adopt: "node_ok own s \<Longrightarrow> node_ok own (snd (adopt theirs now s))"
  by (rule adopt_keeps [where P = "node_ok own"])
    (simp_all add: node_ok_tombstones node_ok_former node_ok_erase node_ok_forget node_okD om_ok_erase)

lemma node_ok_arm:
  assumes "path_ok_map w" "spaced w"
  shows "path_ok_map (arm_missing w ps now)" "spaced (arm_missing w ps now)"
  using open_from_arm [OF arm_opens [OF assms]] by (simp_all add: arm_missing_def)

lemma node_ok_stamp: "node_ok own s \<Longrightarrow> node_ok own (stamp_and_remember ok p t s)"
  by (simp add: stamp_and_remember_def set_disk_time_def Let_def node_ok_simps split: option.splits)

lemma node_ok_drain: "node_ok own s \<Longrightarrow> node_ok own (snd (drain_alerts popped s))"
  by (induction popped s rule: drain_alerts.induct)
    (simp_all add: node_ok_stamp case_prod_beta Let_def split: alert.split option.split)

lemma node_ok_stale: "node_ok own s \<Longrightarrow> node_ok own (snd (remove_stale_torrents s p content))"
  by (simp add: remove_stale_torrents_def node_ok_simps)

lemma node_ok_add: "node_ok own s \<Longrightarrow> node_ok own (add_torrent s place content)"
  by (auto simp: add_torrent_def node_ok_def list_ex_iff)

lemma node_ok_act_create: "node_ok own s \<Longrightarrow> node_ok own (snd (act_create lib torrent ticks p s))"
  by (simp add: act_create_def Let_def case_prod_beta node_ok_stale node_ok_add node_ok_steps
      split: option.split)

lemma node_ok_act: "node_ok own s \<Longrightarrow> node_ok own (snd (act lib v s))"
  using node_ok_erase [of own s]
  by (auto simp: act_def node_ok_act_create case_prod_beta node_ok_steps intro!: node_ok_tombstones mark_ok
      split: sum.split option.split)

lemma node_ok_note: "node_ok own s \<Longrightarrow> node_ok own (note_created ok r p torrent s)"
proof -
  assume s: "node_ok own s"
  define s1 where "s1 = s\<lparr>origins := om_assign path_key p (oc_origin r) (origins s)\<rparr>"
  define s2 where "s2 = (if oc_held r then stamp_and_remember ok p (oc_origin r) s1 else s1)"
  have "node_ok own s1"
    using s by (simp add: s1_def node_ok_simps)
  then have "node_ok own s2"
    by (simp add: s2_def node_ok_stamp)
  then show ?thesis
    by (simp add: note_created_def Let_def s1_def [symmetric] s2_def [symmetric] node_ok_simps spaced_erase)
qed

lemma node_ok_read_digest: "node_ok own s \<Longrightarrow> node_ok own (snd (read_digest v now steady s))"
proof -
  assume "node_ok own s"
  then have "node_ok own (snd (adopt (decode_tombstones (v ! 2)) now s))"
    by (rule node_ok_adopt)
  then show ?thesis
    using node_ok_arm node_okD(3,4)
    by (simp add: read_digest_def answer_gaps_def Let_def case_prod_beta node_ok_waiting split: sum.split)
qed

lemma node_ok_peers: "node_ok own s \<Longrightarrow> k \<noteq> own \<Longrightarrow> node_ok own (s\<lparr>peers := om_assign id k h (peers s)\<rparr>)"
  by (simp add: node_ok_def om_ok_assign om_find_assign)

lemma node_ok_reconcile: "node_ok own s \<Longrightarrow> node_ok own (snd (reconcile_message verb v own now steady s))"
  by (simp add: reconcile_message_def node_ok_read_digest node_ok_peers)

lemma node_ok_receive: "node_ok own s \<Longrightarrow> node_ok own (snd (receive_one lib ok own now steady m s))"
proof (cases m)
  case (Some v)
  assume "node_ok own s"
  then have "node_ok own (snd (act lib v s))"
    by (rule node_ok_act)
  then show ?thesis
    by (cases "act lib v s") (auto simp: receive_one_def Some Let_def intro!: node_ok_reconcile node_ok_note node_ok_forget
        split: sum.split act_error.split option.split)
qed (simp add: receive_one_def)

lemma node_ok_round: "node_ok own s \<Longrightarrow> node_ok own (run_round sha draw me now s)"
  by (auto simp: run_round_def Let_def node_ok_def forget_silent_def om_ok_erase_if om_find_erase_if split: option.split)

lemma publish_create_sends: "publish_create lib e s = s\<lparr>sent := sent s @ create_of lib s e\<rparr>"
  by (simp add: publish_create_def create_of_def split: option.split)

fun is_state :: "message \<Rightarrow> bool" where
  "is_state (State _ _) = True"
| "is_state _ = False"

lemma publish_due_sends:
  "\<exists>ms. snd (publish_due lib ps rebuilt s) = s\<lparr>sent := sent s @ ms\<rparr> \<and> filter is_state ms = []"
proof (induction ps arbitrary: rebuilt s)
  case (Cons p ps)
  have one: "\<exists>ms. snd (publish_due lib ps r (s\<lparr>sent := sent s @ [Create a t p]\<rparr>)) = s\<lparr>sent := sent s @ ms\<rparr> \<and> filter is_state ms = []" for r a t
    using Cons.IH [of r "s\<lparr>sent := sent s @ [Create a t p]\<rparr>"] by force
  have none: "\<exists>ms. snd (publish_due lib ps r s) = s\<lparr>sent := sent s @ ms\<rparr> \<and> filter is_state ms = []" for r
    by (rule Cons.IH)
  show ?case
    using one none
    by (auto simp: case_prod_beta Let_def publish_create_sends create_of_def split: option.split)
qed (rule exI [of _ "[]"], simp)

lemma publish_repairs_sends:
  "\<exists>ms w. publish_repairs lib now s = s\<lparr>sent := sent s @ ms, waiting := w\<rparr> \<and> filter is_state ms = [] \<and>
    (path_ok_map (waiting s) \<and> spaced (waiting s) \<longrightarrow> path_ok_map w \<and> spaced w)"
proof -
  let ?r = "snd (due (waiting s) now)" and ?ps = "fst (due (waiting s) now)"
  obtain ms where ms: "snd (publish_due lib ?ps False (s\<lparr>waiting := ?r\<rparr>)) = s\<lparr>waiting := ?r, sent := sent s @ ms\<rparr>"
    "filter is_state ms = []"
    using publish_due_sends [of lib ?ps False "s\<lparr>waiting := ?r\<rparr>"] by auto
  have "path_ok_map ?r \<and> spaced ?r" if "path_ok_map (waiting s)" "spaced (waiting s)"
    using that by (simp add: due_rest om_ok_filter spaced_filter)
  then show ?thesis
    using ms node_ok_arm
    by (intro exI [of _ ms] exI [of _ "arm_missing ?r (fst (publish_due lib ?ps False (s\<lparr>waiting := ?r\<rparr>))) now"])
      (simp add: publish_repairs_def case_prod_beta Let_def)
qed

lemma node_ok_publish: "node_ok own s \<Longrightarrow> node_ok own (publish_repairs lib now s)"
proof -
  assume s: "node_ok own s"
  obtain ms w where "publish_repairs lib now s = s\<lparr>sent := sent s @ ms, waiting := w\<rparr>" "path_ok_map w" "spaced w"
    using publish_repairs_sends [of lib now s] node_okD(3,4) [OF s] by blast
  then show ?thesis
    using s by (simp add: node_ok_waiting)
qed

lemma node_ok_relist: 
  assumes "node_ok own s" "path_ok_map current"
  shows "node_ok own (relist lib sent_at current noticed pruned s)"
proof -
  obtain d s' where l: "local_changes current noticed s = (d, s')" by fastforce
  have "maps_ok s" using assms by (simp add: maps_ok_def node_ok_def)
  note at = local_changes_at(8,9) [OF this assms(2) l]
  have "node_ok own s'"
    by (subst at(2)) (rule node_ok_tombstones [OF assms(1) at(1)])
  then show ?thesis
    using assms(2)
    by (simp add: relist_def l send_diff_sent forget_spent_marks_def node_ok_simps)
qed


section \<open>The listing of the disk\<close>

lemma files_list_ok: "path_ok_map (files_list w)"
proof -
  have "path_ok_map m \<Longrightarrow> path_ok_map (fold (\<lambda>e m. om_emplace path_key (de_path e) (the (de_time e)) m) es m)" for es m
    by (induction es arbitrary: m) (simp_all add: om_ok_emplace)
  from this [of "[]"] show ?thesis
    unfolding files_list_def by simp
qed

definition walk_of :: "node \<Rightarrow> dir_entry list" where
  "walk_of s = map (\<lambda>(p, f). \<lparr>de_path = p, de_regular = Some True, de_symlink = Some False, de_time = Some (df_time f)\<rparr>) (disk s)"

text \<open>An undisturbed walk lists the disk.\<close>

lemma fold_emplace_sorted: "path_ok_map (m @ n) \<Longrightarrow> fold (\<lambda>(k, v) m. om_emplace path_key k v m) n m = m @ n"
proof (induction n arbitrary: m)
  case (Cons e n)
  obtain k v where e: "e = (k, v)" by (cases e)
  have "path_ok_map ((m @ [e]) @ n)"
    using Cons.prems by simp
  moreover have "\<forall>x \<in> om_keys path_key m. x < path_key k"
    using Cons.prems e by (auto simp: om_ok_def sorted_wrt_append)
  ultimately show ?case
    using Cons.IH e by (simp add: om_emplace_last)
qed simp

lemma files_list_disk: "path_ok_map (disk s) \<Longrightarrow> files_list (walk_of s) = map (\<lambda>(p, f). (p, df_time f)) (disk s)"
proof -
  assume ok: "path_ok_map (disk s)"
  have all: "filter list_filter (walk_of s) = walk_of s"
    by (auto simp: walk_of_def list_filter_def filter_id_conv)
  let ?en = "\<lambda>(p, f). \<lparr>de_path = p, de_regular = Some True, de_symlink = Some False, de_time = Some (df_time f)\<rparr>"
  have "fold (\<lambda>e m. om_emplace path_key (de_path e) (the (de_time e)) m) (map ?en xs) m
    = fold (\<lambda>(k, v) m. om_emplace path_key k v m) (map (\<lambda>(p, f). (p, df_time f)) xs) m" for xs m
    by (induction xs arbitrary: m) auto
  from this [of "disk s" "[]"] have "files_list (walk_of s) =
      fold (\<lambda>(k, v) m. om_emplace path_key k v m) (map (\<lambda>(p, f). (p, df_time f)) (disk s)) []"
    unfolding files_list_def all by (simp only: walk_of_def)
  also have "\<dots> = [] @ map (\<lambda>(p, f). (p, df_time f)) (disk s)"
    using ok by (intro fold_emplace_sorted) (simp add: om_ok_def sorted_wrt_map case_prod_unfold)
  finally show ?thesis
    by simp
qed

section \<open>Every reachable state\<close>

lemma before_message_ok: "node_ok (su_own c) (sy_node l) \<Longrightarrow> node_ok (su_own c) (sy_node (before_message c i l))"
  by (simp add: before_message_def Let_def read_stats_def read_alerts_def read_changes_def hold_round_def node_ok_publish
      node_ok_round node_ok_relist files_list_ok node_ok_drain split: option.split)

lemma turn_ok: "node_ok (su_own c) (sy_node l) \<Longrightarrow> node_ok (su_own c) (sy_node (snd (turn c i l)))"
  by (simp add: turn_def Let_def case_prod_beta before_message_ok node_ok_receive split: option.split)

text \<open>
  C4. In every state the loop can reach, whatever the disk, the alerts, the listings and the messages were:
  each map holds a path once and in order, a path has an announcement exactly when it is known which create
  it came from, the repairs that wait are a pace apart, a content is in the session once, and this node is
  not among the peers it may ask.
\<close>

theorem every_reachable_state_is_sound:
  assumes "reachable c l"
  shows "node_ok (su_own c) (sy_node l)"
  using assms
proof (induction rule: reachable.induct)
  case (starts w d t1 t2 t3)
  then show ?case
    by (simp add: loop_start_def node_ok_def files_list_ok spaced_def)
next
  case (steps l l')
  from steps.hyps(2) show ?case
  proof (rule stepE)
    fix i assume "turn c i l = (None, l')"
    then show ?thesis
      using turn_ok [OF steps.IH, of i] by simp
  qed (simp add: steps.IH)
qed

theorem every_reachable_state_is_sound_witness:
  "\<exists>(c :: loop_setup) (l :: sync_state). su_own c = ''me'' \<and> om_find id ''you'' (peers (sy_node l)) \<noteq> None \<and> node_ok ''me'' (sy_node l)"
proof -
  let ?c = "\<lparr>su_lib = \<lparr>lt_encode = (\<lambda>p b. b), lt_load = (\<lambda>_. None)\<rparr>, su_sha = id, su_own = ''me''\<rparr>"
  let ?i = "\<lparr>steady_now = 1, torrents_seen = [], alerts_popped = None, woken = False, walk = [], noticed_at = SysTime 0,
    removed_at = (\<lambda>_. SysTime 0), pruned_at = SysTime 0, draw_of = (\<lambda>_. 0),
    inbound_msg = Some (Some (state_message ''h'' ''you'')), acted_at = SysTime 0, heard_now = 1, stamp_works = True\<rparr>"
  let ?l = "loop_start [] [] 0 0 0"
  have "fst (turn ?c ?i ?l) = None \<and> om_find id ''you'' (peers (sy_node (snd (turn ?c ?i ?l)))) \<noteq> None"
    by (simp add: turn_def before_message_def read_stats_def read_alerts_def read_changes_def hold_round_def round_due_def
        state_due_def loop_start_def publish_repairs_def due_def arm_missing_def receive_one_def act_def state_message_def judge_def
        parts_for_def verbs_def removed_path_def reconcile_message_def plain_outcome_def
        stats_interval_def state_ceiling_def quiescence_window_def period_def seconds_def)
  moreover from this have "reachable ?c (snd (turn ?c ?i ?l))"
    by (metis reachable.starts reachable.steps step.turns prod.collapse)
  ultimately show ?thesis
    using every_reachable_state_is_sound [of ?c "snd (turn ?c ?i ?l)"]
    by (intro exI [of _ ?c] exI [of _ "snd (turn ?c ?i ?l)"]) simp
qed

end
