(* ===== verification/Mesh.thy ===== *)
theory Mesh
  imports SyncLoop
begin

text \<open>
  What the turns of the loop amount to: when its rounds are, and how a write and a deletion on one node reach another
  (\<open>src/syncfs.cpp\<close>: \<open>sync_loop\<close>, \<open>state_due\<close>).
\<close>

section \<open>When the rounds are\<close>

definition told :: "node \<Rightarrow> nat" where
  "told s = length (filter is_state (sent s))"

lemma sent_simps [simp]:
  "sent (snd (erase s p)) = sent s" "sent (forget s p) = sent s" "sent (stamp_and_remember ok p t s) = sent s"
  by (simp_all add: erase_def erased_def drop_torrents_def forget_def stamp_and_remember_def set_disk_time_def Let_def split: option.splits)

lemma sent_drain [simp]: "sent (snd (drain_alerts popped s)) = sent s"
  by (induction popped s rule: drain_alerts.induct) (simp_all add: case_prod_beta Let_def split: alert.split option.split)

lemma sent_act [simp]: "sent (snd (act lib v s)) = sent s"
proof -
  have "sent (snd (act_create lib torrent ticks p s)) = sent s" for torrent ticks p
    by (simp add: act_create_def remove_stale_torrents_def add_torrent_def Let_def split: option.split)
  then show ?thesis
    by (simp add: act_def case_prod_beta split: sum.split option.split)
qed

lemma sent_adopt [simp]: "sent (snd (adopt theirs now s)) = sent s"
  by (rule adopt_keeps [where P = "\<lambda>n. sent n = sent s"]) simp_all

lemma sent_receive [simp]: "sent (snd (receive_one lib ok own now steady m s)) = sent s"
proof (cases m)
  case (Some v)
  have "sent (snd (read_digest v now steady n)) = sent n" for n
    using sent_adopt [of "decode_tombstones (v ! 2)" now n]
    by (simp add: read_digest_def answer_gaps_def Let_def case_prod_beta del: sent_adopt split: sum.split)
  then have "sent (snd (reconcile_message verb v own now steady n)) = sent n" for verb n
    by (simp add: reconcile_message_def)
  moreover have "sent (note_created ok r p torrent n) = sent n" for r p torrent n
    by (simp add: note_created_def Let_def)
  ultimately show ?thesis
    using sent_act [of lib v s]
    by (cases "act lib v s") (simp add: receive_one_def Some Let_def split: sum.split act_error.split option.split)
qed (simp add: receive_one_def)

lemma told_repairs [simp]: "told (publish_repairs lib now s) = told s"
  using publish_repairs_sends [of lib now s] by (auto simp: told_def)

lemma told_relist [simp]: "told (relist lib sent_at current noticed pruned s) = told s"
proof -
  obtain d s' where l: "local_changes current noticed s = (d, s')" by fastforce
  then have "sent s' = sent s"
    by (auto simp: local_changes_def Let_def case_prod_beta)
  moreover have "filter is_state (create_of lib s' e) = []" for e
    by (simp add: create_of_def split: option.split)
  then have "filter is_state (concat (map (create_of lib s') es)) = []" for es
    by (induction es) simp_all
  ultimately show ?thesis
    by (simp add: told_def relist_def l send_diff_sent forget_spent_marks_def o_def)
qed

lemma told_round [simp]: "told (run_round sha draw own now s) = Suc (told s)"
  by (simp add: told_def run_round_def Let_def split: option.split)

definition seen_before_round :: "loop_setup \<Rightarrow> outside \<Rightarrow> sync_state \<Rightarrow> sync_state" where
  "seen_before_round c i l = read_changes c i (read_alerts i (read_stats i l))"

text \<open>The times at which a run of the loop holds its rounds.\<close>

fun round_times :: "loop_setup \<Rightarrow> outside list \<Rightarrow> sync_state \<Rightarrow> int list" where
  "round_times c [] l = []"
| "round_times c (i # turns) l =
     (if round_due i (seen_before_round c i l) then [steady_now i] else []) @
     (case turn c i l of (None, l') \<Rightarrow> round_times c turns l' | (Some e, l') \<Rightarrow> [])"

lemma seen_simps [simp]:
  "sy_last_state (seen_before_round c i l) = sy_last_state l"
  "told (sy_node (seen_before_round c i l)) = told (sy_node l)"
  by (simp_all add: seen_before_round_def read_changes_def read_alerts_def read_stats_def told_def [of "sy_node l"] split: option.split)
   (simp_all add: told_def)

lemma turn_round:
  "sy_last_state (snd (turn c i l)) = (if round_due i (seen_before_round c i l) then steady_now i else sy_last_state l)"
  "told (sy_node (snd (turn c i l))) = told (sy_node l) + (if round_due i (seen_before_round c i l) then 1 else 0)"
proof -
  have r: "told (snd (receive_one lib ok own now steady m s)) = told s" for lib ok own now steady m s
    by (simp add: told_def)
  show "sy_last_state (snd (turn c i l)) = (if round_due i (seen_before_round c i l) then steady_now i else sy_last_state l)"
    by (simp add: turn_def before_message_def hold_round_def Let_def seen_before_round_def [symmetric] case_prod_beta split: option.split)
  show "told (sy_node (snd (turn c i l))) = told (sy_node l) + (if round_due i (seen_before_round c i l) then 1 else 0)"
    by (simp add: turn_def before_message_def hold_round_def Let_def seen_before_round_def [symmetric] case_prod_beta r split: option.split)
qed

lemma round_due_bounds:
  "round_due i l \<Longrightarrow> sy_last_state l + period \<le> steady_now i"
  "\<not> round_due i l \<Longrightarrow> steady_now i < sy_last_state l + state_ceiling"
  "\<not> round_due i l \<Longrightarrow> sy_settled l \<Longrightarrow> sy_last_change l + quiescence_window \<le> steady_now i \<Longrightarrow>
    steady_now i < sy_last_state l + period"
  by (auto simp: round_due_def state_due_def Let_def state_ceiling_def period_def seconds_def)

lemma loop_rounds:
  assumes "(e, l') = sync_loop c turns l"
    and "\<forall>k < length turns. (if k = 0 then now else steady_now (turns ! (k - 1))) + d \<ge> steady_now (turns ! k)"
    and "now < sy_last_state l + state_ceiling"
  shows "told (sy_node l') = told (sy_node l) + length (round_times c turns l) \<and>
    successively (\<lambda>a b. a + period \<le> b \<and> b < a + state_ceiling + d) (sy_last_state l # round_times c turns l) \<and>
    (e = None \<longrightarrow> turns \<noteq> [] \<longrightarrow> steady_now (last turns) < sy_last_state l' + state_ceiling) \<and>
    sy_last_state l' = last (sy_last_state l # round_times c turns l)"
  using assms
proof (induction turns arbitrary: l now)
  case (Cons i turns)
  define r where "r = round_due i (seen_before_round c i l)"
  define l1 where "l1 = snd (turn c i l)"
  have step: "steady_now i \<le> now + d"
    using Cons.prems(2) by force
  have rest: "\<forall>k < length turns. (if k = 0 then steady_now i else steady_now (turns ! (k - 1))) + d \<ge> steady_now (turns ! k)"
  proof (intro allI impI)
    fix k assume "k < length turns"
    then show "(if k = 0 then steady_now i else steady_now (turns ! (k - 1))) + d \<ge> steady_now (turns ! k)"
      using Cons.prems(2) [rule_format, of "Suc k"] by (cases k) auto
  qed
  have last: "sy_last_state l1 = (if r then steady_now i else sy_last_state l)"
    "told (sy_node l1) = told (sy_node l) + (if r then 1 else 0)"
    using turn_round [of c i l] by (simp_all add: l1_def r_def)
  have due: "r \<Longrightarrow> sy_last_state l + period \<le> steady_now i" "\<not> r \<Longrightarrow> steady_now i < sy_last_state l + state_ceiling"
    using round_due_bounds [of i "seen_before_round c i l"] by (simp_all add: r_def)
  have now1: "steady_now i < sy_last_state l1 + state_ceiling"
    using due(2) last(1) by (simp add: state_ceiling_def seconds_def)
  show ?case
  proof (cases "fst (turn c i l)")
    case None
    then have t: "turn c i l = (None, l1)"
      by (simp add: l1_def prod_eq_iff)
    then have "(e, l') = sync_loop c turns l1"
      using Cons.prems(1) by simp
    from Cons.IH [OF this rest now1] show ?thesis
      using t last due Cons.prems(3) step now1 by (auto simp: r_def [symmetric] split: if_splits)
  next
    case (Some x)
    then have t: "turn c i l = (Some x, l1)"
      by (simp add: l1_def prod_eq_iff)
    then show ?thesis
      using Cons.prems last due step by (auto simp: r_def [symmetric])
  qed
qed simp

text \<open>
  C11. Rounds are timed. However a run of the loop goes, this node tells its root hash once per round, the
  rounds are at least a period apart, and, where turns start at most \<open>d\<close> apart, less than the ceiling and
  \<open>d\<close>: a busy directory puts a round off but never starves it. After each turn the last round is less than
  the ceiling back.
\<close>

theorem rounds_are_timed:
  assumes "(e, l') = sync_loop c turns l"
    and "\<forall>k < length turns. (if k = 0 then now else steady_now (turns ! (k - 1))) + d \<ge> steady_now (turns ! k)"
    and "now < sy_last_state l + state_ceiling"
  shows "told (sy_node l') = told (sy_node l) + length (round_times c turns l) \<and>
    successively (\<lambda>a b. a + period \<le> b \<and> b < a + state_ceiling + d) (sy_last_state l # round_times c turns l) \<and>
    (e = None \<longrightarrow> turns \<noteq> [] \<longrightarrow> steady_now (last turns) < sy_last_state l' + state_ceiling) \<and>
    sy_last_state l' = last (sy_last_state l # round_times c turns l)"
  by (rule loop_rounds [OF assms])

theorem rounds_are_timed_witness:
  "\<exists>(c :: loop_setup) turns (l' :: sync_state) (l :: sync_state). length turns = 2 \<and> told (sy_node l') = told (sy_node l) + length (round_times c turns l) \<and>
    steady_now (last turns) < sy_last_state l' + state_ceiling"
proof -
  let ?c = "\<lparr>su_lib = \<lparr>lt_encode = (\<lambda>p b. b), lt_load = (\<lambda>_. None)\<rparr>, su_sha = id, su_own = ''me''\<rparr>"
  let ?i = "\<lambda>t. \<lparr>steady_now = t, torrents_seen = [], alerts_popped = None, woken = False, walk = [], noticed_at = SysTime 0,
    removed_at = (\<lambda>_. SysTime 0), pruned_at = SysTime 0, draw_of = (\<lambda>_. 0), inbound_msg = None, acted_at = SysTime 0,
    heard_now = t, stamp_works = True\<rparr>"
  let ?ts = "[?i 3000000000, ?i 12000000000]"
  let ?l = "loop_start [] [] 0 0 0"
  have e: "sync_loop ?c ?ts ?l = (None, snd (sync_loop ?c ?ts ?l))"
    by (simp add: turn_def Let_def)
  have close: "\<forall>k < length ?ts. (if k = 0 then 0 else steady_now (?ts ! (k - 1))) + seconds 10 \<ge> steady_now (?ts ! k)"
    by (auto simp: less_Suc_eq seconds_def)
  have start: "0 < sy_last_state ?l + state_ceiling"
    by (simp add: loop_start_def state_ceiling_def seconds_def)
  have two: "length ?ts = 2" "?ts \<noteq> []"
    by simp_all
  show ?thesis
    using rounds_are_timed [OF e [symmetric] close start] two by blast
qed

section \<open>A write on its way\<close>

lemma write_announced:
  assumes "maps_ok a" "path_ok_map current" "t = relist lib sent_at current noticed pruned a"
    and "listed_keys (former a)" "listing_key p" "(p, w) \<in> set current" "on_disk a p = Some f"
    and "appears a current (path_key p) \<or> moves a current (path_key p)"
  shows "Create (lt_encode lib (lexically_normal p) (df_bytes f)) (file_ticks w) p \<in> set (sent t)"
    and "replica_of t (path_key p) = \<lparr>held_at = Some w, grave_at = None\<rparr>"
proof -
  note c = change_announced [OF assms(1-3)]
  have at: "path_at current (path_key p) = Some w"
    using om_at_in [OF assms(2,6)] by simp
  have create: "create_of lib a (p, w) = [Create (lt_encode lib (lexically_normal p) (df_bytes f)) (file_ticks w) p]"
    using assms(7) by (simp add: create_of_def)
  show "Create (lt_encode lib (lexically_normal p) (df_bytes f)) (file_ticks w) p \<in> set (sent t)"
    using assms(8)
  proof
    assume "appears a current (path_key p)"
    then have "(p, w) \<in> set (filter (\<lambda>e. appears a current (path_key (fst e))) current)"
      using assms(6) by simp
    then show ?thesis
      using c create by force
  next
    assume m: "moves a current (path_key p)"
    then obtain v where "path_at (former a) (path_key p) = Some v"
      by (auto simp: moves_def)
    then obtain q where q: "(q, v) \<in> set (former a)" "path_key q = path_key p"
      using om_find_Some_in [of path_key p "former a" v] by (auto simp: om_find_at)
    then have "q = p"
      using assms(4,5) listing_key_inj unfolding listed_keys_def by force
    then have "(p, w) \<in> set (with_current current (filter (\<lambda>e. moves a current (path_key (fst e))) (former a)))"
      using q m at by (force simp: with_current_def om_find_at)
    then show ?thesis
      using c create by force
  qed
  have "\<not> goes a current (path_key p)"
    using at by (simp add: goes_def)
  then have "path_at (tombstones t) (path_key p) = None"
    using c assms(8) by (simp del: split_paired_All)
  then show "replica_of t (path_key p) = \<lparr>held_at = Some w, grave_at = None\<rparr>"
    using conjunct1 [OF c] at by (simp add: replica_of_def)
qed

text \<open>
  C2. A write reaches a peer. A path that appeared or moved on one node's disk is announced in that turn; a
  peer with an older copy or none, whose disk is what it listed and which knows no later deletion, takes the
  announcement, and once the file has arrived the two agree on the path, to the time on the disk, and the
  peer's next listing announces nothing for it.
\<close>

theorem a_write_reaches_a_peer:
  assumes "maps_ok a" "path_ok_map current" "t = relist lib sent_at current noticed pruned a"
    and "listed_keys (former a)" "listing_key p" "(p, w) \<in> set current" "on_disk a p = Some f"
    and "appears a current (path_key p) \<or> moves a current (path_key p)"
    and "lt_load lib (lt_encode lib (lexically_normal p) (df_bytes f)) = Some (tl_path, content)"
    and "maps_ok b" "path_ok_map (seen_written b)" "path_ok_map (origins b)" "disk_ok b"
    and "last_write_time b p = path_find p (former b)" "path_at (tombstones b) (path_key p) = None"
    and "case path_find p (former b) of None \<Rightarrow> True | Some v \<Rightarrow> file_ticks v < file_ticks w"
    and "(r, b1) = receive_one lib True own now steady
      (Some (frames (Create (lt_encode lib (lexically_normal p) (df_bytes f)) (file_ticks w) p))) b"
    and "\<not> holds_content b p content"
    and "df_time g \<le> written_by" "b2 = stamp_and_remember True p written_by (arrive p g b1)"
  shows "Create (lt_encode lib (lexically_normal p) (df_bytes f)) (file_ticks w) p \<in> set (sent t) \<and> r = None \<and>
    replica_of b2 (path_key p) = replica_of t (path_key p) \<and> replica_of t (path_key p) = \<lparr>held_at = Some w, grave_at = None\<rparr> \<and>
    last_write_time b2 p = Some w \<and>
    (\<forall>listing. path_at listing (path_key p) = Some w \<longrightarrow>
       \<not> appears b2 listing (path_key p) \<and> \<not> moves b2 listing (path_key p) \<and> \<not> goes b2 listing (path_key p))"
proof -
  note sent = write_announced [OF assms(1-8)]
  have owes: "owes \<lparr>held_at = Some w, grave_at = None\<rparr> (replica_of b (path_key p))"
    using assms(16) by (simp add: owes_def replica_of_def om_find_at)
  have undeleted: "\<not> (case path_find p (tombstones b) of None \<Rightarrow> False | Some d \<Rightarrow> beats d w)"
    using assms(15) by (simp add: om_find_at)
  have landed: "r = None \<and> replica_of b2 (path_key p) = \<lparr>held_at = Some w, grave_at = None\<rparr> \<and> last_write_time b2 p = Some w"
    using repair_lands [OF assms(10-13,5,14) owes undeleted assms(9) _ _ assms(19), of r b1 own now steady b2] assms(17,18,20)
    by simp
  then have "path_at (former b2) (path_key p) = Some w"
    by (simp add: replica_of_def)
  then show ?thesis
    using sent landed by (simp add: appears_def moves_def goes_def)
qed

theorem a_write_reaches_a_peer_witness:
  "\<exists>t b2 :: node. replica_of b2 (path_key ''./a'') = replica_of t (path_key ''./a'') \<and> last_write_time b2 ''./a'' = Some (FileTime 7)"
proof -
  let ?lib = "\<lparr>lt_encode = (\<lambda>p b. b), lt_load = (\<lambda>b. Some (''a'', b))\<rparr>"
  let ?f = "\<lparr>df_time = FileTime 7, df_bytes = ''x''\<rparr>" and ?g = "\<lparr>df_time = FileTime 8, df_bytes = ''x''\<rparr>"
  let ?a = "node0\<lparr>disk := [(''./a'', ?f)]\<rparr>" and ?c = "[(''./a'', FileTime 7)]"
  obtain r b1 where r: "(r, b1) = receive_one ?lib True ''me'' (SysTime 0) 0
      (Some (frames (Create (lt_encode ?lib (lexically_normal ''./a'') (df_bytes ?f)) (file_ticks (FileTime 7)) ''./a''))) node0"
    by (metis surj_pair)
  have listing: "listing_key ''./a''"
    using listing_key1 [of "''a''"] by (simp add: plain_name_def slash_def)
  have a: "maps_ok ?a" "path_ok_map ?c" "listed_keys (former ?a)" "(''./a'', FileTime 7) \<in> set ?c" "on_disk ?a ''./a'' = Some ?f"
    "appears ?a ?c (path_key ''./a'') \<or> moves ?a ?c (path_key ''./a'')"
    by (simp_all add: maps_ok_def node0_def listed_keys_def on_disk_def appears_def echo_at_def dead_at_def om_at_Cons)
  have lib: "lt_load ?lib (lt_encode ?lib (lexically_normal ''./a'') (df_bytes ?f)) = Some (''a'', ''x'')"
    by simp
  have b: "maps_ok node0" "path_ok_map (seen_written node0)" "path_ok_map (origins node0)" "disk_ok node0"
    "last_write_time node0 ''./a'' = path_find ''./a'' (former node0)" "path_at (tombstones node0) (path_key ''./a'') = None"
    "case path_find ''./a'' (former node0) of None \<Rightarrow> True | Some v \<Rightarrow> file_ticks v < file_ticks (FileTime 7)"
    "\<not> holds_content node0 ''./a'' ''x''"
    by (simp_all add: node0_def maps_ok_def disk_ok_def listed_keys_def last_write_time_def on_disk_def holds_content_def torrents_at_def)
  have time: "df_time ?g \<le> FileTime 9"
    by (simp add: less_eq_file_time_def)
  show ?thesis
    using a_write_reaches_a_peer [OF a(1,2) refl a(3) listing a(4-6) lib b(1-7) r b(8) time refl,
        of "\<lambda>_. SysTime 0" "SysTime 0" "SysTime 0"] by blast
qed

section \<open>A deletion on its way\<close>

lemma relist_disk: "disk (relist lib sent_at current noticed pruned s) = disk s"
proof -
  obtain d s' where l: "local_changes current noticed s = (d, s')" by fastforce
  then have "disk s' = disk s"
    by (auto simp: local_changes_def Let_def case_prod_beta)
  then show ?thesis
    by (simp add: relist_def l send_diff_sent forget_spent_marks_def)
qed

lemma receive_remove:
  assumes "maps_ok s" "\<not> remove_throws (disk s) p"
    and "(r, s') = receive_one lib ok own now steady (Some (remove_message p (to_ticks u))) s"
  shows "r = None" "former s' = former s" "path_ok_map (tombstones s')" "on_disk s' p = None"
    "path_at (tombstones s') (path_key p) = Some (later (path_at (tombstones s) (path_key p)) u)"
proof -
  have v: "judge (remove_message p (to_ticks u)) = Inr ''remove''" "removed_path (remove_message p (to_ticks u)) = Some p"
    "remove_message p (to_ticks u) ! 2 = str_of_int (to_ticks u)"
    by (simp_all add: remove_message_def judge_def parts_for_def verbs_def removed_path_def numeral_2_eq_2)
  have g: "path_ok_map (tombstones s)"
    using assms(1) by (simp add: maps_ok_def)
  have s': "r = None \<and> s' = forget ((erased s p)\<lparr>tombstones := mark (tombstones s) p u\<rparr>) p"
    using assms(2,3) v by (simp add: receive_one_def act_def Let_def erase_def plain_outcome_def reconcile_message_def)
  then show "r = None" "former s' = former s" "path_ok_map (tombstones s')" "on_disk s' p = None"
    "path_at (tombstones s') (path_key p) = Some (later (path_at (tombstones s) (path_key p)) u)"
    using g at_mark [OF g, of p u "path_key p"]
    by (simp_all add: on_disk_def erased_def om_find_erase)
qed

text \<open>
  C15. A deletion reaches a peer. Where the path has not become a directory with files in it, a path gone from one node's disk is removed everywhere by the message of that
  turn, which the node hears itself: once a peer has heard it too and listed its disk, neither holds the path,
  both remember the deletion under the moment the message carries, and the peer does not announce it again.
\<close>

theorem a_deletion_reaches_a_peer:
  assumes "maps_ok a" "path_ok_map current" "t = relist lib sent_at current noticed pruned a"
    and "(p, w) \<in> set (former a)" "goes a current (path_key p)" "sent_at p = u" "noticed \<le> u"
    and "\<not> remove_throws (disk a) p" "\<not> remove_throws (disk b) p"
    and "(r, a2) = receive_one lib ok own now steady (Some (frames (Remove p (to_ticks u)))) t"
    and "maps_ok b" "case path_at (tombstones b) (path_key p) of None \<Rightarrow> True | Some g \<Rightarrow> g \<le> u"
    and "(r', b2) = receive_one lib ok' own' now' steady' (Some (frames (Remove p (to_ticks u)))) b"
    and "path_ok_map listing" "path_at listing (path_key p) = None"
    and "b3 = relist lib sent_at' listing noticed' pruned' b2" "\<not> ago pruned' u > tombstone_ttl"
  shows "Remove p (to_ticks u) \<in> set (sent t) \<and> r = None \<and> r' = None \<and> on_disk b2 p = None \<and>
    replica_of a2 (path_key p) = \<lparr>held_at = None, grave_at = Some u\<rparr> \<and>
    replica_of b3 (path_key p) = replica_of a2 (path_key p) \<and> \<not> goes b2 listing (path_key p)"
proof -
  note c = change_announced [OF assms(1-3)]
  have frame: "frames (Remove p (to_ticks u)) = remove_message p (to_ticks u)"
    by simp
  have at: "path_at (former t) (path_key p) = None"
    using conjunct1 [OF c] assms(5) by (simp add: goes_def)
  have grave: "path_at (tombstones t) (path_key p) = None \<or> path_at (tombstones t) (path_key p) = Some noticed"
    using c assms(5) by (simp del: split_paired_All)
  have "maps_ok t" "\<not> remove_throws (disk t) p"
    using relist_maps [OF assms(1,2)] assms(8) by (simp_all add: assms(3) relist_disk)
  note ra = receive_remove [OF this assms(10) [unfolded frame]]
  note rb = receive_remove [OF assms(11,9) assms(13) [unfolded frame]]
  have later: "later (path_at (tombstones t) (path_key p)) u = u" "later (path_at (tombstones b) (path_key p)) u = u"
    using grave assms(7,12) by (auto simp: later_def max_def split: option.splits)
  have b2: "maps_ok b2"
    using rb assms(11) by (simp add: maps_ok_def)
  note cb = change_announced [OF b2 assms(14,16)]
  have quiet: "\<not> goes b2 listing (path_key p)" "\<not> appears b2 listing (path_key p)" "\<not> moves b2 listing (path_key p)"
    using rb(5) assms(15) by (simp_all add: goes_def appears_def moves_def)
  then have "path_at (tombstones b3) (path_key p) = Some u"
    using cb rb(5) later assms(17) by (simp del: split_paired_All)
  moreover have "path_at (former b3) (path_key p) = None"
    using conjunct1 [OF cb] assms(15) by simp
  moreover have "Remove p (to_ticks u) \<in> set (sent t)"
    using c assms(4,5,6) by force
  ultimately show ?thesis
    using ra rb(1,4) later at quiet by (simp add: replica_of_def)
qed

theorem a_deletion_reaches_a_peer_witness:
  "\<exists>a2 b3 :: node. replica_of a2 (path_key ''./a'') = \<lparr>held_at = None, grave_at = Some (SysTime 6)\<rparr> \<and>
    replica_of b3 (path_key ''./a'') = replica_of a2 (path_key ''./a'')"
proof -
  let ?lib = "\<lparr>lt_encode = (\<lambda>p b. b), lt_load = (\<lambda>b. None)\<rparr>" and ?m = "frames (Remove ''./a'' (to_ticks (SysTime 6)))"
  let ?s = "node0\<lparr>former := [(''./a'', FileTime 1)]\<rparr>"
  let ?t = "relist ?lib (\<lambda>_. SysTime 6) [] (SysTime 5) (SysTime 7) ?s"
  obtain r a2 where a2: "(r, a2) = receive_one ?lib True ''me'' (SysTime 7) 0 (Some ?m) ?t"
    by (metis surj_pair)
  obtain r' b2 where b2: "(r', b2) = receive_one ?lib True ''you'' (SysTime 7) 0 (Some ?m) ?s"
    by (metis surj_pair)
  have s: "maps_ok ?s" "path_ok_map ([] :: file_map)" "(''./a'', FileTime 1) \<in> set (former ?s)" "goes ?s [] (path_key ''./a'')"
    by (simp_all add: maps_ok_def node0_def goes_def om_at_Cons)
  have plain: "\<not> remove_throws (disk ?s) ''./a''"
    by (simp add: node0_def remove_throws_def a_normal)
  have times: "SysTime 5 \<le> SysTime 6" "\<not> ago (SysTime 7) (SysTime 6) > tombstone_ttl"
    by (simp_all add: less_eq_sys_time_def tombstone_ttl_def seconds_def)
  have b: "case path_at (tombstones ?s) (path_key ''./a'') of None \<Rightarrow> True | Some g \<Rightarrow> g \<le> SysTime 6"
    "path_at ([] :: file_map) (path_key ''./a'') = None"
    by (simp_all add: node0_def)
  show ?thesis
    using a_deletion_reaches_a_peer [OF s(1,2) refl s(3,4) refl times(1) plain plain a2 s(1) b(1) b2 s(2) b(2) refl times(2)] by blast
qed

section \<open>A deletion that ends the daemon\<close>

definition paths_on :: "node \<Rightarrow> string list" where
  "paths_on s = map fst (disk s)"

lemma paths_on_stamp [simp]: "paths_on (stamp_and_remember ok p t s) = paths_on s"
  by (simp add: paths_on_def stamp_and_remember_def set_disk_time_def Let_def comp_def case_prod_unfold
      split: option.splits if_splits)

lemma paths_on_drain [simp]: "paths_on (snd (drain_alerts popped s)) = paths_on s"
  by (induction popped s rule: drain_alerts.induct) (simp_all add: case_prod_beta Let_def split: alert.split option.split)

lemma paths_on_before: "paths_on (sy_node (before_message c i l)) = paths_on (sy_node l)"
proof -
  have r: "paths_on (publish_repairs lib now s) = paths_on s" for lib now s
    using publish_repairs_sends [of lib now s] by (auto simp: paths_on_def)
  have "paths_on (relist lib sent_at current noticed pruned s) = paths_on s" for lib sent_at current noticed pruned s
    by (simp add: paths_on_def relist_disk)
  moreover have "paths_on (run_round sha draw own now s) = paths_on s" for sha draw own now s
    by (simp add: paths_on_def run_round_def Let_def split: option.split)
  ultimately show ?thesis
    by (simp add: before_message_def Let_def read_stats_def read_alerts_def read_changes_def hold_round_def r split: option.split)
qed

lemma remove_throws_paths: "remove_throws (disk s) p \<longleftrightarrow> lexically_normal p = ''.'' \<or> list_ex (below p) (paths_on s)"
  by (simp add: remove_throws_def paths_on_def list_ex_iff)

text \<open>
  C24. A remove for a path that has become a directory with files in it on this side ends the loop with an
  exception, whatever else the turn does and whatever would have come after: the directory stays, its torrents
  are gone from the session, the deletion is not remembered, and no later turn runs. (The listing was made not
  to end the daemon on a change of the tree, SPEC.md V66.)
\<close>

theorem a_directory_ends_the_loop:
  assumes "inbound_msg i = Some (Some (frames (Remove p ticks)))"
    and "q \<in> set (paths_on (sy_node l))" "below p q" "(e, l') = sync_loop c (i # turns) l"
  shows "e = Some RemoveThrows \<and> paths_on (sy_node l') = paths_on (sy_node l) \<and> torrents_at (sy_node l') p = [] \<and>
    tombstones (sy_node l') = tombstones (sy_node (before_message c i l))"
proof -
  define s where "s = sy_node (before_message c i l)"
  have throws: "remove_throws (disk s) p"
    using assms(2,3) by (auto simp: remove_throws_paths s_def paths_on_before list_ex_iff)
  have v: "judge (remove_message p ticks) = Inr ''remove''" "removed_path (remove_message p ticks) = Some p"
    by (simp_all add: remove_message_def judge_def parts_for_def verbs_def removed_path_def)
  have "receive_one lib ok own now steady (Some (remove_message p ticks)) s = (Some RemoveThrows, drop_torrents s p)"
    for lib ok own now steady
    using v throws by (simp add: receive_one_def act_def erase_def)
  then have "turn c i l = (Some RemoveThrows, (before_message c i l)\<lparr>sy_node := drop_torrents s p\<rparr>)"
    using assms(1) by (simp add: turn_def Let_def s_def)
  then have "e = Some RemoveThrows" "l' = (before_message c i l)\<lparr>sy_node := drop_torrents s p\<rparr>"
    using assms(4) by simp_all
  then show ?thesis
    using paths_on_before [of c i l]
    by (simp add: drop_torrents_def torrents_at_def filter_empty_conv s_def paths_on_def)
qed

theorem a_directory_ends_the_loop_witness:
  "\<exists>(c :: loop_setup) i (l :: sync_state). fst (sync_loop c [i] l) = Some RemoveThrows"
proof -
  let ?c = "\<lparr>su_lib = \<lparr>lt_encode = (\<lambda>p b. b), lt_load = (\<lambda>_. None)\<rparr>, su_sha = id, su_own = ''me''\<rparr>"
  let ?i = "\<lparr>steady_now = 1, torrents_seen = [], alerts_popped = None, woken = False, walk = [], noticed_at = SysTime 0,
    removed_at = (\<lambda>_. SysTime 0), pruned_at = SysTime 0, draw_of = (\<lambda>_. 0),
    inbound_msg = Some (Some (frames (Remove ''./d'' 5))), acted_at = SysTime 0, heard_now = 1, stamp_works = True\<rparr>"
  let ?l = "loop_start [] [(''./d/f'', \<lparr>df_time = FileTime 1, df_bytes = ''x''\<rparr>)] 0 0 0"
  obtain e l' where r: "(e, l') = sync_loop ?c [?i] ?l"
    by (metis surj_pair)
  have m: "inbound_msg ?i = Some (Some (frames (Remove ''./d'' 5)))"
    by simp
  have "''./d/f'' \<in> set (paths_on (sy_node ?l))" "below ''./d'' ''./d/f''"
    by (simp_all add: loop_start_def paths_on_def below_def lexically_normal_def names_of_def has_root_def ends_in_slash_def slash_def)
  from a_directory_ends_the_loop [OF m this r] show ?thesis
    using r by (metis fst_conv)
qed

end
