(* ===== verification/AlertFlag.thy ===== *)
theory AlertFlag
  imports SyncLoop
begin

text \<open>
  The flag between libtorrent's threads and the loop (\<open>src/syncfs.cpp\<close>: the notify function and the test,
  drain and clear of \<open>sync_loop\<close>), step by step as the two sides may interleave. libtorrent calls the notify
  function when its queue of alerts goes from empty to not empty, and not again until the queue is popped.
\<close>

datatype loop_point = Testing | Drained

record alert_state =
  alert_ready :: bool
  alert_queue :: "alert list"
  loop_point :: loop_point
  alerts_read :: "alert list"

definition idle :: alert_state where
  "idle = \<lparr>alert_ready = False, alert_queue = [], loop_point = Testing, alerts_read = []\<rparr>"

definition post_alert :: "alert \<Rightarrow> alert_state \<Rightarrow> alert_state" where
  "post_alert a s = s\<lparr>alert_queue := alert_queue s @ [a], alert_ready := (alert_ready s \<or> alert_queue s = [])\<rparr>"

definition drain_queue :: "alert_state \<Rightarrow> alert_state" where
  "drain_queue s = s\<lparr>alerts_read := alerts_read s @ alert_queue s, alert_queue := [], loop_point := Drained\<rparr>"

definition clear_flag :: "alert_state \<Rightarrow> alert_state" where
  "clear_flag s = s\<lparr>alert_ready := False, loop_point := Testing\<rparr>"

inductive alert_step :: "alert_state \<Rightarrow> alert_state \<Rightarrow> bool" where
  posts: "alert_step s (post_alert a s)"
| drains: "loop_point s = Testing \<Longrightarrow> alert_ready s \<Longrightarrow> alert_step s (drain_queue s)"
| clears: "loop_point s = Drained \<Longrightarrow> alert_step s (clear_flag s)"

inductive_cases alert_stepE: "alert_step s t"

text \<open>The loop is back at its test with the flag down and an alert in the queue.\<close>

definition stuck :: "alert_state \<Rightarrow> bool" where
  "stuck s \<longleftrightarrow> loop_point s = Testing \<and> \<not> alert_ready s \<and> alert_queue s \<noteq> []"

lemma stuck_step: "alert_step s t \<Longrightarrow> stuck s \<Longrightarrow>
    stuck t \<and> alerts_read t = alerts_read s \<and> set (alert_queue s) \<subseteq> set (alert_queue t)"
  by (erule alert_stepE) (auto simp: stuck_def post_alert_def)

lemma stuck_run: "alert_step\<^sup>*\<^sup>* s t \<Longrightarrow> stuck s \<Longrightarrow>
    stuck t \<and> alerts_read t = alerts_read s \<and> set (alert_queue s) \<subseteq> set (alert_queue t)"
proof (induction rule: rtranclp_induct)
  case (step u t)
  then show ?case
    using stuck_step [of u t] by auto
qed simp

text \<open>
  C23. An alert that libtorrent posts between the loop's drain and its clearing of the flag puts an end to alerts:
  whatever either side does afterwards, neither that alert nor any other is read again. A file that finishes
  from then on is not stamped with the time of its origin.
\<close>

theorem a_late_alert_stops_the_alerts:
  assumes "loop_point s = Drained" "alert_queue s = []" "alert_step\<^sup>*\<^sup>* (clear_flag (post_alert a s)) t"
  shows "alerts_read t = alerts_read s \<and> a \<in> set (alert_queue t) \<and> \<not> alert_ready t"
proof -
  have "stuck (clear_flag (post_alert a s))"
    by (simp add: stuck_def clear_flag_def post_alert_def)
  from stuck_run [OF assms(3) this] show ?thesis
    by (auto simp: stuck_def clear_flag_def post_alert_def)
qed

theorem a_late_alert_stops_the_alerts_witness:
  "\<exists>t. alert_step\<^sup>*\<^sup>* idle t \<and> alerts_read t = [OtherAlert] \<and> CacheFlushed ''h'' 0 \<in> set (alert_queue t) \<and> \<not> alert_ready t"
proof -
  let ?s = "drain_queue (post_alert OtherAlert idle)"
  let ?t = "post_alert OtherAlert (clear_flag (post_alert (CacheFlushed ''h'' 0) ?s))"
  have "alert_step idle (post_alert OtherAlert idle)" "alert_step (post_alert OtherAlert idle) ?s"
    "alert_step ?s (post_alert (CacheFlushed ''h'' 0) ?s)"
    "alert_step (post_alert (CacheFlushed ''h'' 0) ?s) (clear_flag (post_alert (CacheFlushed ''h'' 0) ?s))"
    by (intro alert_step.intros; simp add: idle_def post_alert_def drain_queue_def)+
  then have "alert_step\<^sup>*\<^sup>* idle (clear_flag (post_alert (CacheFlushed ''h'' 0) ?s))"
    by (meson rtranclp.rtrancl_into_rtrancl rtranclp.rtrancl_refl)
  moreover have late: "alert_step\<^sup>*\<^sup>* (clear_flag (post_alert (CacheFlushed ''h'' 0) ?s)) ?t"
    by (intro r_into_rtranclp alert_step.posts)
  ultimately have "alert_step\<^sup>*\<^sup>* idle ?t"
    by (rule rtranclp_trans)
  moreover have "alerts_read ?s = [OtherAlert]" "loop_point ?s = Drained" "alert_queue ?s = []"
    by (simp_all add: drain_queue_def post_alert_def idle_def)
  ultimately show ?thesis
    using a_late_alert_stops_the_alerts [OF _ _ late] by (intro exI [of _ ?t]) simp
qed

section \<open>Clearing before draining\<close>

text \<open>With the flag cleared before the queue is popped no alert is ever overlooked.\<close>

inductive cleared_first :: "alert_state \<Rightarrow> alert_state \<Rightarrow> bool" where
  "cleared_first s (post_alert a s)"
| "loop_point s = Testing \<Longrightarrow> alert_ready s \<Longrightarrow> cleared_first s (s\<lparr>alert_ready := False, loop_point := Drained\<rparr>)"
| "loop_point s = Drained \<Longrightarrow> cleared_first s ((drain_queue s)\<lparr>loop_point := Testing\<rparr>)"

lemma clearing_first_reads_all:
  "cleared_first\<^sup>*\<^sup>* idle s \<Longrightarrow> loop_point s = Testing \<Longrightarrow> alert_queue s \<noteq> [] \<Longrightarrow> alert_ready s"
proof -
  have step: "cleared_first s t \<Longrightarrow> (loop_point s = Testing \<longrightarrow> alert_queue s \<noteq> [] \<longrightarrow> alert_ready s) \<Longrightarrow>
      (loop_point t = Testing \<longrightarrow> alert_queue t \<noteq> [] \<longrightarrow> alert_ready t)" for s t
    by (induction rule: cleared_first.induct) (auto simp: post_alert_def drain_queue_def)
  assume "cleared_first\<^sup>*\<^sup>* idle s"
  then have "loop_point s = Testing \<longrightarrow> alert_queue s \<noteq> [] \<longrightarrow> alert_ready s"
    by (induction rule: rtranclp_induct) (simp add: idle_def, rule step)
  then show "loop_point s = Testing \<Longrightarrow> alert_queue s \<noteq> [] \<Longrightarrow> alert_ready s"
    by blast
qed

end
