(* ===== verification/Monitor.thy ===== *)
theory Monitor
  imports SyncLoop
begin

unbundle bit_operations_syntax

text \<open>
  The monitor (\<open>src/monitor.cpp\<close>, \<open>src/include/monitor.h\<close>) and the receiving socket (\<open>src/sink.cpp\<close>). The
  monitor is a watch map, a batch of events not yet looked at, and the watches the kernel keeps for its
  descriptor, which only \<open>inotify_add_watch\<close> and \<open>inotify_rm_watch\<close> change here; what poll, read, the walk and
  \<open>inotify_add_watch\<close> answer is given from outside. A read buffer is decoded byte by byte: an event is a
  header of four 32-bit fields, little endian, and a name padded with NULs.
\<close>

section \<open>The read buffer\<close>

definition in_create :: "32 word" where "in_create = 0x100"

definition in_ignored :: "32 word" where "in_ignored = 0x8000"

definition in_isdir :: "32 word" where "in_isdir = 0x40000000"

definition event_header :: nat where "event_header = 16"

definition name_max :: nat where "name_max = 255"

definition max_event_size :: nat where "max_event_size = event_header + name_max + 1"

definition batch_size :: nat where "batch_size = 16"

record raw_event =
  rw_name :: string
  rw_wd :: "32 word"
  rw_mask :: "32 word"

definition le32 :: "string \<Rightarrow> 32 word" where
  "le32 bs = word_of_nat (horner_sum of_char 256 (take 4 bs))"

function parse_events :: "string \<Rightarrow> nat \<Rightarrow> nat \<Rightarrow> raw_event list" where
  "parse_events buf filled offset =
     (if offset + event_header \<le> filled
      then let e = drop offset buf; len = unat (le32 (drop 12 e))
           in \<lparr>rw_name = if len = 0 then [] else takeWhile (\<lambda>c. c \<noteq> nul) (drop event_header e),
               rw_wd = le32 e, rw_mask = le32 (drop 4 e)\<rparr> # parse_events buf filled (offset + event_header + len)
      else [])"
  by pat_completeness auto
termination
  by (relation "measure (\<lambda>(buf, filled, offset). filled - offset)") (auto simp: event_header_def)

declare parse_events.simps [simp del]

text \<open>What \<open>read\<close> gives: an error, or some bytes at the front of a buffer of NULs.\<close>

definition read_events :: "string option \<Rightarrow> string + raw_event list" where
  "read_events answer =
     (case answer of
        None \<Rightarrow> Inl ''Failed to read on inotify fd.''
      | Some bytes \<Rightarrow>
          if bytes = [] then Inl ''inotify fd closed''
          else if length bytes < event_header then Inl ''Read something smaller than an inotify event''
          else Inr (parse_events (bytes @ replicate (batch_size * max_event_size - length bytes) nul) (length bytes) 0))"

section \<open>Watches\<close>

record monitor_event =
  ev_name :: "string option"
  ev_mask :: "32 word"

record monitor =
  watches :: "(int, string) cppmap"
  batch :: "monitor_event list"
  fd_watches :: "int set"

text \<open>What the tree answers: whether a path is a directory, the walk (a path, whether it is a directory, whether it
  is a symbolic link), and the watch descriptor of a directory.\<close>

record tree_view =
  tv_is_dir :: "string \<Rightarrow> bool"
  tv_walk :: "(string \<times> bool \<times> bool) list"
  tv_add :: "string \<Rightarrow> int option"

text \<open>The watches are a map from descriptors in their own order.\<close>

definition wd_key :: "int \<Rightarrow> int" where "wd_key wd = wd"

lemma wd_key_eq [simp]: "wd_key a = wd_key b \<longleftrightarrow> a = b"
  by (simp add: wd_key_def)

text \<open>A directory the kernel refuses to watch (\<open>tv_add\<close> gives \<open>None\<close>) is logged and left out.\<close>

definition add_watch :: "tree_view \<Rightarrow> string \<Rightarrow> monitor \<Rightarrow> monitor" where
  "add_watch tv dir m =
     (case tv_add tv dir of
        None \<Rightarrow> m
      | Some wd \<Rightarrow> m\<lparr>watches := om_assign wd_key wd dir (watches m), fd_watches := insert wd (fd_watches m)\<rparr>)"

definition resync_watches :: "tree_view \<Rightarrow> monitor \<Rightarrow> monitor" where
  "resync_watches tv m =
     (let stale = map fst (filter (\<lambda>(_, p). \<not> tv_is_dir tv p) (watches m));
          kept = m\<lparr>watches := om_erase_if (\<lambda>_ p. \<not> tv_is_dir tv p) (watches m), fd_watches := fd_watches m - set stale\<rparr>;
          dirs = map fst (filter (\<lambda>(_, d, l). d \<and> \<not> l) (tv_walk tv))
      in fold (add_watch tv) dirs (add_watch tv ''.'' kept))"

text \<open>The constructor throws where the root cannot be watched.\<close>

definition monitor_start :: "int option \<Rightarrow> tree_view \<Rightarrow> monitor option" where
  "monitor_start root_wd tv =
     map_option (\<lambda>wd. resync_watches tv \<lparr>watches = om_assign wd_key wd ''.'' [], batch = [], fd_watches = {wd}\<rparr>) root_wd"

definition watched :: "monitor \<Rightarrow> string list" where
  "watched m = sort_key path_key (map snd (watches m))"

section \<open>Events\<close>

definition path_join :: "string \<Rightarrow> string \<Rightarrow> string" where
  "path_join base name =
     (if has_root name then name else if base = [] \<or> ends_in_slash base then base @ name else base @ [slash] @ name)"

definition expand_event :: "(int, string) cppmap \<Rightarrow> raw_event \<Rightarrow> monitor_event" where
  "expand_event w r =
     \<lparr>ev_name = if rw_name r = [] then None
        else Some (path_join (case om_find wd_key (sint (rw_wd r)) w of None \<Rightarrow> ''.'' | Some d \<Rightarrow> d) (rw_name r)),
      ev_mask = rw_mask r\<rparr>"

definition reshapes_tree :: "raw_event \<Rightarrow> bool" where
  "reshapes_tree r \<longleftrightarrow> rw_mask r AND (in_isdir OR in_ignored) \<noteq> 0"

definition drives_sync :: "monitor_event \<Rightarrow> bool" where
  "drives_sync e \<longleftrightarrow> ev_mask e AND in_create = 0 \<or> ev_mask e AND in_isdir \<noteq> 0"

definition refill :: "tree_view \<Rightarrow> raw_event list \<Rightarrow> monitor \<Rightarrow> monitor" where
  "refill tv raw m =
     (let w = fold (\<lambda>r w. if rw_mask r AND in_ignored \<noteq> 0 then om_erase wd_key (sint (rw_wd r)) w else w) raw (watches m);
          m1 = m\<lparr>batch := batch m @ map (expand_event (watches m)) raw, watches := w\<rparr>
      in if list_ex reshapes_tree raw then resync_watches tv m1 else m1)"

definition next_event :: "tree_view \<Rightarrow> string option \<Rightarrow> monitor \<Rightarrow> (string + monitor_event) \<times> monitor" where
  "next_event tv answer m =
     (case (if batch m = [] then (case read_events answer of Inl e \<Rightarrow> Inl e | Inr raw \<Rightarrow> Inr (refill tv raw m)) else Inr m) of
        Inl e \<Rightarrow> (Inl e, m)
      | Inr m1 \<Rightarrow>
          (case batch m1 of
             [] \<Rightarrow> (Inl ''Read no inotify event'', m1)
           | e # es \<Rightarrow> (Inr e, m1\<lparr>batch := es\<rparr>)))"

text \<open>After the first event the batch is not refilled: a wait ends when it is empty.\<close>

fun wait_on :: "monitor_event \<Rightarrow> monitor_event list \<Rightarrow> bool \<times> monitor_event list" where
  "wait_on e es =
     (if drives_sync e then (True, e # es)
      else case es of [] \<Rightarrow> (False, []) | e' # es' \<Rightarrow> wait_on e' es')"

datatype poll_answer =
    PollFails
  | PollInterrupted
  | PollNothing
  | PollEvents bool

text \<open>The flag says whether poll reports an error condition of the descriptor; that and a failure throw (\<open>None\<close>).\<close>

definition poll_wait :: "poll_answer \<Rightarrow> bool option" where
  "poll_wait p = (case p of PollFails \<Rightarrow> None | PollInterrupted \<Rightarrow> Some False | PollNothing \<Rightarrow> Some False
     | PollEvents bad \<Rightarrow> if bad then None else Some True)"

definition monitor_wait :: "poll_answer \<Rightarrow> tree_view \<Rightarrow> string option \<Rightarrow> monitor \<Rightarrow> bool option \<times> monitor" where
  "monitor_wait poll tv answer m =
     (case (if batch m = [] then poll_wait poll else Some True) of
        None \<Rightarrow> (None, m)
      | Some False \<Rightarrow> (Some False, m)
      | Some True \<Rightarrow>
          (case next_event tv answer m of
             (Inl _, m1) \<Rightarrow> (Some False, m1)
           | (Inr e, m1) \<Rightarrow> (let (woke, es) = wait_on e (batch m1) in (Some woke, m1\<lparr>batch := es\<rparr>))))"

definition discard :: "tree_view \<Rightarrow> string option \<Rightarrow> tree_view \<Rightarrow> monitor \<Rightarrow> (string + unit) \<times> monitor" where
  "discard tv answer tv' m =
     (let (consumed, m1) = next_event tv answer m
      in (case consumed of Inl e \<Rightarrow> Inl e | Inr _ \<Rightarrow> Inr (), resync_watches tv' (m1\<lparr>batch := []\<rparr>)))"

lemma add_watch_batch [simp]: "batch (add_watch tv d m) = batch m"
  by (simp add: add_watch_def split: option.split)

lemma resync_batch [simp]: "batch (resync_watches tv m) = batch m"
proof -
  have "batch (fold (add_watch tv) ds m) = batch m" for ds m
    by (induction ds arbitrary: m) simp_all
  then show ?thesis
    by (simp add: resync_watches_def Let_def)
qed

section \<open>The receiving socket\<close>

text \<open>
  The parts waiting on the socket, each with whether another of its message follows. Reading stops with an
  error once as many parts as allowed were read and another is to come, which stays on the socket.
\<close>

fun recv_multipart_n :: "nat \<Rightarrow> (string \<times> bool) list \<Rightarrow> string list option \<times> (string \<times> bool) list" where
  "recv_multipart_n n [] = (None, [])"
| "recv_multipart_n 0 parts = (None, parts)"
| "recv_multipart_n (Suc n) ((p, more_parts) # parts) =
     (if more_parts
      then (case recv_multipart_n n parts of (None, rest) \<Rightarrow> (None, rest) | (Some ps, rest) \<Rightarrow> (Some (p # ps), rest))
      else (Some [p], parts))"

definition max_parts :: nat where "max_parts = 4"

definition sink_receive :: "(string \<times> bool) list \<Rightarrow> string list option \<times> (string \<times> bool) list" where
  "sink_receive parts = recv_multipart_n max_parts parts"

text \<open>A message on the wire: every part but the last says that another follows.\<close>

definition on_wire :: "string list \<Rightarrow> (string \<times> bool) list" where
  "on_wire ps = map (\<lambda>p. (p, True)) (butlast ps) @ [(last ps, False)]"

lemma on_wire_Cons: "ps \<noteq> [] \<Longrightarrow> on_wire (p # ps) = (p, True) # on_wire ps"
  by (simp add: on_wire_def)

lemma recv_multipart_n_back:
  "ps \<noteq> [] \<Longrightarrow> recv_multipart_n n (on_wire ps @ rest) =
    (if length ps \<le> n then (Some ps, rest) else (None, drop n (on_wire ps) @ rest))"
proof (induction ps arbitrary: n)
  case (Cons p ps)
  show ?case
  proof (cases n)
    case 0
    then show ?thesis
      by (cases "ps = []") (simp_all add: on_wire_Cons, simp add: on_wire_def)
  next
    case (Suc n')
    then show ?thesis
      using Cons.IH [of n'] by (cases "ps = []") (simp_all add: on_wire_Cons, simp add: on_wire_def)
  qed
qed simp

text \<open>
  A message of up to four parts is received as it was sent; of a longer one the first four are thrown away and
  the others stay, to be received as a message of their own.
\<close>

lemma sink_receive_back:
  "ps \<noteq> [] \<Longrightarrow> sink_receive (on_wire ps @ rest) =
    (if length ps \<le> 4 then (Some ps, rest) else (None, on_wire (drop 4 ps) @ rest))"
proof -
  assume ps: "ps \<noteq> []"
  have "drop n (on_wire ps) = on_wire (drop n ps)" if "n < length ps" for n
    using that by (simp add: on_wire_def drop_map drop_butlast)
  then show ?thesis
    using ps by (simp add: sink_receive_def max_parts_def recv_multipart_n_back)
qed

section \<open>What the kernel writes is read back\<close>

definition le32_bytes :: "32 word \<Rightarrow> string" where
  "le32_bytes w = [char_of (unat w), char_of (unat w div 256), char_of (unat w div 65536), char_of (unat w div 16777216)]"

lemma le32_bytes_length [simp]: "length (le32_bytes w) = 4"
  by (simp add: le32_bytes_def)

lemma le32_read [simp]: "le32 (le32_bytes w @ s) = w"
proof -
  define n where "n = unat w"
  define n1 where "n1 = n div 256"
  define n2 where "n2 = n1 div 256"
  define n3 where "n3 = n2 div 256"
  have d: "n div 65536 = n2" "n div 16777216 = n3" "n div 256 = n1"
    by (simp_all add: n1_def n2_def n3_def div_mult2_eq [symmetric])
  have "n < 4294967296"
    using unsigned_less [of w] by (simp add: n_def)
  then have "n3 < 256"
    unfolding d(2) [symmetric] by (simp add: less_mult_imp_div_less)
  then have top: "n3 mod 256 = n3"
    by (rule mod_less)
  have "n = 256 * n1 + n mod 256" "n1 = 256 * n2 + n1 mod 256" "n2 = 256 * n3 + n2 mod 256"
    unfolding n1_def n2_def n3_def by (rule mult_div_mod_eq [symmetric])+
  then have "n mod 256 + 256 * (n1 mod 256) + 65536 * (n2 mod 256) + 16777216 * n3 = n"
    by linarith
  then have "n mod 256 + 256 * (n div 256 mod 256) + 65536 * (n div 65536 mod 256) + 16777216 * (n div 16777216 mod 256) = n"
    by (simp only: d top)
  then have "horner_sum of_char 256 (take 4 (le32_bytes w @ s)) = unat w"
    by (simp add: le32_bytes_def n_def distrib_left add.assoc del: mod_less)
  then show ?thesis
    by (simp add: le32_def)
qed

text \<open>An event as the kernel lays it out: a name is padded with at least one NUL.\<close>

record kernel_event =
  ke_raw :: raw_event
  ke_cookie :: "32 word"
  ke_pad :: nat

definition padded_name :: "kernel_event \<Rightarrow> string" where
  "padded_name k = (if rw_name (ke_raw k) = [] then [] else rw_name (ke_raw k) @ replicate (ke_pad k) nul)"

definition event_bytes :: "kernel_event \<Rightarrow> string" where
  "event_bytes k = le32_bytes (rw_wd (ke_raw k)) @ le32_bytes (rw_mask (ke_raw k)) @ le32_bytes (ke_cookie k) @
     le32_bytes (word_of_nat (length (padded_name k))) @ padded_name k"

definition kernel_ok :: "kernel_event \<Rightarrow> bool" where
  "kernel_ok k \<longleftrightarrow> nul \<notin> set (rw_name (ke_raw k)) \<and> 0 < ke_pad k \<and> length (rw_name (ke_raw k)) + ke_pad k < 2 ^ 32"

lemma parse_events_back:
  "list_all kernel_ok ks \<Longrightarrow>
    parse_events (pre @ concat (map event_bytes ks) @ post) (length pre + length (concat (map event_bytes ks))) (length pre)
    = map ke_raw ks"
proof (induction ks arbitrary: pre)
  case Nil
  then show ?case
    by (simp add: parse_events.simps event_header_def)
next
  case (Cons k ks)
  let ?rest = "concat (map event_bytes ks)"
  let ?e = "event_bytes k @ ?rest @ post"
  have ok: "kernel_ok k" "list_all kernel_ok ks"
    using Cons.prems by simp_all
  have small: "length (padded_name k) < 2 ^ 32"
    using ok(1) by (simp add: padded_name_def kernel_ok_def)
  have len: "unat (le32 (drop 12 ?e)) = length (padded_name k)"
  proof -
    have "drop 12 ?e = le32_bytes (word_of_nat (length (padded_name k))) @ padded_name k @ ?rest @ post"
      by (simp add: event_bytes_def)
    then show ?thesis
      using small by (simp only: le32_read) (simp add: unat_of_nat take_bit_nat_eq_self_iff)
  qed
  have fields: "le32 ?e = rw_wd (ke_raw k)" "le32 (drop 4 ?e) = rw_mask (ke_raw k)"
    by (simp_all add: event_bytes_def)
  have name: "(if length (padded_name k) = 0 then [] else takeWhile (\<lambda>c. c \<noteq> nul) (drop event_header ?e)) = rw_name (ke_raw k)"
  proof (cases "rw_name (ke_raw k) = []")
    case False
    then obtain n where n: "ke_pad k = Suc n"
      using ok(1) gr0_implies_Suc by (auto simp: kernel_ok_def)
    have "drop event_header ?e = rw_name (ke_raw k) @ nul # replicate n nul @ ?rest @ post"
      using False n by (simp add: event_bytes_def event_header_def padded_name_def)
    moreover have "takeWhile (\<lambda>c. c \<noteq> nul) (rw_name (ke_raw k) @ nul # s) = rw_name (ke_raw k)" for s
      using ok(1) by (subst takeWhile_append2) (auto simp: kernel_ok_def)
    ultimately show ?thesis
      using False by (simp add: padded_name_def)
  qed (simp add: padded_name_def)
  have here: "drop (length pre) (pre @ concat (map event_bytes (k # ks)) @ post) = ?e"
    by simp
  have size: "length (event_bytes k) = event_header + length (padded_name k)"
    by (simp add: event_bytes_def event_header_def)
  have "parse_events ((pre @ event_bytes k) @ ?rest @ post) (length (pre @ event_bytes k) + length ?rest) (length (pre @ event_bytes k))
      = map ke_raw ks"
    by (rule Cons.IH [OF ok(2)])
  then have rest: "parse_events (pre @ concat (map event_bytes (k # ks)) @ post)
      (length pre + length (concat (map event_bytes (k # ks)))) (length pre + event_header + length (padded_name k)) = map ke_raw ks"
    by (simp add: size add.assoc)
  have fits: "length pre + event_header \<le> length pre + length (concat (map event_bytes (k # ks)))"
    by (simp add: size)
  show ?case
    by (subst parse_events.simps) (simp only: fits here Let_def len fields name rest if_True, simp)
qed

lemma read_events_back:
  assumes "list_all kernel_ok ks" "ks \<noteq> []"
  shows "read_events (Some (concat (map event_bytes ks))) = Inr (map ke_raw ks)"
proof -
  have "event_header \<le> length (concat (map event_bytes ks))"
    using assms(2) by (cases ks) (simp_all add: event_bytes_def event_header_def)
  then show ?thesis
    using parse_events_back [OF assms(1), of "[]"] by (auto simp: read_events_def event_header_def simp del: concat_eq_Nil_conv)
qed

lemma wait_on_first: "wait_on e es = (list_ex drives_sync (e # es), dropWhile (\<lambda>e. \<not> drives_sync e) (e # es))"
  by (induction e es rule: wait_on.induct) (auto split: list.split)

text \<open>The events that wake the loop: all but the creation of something that is not a directory.\<close>

definition telling :: "kernel_event \<Rightarrow> bool" where
  "telling k \<longleftrightarrow> rw_mask (ke_raw k) AND in_create = 0 \<or> rw_mask (ke_raw k) AND in_isdir \<noteq> 0"

lemma drives_telling: "drives_sync (expand_event w (ke_raw k)) \<longleftrightarrow> telling k"
  by (simp add: drives_sync_def expand_event_def telling_def)

lemma wait_reads:
  assumes "list_all kernel_ok ks" "ks \<noteq> []" "batch m = []" "poll_wait poll = Some True"
    and "(woke, m') = monitor_wait poll tv (Some (concat (map event_bytes ks))) m"
  shows "woke = Some (list_ex telling ks) \<and>
    batch m' = map (expand_event (watches m)) (map ke_raw (dropWhile (\<lambda>k. \<not> telling k) ks)) \<and>
    m' = (refill tv (map ke_raw ks) m)\<lparr>batch := batch m'\<rparr>"
proof -
  obtain k ks' where ks: "ks = k # ks'"
    using assms(2) by (cases ks) auto
  let ?es = "map (\<lambda>k. expand_event (watches m) (ke_raw k)) ks"
  let ?m1 = "refill tv (map ke_raw ks) m"
  have batch: "batch ?m1 = ?es"
    by (simp add: refill_def Let_def assms(3) comp_def)
  have "next_event tv (Some (concat (map event_bytes ks))) m = (Inr (hd ?es), ?m1\<lparr>batch := tl ?es\<rparr>)"
    using read_events_back [OF assms(1,2)] batch by (simp add: next_event_def assms(3) ks)
  then have "woke = Some (list_ex drives_sync (hd ?es # tl ?es))" "batch m' = dropWhile (\<lambda>e. \<not> drives_sync e) (hd ?es # tl ?es)"
    "m' = ?m1\<lparr>batch := batch m'\<rparr>"
    using assms(5) by (simp_all add: monitor_wait_def assms(3,4) wait_on_first del: wait_on.simps)
  moreover have "hd ?es # tl ?es = ?es"
    by (simp add: ks)
  moreover have "list_ex drives_sync ?es = list_ex telling ks"
    by (simp add: list_ex_iff drives_telling)
  moreover have "dropWhile (\<lambda>e. \<not> drives_sync e) ?es = map (\<lambda>k. expand_event (watches m) (ke_raw k)) (dropWhile (\<lambda>k. \<not> telling k) ks)"
    by (simp only: dropWhile_map comp_def drives_telling)
  ultimately show ?thesis
    by (simp add: comp_def)
qed

text \<open>
  C35. A wait reads what happened. Whatever events the kernel hands over in one read, under any padding of their
  names, a wait on an empty batch wakes the loop exactly when one of them is not the creation of something that
  is no directory; it leaves the first such event and all after it in the batch, each named by the directory
  its watch stood for when the events were read, before the tree is looked at again.
\<close>

theorem a_wait_reads_what_happened:
  assumes "list_all kernel_ok ks" "ks \<noteq> []" "batch m = []" "poll_wait poll = Some True"
    and "(woke, m') = monitor_wait poll tv (Some (concat (map event_bytes ks))) m"
  shows "woke = Some (list_ex (\<lambda>k. rw_mask (ke_raw k) AND in_create = 0 \<or> rw_mask (ke_raw k) AND in_isdir \<noteq> 0) ks) \<and>
    batch m' = map (expand_event (watches m)) (map ke_raw (dropWhile (\<lambda>k. \<not> telling k) ks))"
proof -
  have "telling = (\<lambda>k. rw_mask (ke_raw k) AND in_create = 0 \<or> rw_mask (ke_raw k) AND in_isdir \<noteq> 0)"
    by (rule ext) (simp only: telling_def)
  then show ?thesis
    using wait_reads [OF assms] by (simp only: HOL.simp_thms)
qed

theorem a_wait_reads_what_happened_witness:
  "\<exists>m' :: monitor. batch m' = [\<lparr>ev_name = Some ''./d/f'', ev_mask = 8\<rparr>]"
proof -
  let ?ks = "[\<lparr>ke_raw = \<lparr>rw_name = ''g'', rw_wd = 1, rw_mask = in_create\<rparr>, ke_cookie = 0, ke_pad = 3\<rparr>,
    \<lparr>ke_raw = \<lparr>rw_name = ''f'', rw_wd = 2, rw_mask = 8\<rparr>, ke_cookie = 0, ke_pad = 15\<rparr>]"
  let ?m = "\<lparr>watches = [(1, ''.''), (2, ''./d'')], batch = [], fd_watches = {1, 2}\<rparr>"
  obtain woke m' where r: "(woke, m') = monitor_wait (PollEvents False) \<lparr>tv_is_dir = (\<lambda>_. True), tv_walk = [], tv_add = (\<lambda>_. None)\<rparr>
      (Some (concat (map event_bytes ?ks))) ?m"
    by (metis surj_pair)
  have ks: "list_all kernel_ok ?ks" "?ks \<noteq> []" "batch ?m = []" "poll_wait (PollEvents False) = Some True"
    by (simp_all add: kernel_ok_def poll_wait_def)
  have "batch m' = map (expand_event (watches ?m)) (map ke_raw (dropWhile (\<lambda>k. \<not> telling k) ?ks))"
    using a_wait_reads_what_happened [OF ks r] by blast
  also have "\<dots> = [\<lparr>ev_name = Some ''./d/f'', ev_mask = 8\<rparr>]"
    by (simp add: expand_event_def telling_def in_create_def wd_key_def in_isdir_def path_join_def has_root_def ends_in_slash_def slash_def)
  finally show ?thesis
    by blast
qed

section \<open>Coverage\<close>

abbreviation map_ok :: "monitor \<Rightarrow> bool" where
  "map_ok m \<equiv> om_ok wd_key (watches m)"

abbreviation watch_of :: "int \<Rightarrow> monitor \<Rightarrow> string option" where
  "watch_of wd m \<equiv> om_find wd_key wd (watches m)"

lemma add_watch_ok: "map_ok m \<Longrightarrow> map_ok (add_watch tv d m)"
  by (simp add: add_watch_def om_ok_assign split: option.split)

lemma add_watch_find:
  "map_ok m \<Longrightarrow> watch_of wd (add_watch tv d m) = (if tv_add tv d = Some wd then Some d else watch_of wd m)"
  by (auto simp: add_watch_def om_find_assign split: option.split)

lemma add_watch_fd: "fd_watches (add_watch tv d m) = fd_watches m \<union> set_option (tv_add tv d)"
  by (simp add: add_watch_def split: option.split)

lemma fold_add_watch_ok: "map_ok m \<Longrightarrow> map_ok (fold (add_watch tv) ds m)"
  by (induction ds arbitrary: m) (simp_all add: add_watch_ok)

lemma fold_add_watch:
  "map_ok m \<Longrightarrow> watch_of wd (fold (add_watch tv) ds m) =
    (case find (\<lambda>d. tv_add tv d = Some wd) (rev ds) of None \<Rightarrow> watch_of wd m | Some d \<Rightarrow> Some d)"
proof (induction ds rule: rev_induct)
  case (snoc d ds)
  have step: "watch_of wd (fold (add_watch tv) (ds @ [d]) m) =
      (if tv_add tv d = Some wd then Some d else watch_of wd (fold (add_watch tv) ds m))"
    using add_watch_find [OF fold_add_watch_ok [OF snoc.prems]] by (simp only: fold_append comp_apply fold_simps)
  show ?case
    by (cases "tv_add tv d = Some wd")
      (simp_all only: step snoc.IH [OF snoc.prems] rev_append rev.simps append_Nil append_Cons find.simps if_True if_False option.case simp_thms)
qed (simp only: fold_simps rev.simps find.simps option.case)

lemma fold_add_watch_fd: "fd_watches (fold (add_watch tv) ds m) = fd_watches m \<union> {wd. \<exists>d \<in> set ds. tv_add tv d = Some wd}"
  by (induction ds arbitrary: m) (auto simp: add_watch_fd)

definition walked_dirs :: "tree_view \<Rightarrow> string list" where
  "walked_dirs tv = map fst (filter (\<lambda>(_, d, l). d \<and> \<not> l) (tv_walk tv))"

lemma resync_find:
  "map_ok m \<Longrightarrow> watch_of wd (resync_watches tv m) =
    (case find (\<lambda>d. tv_add tv d = Some wd) (rev (walked_dirs tv)) of
       Some d \<Rightarrow> Some d
     | None \<Rightarrow> if tv_add tv ''.'' = Some wd then Some ''.'' else om_find wd_key wd (om_erase_if (\<lambda>_ p. \<not> tv_is_dir tv p) (watches m)))"
  by (simp add: resync_watches_def Let_def walked_dirs_def [symmetric] fold_add_watch add_watch_find add_watch_ok
      om_ok_erase_if split: option.split)

lemma resync_ok: "map_ok m \<Longrightarrow> map_ok (resync_watches tv m)"
  by (simp add: resync_watches_def Let_def fold_add_watch_ok add_watch_ok om_ok_erase_if)

definition wanted_dirs :: "tree_view \<Rightarrow> string set" where
  "wanted_dirs tv = insert ''.'' (set (walked_dirs tv))"

text \<open>The kernel watches every directory walked that it did not refuse.\<close>

lemma resync_fd: "d \<in> wanted_dirs tv \<Longrightarrow> tv_add tv d = Some wd \<Longrightarrow> wd \<in> fd_watches (resync_watches tv m)"
  by (auto simp: resync_watches_def Let_def walked_dirs_def [symmetric] fold_add_watch_fd add_watch_fd wanted_dirs_def)

lemma found_in: "find P xs = Some x \<Longrightarrow> x \<in> set xs \<and> P x"
  by (auto simp: find_Some_iff in_set_conv_nth)

lemma resync_watches_all:
  assumes "map_ok m" "inj_on (tv_add tv) (wanted_dirs tv)" "d \<in> wanted_dirs tv" "tv_add tv d = Some wd"
  shows "watch_of wd (resync_watches tv m) = Some d"
proof (cases "find (\<lambda>d. tv_add tv d = Some wd) (rev (walked_dirs tv))")
  case None
  then have "d = ''.''"
    using assms(3,4) by (auto simp: find_None_iff wanted_dirs_def)
  then show ?thesis
    using assms(4) None by (simp add: resync_find [OF assms(1)])
next
  case (Some e)
  then have "e = d"
    using found_in [OF Some] assms(3,4) inj_onD [OF assms(2), of e d] by (simp add: wanted_dirs_def)
  then show ?thesis
    using Some by (simp add: resync_find [OF assms(1)])
qed

lemma resync_watches_only:
  assumes "map_ok m" "watch_of wd (resync_watches tv m) = Some p"
  shows "p \<in> wanted_dirs tv \<and> tv_add tv p = Some wd \<or> tv_is_dir tv p \<and> watch_of wd m = Some p"
  using assms(2) found_in [of _ "rev (walked_dirs tv)"] om_find_erase_if [OF assms(1), of wd]
  by (auto simp: resync_find [OF assms(1)] wanted_dirs_def split: option.splits if_splits)

text \<open>Reading a batch only takes watches away, but for what a resync adds.\<close>

definition drop_ignored :: "raw_event list \<Rightarrow> (int, string) cppmap \<Rightarrow> (int, string) cppmap" where
  "drop_ignored raw w =
     fold (\<lambda>r w. if rw_mask r AND in_ignored \<noteq> 0 then om_erase wd_key (sint (rw_wd r)) w else w) raw w"

lemma drop_ignored_Cons:
  "drop_ignored (r # raw) w = drop_ignored raw (if rw_mask r AND in_ignored \<noteq> 0 then om_erase wd_key (sint (rw_wd r)) w else w)"
  by (simp add: drop_ignored_def)

lemma drop_ignored_sound:
  "om_ok wd_key w \<Longrightarrow> om_ok wd_key (drop_ignored raw w) \<and>
    (\<forall>wd p. om_find wd_key wd (drop_ignored raw w) = Some p \<longrightarrow> om_find wd_key wd w = Some p)"
proof (induction raw arbitrary: w)
  case (Cons r raw)
  show ?case
  proof (cases "rw_mask r AND in_ignored = 0")
    case True
    have "drop_ignored (r # raw) w = drop_ignored raw w"
      using True by (simp add: drop_ignored_Cons)
    then show ?thesis
      using Cons.IH [OF Cons.prems] by metis
  next
    case False
    have from_erased: "om_find wd_key wd (om_erase wd_key k w) = Some p \<Longrightarrow> om_find wd_key wd w = Some p" for wd p k
      by (simp add: om_find_erase split: if_splits)
    have "drop_ignored (r # raw) w = drop_ignored raw (om_erase wd_key (sint (rw_wd r)) w)"
      using False by (simp add: drop_ignored_Cons)
    then show ?thesis
      using Cons.IH [OF om_ok_erase [OF Cons.prems]] from_erased by metis
  qed
qed (simp add: drop_ignored_def)

lemma refill_watches:
  obtains m1 where "watches m1 = drop_ignored raw (watches m)"
    "refill tv raw m = (if list_ex reshapes_tree raw then resync_watches tv m1 else m1)"
    "batch m1 = batch m @ map (expand_event (watches m)) raw" "fd_watches m1 = fd_watches m"
  by (rule that [of "m\<lparr>batch := batch m @ map (expand_event (watches m)) raw, watches := drop_ignored raw (watches m)\<rparr>"])
    (simp_all add: refill_def Let_def drop_ignored_def)

lemma next_event_watches:
  assumes "map_ok m"
  shows "map_ok (snd (next_event tv answer m))" (is ?ok)
    and "watch_of wd (snd (next_event tv answer m)) = Some p \<Longrightarrow>
      watch_of wd m = Some p \<or> p \<in> wanted_dirs tv \<and> tv_add tv p = Some wd"
proof -
  have kept: "watches (snd (next_event tv answer m)) = watches m \<or>
      (\<exists>raw. watches (snd (next_event tv answer m)) = watches (refill tv raw m))"
    by (auto simp: next_event_def split: sum.split list.split)
  have filled: "map_ok (refill tv raw m)" for raw
  proof -
    obtain m1 where "watches m1 = drop_ignored raw (watches m)"
      "refill tv raw m = (if list_ex reshapes_tree raw then resync_watches tv m1 else m1)"
      by (rule refill_watches)
    then show ?thesis
      using resync_ok [of m1 tv] drop_ignored_sound [OF assms, of raw] by simp
  qed
  show ?ok
    using kept by (elim disjE exE) (simp_all only: filled assms)
  show "watch_of wd m = Some p \<or> p \<in> wanted_dirs tv \<and> tv_add tv p = Some wd"
    if "watch_of wd (snd (next_event tv answer m)) = Some p"
    using kept that
  proof (elim disjE exE, goal_cases)
    case (2 raw)
    obtain m1 where m1: "watches m1 = drop_ignored raw (watches m)"
      "refill tv raw m = (if list_ex reshapes_tree raw then resync_watches tv m1 else m1)"
      by (rule refill_watches)
    have found: "watch_of wd (if list_ex reshapes_tree raw then resync_watches tv m1 else m1) = Some p"
      using 2 m1(2) by simp
    note dropped = drop_ignored_sound [OF assms, of raw]
    show ?case
      using found dropped resync_watches_only [of m1 wd tv p]
      by (cases "list_ex reshapes_tree raw") (simp_all only: m1(1) if_True if_False, blast+)
  qed simp
qed

text \<open>
  C36. After the loop has looked away, however the tree was changed, the root and every directory the walk finds
  and the kernel does not refuse are watched, each under the descriptor the kernel has for it now, even where an old entry had that
  descriptor under another path. Nothing else is in the watch map but entries of before (or of the refill) whose path is
  still a directory, so an entry of a directory that was made anew under its old name can stay; and no
  event of before is left, even when reading one failed.
\<close>

theorem every_directory_is_watched:
  assumes "om_ok wd_key (watches m)" "inj_on (tv_add tv') (wanted_dirs tv')" "m' = snd (discard tv answer tv' m)"
  shows "batch m' = [] \<and> om_ok wd_key (watches m') \<and>
    (\<forall>d \<in> wanted_dirs tv'. \<forall>wd. tv_add tv' d = Some wd \<longrightarrow> om_find wd_key wd (watches m') = Some d) \<and>
    (\<forall>wd p. om_find wd_key wd (watches m') = Some p \<longrightarrow> p \<in> wanted_dirs tv' \<and> tv_add tv' p = Some wd \<or>
       tv_is_dir tv' p \<and> (om_find wd_key wd (watches m) = Some p \<or> p \<in> wanted_dirs tv \<and> tv_add tv p = Some wd))"
proof -
  let ?m = "(snd (next_event tv answer m))\<lparr>batch := []\<rparr>"
  have m': "batch m' = []" "m' = resync_watches tv' ?m"
    by (simp_all add: assms(3) discard_def case_prod_beta)
  have ok: "map_ok ?m" and w: "watches ?m = watches (snd (next_event tv answer m))"
    using next_event_watches(1) [OF assms(1), of tv answer] by simp_all
  have "\<forall>wd p. om_find wd_key wd (watches m') = Some p \<longrightarrow> p \<in> wanted_dirs tv' \<and> tv_add tv' p = Some wd \<or>
       tv_is_dir tv' p \<and> (om_find wd_key wd (watches m) = Some p \<or> p \<in> wanted_dirs tv \<and> tv_add tv p = Some wd)"
    using resync_watches_only [OF ok] next_event_watches(2) [OF assms(1), of _ tv answer] by (metis m'(2) w)
  moreover have "om_ok wd_key (watches m')"
    using resync_ok [OF ok] by (simp only: m'(2))
  moreover have "\<forall>d \<in> wanted_dirs tv'. \<forall>wd. tv_add tv' d = Some wd \<longrightarrow> om_find wd_key wd (watches m') = Some d"
    using resync_watches_all [OF ok assms(2)] by (simp only: m'(2)) blast
  ultimately show ?thesis
    using m'(1) by (intro conjI)
qed

theorem every_directory_is_watched_witness:
  "\<exists>m' :: monitor. om_find wd_key 7 (watches m') = Some ''./new'' \<and> om_find wd_key 3 (watches m') = None"
proof -
  let ?tv = "\<lparr>tv_is_dir = (\<lambda>p. p \<noteq> ''./old''), tv_walk = [(''./new'', True, False), (''./f'', False, False), (''./l'', True, True)],
    tv_add = (\<lambda>p. if p = ''./new'' then Some 7 else if p = ''.'' then Some 1 else None)\<rparr>"
  let ?m = "\<lparr>watches = [(1, ''.''), (3, ''./old''), (7, ''./old'')], batch = [], fd_watches = {1, 3, 7}\<rparr>"
  have dirs: "wanted_dirs ?tv = {''.'', ''./new''}"
    by (simp add: wanted_dirs_def walked_dirs_def)
  have ok: "om_ok wd_key (watches ?m)" "inj_on (tv_add ?tv) (wanted_dirs ?tv)"
    by (simp_all add: dirs wd_key_def)
  obtain m' where m': "m' = snd (discard ?tv None ?tv ?m)"
    by blast
  have found: "om_find wd_key 7 (watches m') = Some ''./new''"
    using every_directory_is_watched [OF ok m'] by (simp add: dirs)
  have "om_find wd_key 3 (watches m') \<noteq> Some p" for p
    using every_directory_is_watched [OF ok m', THEN conjunct2, THEN conjunct2, THEN conjunct2, rule_format, of 3 p]
    by (auto simp: dirs wd_key_def split: if_splits)
  then show ?thesis
    using found by blast
qed

end
