(* ===== verification/Noticing.thy ===== *)
theory Noticing
  imports Monitor
begin

unbundle bit_operations_syntax

text \<open>
  The monitor and the loop together (\<open>src/monitor.cpp\<close>, \<open>sync_loop\<close> in \<open>src/syncfs.cpp\<close>): the wait, the discard
  and the listing of a turn as steps between which others change the tree, and the events the kernel queues
  for them.
\<close>

section \<open>The tree and its events\<close>

text \<open>
  The directories with the descriptor the kernel has or would give for each, what a walk would list, the paths
  with an open writer, and the events not yet read.
\<close>

record watched_tree =
  root_wd :: int
  subdirs :: "(string \<times> int) list"
  listing :: file_map
  being_written :: "(bool \<times> string list) set"
  event_queue :: "kernel_event list"

definition dirs :: "watched_tree \<Rightarrow> (string \<times> int) list" where
  "dirs t = (''.'', root_wd t) # subdirs t"

definition tree_ok :: "watched_tree \<Rightarrow> bool" where
  "tree_ok t \<longleftrightarrow> distinct (map fst (dirs t)) \<and> distinct (map snd (dirs t)) \<and> list_all kernel_ok (event_queue t)"

text \<open>What the tree answers at one moment, when \<open>inotify_add_watch\<close> refuses the directories in \<open>no\<close>.\<close>

definition view :: "string set \<Rightarrow> watched_tree \<Rightarrow> tree_view" where
  "view no t = \<lparr>tv_is_dir = (\<lambda>p. p \<in> fst ` set (dirs t)), tv_walk = map (\<lambda>(p, _). (p, True, False)) (subdirs t),
     tv_add = (\<lambda>d. if d \<in> no then None else map_of (dirs t) d)\<rparr>"

definition agree_off :: "(bool \<times> string list) set \<Rightarrow> file_map \<Rightarrow> file_map \<Rightarrow> bool" where
  "agree_off open_now a b \<longleftrightarrow> (\<forall>x. x \<notin> open_now \<longrightarrow> path_at a x = path_at b x)"

text \<open>
  A writer may change the file it holds open, under any events. Anything else (a writer that closes, a removal, a
  move, a new directory) may change the rest of the tree, and the kernel drops the watches of what is deleted;
  where the directory it happens in is watched it queues an event that is not the mere creation of a
  file. The sets are the kernel's watches before and after.
\<close>

inductive happens :: "watched_tree \<times> int set \<Rightarrow> watched_tree \<times> int set \<Rightarrow> bool" where
  writes: "agree_off (insert x (being_written t)) (listing t) l \<Longrightarrow> list_all kernel_ok ks \<Longrightarrow>
    happens (t, w) (t\<lparr>listing := l, being_written := insert x (being_written t), event_queue := event_queue t @ ks\<rparr>, w)"
| changes: "(d, wd) \<in> set (dirs t) \<Longrightarrow> (wd \<in> w \<Longrightarrow> list_ex telling ks) \<Longrightarrow> tree_ok t' \<Longrightarrow>
    event_queue t' = event_queue t @ ks \<Longrightarrow> w' \<subseteq> w \<Longrightarrow> happens (t, w) (t', w')"

section \<open>The loop\<close>

datatype notice_point = Looking | Awake | Watching

text \<open>\<open>refused\<close> says whether a directory was refused since the loop last looked away; the program keeps no such flag.\<close>

record noticing =
  tree :: watched_tree
  mon :: monitor
  loop_state :: sync_state
  notice_point :: notice_point
  refused :: bool

definition refuses :: "tree_view \<Rightarrow> bool" where
  "refuses tv \<longleftrightarrow> (\<exists>d \<in> wanted_dirs tv. tv_add tv d = None)"

text \<open>
  The wait: it reads what is queued then, and walks the tree if that may have changed the directories. What is
  queued between the two is \<open>rest\<close>; the walk sees the tree at one moment.
\<close>

definition look :: "string set \<Rightarrow> kernel_event list \<Rightarrow> kernel_event list \<Rightarrow> noticing \<Rightarrow> noticing" where
  "look no ks rest s =
     (let tv = view no (tree s);
          (woke, m) = monitor_wait (if ks = [] then PollNothing else PollEvents False) tv (Some (concat (map event_bytes ks))) (mon s)
      in s\<lparr>mon := m, tree := (tree s)\<lparr>event_queue := rest\<rparr>,
           refused := refused s \<or> list_ex reshapes_tree (map ke_raw ks) \<and> refuses tv,
           notice_point := if woke = Some True then Awake else Looking\<rparr>)"

text \<open>Giving a watch up queues an event of its own.\<close>

definition look_away :: "string set \<Rightarrow> kernel_event list \<Rightarrow> noticing \<Rightarrow> noticing" where
  "look_away no given_up s =
     (let tv = view no (tree s)
      in s\<lparr>mon := snd (discard tv None tv (mon s)),
           tree := (tree s)\<lparr>event_queue := event_queue (tree s) @ given_up\<rparr>,
           refused := refuses tv, notice_point := Watching\<rparr>)"

definition list_again :: "loop_setup \<Rightarrow> outside \<Rightarrow> noticing \<Rightarrow> noticing" where
  "list_again c i s = s\<lparr>loop_state := read_changes c i (loop_state s), notice_point := Looking\<rparr>"

definition rest_of_turn :: "loop_setup \<Rightarrow> outside \<Rightarrow> noticing \<Rightarrow> noticing" where
  "rest_of_turn c i s =
     (let l = hold_round c i (read_stats i (loop_state s))
      in s\<lparr>loop_state := l\<lparr>sy_node := publish_repairs (su_lib c) (steady_now i) (sy_node l)\<rparr>\<rparr>)"

abbreviation listed_last :: "noticing \<Rightarrow> file_map" where
  "listed_last s \<equiv> former (sy_node (loop_state s))"

inductive loop_step :: "loop_setup \<Rightarrow> noticing \<Rightarrow> noticing \<Rightarrow> bool" for c where
  looks: "notice_point s = Looking \<Longrightarrow> event_queue (tree s) = ks @ rest \<Longrightarrow> (ks = [] \<Longrightarrow> rest = []) \<Longrightarrow> loop_step c s (look no ks rest s)"
| looks_away: "notice_point s = Awake \<Longrightarrow> list_all kernel_ok ks \<Longrightarrow> loop_step c s (look_away no ks s)"
| lists: "notice_point s = Watching \<Longrightarrow> woken i \<Longrightarrow> files_list (walk i) = listing (tree s) \<Longrightarrow> loop_step c s (list_again c i s)"
| goes_on: "notice_point s = Looking \<Longrightarrow> loop_step c s (rest_of_turn c i s)"

text \<open>What others do befalls the tree and the kernel's watches.\<close>

definition befall :: "watched_tree \<times> int set \<Rightarrow> noticing \<Rightarrow> noticing" where
  "befall tw s = s\<lparr>tree := fst tw, mon := (mon s)\<lparr>fd_watches := snd tw\<rparr>\<rparr>"

inductive notice_step :: "loop_setup \<Rightarrow> noticing \<Rightarrow> noticing \<Rightarrow> bool" for c where
  others: "happens (tree s, fd_watches (mon s)) tw \<Longrightarrow> notice_step c s (befall tw s)"
| own: "loop_step c s s' \<Longrightarrow> notice_step c s s'"

inductive_cases notice_stepE: "notice_step c s s'"
inductive_cases loop_stepE: "loop_step c s s'"

text \<open>The loop takes its first listing before it makes the monitor, which watches the root or throws.\<close>

definition monitor_made :: "string set \<Rightarrow> watched_tree \<Rightarrow> sync_state \<Rightarrow> noticing" where
  "monitor_made no t l =
     \<lparr>tree = t\<lparr>event_queue := []\<rparr>, mon = the (monitor_start (Some (root_wd t)) (view no t)), loop_state = l,
      notice_point = Looking, refused = refuses (view no t)\<rparr>"

section \<open>Nothing is overlooked\<close>

text \<open>A directory the kernel does not watch, or the monitor has under no path or another.\<close>

definition blind :: "watched_tree \<Rightarrow> monitor \<Rightarrow> bool" where
  "blind t m \<longleftrightarrow> (\<exists>(d, wd) \<in> set (dirs t). wd \<notin> fd_watches m \<or> watch_of wd m \<noteq> Some d)"




lemma rest_of_turn_only:
  "tree (rest_of_turn c i s) = tree s" "mon (rest_of_turn c i s) = mon s" "notice_point (rest_of_turn c i s) = notice_point s"
  "refused (rest_of_turn c i s) = refused s" "listed_last (rest_of_turn c i s) = listed_last s"
proof -
  have "former (publish_repairs lib now n) = former n" for lib now n
    using publish_repairs_sends [of lib now n] by auto
  moreover have "former (run_round sha draw own now n) = former n" for sha draw own now n
    by (simp add: run_round_def Let_def split: option.split)
  ultimately show "tree (rest_of_turn c i s) = tree s" "mon (rest_of_turn c i s) = mon s"
    "notice_point (rest_of_turn c i s) = notice_point s" "refused (rest_of_turn c i s) = refused s"
    "listed_last (rest_of_turn c i s) = listed_last s"
    by (simp_all add: rest_of_turn_def Let_def hold_round_def read_stats_def)
qed










lemma look_nothing: "batch (mon s) = [] \<Longrightarrow> look no [] rest s = s\<lparr>tree := (tree s)\<lparr>event_queue := rest\<rparr>, notice_point := Looking\<rparr>"
  by (simp add: look_def Let_def monitor_wait_def poll_wait_def)

lemma look_result:
  assumes "batch (mon s) = []" "list_all kernel_ok ks" "ks \<noteq> []"
  obtains m where "batch m = map (expand_event (watches (mon s))) (map ke_raw (dropWhile (\<lambda>k. \<not> telling k) ks))"
    "m = (refill (view no (tree s)) (map ke_raw ks) (mon s))\<lparr>batch := batch m\<rparr>"
    "look no ks rest s = s\<lparr>mon := m, tree := (tree s)\<lparr>event_queue := rest\<rparr>,
       refused := refused s \<or> list_ex reshapes_tree (map ke_raw ks) \<and> refuses (view no (tree s)),
       notice_point := if list_ex telling ks then Awake else Looking\<rparr>"
proof -
  obtain woke m where r: "(woke, m) = monitor_wait (PollEvents False) (view no (tree s)) (Some (concat (map event_bytes ks))) (mon s)"
    by (metis surj_pair)
  have w: "woke = Some (list_ex telling ks) \<and>
      batch m = map (expand_event (watches (mon s))) (map ke_raw (dropWhile (\<lambda>k. \<not> telling k) ks)) \<and>
      m = (refill (view no (tree s)) (map ke_raw ks) (mon s))\<lparr>batch := batch m\<rparr>"
    by (rule wait_reads [OF assms(2,3,1) _ r]) (simp add: poll_wait_def)
  show ?thesis
  proof (rule that)
    show "batch m = map (expand_event (watches (mon s))) (map ke_raw (dropWhile (\<lambda>k. \<not> telling k) ks))"
      "m = (refill (view no (tree s)) (map ke_raw ks) (mon s))\<lparr>batch := batch m\<rparr>"
      using w by blast+
    show "look no ks rest s = s\<lparr>mon := m, tree := (tree s)\<lparr>event_queue := rest\<rparr>,
       refused := refused s \<or> list_ex reshapes_tree (map ke_raw ks) \<and> refuses (view no (tree s)),
       notice_point := if list_ex telling ks then Awake else Looking\<rparr>"
      using r [symmetric] assms(3) w by (simp add: look_def Let_def)
  qed
qed

lemma dirs_queue [simp]: "dirs (t\<lparr>event_queue := q\<rparr>) = dirs t" "view no (t\<lparr>event_queue := q\<rparr>) = view no t"
  by (simp_all add: dirs_def view_def cong: if_cong)

lemma blind_batch [simp]: "blind t (m\<lparr>batch := b\<rparr>) = blind t m"
  by (simp add: blind_def)

lemma blind_queue [simp]: "blind (t\<lparr>event_queue := q\<rparr>) m = blind t m"
  by (simp add: blind_def dirs_def)

lemma tree_ok_queue [simp]: "tree_ok t \<Longrightarrow> tree_ok (t\<lparr>event_queue := q\<rparr>) = list_all kernel_ok q"
  by (simp add: tree_ok_def dirs_def)









lemma monitor_made_start:
  "mon (monitor_made no t l) =
     resync_watches (view no t) \<lparr>watches = om_assign wd_key (root_wd t) ''.'' [], batch = [], fd_watches = {root_wd t}\<rparr>"
  by (simp add: monitor_made_def monitor_start_def)

lemma monitor_made_batch [simp]: "batch (mon (monitor_made no t l)) = []"
  by (simp add: monitor_made_start)




text \<open>Steps between which the kernel queues nothing that wakes the loop, whatever becomes of the tree.\<close>

inductive quiet_step :: "loop_setup \<Rightarrow> noticing \<Rightarrow> noticing \<Rightarrow> bool" for c where
  unheard: "event_queue t = event_queue (tree s) @ ks \<Longrightarrow> list_all kernel_ok ks \<Longrightarrow> \<not> list_ex telling ks \<Longrightarrow>
    quiet_step c s (befall (t, w) s)"
| own: "loop_step c s s' \<Longrightarrow> quiet_step c s s'"

definition waiting_still :: "sync_state \<Rightarrow> noticing \<Rightarrow> bool" where
  "waiting_still l s \<longleftrightarrow> notice_point s = Looking \<and> batch (mon s) = [] \<and> listed_last s = former (sy_node l) \<and>
     list_all kernel_ok (event_queue (tree s)) \<and> \<not> list_ex telling (event_queue (tree s))"

lemma quiet_step_still:
  assumes "quiet_step c s s'" "waiting_still l s"
  shows "waiting_still l s'"
  using assms(1)
proof (cases rule: quiet_step.cases)
  case (unheard t ks w)
  then show ?thesis
    using assms(2) by (simp add: waiting_still_def befall_def)
next
  case own
  then show ?thesis
  proof (cases rule: loop_step.cases)
    case (looks ks rest no)
    then have ks: "batch (mon s) = []" "list_all kernel_ok ks" "\<not> list_ex telling ks" "list_all kernel_ok rest" "\<not> list_ex telling rest"
      using assms(2) by (simp_all add: waiting_still_def)
    then have none: "dropWhile (\<lambda>k. \<not> telling k) ks = []"
      by (auto simp: list_ex_iff dropWhile_eq_Nil_conv)
    show ?thesis
    proof (cases "ks = []")
      case True
      then show ?thesis
        using assms(2) looks(1,2) ks look_nothing [of s no rest] by (simp add: waiting_still_def)
    next
      case False
      obtain m where "batch m = []"
        "look no ks rest s = s\<lparr>mon := m, tree := (tree s)\<lparr>event_queue := rest\<rparr>,
           refused := refused s \<or> list_ex reshapes_tree (map ke_raw ks) \<and> refuses (view no (tree s)), notice_point := Looking\<rparr>"
        by (rule look_result [OF ks(1,2) False, of no rest], rule that) (simp_all add: none ks(3))
      then show ?thesis
        using assms(2) looks(1) ks by (simp add: waiting_still_def)
    qed
  qed (use assms(2) in \<open>simp_all add: waiting_still_def rest_of_turn_only\<close>)
qed

lemma quiet_run_still: "(quiet_step c)\<^sup>*\<^sup>* s s' \<Longrightarrow> waiting_still l s \<Longrightarrow> waiting_still l s'"
  by (induction rule: rtranclp_induct) (auto intro: quiet_step_still)

text \<open>
  C22. What no event tells of is overlooked. As long as the kernel queues only creations of files, the loop never
  lists the tree again, whatever the tree becomes: a file that was finished after the first listing and before
  the monitor was made stays unknown to this node and is not announced, and so does a hard link, of which the
  kernel reports the creation only.
\<close>

theorem what_no_event_tells_is_overlooked:
  assumes "(quiet_step c)\<^sup>*\<^sup>* (monitor_made no t l) s"
  shows "listed_last s = former (sy_node l) \<and> notice_point s = Looking"
proof -
  have "waiting_still l (monitor_made no t l)"
    using monitor_made_batch [of no t l] by (simp add: waiting_still_def monitor_made_def)
  then show ?thesis
    using quiet_run_still [OF assms, of l] by (simp add: waiting_still_def)
qed

theorem what_no_event_tells_is_overlooked_witness:
  "\<exists>s :: noticing. path_at (listing (tree s)) (path_key ''./f'') = Some (FileTime 5) \<and> path_at (listing (tree s)) (path_key ''./g'') = Some (FileTime 5) \<and>
    event_queue (tree s) = [] \<and> listed_last s = []"
proof -
  let ?k = "\<lparr>ke_raw = \<lparr>rw_name = ''g'', rw_wd = 1, rw_mask = in_create\<rparr>, ke_cookie = 0, ke_pad = 15\<rparr>"
  let ?t = "\<lparr>root_wd = 1, subdirs = [], listing = [(''./f'', FileTime 5)], being_written = {}, event_queue = []\<rparr>"
  let ?l = "loop_start [] [] 0 0 0"
  obtain c :: loop_setup where True by simp
  define s0 where s0: "s0 = monitor_made {} ?t ?l"
  define s1 where s1: "s1 = s0\<lparr>tree := (tree s0)\<lparr>listing := [(''./f'', FileTime 5), (''./g'', FileTime 5)], event_queue := [?k]\<rparr>\<rparr>"
  define s2 where s2: "s2 = look {} [?k] [] s1"
  have k: "\<not> telling ?k" "kernel_ok ?k"
    by (simp_all add: telling_def in_create_def in_isdir_def kernel_ok_def)
  have start: "tree s0 = ?t" "batch (mon s0) = []" "notice_point s0 = Looking"
    using monitor_made_batch [of "{}" ?t ?l] by (simp_all add: s0 monitor_made_def)
  have one: "quiet_step c s0 s1"
    using quiet_step.unheard [of "tree s1" s0 "[?k]" c "fd_watches (mon s0)"] k by (simp add: s1 start befall_def)
  have two: "quiet_step c s1 s2"
    unfolding s2 by (intro quiet_step.own loop_step.looks) (simp_all add: s1 start)
  have run: "(quiet_step c)\<^sup>*\<^sup>* s0 s2"
    using one two by (meson converse_rtranclp_into_rtranclp rtranclp.rtrancl_refl)
  have "batch (mon s1) = []" "list_all kernel_ok [?k]" "[?k] \<noteq> []"
    by (simp_all add: s1 start k)
  then obtain m b n where "s2 = s1\<lparr>mon := m, tree := (tree s1)\<lparr>event_queue := []\<rparr>, refused := b, notice_point := n\<rparr>"
    using look_result [of s1 "[?k]" "{}" "[]"] by (metis s2)
  then have r: "tree s2 = (tree s1)\<lparr>event_queue := []\<rparr>"
    by simp
  have "listed_last s2 = []"
    using what_no_event_tells_is_overlooked [OF run [unfolded s0]] by (simp add: loop_start_def files_list_def)
  moreover have "path_at (listing (tree s2)) (path_key ''./f'') = Some (FileTime 5)" "path_at (listing (tree s2)) (path_key ''./g'') = Some (FileTime 5)"
    "event_queue (tree s2) = []"
    by (simp_all add: r s1 om_at_Cons path_key_def has_root_def elements_def names_of_def ends_in_slash_def slash_def)
  ultimately show ?thesis
    by blast
qed

end
