(* ===== verification/Building.thy ===== *)
theory Building
  imports SyncLoop
begin

text \<open>
  Announcing a file builds its torrent: \<open>torrent_from_file\<close> (\<open>src/source.cpp\<close>) asks for the file's size and
  hashes its contents, and throws where it cannot read them; nothing between there and \<open>main\<close> catches it.
  The operations of \<open>Node\<close> and \<open>SyncLoop\<close> take a file that is on disk to be readable. Here they are written
  with that failure: \<open>unread\<close> says of a turn which files cannot be read. Where all can, the loop is that of
  \<open>SyncLoop\<close>; where one that has to be announced cannot, the loop ends.
\<close>

datatype loop_error = BuildThrows | ActThrows act_error

definition create_or_throw :: "(string \<Rightarrow> bool) \<Rightarrow> libtorrent \<Rightarrow> string \<times> file_time \<Rightarrow> node \<Rightarrow> loop_error option \<times> node" where
  "create_or_throw unread lib e s =
     (case on_disk s (fst e) of
        None \<Rightarrow> (None, s)
      | Some _ \<Rightarrow> if unread (fst e) then (Some BuildThrows, s) else (None, publish_create lib e s))"

fun creates_or_throw :: "(string \<Rightarrow> bool) \<Rightarrow> libtorrent \<Rightarrow> file_map \<Rightarrow> node \<Rightarrow> loop_error option \<times> node" where
  "creates_or_throw unread lib [] s = (None, s)"
| "creates_or_throw unread lib (e # es) s =
     (case create_or_throw unread lib e s of
        (Some err, s') \<Rightarrow> (Some err, s')
      | (None, s') \<Rightarrow> creates_or_throw unread lib es s')"

definition send_diff_or_throw ::
  "(string \<Rightarrow> bool) \<Rightarrow> libtorrent \<Rightarrow> (string \<Rightarrow> sys_time) \<Rightarrow> diff_t \<Rightarrow> file_map \<Rightarrow> node \<Rightarrow> loop_error option \<times> node" where
  "send_diff_or_throw unread lib sent_at d current s =
     (case creates_or_throw unread lib (with_current current (created d)) (fold (publish_remove sent_at) (removed d) s) of
        (Some err, s') \<Rightarrow> (Some err, s')
      | (None, s') \<Rightarrow> creates_or_throw unread lib (with_current current (modified d)) s')"

definition relist_or_throw ::
  "(string \<Rightarrow> bool) \<Rightarrow> libtorrent \<Rightarrow> (string \<Rightarrow> sys_time) \<Rightarrow> file_map \<Rightarrow> sys_time \<Rightarrow> sys_time \<Rightarrow> node \<Rightarrow> loop_error option \<times> node" where
  "relist_or_throw unread lib sent_at current noticed forgot_at s =
     (let (d, s1) = local_changes current noticed s
      in case send_diff_or_throw unread lib sent_at d current s1 of
           (Some err, s2) \<Rightarrow> (Some err, s2)
         | (None, s2) \<Rightarrow> (None, forget_spent_marks forgot_at (s2\<lparr>former := current\<rparr>)))"

fun publish_due_or_throw ::
  "(string \<Rightarrow> bool) \<Rightarrow> libtorrent \<Rightarrow> string list \<Rightarrow> bool \<Rightarrow> node \<Rightarrow> loop_error option \<times> string list \<times> node" where
  "publish_due_or_throw unread lib [] rebuilt s = (None, [], s)"
| "publish_due_or_throw unread lib (p # ps) rebuilt s =
     (case path_find p (former s) of
        None \<Rightarrow> publish_due_or_throw unread lib ps rebuilt s
      | Some t \<Rightarrow>
          (case path_find p (announcements s) of
             Some a \<Rightarrow> publish_due_or_throw unread lib ps rebuilt (s\<lparr>sent := sent s @ [Create a (file_ticks t) p]\<rparr>)
           | None \<Rightarrow>
               if rebuilt
               then (let (err, later_on, s') = publish_due_or_throw unread lib ps rebuilt s in (err, p # later_on, s'))
               else case create_or_throw unread lib (p, t) s of
                      (Some err, s') \<Rightarrow> (Some err, [], s')
                    | (None, s') \<Rightarrow> publish_due_or_throw unread lib ps True s'))"

definition publish_repairs_or_throw :: "(string \<Rightarrow> bool) \<Rightarrow> libtorrent \<Rightarrow> int \<Rightarrow> node \<Rightarrow> loop_error option \<times> node" where
  "publish_repairs_or_throw unread lib now s =
     (let (ready, rest) = due (waiting s) now
      in case publish_due_or_throw unread lib ready False (s\<lparr>waiting := rest\<rparr>) of
           (Some err, _, s1) \<Rightarrow> (Some err, s1)
         | (None, postponed, s1) \<Rightarrow> (None, s1\<lparr>waiting := arm_missing (waiting s1) postponed now\<rparr>))"

definition read_changes_or_throw ::
  "(string \<Rightarrow> bool) \<Rightarrow> loop_setup \<Rightarrow> outside \<Rightarrow> sync_state \<Rightarrow> loop_error option \<times> sync_state" where
  "read_changes_or_throw unread c i l =
     (if woken i
      then case relist_or_throw unread (su_lib c) (removed_at i) (files_list (walk i)) (noticed_at i) (pruned_at i) (sy_node l) of
             (err, s) \<Rightarrow> (err, l\<lparr>sy_last_change := steady_now i, sy_node := s\<rparr>)
      else (None, l))"

definition turn_or_throw ::
  "(string \<Rightarrow> bool) \<Rightarrow> loop_setup \<Rightarrow> outside \<Rightarrow> sync_state \<Rightarrow> loop_error option \<times> sync_state" where
  "turn_or_throw unread c i l =
     (case read_changes_or_throw unread c i (read_alerts i (read_stats i l)) of
        (Some err, l1) \<Rightarrow> (Some err, l1)
      | (None, l1) \<Rightarrow>
          (let l2 = hold_round c i l1
           in case publish_repairs_or_throw unread (su_lib c) (steady_now i) (sy_node l2) of
                (Some err, s) \<Rightarrow> (Some err, l2\<lparr>sy_node := s\<rparr>)
              | (None, s) \<Rightarrow>
                  (case inbound_msg i of
                     None \<Rightarrow> (None, l2\<lparr>sy_node := s\<rparr>)
                   | Some received \<Rightarrow>
                       (let (e, n) = receive_one (su_lib c) (stamp_works i) (su_own c) (acted_at i) (heard_now i) received s
                        in (map_option ActThrows e, l2\<lparr>sy_node := n\<rparr>)))))"

text \<open>The loop over its turns, each with the files that cannot be read in it.\<close>

fun loop_or_throw :: "loop_setup \<Rightarrow> (outside \<times> (string \<Rightarrow> bool)) list \<Rightarrow> sync_state \<Rightarrow> loop_error option \<times> sync_state" where
  "loop_or_throw c [] l = (None, l)"
| "loop_or_throw c ((i, unread) # turns) l =
     (case turn_or_throw unread c i l of
        (None, l') \<Rightarrow> loop_or_throw c turns l'
      | (Some err, l') \<Rightarrow> (Some err, l'))"

section \<open>Where every file can be read\<close>

lemma creates_readable:
  assumes "\<And>p. \<not> unread p"
  shows "create_or_throw unread lib e s = (None, publish_create lib e s)"
    and "creates_or_throw unread lib es s = (None, fold (publish_create lib) es s)"
proof -
  show one: "create_or_throw unread lib e s = (None, publish_create lib e s)" for e s
    using assms by (simp add: create_or_throw_def publish_create_def split: option.split)
  show "creates_or_throw unread lib es s = (None, fold (publish_create lib) es s)"
    by (induction es arbitrary: s) (simp_all add: one)
qed

lemma relist_readable:
  assumes "\<And>p. \<not> unread p"
  shows "relist_or_throw unread lib sent_at current noticed forgot_at s = (None, relist lib sent_at current noticed forgot_at s)"
  by (simp add: relist_or_throw_def send_diff_or_throw_def creates_readable [OF assms] relist_def send_diff_def
      case_prod_beta Let_def)

lemma publish_due_readable:
  assumes "\<And>p. \<not> unread p"
  shows "publish_due_or_throw unread lib ps rebuilt s = (None, publish_due lib ps rebuilt s)"
  by (induction ps arbitrary: rebuilt s)
    (simp_all add: creates_readable [OF assms] case_prod_beta Let_def split: option.split)

lemma publish_repairs_readable:
  assumes "\<And>p. \<not> unread p"
  shows "publish_repairs_or_throw unread lib now s = (None, publish_repairs lib now s)"
  by (simp add: publish_repairs_or_throw_def publish_repairs_def publish_due_readable [OF assms] case_prod_beta Let_def)

theorem turn_readable:
  assumes "\<And>p. \<not> unread p"
  shows "turn_or_throw unread c i l = map_prod (map_option ActThrows) id (turn c i l)"
proof -
  have "read_changes_or_throw unread c i l' = (None, read_changes c i l')" for l'
    by (simp add: read_changes_or_throw_def read_changes_def relist_readable [OF assms])
  then show ?thesis
    by (simp add: turn_or_throw_def turn_def before_message_def publish_repairs_readable [OF assms] case_prod_beta Let_def
        split: option.split)
qed

theorem loop_readable:
  assumes "list_all (\<lambda>(_, unread). \<forall>p. \<not> unread p) turns"
  shows "loop_or_throw c turns l = map_prod (map_option ActThrows) id (sync_loop c (map fst turns) l)"
  using assms
  by (induction turns arbitrary: l) (auto simp: turn_readable split: prod.split option.split)

section \<open>A file that cannot be read\<close>

lemma create_or_throw_disk: "create_or_throw unread lib e s = (r, s') \<Longrightarrow> disk s' = disk s"
  by (auto simp: create_or_throw_def publish_create_def split: option.splits if_splits)

lemma creates_throw:
  assumes "(p, t) \<in> set es" "on_disk s p \<noteq> None" "unread p"
  shows "fst (creates_or_throw unread lib es s) = Some BuildThrows"
  using assms(1,2)
proof (induction es arbitrary: s)
  case (Cons e es)
  obtain r s' where r: "create_or_throw unread lib e s = (r, s')" by fastforce
  have disk: "on_disk s' p \<noteq> None"
    using create_or_throw_disk [OF r] Cons.prems(2) by (simp add: on_disk_def)
  have "r = None \<or> r = Some BuildThrows"
    using r by (auto simp: create_or_throw_def split: option.splits if_splits)
  moreover have "r = Some BuildThrows" if "e = (p, t)"
    using r that Cons.prems(2) assms(3) by (auto simp: create_or_throw_def)
  ultimately show ?case
    using Cons.IH [OF _ disk] Cons.prems(1) r by auto
qed simp

text \<open>
  A turn that has a file to announce which it cannot read is the daemon's last: whatever else changed, the
  exception leaves the loop.
\<close>

theorem unreadable_file_ends_the_loop:
  assumes "woken i" and "(p, t) \<in> set (with_current (files_list (walk i)) (created d @ modified d))"
    and "fst (local_changes (files_list (walk i)) (noticed_at i) (sy_node (read_alerts i (read_stats i l)))) = d"
    and "on_disk (sy_node (read_alerts i (read_stats i l))) p \<noteq> None" and "unread p"
  shows "fst (loop_or_throw c ((i, unread) # turns) l) = Some BuildThrows"
proof -
  let ?n = "sy_node (read_alerts i (read_stats i l))" and ?cur = "files_list (walk i)"
  obtain s1 where s1: "local_changes ?cur (noticed_at i) ?n = (d, s1)"
    using assms(3) by (metis prod.collapse)
  then have "disk s1 = disk ?n"
    by (auto simp: local_changes_def Let_def case_prod_beta)
  moreover have "disk (fold (publish_remove (removed_at i)) es s) = disk s" for es s
    by (simp add: fold_publish_remove)
  ultimately have on: "on_disk (fold (publish_remove (removed_at i)) (removed d) s1) p \<noteq> None" (is "on_disk ?s2 p \<noteq> None")
    using assms(4) by (simp add: on_disk_def)
  have member: "(p, t) \<in> set (with_current ?cur (created d)) \<or> (p, t) \<in> set (with_current ?cur (modified d))"
    using assms(2) by (auto simp: with_current_def)
  have same_disk: "disk s' = disk s" if "creates_or_throw unread lib es s = (r, s')" for lib es s r s'
    using that by (induction es arbitrary: s) (auto dest: create_or_throw_disk split: prod.splits option.splits)
  have "fst (send_diff_or_throw unread (su_lib c) (removed_at i) d ?cur s1) = Some BuildThrows"
  proof (cases "creates_or_throw unread (su_lib c) (with_current ?cur (created d)) ?s2")
    case (Pair r s')
    have ends: "r = None \<or> r = Some BuildThrows"
      if "creates_or_throw unread lib es s = (r, s')" for lib es s r s'
      using that by (induction es arbitrary: s)
        (auto simp: create_or_throw_def split: prod.splits option.splits if_splits)
    have "on_disk s' p \<noteq> None"
      using same_disk [OF Pair] on by (simp add: on_disk_def)
    then show ?thesis
      using creates_throw [of p t "with_current ?cur (created d)" ?s2 unread "su_lib c"]
        creates_throw [of p t "with_current ?cur (modified d)" s' unread "su_lib c"] ends [OF Pair] member assms(5) on Pair
      by (auto simp: send_diff_or_throw_def)
  qed
  then have "fst (relist_or_throw unread (su_lib c) (removed_at i) ?cur (noticed_at i) (pruned_at i) ?n) = Some BuildThrows"
    by (auto simp: relist_or_throw_def s1 split: prod.split option.split)
  then show ?thesis
    using assms(1) by (auto simp: turn_or_throw_def read_changes_or_throw_def split: prod.split option.split)
qed

text \<open>A file of mode 000 that appears in the tree of a node that holds nothing.\<close>

lemma unreadable_instance:
  "fst (loop_or_throw c
     [(i\<lparr>steady_now := 0, alerts_popped := None, woken := True, noticed_at := SysTime 5,
         walk := [\<lparr>de_path = ''./a'', de_regular = Some True, de_symlink = Some False, de_time = Some (FileTime 3)\<rparr>]\<rparr>,
       \<lambda>_. True)]
     (loop_start [] [(''./a'', \<lparr>df_time = FileTime 3, df_bytes = ''x''\<rparr>)] 0 0 0)) = Some BuildThrows"
proof -
  let ?w = "[\<lparr>de_path = ''./a'', de_regular = Some True, de_symlink = Some False, de_time = Some (FileTime 3)\<rparr>]"
  have cur: "files_list ?w = [(''./a'', FileTime 3)]"
    by code_simp
  have none: "files_list [] = []"
    by (simp add: files_list_def)
  have ch: "fst (local_changes [(''./a'', FileTime 3)] (SysTime 5) (node0\<lparr>disk := d\<rparr>)) =
      \<lparr>removed = [], created = [(''./a'', FileTime 3)], modified = []\<rparr>" for d
    unfolding local_changes_def node0_def by code_simp
  show ?thesis
    by (rule unreadable_file_ends_the_loop [where p = "''./a''" and t = "FileTime 3"
        and d = "\<lparr>removed = [], created = [(''./a'', FileTime 3)], modified = []\<rparr>"])
      (use ch in \<open>simp_all add: cur read_alerts_def read_stats_def loop_start_def node0_def none with_current_def on_disk_def stats_interval_def seconds_def\<close>)
qed

end
