(* ===== verification/Spec2Isabelle.thy ===== *)
theory Spec2Isabelle
  imports Summarise OrderFree MeasureTail PeakRun MeasureDigest Discovery Mesh AlertFlag Noticing Building
begin

text \<open>
  syncfs keeps one directory the same on every node of a mesh: a C++ daemon (\<open>src/src\<close>,
  \<open>src/include\<close>) announces a digest of its files over ZeroMQ and moves the contents with libtorrent.
  Beside it the repository holds the programs that measure it against Exasol's BucketFS
  (\<open>src/tools/measure\<close>, Python): cluster scripts that bring a mesh up and down under podman, a poller
  that notes when a file reached each node, a driver that runs a matrix of experiments over them into a
  CSV file, the programs that turn that file into tables, and two that run the daemon alone to measure
  its descriptors and its digests. This library models the measurement programs completely, and of the
  daemon its start, its messages, its reconciliation, its monitor and its loop.

  How the parts interact. \<open>matrix_main\<close> (\<open>run_matrix.py\<close>) reads the results file, and for each missing
  cell brings a cluster up (\<open>syncfs_up\<close>, \<open>exasol_up\<close>), starts a writer, runs \<open>watch\<close> (\<open>poller.py\<close>) over
  the nodes' directories, summarises its records, appends one row and clears the cell; the cluster goes
  down in a finally block. \<open>summarise_main\<close> and \<open>tex_main\<close> read the appended rows back. The results file,
  the poller's JSON lines, the peers file and the statistics table each have a writer and a reader in
  different programs; the round trips of the library are over these pairs. In the daemon a turn of the
  loop drains libtorrent's alerts (\<open>stamp_and_remember\<close>), lists the tree if the monitor woke and announces
  what changed (\<open>relist\<close>), holds a round if one is due (\<open>run_round\<close>: the root hash to all, a digest to one
  peer that differs), says again what it owes (\<open>publish_repairs\<close>) and acts on one message (\<open>receive_one\<close>),
  which for a create or a remove changes session and disk and for a digest takes on deletions and arms
  repairs. Listing, tombstones and what is known of each create are shared by all of these.

  Theories and sources.
    \<open>Prelude\<close>: exceptions as values (\<open>exn\<close>, \<open>'a res\<close>), programs over an explicit state with Python's
      try/finally (\<open>pbind\<close>, \<open>pfinally\<close>, \<open>pfor\<close>), insertion-ordered dictionaries, and the interfaces
      \<open>effect_order\<close> (a preorder on states that every effect climbs, from which every program built of
      them climbs it) and \<open>codec\<close> (a writer, its reader and the values they agree on).
    \<open>PyText\<close>, \<open>PyNum\<close>, \<open>PyRegex\<close>, \<open>Csv\<close>, \<open>Json\<close>, \<open>Base64\<close>: what the programs use of Python's library.
    \<open>World\<close>: paths, what a program can observe, and the interface \<open>polling\<close> of the loop
      \<open>while pending and time.time() < end\<close>. \<open>Poller\<close>: \<open>poller.py\<close>. \<open>Framing\<close>: the NUL framing its tree
      hash shares with the daemon's canonical form.
    \<open>Effects\<close>, \<open>Cluster\<close>: the environment's answers, the trace, and what the two cluster scripts share,
      with the interface \<open>ready_probe\<close> of their readiness loop (which extends \<open>polling\<close>).
      \<open>SyncfsCluster\<close>: \<open>syncfs_cluster.py\<close>. \<open>ExasolCluster\<close>: \<open>exasol_cluster.py\<close>.
    \<open>RunMatrix\<close>, \<open>Experiments\<close>: \<open>run_matrix.py\<close>, one cell and the experiments over the results file.
      \<open>MeasureTail\<close>: \<open>measure_tail.py\<close>.
    \<open>Tables\<close>: what \<open>summarise.py\<close> and \<open>tex_tables.py\<close> share; \<open>Summarise\<close>: \<open>summarise.py\<close>;
      \<open>TexTables\<close>: the definitions of \<open>tex_tables.py\<close>; \<open>TexReport\<close>: their properties; \<open>OrderFree\<close>: what the
      report owes to the order of its rows.
    \<open>Bench\<close>: the processes, temporary directories and the timed loop of the two programs that run the
      daemon itself, with the interface \<open>timed_body\<close>. \<open>MeasurePeak\<close>, \<open>PeakRun\<close>: \<open>measure_peak.py\<close>.
      \<open>MeasureDigest\<close>: \<open>measure_digest.py\<close>.
    \<open>CppMap\<close>, \<open>CppPath\<close>: \<open>std::map\<close> as an ordered association list, with the interface \<open>cpp_map\<close>, and what the
      daemon uses of \<open>std::filesystem::path\<close>. \<open>Ticks\<close>: the two clocks and their wire form (\<open>utils.cpp\<close>).
    \<open>Reconcile\<close>: \<open>src/src/reconcile.cpp\<close> and \<open>src/include/protocol/reconcile.h\<close>; \<open>Pacing\<close>: its repairs over time.
    \<open>FileDiff\<close>: the comparisons of \<open>src/src/files.cpp\<close> and \<open>create_diff\<close>, with the interface \<open>range_order\<close> of the
      standard algorithms. \<open>Node\<close>: a daemon's state (\<open>node\<close>: the maps \<open>sync_loop\<close> keeps, the disk and the session)
      and its operations in \<open>src/src/protocol.cpp\<close> and \<open>src/src/syncfs.cpp\<close>. \<open>Exchange\<close>: the abstract replica of a
      path, and two daemons' digests. \<open>Changes\<close>: local changes, deletions. \<open>Repair\<close>: digests heard, creates
      applied. \<open>SyncLoop\<close>: \<open>files::list\<close>, the alerts and the turns of \<open>sync_loop\<close>, with the reachable states.
      \<open>Building\<close>: the turns in which building a torrent throws (\<open>src/src/source.cpp\<close>).
      \<open>Mesh\<close>: runs of the loop and what reaches a peer. \<open>AlertFlag\<close>: the flag between libtorrent's threads
      and the loop. \<open>Monitor\<close>: \<open>src/src/monitor.cpp\<close> (watches, read buffer, batch) and \<open>Sink::receive\<close>;
      \<open>Noticing\<close>: the monitor's part of a turn, interleaved with others' changes to the tree.
    \<open>Statistics\<close>: the statistics table of \<open>src/src/syncfs.cpp\<close>. \<open>Wire\<close>: the messages of
      \<open>src/src/utils.cpp\<close>, \<open>source.cpp\<close> and the opening checks of \<open>protocol.cpp\<close>. \<open>Listen\<close>: the listen
      address of \<open>src/src/utils.cpp\<close>. \<open>Discovery\<close>: the peers file of \<open>src/src/discovery.cpp\<close> and the start
      of \<open>main\<close> in \<open>src/src/syncfs.cpp\<close>.
  What the lemmas show, by group.
    The poller: every node is accounted for exactly once, as arrived or as missing; a node is reported
      as arrived only where a probe saw the whole file, with the elapsed time of that probe; the loop
      ends; the exit status, the records and the printed lines agree; the lines read back.
    The clusters: what \<open>up\<close> ran, command by command, and that what it reports is what is mounted and was
      seen ready after the last start; the readiness loop raises only for a node it can name; the
      configuration's passwords read back.
    The matrix: the file is only ever appended to, and what a failed write can leave behind is the
      beginning of a row, or of the header of a new file; each wanted cell that is not on record is
      measured and appended once, in order; a finished matrix runs nothing; every cluster that came up is
      removed, however the experiment ends; what a cell did, event by event, and that its numbers are those of a
      write of the full payload that succeeded; its row reads back.
    The two programs that run the daemon: their whole traces, the processes they start and stop by their
      numbers, each log with its process, and a probe that receives what it subscribed to.
    The tables: each table is the text of a function of the measurements (a refinement of the
      dictionary-of-lists programs), the report does not depend on the order of the rows but for tied lines of
      its last table, nothing recorded is left out, missed runs are counted and their nodes named,
      verdicts are earned by the numbers they quote, and the generator returns on every recorded file.
    The daemon beside them: the statistics table reads back through the regular expression, every mesh
      the programs start is accepted by the daemon and each digest reaches its target alone, an accepted
      port keeps its value in 16 bits, a peers file is read line for line or refused.
    The reconciliation: digests read back, a root hash tells different trees apart, the diff of two
      listings is their change, repairs are a pace apart. The handlers, which walk ordered maps, do at every
      path what two functions on the replica of a path say (\<open>hear\<close>, \<open>take_repair\<close>), and two replicas agree
      after one digest each way.
    The monitor: the kernel's buffer is read back, a wait wakes for what it should, every directory is
      watched after a resync, and no change that queues an event is overlooked, whenever it falls, unless the
      kernel refused a watch.
    The daemon's loop: what holds of every reachable state, when its rounds are, what a change on disk
      sends out, that a write and a deletion reach a peer and do not come back. Five theorems state what
      the code does where its documents say otherwise or it can fail: a copy older than its deletion stays,
      a remove takes a newer file, a directory in a remove's place ends the loop, a late alert is the last,
      and what changes between the first listing and the monitor, or by a hard link, is overlooked.
  Parameters. The world outside is a function from the number of an observation to its answer
  (\<open>world\<close>, \<open>env\<close>, \<open>bench\<close>), so a theorem holds however disks, clocks, podman and processes behave.
  What libtorrent makes of a file and reads from a torrent is an argument (\<open>libtorrent\<close>), a session is the
  list of its torrents, and its alerts, the walk of the tree, the clocks and the messages of a turn are
  the record \<open>outside\<close>; between turns the disk changes freely.
  SHA-256 is an argument (\<open>sha\<close>); a property that needs it to tell contents apart says so. ZeroMQ's
  subscription filter is its documented prefix match. Python's floats are rationals that stand for the
  decimals their \<open>repr\<close> prints. Characters are bytes and the generated texts are ASCII.

  Loops and fuel. Loops over data are structural. A loop on the clock (\<open>poll_loop\<close>, \<open>ready_loop\<close>,
  \<open>until_time\<close>) takes fuel and answers \<open>OutOfFuel\<close> when it runs out, an exception no source raises;
  \<open>watch_terminates\<close>, \<open>wait_ready_returns\<close> and \<open>peak_run_ends\<close> show that with a clock that passes its
  deadline some fuel is enough and any larger fuel gives the same result, and safety properties hold for
  every fuel. The C++ integers that can wrap are words (ports are 16 bits wide, file and system times
  64). \<open>sync_loop\<close> runs over the list of its turns, which ends where a stop is asked for.

  Not modelled. Argument parsing, module constants that only name files, the closing of output files in
  \<open>tex_tables.py\<close>, decoding errors of log files, and the sockets' high water marks. Writer threads run to
  their outcome at the start and raise it at the join, which is where the sources look at it.
  Of the daemon: the settings and internals of libtorrent and ZeroMQ, log lines, and paths outside the sync
  root. A node's disk is the regular files below its root: \<open>wins_at\<close> takes any answer of
  \<open>last_write_time\<close>, but what a create does at a path that is a directory here is not followed. In \<open>Node\<close> and
  \<open>SyncLoop\<close> every file on disk can be read; \<open>Building\<close> has the loop with the exception that ends it where
  one cannot, and shows that the two loops are one where all can. In \<open>Noticing\<close> a walk and the watches it
  puts on see the tree at one moment. Changes of which inotify queues nothing under the monitor's mask (times set by path, a truncation by
  path, writes through a mapping after the close) are not among the changes of \<open>happens\<close>, and the alerts and
  messages of a turn, which write disk and listing alike, are not among the steps of \<open>Noticing\<close>; they are
  modelled in \<open>SyncLoop\<close>. Tests, build files, container set-up and documents are not code of the model.
\<close>

end
